(* ===== verification/Prelude.thy ===== *)
theory Prelude
  imports "HOL-Library.Word" "HOL-Library.AList" "HOL-Library.Monad_Syntax"
begin

text \<open>
  Shared vocabulary of the development: the Rust integer widths, the result of a
  fallible loop that may also run out of fuel, early-exit folds, decimal printing,
  the source spans every compiler pass carries, and the hint collections the
  component theories add to.
\<close>

named_theorems ty_simps \<open>equations of substitutions and variable sets on types\<close>
named_theorems flow_intros \<open>introduction rules of the flow states of MIR bodies\<close>
named_theorems codec_simps \<open>byte-level facts of the wire format\<close>

type_synonym u8 = "8 word"
type_synonym u32 = "32 word"
type_synonym u64 = "64 word"
type_synonym i64 = "64 word"

text \<open>The optional \<open>suggestion\<close> of a diagnostic.\<close>

type_synonym hint = "string option"

section \<open>Results\<close>

text \<open>
  A Rust \<open>Result\<close> is a sum with the error on the left. A computation that may fail to
  return (unbounded recursion) is an option of such a sum: \<open>None\<close> is "fuel exhausted".
\<close>

type_synonym ('e, 'a) outcome = "('e + 'a) option"

definition and_then :: "'e + 'a \<Rightarrow> ('a \<Rightarrow> 'e + 'b) \<Rightarrow> 'e + 'b" where
  "and_then r f = (case r of Inl e \<Rightarrow> Inl e | Inr a \<Rightarrow> f a)"

lemma and_then_simps [simp]:
  "and_then (Inl e) f = Inl e"
  "and_then (Inr a) f = f a"
  by (simp_all add: and_then_def)

lemma and_then_Inr_conv: "and_then r f = Inr b \<longleftrightarrow> (\<exists>a. r = Inr a \<and> f a = Inr b)"
  by (cases r) simp_all

lemma and_then_Inl_conv:
  "and_then r f = Inl e \<longleftrightarrow> r = Inl e \<or> (\<exists>a. r = Inr a \<and> f a = Inl e)"
  by (cases r) auto

definition bind_o :: "('e, 'a) outcome \<Rightarrow> ('a \<Rightarrow> ('e, 'b) outcome) \<Rightarrow> ('e, 'b) outcome" where
  "bind_o r f = (case r of None \<Rightarrow> None | Some (Inl e) \<Rightarrow> Some (Inl e) | Some (Inr a) \<Rightarrow> f a)"

lemma bind_o_simps [simp]:
  "bind_o None f = None"
  "bind_o (Some (Inl e)) f = Some (Inl e)"
  "bind_o (Some (Inr a)) f = f a"
  by (simp_all add: bind_o_def)

lemma bind_o_InrD:
  assumes "bind_o r f = Some (Inr b)"
  obtains a where "r = Some (Inr a)" "f a = Some (Inr b)"
  using assms by (auto simp: bind_o_def split: option.splits sum.splits)

text \<open>\<open>for x in xs { s = step(x, s)?; }\<close>\<close>

fun fold_res :: "('a \<Rightarrow> 's \<Rightarrow> 'e + 's) \<Rightarrow> 'a list \<Rightarrow> 's \<Rightarrow> 'e + 's" where
  "fold_res f [] s = Inr s"
| "fold_res f (x # xs) s = and_then (f x s) (fold_res f xs)"

fun fold_o :: "('a \<Rightarrow> 's \<Rightarrow> ('e, 's) outcome) \<Rightarrow> 'a list \<Rightarrow> 's \<Rightarrow> ('e, 's) outcome" where
  "fold_o f [] s = Some (Inr s)"
| "fold_o f (x # xs) s = bind_o (f x s) (fold_o f xs)"

text \<open>An invariant kept by every successful step is kept by the fold.\<close>

lemma fold_res_invariant:
  assumes "fold_res f xs s = Inr s'" "I s"
    and "\<And>x s s'. x \<in> set xs \<Longrightarrow> I s \<Longrightarrow> f x s = Inr s' \<Longrightarrow> I s'"
  shows "I s'"
  using assms
proof (induction xs arbitrary: s)
  case (Cons x xs)
  then obtain t where t: "f x s = Inr t" "fold_res f xs t = Inr s'"
    by (auto simp: and_then_Inr_conv)
  with Cons.prems(2,3) have "I t" by auto
  with t(2) Cons.prems(3) show ?case by (intro Cons.IH) auto
qed simp

lemma fold_res_append:
  "fold_res f (xs @ ys) s = and_then (fold_res f xs s) (fold_res f ys)"
  by (induction xs arbitrary: s) (simp_all add: and_then_def split: sum.splits)

lemma fold_res_InlE:
  assumes "fold_res f xs s = Inl e"
  obtains ys x zs t where "xs = ys @ x # zs" "fold_res f ys s = Inr t" "f x t = Inl e"
  using assms
proof (induction xs arbitrary: s thesis)
  case (Cons x xs)
  show ?case
  proof (cases "f x s")
    case (Inl e')
    with Cons.prems show ?thesis by (intro Cons.prems(1) [of "[]" x xs s]) auto
  next
    case (Inr t)
    with Cons.prems(2) have "fold_res f xs t = Inl e" by simp
    then obtain ys y zs u where "xs = ys @ y # zs" "fold_res f ys t = Inr u" "f y u = Inl e"
      using Cons.IH by blast
    with Inr show ?thesis by (intro Cons.prems(1) [of "x # ys" y zs u]) auto
  qed
qed simp

lemma fold_o_mono:
  assumes "fold_o f xs s = Some r"
    and "\<And>x s r. x \<in> set xs \<Longrightarrow> f x s = Some r \<Longrightarrow> g x s = Some r"
  shows "fold_o g xs s = Some r"
  using assms
proof (induction xs arbitrary: s)
  case (Cons x xs)
  show ?case
  proof (cases "f x s")
    case None
    with Cons.prems show ?thesis by simp
  next
    case (Some q)
    then have "g x s = Some q" using Cons.prems(2) by simp
    with Some Cons show ?thesis by (cases q) auto
  qed
qed simp

lemma fold_o_invariant:
  assumes "fold_o f xs s = Some (Inr s')" "I s"
    and "\<And>x s s'. x \<in> set xs \<Longrightarrow> I s \<Longrightarrow> f x s = Some (Inr s') \<Longrightarrow> I s'"
  shows "I s'"
  using assms
proof (induction xs arbitrary: s)
  case (Cons x xs)
  then obtain t where t: "f x s = Some (Inr t)" "fold_o f xs t = Some (Inr s')"
    by (auto elim: bind_o_InrD)
  with Cons.prems(2,3) have "I t" by auto
  with t(2) Cons.prems(3) show ?case by (intro Cons.IH) auto
qed simp

text \<open>If every step returns with enough fuel, so does the fold.\<close>

lemma bind_o_enough_fuel:
  fixes q :: "nat \<Rightarrow> ('e, 's) outcome" and f :: "nat \<Rightarrow> 's \<Rightarrow> ('e, 'b) outcome"
  assumes "\<exists>n r. q n = Some r"
    and "\<And>n s. q n = Some (Inr s) \<Longrightarrow> \<exists>n r. f n s = Some r"
    and q_mono: "\<And>n m r. q n = Some r \<Longrightarrow> n \<le> m \<Longrightarrow> q m = Some r"
    and f_mono: "\<And>n m s r. f n s = Some r \<Longrightarrow> n \<le> m \<Longrightarrow> f m s = Some r"
  shows "\<exists>n r. bind_o (q n) (f n) = Some r"
proof -
  from assms(1) obtain n r where n: "q n = Some r" by blast
  show ?thesis
  proof (cases r)
    case (Inl e)
    with n have "bind_o (q n) (f n) = Some (Inl e)" by simp
    then show ?thesis by blast
  next
    case (Inr s)
    with n assms(2) obtain m r' where "f m s = Some r'" by blast
    then have "f (max n m) s = Some r'" using f_mono [of m s r' "max n m"] by simp
    moreover have "q (max n m) = Some (Inr s)" using n Inr q_mono [of n r "max n m"] by simp
    ultimately have "bind_o (q (max n m)) (f (max n m)) = Some r'" by simp
    then show ?thesis by blast
  qed
qed

lemma fold_o_enough_fuel:
  fixes g :: "nat \<Rightarrow> 'p \<Rightarrow> 's \<Rightarrow> ('e, 's) outcome"
  assumes "I s"
    and ret: "\<And>p s. p \<in> set ps \<Longrightarrow> I s \<Longrightarrow> \<exists>n r. g n p s = Some r"
    and pres: "\<And>n p s s'. p \<in> set ps \<Longrightarrow> I s \<Longrightarrow> g n p s = Some (Inr s') \<Longrightarrow> I s'"
    and mono: "\<And>n m p s r. g n p s = Some r \<Longrightarrow> n \<le> m \<Longrightarrow> g m p s = Some r"
  shows "\<exists>n r. fold_o (g n) ps s = Some r"
  using assms(1) ret pres
proof (induction ps arbitrary: s)
  case (Cons p ps)
  have "\<exists>n r. bind_o (g n p s) (fold_o (g n) ps) = Some r"
  proof (rule bind_o_enough_fuel)
    show "\<exists>n r. g n p s = Some r" using Cons.prems(1,2) by simp
    fix n t assume "g n p s = Some (Inr t)"
    with Cons.prems have "I t" by (auto intro: Cons.prems(3))
    then show "\<exists>n r. fold_o (g n) ps t = Some r"
      by (rule Cons.IH) (meson Cons.prems(2,3) list.set_intros(2))+
  next
    fix n m t r assume "fold_o (g n) ps t = Some r" "n \<le> m"
    then show "fold_o (g m) ps t = Some r" by (elim fold_o_mono) (auto intro: mono)
  qed (rule mono)
  then show ?case by simp
qed simp

section \<open>Lists of options\<close>

lemma those_map_Some [simp]: "those (map (\<lambda>x. Some (f x)) xs) = Some (map f xs)"
  by (induction xs) simp_all

lemma those_map_eq_Some:
  assumes "\<And>x. x \<in> set xs \<Longrightarrow> f x = Some (g x)"
  shows "those (map f xs) = Some (map g xs)"
  using assms by (induction xs) simp_all

lemma those_eq_Some_length: "those xs = Some ys \<Longrightarrow> length ys = length xs"
  by (induction xs arbitrary: ys) (auto split: option.splits)

lemma those_map_mono:
  assumes "those (map f xs) = Some ys"
    and "\<And>x y. x \<in> set xs \<Longrightarrow> f x = Some y \<Longrightarrow> g x = Some y"
  shows "those (map g xs) = Some ys"
  using assms by (induction xs arbitrary: ys) (auto split: option.splits)

section \<open>Decimal printing\<close>

fun dec_digits :: "nat \<Rightarrow> string" where
  "dec_digits n =
     (if n < 10 then [char_of (48 + n)]
      else dec_digits (n div 10) @ [char_of (48 + n mod 10)])"

declare dec_digits.simps [simp del]

definition dec_int :: "int \<Rightarrow> string" where
  "dec_int i = (if i < 0 then ''-'' @ dec_digits (nat (- i)) else dec_digits (nat i))"

text \<open>UTF-8 of the em dash and of the ellipsis in the hints of the diagnostics.\<close>

definition em_dash :: string where
  "em_dash = [CHR 0xE2, CHR 0x80, CHR 0x94]"

definition ellipsis :: string where
  "ellipsis = [CHR 0xE2, CHR 0x80, CHR 0xA6]"

lemma dec_digits_nonempty: "dec_digits n \<noteq> []"
  by (subst dec_digits.simps) simp

text \<open>\<open>for (i, t) in items.enumerate() { if i > 0 { sep } print t }\<close>\<close>

fun join_with :: "'a list \<Rightarrow> 'a list list \<Rightarrow> 'a list" where
  "join_with sep [] = []"
| "join_with sep [x] = x"
| "join_with sep (x # y # xs) = x @ sep @ join_with sep (y # xs)"

section \<open>Source spans (\<open>crates/cobrust-frontend/src/span.rs\<close>)\<close>

record span =
  sp_file :: u32
  sp_start :: u32
  sp_end :: u32

definition span_new :: "u32 \<Rightarrow> u32 \<Rightarrow> u32 \<Rightarrow> span" where
  "span_new file s e =
     (let (s', e') = (if s \<le> e then (s, e) else (e, s))
      in \<lparr>sp_file = file, sp_start = s', sp_end = e'\<rparr>)"

definition span_point :: "u32 \<Rightarrow> u32 \<Rightarrow> span" where
  "span_point file pos = span_new file pos pos"

definition span_merge :: "span \<Rightarrow> span \<Rightarrow> span" where
  "span_merge a b =
     \<lparr>sp_file = sp_file a, sp_start = min (sp_start a) (sp_start b),
      sp_end = max (sp_end a) (sp_end b)\<rparr>"

definition span_len :: "span \<Rightarrow> u32" where
  "span_len s = sp_end s - sp_start s"

definition span_is_empty :: "span \<Rightarrow> bool" where
  "span_is_empty s \<longleftrightarrow> sp_start s = sp_end s"

definition span_ok :: "span \<Rightarrow> bool" where
  "span_ok s \<longleftrightarrow> sp_start s \<le> sp_end s"

lemma span_ok_new: "span_ok (span_new f s e)"
  by (auto simp: span_ok_def span_new_def)

lemma span_ok_merge: "span_ok a \<Longrightarrow> span_ok b \<Longrightarrow> span_ok (span_merge a b)"
  by (auto simp: span_ok_def span_merge_def min_def max_def)

lemma unat_span_len: "span_ok s \<Longrightarrow> unat (span_len s) = unat (sp_end s) - unat (sp_start s)"
  by (simp add: span_ok_def span_len_def unat_sub)

end
