(* ===== verification/Ty.thy ===== *)
theory Ty
  imports Prelude
begin

text \<open>
  The type universe of \<open>crates/cobrust-types/src/ty.rs\<close>: the types, the fresh-variable
  allocator, printing, the container and hashability predicates, single-variable
  substitution and the list of free inference variables. The second half relates these
  to the mathematical notions used by the inference theory: the set of variables of a
  type and simultaneous substitution.
\<close>

section \<open>Types\<close>

text \<open>
  \<open>Record\<close> and \<open>FnTy\<close> are parameterised over the type of their components, because a
  \<open>Ty\<close> contains them. A \<open>BTreeMap\<close> of fields is its list of entries in key order.
\<close>

datatype 'a record_ty = Record (rec_fields: "(string \<times> 'a) list")

datatype 'a fn_ty = FnTy
  (positional: "'a list")
  (named: "(string \<times> 'a) list")
  (var_positional: "'a option")
  (var_keyword: "'a option")
  (return_ty: 'a)

datatype ty =
    TBool | TInt | TFloat | TImag | TStr | TBytes | TNone | TNever
  | TTuple "ty list"
  | TList ty
  | TSet ty
  | TDict ty ty
  | TRecord "ty record_ty"
  | TFn "ty fn_ty"
  | TAdt u32 "ty list"
  | TAlias u32 "ty list"
  | TGeneric u32
  | TVar u32
  | TRef ty
  | TIntN u8
  | TArray ty nat

text \<open>\<open>Record::from_pairs\<close>: \<open>BTreeMap::insert\<close> keeps the keys sorted and overwrites.\<close>

fun str_less :: "string \<Rightarrow> string \<Rightarrow> bool" where
  "str_less _ [] = False"
| "str_less [] (_ # _) = True"
| "str_less (a # as) (b # bs) =
     (of_char a < (of_char b :: nat) \<or> (a = b \<and> str_less as bs))"

fun btree_insert :: "string \<Rightarrow> 'a \<Rightarrow> (string \<times> 'a) list \<Rightarrow> (string \<times> 'a) list" where
  "btree_insert k v [] = [(k, v)]"
| "btree_insert k v ((k', v') # m) =
     (if k = k' then (k, v) # m
      else if str_less k k' then (k, v) # (k', v') # m
      else (k', v') # btree_insert k v m)"

definition from_pairs :: "(string \<times> 'a) list \<Rightarrow> 'a record_ty" where
  "from_pairs pairs = Record (fold (\<lambda>(k, v). btree_insert k v) pairs [])"

definition arity :: "'a fn_ty \<Rightarrow> nat" where
  "arity f = length (positional f) + length (named f)"

text \<open>\<open>VarAllocator\<close>: \<open>fetch_add\<close> on an \<open>AtomicU32\<close> wraps around.\<close>

record var_allocator =
  next_var :: u32

definition var_allocator_default :: var_allocator where
  "var_allocator_default = \<lparr>next_var = 0\<rparr>"

definition fresh :: "var_allocator \<Rightarrow> u32 \<times> var_allocator" where
  "fresh a = (next_var a, a\<lparr>next_var := next_var a + 1\<rparr>)"

fun fresh_many :: "nat \<Rightarrow> var_allocator \<Rightarrow> u32 list \<times> var_allocator" where
  "fresh_many 0 a = ([], a)"
| "fresh_many (Suc n) a =
     (let (v, a') = fresh a; (vs, a'') = fresh_many n a' in (v # vs, a''))"

section \<open>Printing\<close>

abbreviation show_u32 :: "u32 \<Rightarrow> string" where
  "show_u32 w \<equiv> dec_digits (unat w)"

fun ty_display :: "ty \<Rightarrow> string" where
  "ty_display TBool = ''bool''"
| "ty_display TInt = ''i64''"
| "ty_display TFloat = ''f64''"
| "ty_display TImag = ''imag''"
| "ty_display TStr = ''str''"
| "ty_display TBytes = ''bytes''"
| "ty_display TNone = ''None''"
| "ty_display TNever = ''Never''"
| "ty_display (TTuple items) =
     ''('' @ join_with '', '' (map ty_display items)
       @ (if length items = 1 then '','' else '''') @ '')''"
| "ty_display (TList t) = ''List['' @ ty_display t @ '']''"
| "ty_display (TSet t) = ''Set['' @ ty_display t @ '']''"
| "ty_display (TDict k v) = ''Dict['' @ ty_display k @ '', '' @ ty_display v @ '']''"
| "ty_display (TRecord (Record fs)) =
     ''{'' @ join_with '', '' (map (\<lambda>(k, v). k @ '': '' @ ty_display v) fs) @ ''}''"
| "ty_display (TFn (FnTy ps ns vp vk r)) =
     ''('' @ join_with '', '' (map ty_display ps @ map (\<lambda>(n, t). n @ '': '' @ ty_display t) ns)
       @ '') -> '' @ ty_display r"
| "ty_display (TAdt i args) =
     ''Adt#'' @ show_u32 i
       @ (if args = [] then '''' else ''['' @ join_with '', '' (map ty_display args) @ '']'')"
| "ty_display (TAlias i args) =
     ''Alias#'' @ show_u32 i
       @ (if args = [] then '''' else ''['' @ join_with '', '' (map ty_display args) @ '']'')"
| "ty_display (TGeneric g) = ''T'' @ show_u32 g"
| "ty_display (TVar v) = ''?'' @ show_u32 v"
| "ty_display (TRef t) = ''&'' @ ty_display t"
| "ty_display (TIntN w) = ''i'' @ dec_digits (unat w)"
| "ty_display (TArray t n) = ''['' @ ty_display t @ ''; '' @ dec_digits n @ '']''"

section \<open>Predicates\<close>

definition is_mutable_container :: "ty \<Rightarrow> bool" where
  "is_mutable_container t =
     (case t of TList _ \<Rightarrow> True | TSet _ \<Rightarrow> True | TDict _ _ \<Rightarrow> True | _ \<Rightarrow> False)"

fun is_hashable :: "ty \<Rightarrow> bool" where
  "is_hashable TBool = True"
| "is_hashable TInt = True"
| "is_hashable TStr = True"
| "is_hashable TBytes = True"
| "is_hashable TNone = True"
| "is_hashable TNever = True"
| "is_hashable (TIntN _) = True"
| "is_hashable (TTuple items) = list_all is_hashable items"
| "is_hashable _ = False"

section \<open>Substitution of one variable, free variables\<close>

fun subst_var :: "u32 \<Rightarrow> ty \<Rightarrow> ty \<Rightarrow> ty" where
  "subst_var v rep (TVar i) = (if i = v then rep else TVar i)"
| "subst_var v rep (TTuple items) = TTuple (map (subst_var v rep) items)"
| "subst_var v rep (TList t) = TList (subst_var v rep t)"
| "subst_var v rep (TSet t) = TSet (subst_var v rep t)"
| "subst_var v rep (TDict k w) = TDict (subst_var v rep k) (subst_var v rep w)"
| "subst_var v rep (TRecord (Record fs)) =
     TRecord (Record (map (\<lambda>(k, t). (k, subst_var v rep t)) fs))"
| "subst_var v rep (TFn (FnTy ps ns vp vk r)) =
     TFn (FnTy (map (subst_var v rep) ps) (map (\<lambda>(n, t). (n, subst_var v rep t)) ns)
           (case vp of None \<Rightarrow> None | Some t \<Rightarrow> Some (subst_var v rep t))
           (case vk of None \<Rightarrow> None | Some t \<Rightarrow> Some (subst_var v rep t))
           (subst_var v rep r))"
| "subst_var v rep (TAdt i args) = TAdt i (map (subst_var v rep) args)"
| "subst_var v rep (TAlias i args) = TAlias i (map (subst_var v rep) args)"
| "subst_var v rep (TRef t) = TRef (subst_var v rep t)"
| "subst_var v rep (TArray t n) = TArray (subst_var v rep t) n"
| "subst_var v rep other = other"

fun collect_vars :: "ty \<Rightarrow> u32 list \<Rightarrow> u32 list" where
  "collect_vars (TVar v) out = (if v \<in> set out then out else out @ [v])"
| "collect_vars (TTuple items) out = fold collect_vars items out"
| "collect_vars (TList t) out = collect_vars t out"
| "collect_vars (TSet t) out = collect_vars t out"
| "collect_vars (TDict k v) out = collect_vars v (collect_vars k out)"
| "collect_vars (TRecord (Record fs)) out = fold (\<lambda>(k, t). collect_vars t) fs out"
| "collect_vars (TFn (FnTy ps ns vp vk r)) out =
     (let o1 = fold (\<lambda>(n, t). collect_vars t) ns (fold collect_vars ps out);
          o2 = (case vp of None \<Rightarrow> o1 | Some t \<Rightarrow> collect_vars t o1);
          o3 = (case vk of None \<Rightarrow> o2 | Some t \<Rightarrow> collect_vars t o2)
      in collect_vars r o3)"
| "collect_vars (TAdt i args) out = fold collect_vars args out"
| "collect_vars (TAlias i args) out = fold collect_vars args out"
| "collect_vars (TRef t) out = collect_vars t out"
| "collect_vars (TArray t n) out = collect_vars t out"
| "collect_vars _ out = out"

definition free_vars :: "ty \<Rightarrow> u32 list" where
  "free_vars t = collect_vars t []"

section \<open>Variables as a set, simultaneous substitution\<close>

text \<open>
  The mathematical counterparts: \<open>tvars\<close> is the set of inference variables of a type,
  \<open>subst_ty \<theta>\<close> replaces every variable \<open>v\<close> by \<open>\<theta> v\<close>.
\<close>

primrec tvars :: "ty \<Rightarrow> u32 set" where
  "tvars TBool = {}"
| "tvars TInt = {}"
| "tvars TFloat = {}"
| "tvars TImag = {}"
| "tvars TStr = {}"
| "tvars TBytes = {}"
| "tvars TNone = {}"
| "tvars TNever = {}"
| "tvars (TTuple items) = \<Union> (set (map tvars items))"
| "tvars (TList t) = tvars t"
| "tvars (TSet t) = tvars t"
| "tvars (TDict k v) = tvars k \<union> tvars v"
| "tvars (TRecord r) = \<Union> (set_record_ty (map_record_ty tvars r))"
| "tvars (TFn f) = \<Union> (set_fn_ty (map_fn_ty tvars f))"
| "tvars (TAdt i args) = \<Union> (set (map tvars args))"
| "tvars (TAlias i args) = \<Union> (set (map tvars args))"
| "tvars (TGeneric g) = {}"
| "tvars (TVar v) = {v}"
| "tvars (TRef t) = tvars t"
| "tvars (TIntN w) = {}"
| "tvars (TArray t n) = tvars t"

primrec subst_ty :: "(u32 \<Rightarrow> ty) \<Rightarrow> ty \<Rightarrow> ty" where
  "subst_ty \<theta> TBool = TBool"
| "subst_ty \<theta> TInt = TInt"
| "subst_ty \<theta> TFloat = TFloat"
| "subst_ty \<theta> TImag = TImag"
| "subst_ty \<theta> TStr = TStr"
| "subst_ty \<theta> TBytes = TBytes"
| "subst_ty \<theta> TNone = TNone"
| "subst_ty \<theta> TNever = TNever"
| "subst_ty \<theta> (TTuple items) = TTuple (map (subst_ty \<theta>) items)"
| "subst_ty \<theta> (TList t) = TList (subst_ty \<theta> t)"
| "subst_ty \<theta> (TSet t) = TSet (subst_ty \<theta> t)"
| "subst_ty \<theta> (TDict k v) = TDict (subst_ty \<theta> k) (subst_ty \<theta> v)"
| "subst_ty \<theta> (TRecord r) = TRecord (map_record_ty (subst_ty \<theta>) r)"
| "subst_ty \<theta> (TFn f) = TFn (map_fn_ty (subst_ty \<theta>) f)"
| "subst_ty \<theta> (TAdt i args) = TAdt i (map (subst_ty \<theta>) args)"
| "subst_ty \<theta> (TAlias i args) = TAlias i (map (subst_ty \<theta>) args)"
| "subst_ty \<theta> (TGeneric g) = TGeneric g"
| "subst_ty \<theta> (TVar v) = \<theta> v"
| "subst_ty \<theta> (TRef t) = TRef (subst_ty \<theta> t)"
| "subst_ty \<theta> (TIntN w) = TIntN w"
| "subst_ty \<theta> (TArray t n) = TArray (subst_ty \<theta> t) n"

lemmas ty_component_simps [ty_simps] =
  fn_ty.set record_ty.set fn_ty.map record_ty.map fn_ty.set_map record_ty.set_map

lemma mem_set_fn_ty:
  "t \<in> set_fn_ty (FnTy ps ns vp vk r) \<longleftrightarrow>
     t \<in> set ps \<or> (\<exists>k. (k, t) \<in> set ns) \<or> vp = Some t \<or> vk = Some t \<or> t = r"
  by (cases vp; cases vk; auto; force)

lemma mem_set_record_ty: "t \<in> set_record_ty (Record fs) \<longleftrightarrow> (\<exists>k. (k, t) \<in> set fs)"
  by (auto; force)

lemma finite_tvars [simp]: "finite (tvars t)"
  by (induction t) (auto simp: ty_simps)

lemma subst_ty_cong:
  "(\<And>v. v \<in> tvars t \<Longrightarrow> \<theta> v = \<theta>' v) \<Longrightarrow> subst_ty \<theta> t = subst_ty \<theta>' t"
  by (induction t) (auto simp: ty_simps intro!: record_ty.map_cong fn_ty.map_cong)

lemma subst_ty_TVar [simp]: "subst_ty TVar t = t"
  by (induction t) (auto simp: map_idI intro!: record_ty.map_ident_strong fn_ty.map_ident_strong)

lemma subst_ty_ident: "(\<And>v. v \<in> tvars t \<Longrightarrow> \<theta> v = TVar v) \<Longrightarrow> subst_ty \<theta> t = t"
  using subst_ty_cong [of t \<theta> TVar] by simp

lemma subst_ty_comp:
  "subst_ty \<theta> (subst_ty \<sigma> t) = subst_ty (\<lambda>v. subst_ty \<theta> (\<sigma> v)) t"
  by (induction t)
    (auto simp: record_ty.map_comp fn_ty.map_comp intro!: record_ty.map_cong fn_ty.map_cong)

lemma tvars_subst_ty: "tvars (subst_ty \<theta> t) = (\<Union>v \<in> tvars t. tvars (\<theta> v))"
  by (induction t) (auto simp: ty_simps)

lemma set_collect_vars: "set (collect_vars t out) = set out \<union> tvars t"
proof -
  have fold_set: "set (fold f xs out) = set out \<union> (\<Union>x \<in> set xs. g x)"
    if "\<And>x out. x \<in> set xs \<Longrightarrow> set (f x out) = set out \<union> g x"
    for f :: "'b \<Rightarrow> u32 list \<Rightarrow> u32 list" and xs g out
    using that by (induction xs arbitrary: out) auto
  show ?thesis
  proof (induction t out rule: collect_vars.induct)
    case (6 fs out)
    have "set (fold (\<lambda>(k, t). collect_vars t) fs out) = set out \<union> (\<Union>x \<in> set fs. tvars (snd x))"
      by (rule fold_set) (use 6 in force)
    then show ?case by (auto simp: ty_simps)
  next
    case (7 ps ns vp vk r out)
    have a: "set (fold collect_vars ps out) = set out \<union> (\<Union>x \<in> set ps. tvars x)"
      by (rule fold_set) (use 7 in auto)
    have b: "set (fold (\<lambda>(k, t). collect_vars t) ns o1) = set o1 \<union> (\<Union>x \<in> set ns. tvars (snd x))"
      for o1 by (rule fold_set) (use 7 in force)
    show ?case using 7 a b
      by (auto simp: ty_simps Let_def split: option.splits)
  qed (auto simp: fold_set)
qed

lemma set_free_vars: "set (free_vars t) = tvars t"
  by (simp add: free_vars_def set_collect_vars)

lemma free_vars_empty_iff: "free_vars t = [] \<longleftrightarrow> tvars t = {}"
  using set_free_vars [of t] by auto

lemma subst_var_eq: "subst_var v rep t = subst_ty (TVar(v := rep)) t"
  by (induction v rep t rule: subst_var.induct) (auto simp: ty_simps split: option.splits)

text \<open>A variable of a type is, after substitution, no larger than the whole.\<close>

lemma size_list_mem: "x \<in> set xs \<Longrightarrow> g x \<le> size_list g xs"
  by (rule size_list_estimation') auto

lemma size_fields_mem: "x \<in> snd ` set ns \<Longrightarrow> g x \<le> size_list (size_prod (\<lambda>_. 0) g) ns"
proof (induction ns)
  case (Cons n ns)
  then show ?case by (cases n) (auto simp: image_iff intro: le_SucI trans_le_add2)
qed simp

lemma size_record_mem: "x \<in> set_record_ty r \<Longrightarrow> g x \<le> size_record_ty g r"
  using size_fields_mem [of x "rec_fields r" g]
  by (cases r) (auto simp: ty_simps snds.simps image_iff intro: le_SucI)

lemma size_fn_mem: "x \<in> set_fn_ty f \<Longrightarrow> g x \<le> size_fn_ty g f"
  using size_fields_mem [of x "named f" g] size_list_mem [of x "positional f" g]
  by (cases f) (fastforce simp: ty_simps snds.simps image_iff)

lemma size_subst_occurs: "v \<in> tvars t \<Longrightarrow> size (\<theta> v) \<le> size (subst_ty \<theta> t)"
proof (induction t)
  case (TTuple xs)
  then obtain x where x: "x \<in> set xs" "size (\<theta> v) \<le> size (subst_ty \<theta> x)" by auto
  then show ?case using size_list_mem [of "subst_ty \<theta> x" "map (subst_ty \<theta>) xs" size] by force
next
  case (TAdt i xs)
  then obtain x where x: "x \<in> set xs" "size (\<theta> v) \<le> size (subst_ty \<theta> x)" by auto
  then show ?case using size_list_mem [of "subst_ty \<theta> x" "map (subst_ty \<theta>) xs" size] by force
next
  case (TAlias i xs)
  then obtain x where x: "x \<in> set xs" "size (\<theta> v) \<le> size (subst_ty \<theta> x)" by auto
  then show ?case using size_list_mem [of "subst_ty \<theta> x" "map (subst_ty \<theta>) xs" size] by force
next
  case (TRecord r)
  then obtain x where x: "x \<in> set_record_ty r" "size (\<theta> v) \<le> size (subst_ty \<theta> x)"
    by (auto simp: record_ty.set_map)
  then show ?case
    using size_record_mem [of "subst_ty \<theta> x" "map_record_ty (subst_ty \<theta>) r" size]
    by (force simp: record_ty.set_map)
next
  case (TFn f)
  then obtain x where x: "x \<in> set_fn_ty f" "size (\<theta> v) \<le> size (subst_ty \<theta> x)"
    by (auto simp: fn_ty.set_map)
  then show ?case
    using size_fn_mem [of "subst_ty \<theta> x" "map_fn_ty (subst_ty \<theta>) f" size]
    by (force simp: fn_ty.set_map)
qed auto

text \<open>The variable itself is the only type no larger than its value.\<close>

lemma occurs_no_unifier:
  assumes "v \<in> tvars t" "t \<noteq> TVar v"
  shows "\<theta> v \<noteq> subst_ty \<theta> t"
proof
  assume eq: "\<theta> v = subst_ty \<theta> t"
  have "size (\<theta> v) < size (subst_ty \<theta> t)"
    using assms
  proof (cases t)
    case (TTuple xs)
    with assms obtain x where x: "x \<in> set xs" "v \<in> tvars x" by auto
    with TTuple show ?thesis using size_subst_occurs [of v x \<theta>]
        size_list_mem [of "subst_ty \<theta> x" "map (subst_ty \<theta>) xs" size] by force
  next
    case (TAdt i xs)
    with assms obtain x where x: "x \<in> set xs" "v \<in> tvars x" by auto
    with TAdt show ?thesis using size_subst_occurs [of v x \<theta>]
        size_list_mem [of "subst_ty \<theta> x" "map (subst_ty \<theta>) xs" size] by force
  next
    case (TAlias i xs)
    with assms obtain x where x: "x \<in> set xs" "v \<in> tvars x" by auto
    with TAlias show ?thesis using size_subst_occurs [of v x \<theta>]
        size_list_mem [of "subst_ty \<theta> x" "map (subst_ty \<theta>) xs" size] by force
  next
    case (TRecord r)
    with assms obtain x where x: "x \<in> set_record_ty r" "v \<in> tvars x"
      by (auto simp: record_ty.set_map)
    with TRecord show ?thesis using size_subst_occurs [of v x \<theta>]
        size_record_mem [of "subst_ty \<theta> x" "map_record_ty (subst_ty \<theta>) r" size]
      by (force simp: record_ty.set_map)
  next
    case (TFn f)
    with assms obtain x where x: "x \<in> set_fn_ty f" "v \<in> tvars x"
      by (auto simp: fn_ty.set_map)
    with TFn show ?thesis using size_subst_occurs [of v x \<theta>]
        size_fn_mem [of "subst_ty \<theta> x" "map_fn_ty (subst_ty \<theta>) f" size]
      by (force simp: fn_ty.set_map)
  qed (use size_subst_occurs [of v _ \<theta>] in \<open>auto simp: less_Suc_eq_le trans_le_add1 trans_le_add2\<close>)
  with eq show False by simp
qed

end
