(* ===== verification/Infer.thy ===== *)
theory Infer
  imports Ty
begin

text \<open>
  The inference engine of \<open>crates/cobrust-types/src/infer.rs\<close>: the running substitution,
  \<open>apply\<close>, \<open>unify\<close> and \<open>finalize\<close>, with the part of \<open>error.rs\<close> they produce.

  \<open>Subst::apply\<close> and \<open>unify\<close> recurse without a structural bound: \<open>apply\<close> follows chains of
  variables, \<open>unify\<close> descends into types that grow when variables are resolved. Both are
  given fuel, with \<open>None\<close> for "does not return". The chain bound of \<open>apply\<close> is the number
  of entries of the substitution; it is shown to be enough exactly where the code returns,
  and enough fuel for \<open>unify\<close> is shown to exist on every acyclic substitution.
\<close>

section \<open>Errors and substitutions\<close>

text \<open>Every variant carries a span and an optional suggestion.\<close>

datatype type_error =
    UnknownName string span hint
  | ArityMismatch nat nat span hint
  | KeywordArgMismatch string span hint
  | MissingArgument string span hint
  | TypeMismatch ty ty span hint
  | NonExhaustiveMatch "string list" span hint
  | RowConflict string ty ty span hint
  | ImplicitTruthiness ty span hint
  | UseOfDroppedFeature string span hint
  | MutableDefault span hint
  | AmbiguousType span hint
  | DuplicateField string span hint
  | OccursCheck u32 ty span hint
  | NotCallable ty span hint
  | NotIndexable ty span hint
  | NotIterable ty span hint
  | BreakOutsideLoop span hint
  | ContinueOutsideLoop span hint
  | ReturnOutsideFn span hint
  | YieldOutsideFn span hint
  | NotHashable ty span hint
  | DictSpreadNotSupported span hint
  | Multiple "type_error list"
  | BorrowOfNonPlace span hint
  | UnknownMethod string string span hint
  | CallbackArgMustBeFnName span hint
  | CallbackSignatureMismatch ty ty span hint
  | UnknownField string ty "string list" span hint
  | UnsupportedRefinement string span hint
  | LenArgNotSized ty span hint
  | DoraUnknownOutputId string "string list" "string option" span hint
  | UnsupportedSliceShape span hint
  | NegativePowExponent span hint
  | UnsupportedListMutate string string span

text \<open>\<open>Subst\<close> is a \<open>HashMap<VarId, Ty>\<close>: an association list with one entry per key.\<close>

type_synonym subst = "(u32 \<times> ty) list"

definition subst_new :: subst where
  "subst_new = []"

definition subst_get :: "subst \<Rightarrow> u32 \<Rightarrow> ty option" where
  "subst_get \<sigma> v = map_of \<sigma> v"

definition extend :: "subst \<Rightarrow> u32 \<Rightarrow> ty \<Rightarrow> subst" where
  "extend \<sigma> v t = AList.update v t \<sigma>"

text \<open>\<open>apply_d d\<close> follows at most \<open>d\<close> variable bindings on any path.\<close>

fun apply_d :: "nat \<Rightarrow> subst \<Rightarrow> ty \<Rightarrow> ty option" where
  "apply_d d \<sigma> (TVar v) =
     (case subst_get \<sigma> v of
        Some inner \<Rightarrow> (case d of 0 \<Rightarrow> None | Suc d' \<Rightarrow> apply_d d' \<sigma> inner)
      | None \<Rightarrow> Some (TVar v))"
| "apply_d d \<sigma> (TTuple items) = map_option TTuple (those (map (apply_d d \<sigma>) items))"
| "apply_d d \<sigma> (TList t) = map_option TList (apply_d d \<sigma> t)"
| "apply_d d \<sigma> (TSet t) = map_option TSet (apply_d d \<sigma> t)"
| "apply_d d \<sigma> (TDict k v) =
     do { k' \<leftarrow> apply_d d \<sigma> k; v' \<leftarrow> apply_d d \<sigma> v; Some (TDict k' v') }"
| "apply_d d \<sigma> (TRecord (Record fs)) =
     map_option (\<lambda>fs'. TRecord (Record fs'))
       (those (map (\<lambda>(k, t). map_option (Pair k) (apply_d d \<sigma> t)) fs))"
| "apply_d d \<sigma> (TFn (FnTy ps ns vp vk r)) =
     do { ps' \<leftarrow> those (map (apply_d d \<sigma>) ps);
          ns' \<leftarrow> those (map (\<lambda>(n, t). map_option (Pair n) (apply_d d \<sigma> t)) ns);
          vp' \<leftarrow> (case vp of None \<Rightarrow> Some None | Some t \<Rightarrow> map_option Some (apply_d d \<sigma> t));
          vk' \<leftarrow> (case vk of None \<Rightarrow> Some None | Some t \<Rightarrow> map_option Some (apply_d d \<sigma> t));
          r' \<leftarrow> apply_d d \<sigma> r;
          Some (TFn (FnTy ps' ns' vp' vk' r')) }"
| "apply_d d \<sigma> (TAdt i args) = map_option (TAdt i) (those (map (apply_d d \<sigma>) args))"
| "apply_d d \<sigma> (TAlias i args) = map_option (TAlias i) (those (map (apply_d d \<sigma>) args))"
| "apply_d d \<sigma> (TRef t) = map_option TRef (apply_d d \<sigma> t)"
| "apply_d d \<sigma> (TArray t n) = map_option (\<lambda>t'. TArray t' n) (apply_d d \<sigma> t)"
| "apply_d d \<sigma> other = Some other"

definition apply_subst :: "subst \<Rightarrow> ty \<Rightarrow> ty option" where
  "apply_subst \<sigma> t = apply_d (length \<sigma>) \<sigma> t"

definition fully_resolved :: "subst \<Rightarrow> ty \<Rightarrow> bool option" where
  "fully_resolved \<sigma> t = map_option (\<lambda>r. free_vars r = []) (apply_subst \<sigma> t)"

definition finalize :: "ty \<Rightarrow> subst \<Rightarrow> span \<Rightarrow> (type_error, ty) outcome" where
  "finalize t \<sigma> sp =
     (case apply_subst \<sigma> t of
        None \<Rightarrow> None
      | Some resolved \<Rightarrow>
          if free_vars resolved = [] then Some (Inr resolved)
          else Some (Inl (AmbiguousType sp
            (Some (''add an explicit type annotation, e.g. `let x: i64 = '' @ ellipsis @ ''`'')))))"

section \<open>Unification\<close>

text \<open>
  \<open>unify\<close> extends the substitution in place, so a failing call leaves behind the bindings
  made before the failure: an error carries the substitution it leaves.
\<close>

type_synonym unify_result = "(type_error \<times> subst, subst) outcome"

definition annotate_hint :: hint where
  "annotate_hint = Some ''change the expression type or add `: <expected>` annotation''"

definition arity_hint :: hint where
  "arity_hint =
     Some ''check the function signature; pass exactly the declared positional arity''"

definition mismatch :: "ty \<Rightarrow> ty \<Rightarrow> span \<Rightarrow> subst \<Rightarrow> unify_result" where
  "mismatch t1 t2 sp \<sigma> = Some (Inl (TypeMismatch t1 t2 sp annotate_hint, \<sigma>))"

text \<open>The arm \<open>(Ty::Var(v), other) | (other, Ty::Var(v))\<close>.\<close>

definition bind_var :: "u32 \<Rightarrow> ty \<Rightarrow> span \<Rightarrow> subst \<Rightarrow> unify_result" where
  "bind_var v other sp \<sigma> =
     (if v \<in> set (free_vars other)
      then Some (Inl (OccursCheck v other sp
             (Some (''add a type annotation '' @ em_dash @ '' recursive types must be explicit'')), \<sigma>))
      else Some (Inr (extend \<sigma> v other)))"

text \<open>
  The arms for two types that are neither \<open>Never\<close> nor variables; \<open>rec\<close> is the recursive
  call. Two records with equal key sequences are walked in key order, which pairs every
  field of \<open>a\<close> with \<open>b.fields.get(k)\<close> (see \<open>record_get_zip\<close>).
\<close>

definition unify_args ::
  "(ty \<Rightarrow> ty \<Rightarrow> subst \<Rightarrow> unify_result) \<Rightarrow> ty list \<Rightarrow> ty list \<Rightarrow> subst
     \<Rightarrow> unify_result" where
  "unify_args rec as bs \<sigma> = fold_o (\<lambda>(x, y). rec x y) (zip as bs) \<sigma>"

definition unify_named ::
  "(ty \<Rightarrow> ty \<Rightarrow> subst \<Rightarrow> unify_result) \<Rightarrow> span
     \<Rightarrow> (string \<times> ty) list \<Rightarrow> (string \<times> ty) list \<Rightarrow> subst \<Rightarrow> unify_result" where
  "unify_named rec sp as bs \<sigma> =
     fold_o (\<lambda>((n1, x), (n2, y)) s.
         if n1 \<noteq> n2
         then Some (Inl (KeywordArgMismatch n1 sp
                (Some (''remove or rename '' @ em_dash @ '' the callee does not accept this keyword'')), s))
         else rec x y s)
       (zip as bs) \<sigma>"

definition unify_fn ::
  "(ty \<Rightarrow> ty \<Rightarrow> subst \<Rightarrow> unify_result) \<Rightarrow> span
     \<Rightarrow> ty fn_ty \<Rightarrow> ty fn_ty \<Rightarrow> subst \<Rightarrow> unify_result" where
  "unify_fn rec sp a b \<sigma> =
     (if length (positional a) \<noteq> length (positional b)
      then Some (Inl (ArityMismatch (length (positional a)) (length (positional b)) sp arity_hint, \<sigma>))
      else if length (named a) \<noteq> length (named b)
      then Some (Inl (ArityMismatch (length (named a)) (length (named b)) sp arity_hint, \<sigma>))
      else bind_o (unify_args rec (positional a) (positional b) \<sigma>) (\<lambda>\<sigma>1.
           bind_o (unify_named rec sp (named a) (named b) \<sigma>1) (\<lambda>\<sigma>2.
           rec (return_ty a) (return_ty b) \<sigma>2)))"

definition unify_heads ::
  "(ty \<Rightarrow> ty \<Rightarrow> subst \<Rightarrow> unify_result) \<Rightarrow> ty \<Rightarrow> ty \<Rightarrow> span \<Rightarrow> subst
     \<Rightarrow> unify_result" where
  "unify_heads rec t1 t2 sp \<sigma> =
     (case t1 of
        TBool \<Rightarrow> if t2 = TBool then Some (Inr \<sigma>) else mismatch t1 t2 sp \<sigma>
      | TInt \<Rightarrow> if t2 = TInt then Some (Inr \<sigma>) else mismatch t1 t2 sp \<sigma>
      | TFloat \<Rightarrow> if t2 = TFloat then Some (Inr \<sigma>) else mismatch t1 t2 sp \<sigma>
      | TImag \<Rightarrow> if t2 = TImag then Some (Inr \<sigma>) else mismatch t1 t2 sp \<sigma>
      | TStr \<Rightarrow> if t2 = TStr then Some (Inr \<sigma>) else mismatch t1 t2 sp \<sigma>
      | TBytes \<Rightarrow> if t2 = TBytes then Some (Inr \<sigma>) else mismatch t1 t2 sp \<sigma>
      | TNone \<Rightarrow> if t2 = TNone then Some (Inr \<sigma>) else mismatch t1 t2 sp \<sigma>
      | TIntN a \<Rightarrow> if t2 = TIntN a then Some (Inr \<sigma>) else mismatch t1 t2 sp \<sigma>
      | TTuple a \<Rightarrow> (case t2 of
            TTuple b \<Rightarrow> if length a \<noteq> length b then mismatch t1 t2 sp \<sigma> else unify_args rec a b \<sigma>
          | _ \<Rightarrow> mismatch t1 t2 sp \<sigma>)
      | TList a \<Rightarrow> (case t2 of TList b \<Rightarrow> rec a b \<sigma> | _ \<Rightarrow> mismatch t1 t2 sp \<sigma>)
      | TSet a \<Rightarrow> (case t2 of TSet b \<Rightarrow> rec a b \<sigma> | _ \<Rightarrow> mismatch t1 t2 sp \<sigma>)
      | TRef a \<Rightarrow> (case t2 of TRef b \<Rightarrow> rec a b \<sigma> | _ \<Rightarrow> mismatch t1 t2 sp \<sigma>)
      | TArray a n1 \<Rightarrow> (case t2 of
            TArray b n2 \<Rightarrow>
              if n1 \<noteq> n2
              then Some (Inl (TypeMismatch (TArray a n1) (TArray b n2) sp
                     (Some (''array length mismatch '' @ em_dash @ '' adjust the literal arity'')), \<sigma>))
              else rec a b \<sigma>
          | _ \<Rightarrow> mismatch t1 t2 sp \<sigma>)
      | TDict ak av \<Rightarrow> (case t2 of
            TDict bk bv \<Rightarrow> bind_o (rec ak bk \<sigma>) (rec av bv)
          | _ \<Rightarrow> mismatch t1 t2 sp \<sigma>)
      | TRecord a \<Rightarrow> (case t2 of
            TRecord b \<Rightarrow>
              if map fst (rec_fields a) \<noteq> map fst (rec_fields b) then mismatch t1 t2 sp \<sigma>
              else unify_args rec (map snd (rec_fields a)) (map snd (rec_fields b)) \<sigma>
          | _ \<Rightarrow> mismatch t1 t2 sp \<sigma>)
      | TFn a \<Rightarrow> (case t2 of TFn b \<Rightarrow> unify_fn rec sp a b \<sigma> | _ \<Rightarrow> mismatch t1 t2 sp \<sigma>)
      | TAdt i a \<Rightarrow> (case t2 of
            TAdt j b \<Rightarrow>
              if i = j
              then if length a \<noteq> length b then mismatch t1 t2 sp \<sigma> else unify_args rec a b \<sigma>
              else mismatch t1 t2 sp \<sigma>
          | _ \<Rightarrow> mismatch t1 t2 sp \<sigma>)
      | TAlias i a \<Rightarrow> (case t2 of
            TAlias j b \<Rightarrow>
              if i = j
              then if length a \<noteq> length b then mismatch t1 t2 sp \<sigma> else unify_args rec a b \<sigma>
              else mismatch t1 t2 sp \<sigma>
          | _ \<Rightarrow> mismatch t1 t2 sp \<sigma>)
      | TGeneric g \<Rightarrow> if t2 = TGeneric g then Some (Inr \<sigma>) else mismatch t1 t2 sp \<sigma>
      | _ \<Rightarrow> mismatch t1 t2 sp \<sigma>)"

definition unify_body ::
  "(ty \<Rightarrow> ty \<Rightarrow> subst \<Rightarrow> unify_result) \<Rightarrow> ty \<Rightarrow> ty \<Rightarrow> span \<Rightarrow> subst
     \<Rightarrow> unify_result" where
  "unify_body rec t1 t2 sp \<sigma> =
     (case (apply_subst \<sigma> t1, apply_subst \<sigma> t2) of
        (Some t1, Some t2) \<Rightarrow>
          (if t1 = TNever \<or> t2 = TNever then Some (Inr \<sigma>)
           else (case (t1, t2) of
               (TVar v1, TVar v2) \<Rightarrow> if v1 = v2 then Some (Inr \<sigma>) else bind_var v1 t2 sp \<sigma>
             | (TVar v, _) \<Rightarrow> bind_var v t2 sp \<sigma>
             | (_, TVar v) \<Rightarrow> bind_var v t1 sp \<sigma>
             | _ \<Rightarrow> unify_heads rec t1 t2 sp \<sigma>))
      | _ \<Rightarrow> None)"

primrec unify :: "nat \<Rightarrow> span \<Rightarrow> ty \<Rightarrow> ty \<Rightarrow> subst \<Rightarrow> unify_result" where
  "unify 0 sp t1 t2 \<sigma> = None"
| "unify (Suc n) sp t1 t2 \<sigma> = unify_body (unify n sp) t1 t2 sp \<sigma>"

end
