(* ===== verification/Infer_Sound.thy ===== *)
theory Infer_Sound
  imports Infer
begin

text \<open>
  What \<open>apply\<close>, \<open>unify\<close> and \<open>finalize\<close> promise. A substitution is acyclic when the
  variables in the value of \<open>v\<close> have a smaller rank than \<open>v\<close>; \<open>inst \<sigma> t\<close> is the type
  \<open>apply\<close> returns. The lemmas about the arms of \<open>unify\<close> are stated once, in locales that
  fix the recursive call and assume its contract, and interpreted on \<open>unify\<close> itself.
\<close>

section \<open>Acyclic substitutions\<close>

definition ranked :: "(u32 \<Rightarrow> nat) \<Rightarrow> subst \<Rightarrow> bool" where
  "ranked rk \<sigma> \<longleftrightarrow> (\<forall>v t. map_of \<sigma> v = Some t \<longrightarrow> (\<forall>w \<in> tvars t. rk w < rk v))"

definition acyclic_subst :: "subst \<Rightarrow> bool" where
  "acyclic_subst \<sigma> \<longleftrightarrow> (\<exists>rk. ranked rk \<sigma>)"

definition inst :: "subst \<Rightarrow> ty \<Rightarrow> ty" where
  "inst \<sigma> t = subst_ty (\<lambda>v. the (apply_subst \<sigma> (TVar v))) t"

definition svars :: "subst \<Rightarrow> u32 set" where
  "svars \<sigma> = dom (map_of \<sigma>) \<union> (\<Union>t \<in> ran (map_of \<sigma>). tvars t)"

text \<open>The loop of \<open>unify\<close> over the fields of two records looks each key of \<open>a\<close> up in \<open>b\<close>;
  with equal sequences of distinct keys that finds the field in the same position.\<close>

lemma record_get_zip:
  assumes "distinct (map fst fs)" "map fst gs = map fst fs" "i < length fs"
  shows "map_of gs (fst (fs ! i)) = Some (snd (gs ! i))"
proof -
  have "i < length gs" "fst (gs ! i) = fst (fs ! i)"
    using assms(2,3) by (metis length_map, metis length_map nth_map)
  with assms(1,2) show ?thesis by (metis map_of_is_SomeI nth_mem prod.collapse)
qed

lemma acyclic_new: "acyclic_subst subst_new"
  by (auto simp: acyclic_subst_def ranked_def subst_new_def)

section \<open>\<open>apply\<close> is a simultaneous substitution\<close>

declare apply_d.simps(1) [simp del]

lemmas apply_d_var = apply_d.simps(1)

lemma those_fields:
  "(\<And>k t. (k, t) \<in> set fs \<Longrightarrow> f t = Some (g t))
     \<Longrightarrow> those (map (\<lambda>(k, t). map_option (Pair k) (f t)) fs) = Some (map (map_prod id g) fs)"
proof (induction fs)
  case (Cons p fs)
  obtain k t where p: "p = (k, t)" by (cases p)
  with Cons.prems [of k t] have ft: "f t = Some (g t)" by simp
  have "those (map (\<lambda>(k, t). map_option (Pair k) (f t)) fs) = Some (map (map_prod id g) fs)"
    using Cons.prems by (intro Cons.IH) (metis list.set_intros(2))
  with p ft show ?case by (simp add: id_def)
qed simp

lemma those_fieldsD:
  "those (map (\<lambda>(k, t). map_option (Pair k) (f t)) fs) = Some ys \<Longrightarrow> (k, t) \<in> set fs
     \<Longrightarrow> \<exists>y. f t = Some y"
  by (induction fs arbitrary: ys) (auto split: option.splits)

lemma those_mapD: "those (map f xs) = Some ys \<Longrightarrow> x \<in> set xs \<Longrightarrow> \<exists>y. f x = Some y"
  by (induction xs arbitrary: ys) (auto split: option.splits)

lemma apply_d_subst:
  "(\<And>v. v \<in> tvars t \<Longrightarrow> apply_d d \<sigma> (TVar v) = Some (\<theta> v)) \<Longrightarrow> apply_d d \<sigma> t = Some (subst_ty \<theta> t)"
proof (induction t)
  case (TRecord r)
  obtain fs where r: "r = Record fs" by (cases r)
  have "apply_d d \<sigma> t = Some (subst_ty \<theta> t)" if "t \<in> set_record_ty r" for t
    using TRecord that by (auto simp: record_ty.set_map)
  then have "those (map (\<lambda>(k, t). map_option (Pair k) (apply_d d \<sigma> t)) fs)
      = Some (map (map_prod id (subst_ty \<theta>)) fs)"
    unfolding r mem_set_record_ty by (intro those_fields) blast
  then show ?case by (simp add: r)
next
  case (TFn f)
  obtain ps ns vp vk r where f: "f = FnTy ps ns vp vk r" by (cases f)
  have all: "apply_d d \<sigma> t = Some (subst_ty \<theta> t)" if "t \<in> set_fn_ty f" for t
    using TFn that by (auto simp: fn_ty.set_map)
  have "those (map (\<lambda>(k, t). map_option (Pair k) (apply_d d \<sigma> t)) ns)
      = Some (map (map_prod id (subst_ty \<theta>)) ns)"
    using all unfolding f mem_set_fn_ty by (intro those_fields) blast
  moreover have "those (map (apply_d d \<sigma>) ps) = Some (map (subst_ty \<theta>) ps)"
    using all unfolding f mem_set_fn_ty by (intro those_map_eq_Some) blast
  moreover have "(case o1 of None \<Rightarrow> Some None | Some t \<Rightarrow> map_option Some (apply_d d \<sigma> t))
      = Some (map_option (subst_ty \<theta>) o1)" if "o1 = vp \<or> o1 = vk" for o1
    using all that unfolding f mem_set_fn_ty by (cases o1) auto
  moreover have "apply_d d \<sigma> r = Some (subst_ty \<theta> r)"
    using all unfolding f mem_set_fn_ty by blast
  ultimately show ?case by (simp add: f)
next
  case (TTuple xs)
  then have "those (map (apply_d d \<sigma>) xs) = Some (map (subst_ty \<theta>) xs)"
    by (intro those_map_eq_Some) auto
  then show ?case by simp
next
  case (TAdt i xs)
  then have "those (map (apply_d d \<sigma>) xs) = Some (map (subst_ty \<theta>) xs)"
    by (intro those_map_eq_Some) auto
  then show ?case by simp
next
  case (TAlias i xs)
  then have "those (map (apply_d d \<sigma>) xs) = Some (map (subst_ty \<theta>) xs)"
    by (intro those_map_eq_Some) auto
  then show ?case by simp
qed auto

lemma apply_d_component:
  "apply_d d \<sigma> (TFn f) = Some r \<Longrightarrow> t \<in> set_fn_ty f \<Longrightarrow> \<exists>u. apply_d d \<sigma> t = Some u"
  by (cases f) (auto simp: mem_set_fn_ty bind_eq_Some_conv simp del: fn_ty.set
      dest: those_mapD those_fieldsD)

lemma apply_d_returns_vars:
  "apply_d d \<sigma> t = Some r \<Longrightarrow> v \<in> tvars t \<Longrightarrow> \<exists>u. apply_d d \<sigma> (TVar v) = Some u"
proof (induction t arbitrary: r)
  case (TRecord q)
  then obtain t where t: "t \<in> set_record_ty q" "v \<in> tvars t" by (auto simp: record_ty.set_map)
  moreover from t(1) TRecord.prems(1) have "\<exists>u. apply_d d \<sigma> t = Some u"
    by (cases q) (auto simp: mem_set_record_ty simp del: record_ty.set dest: those_fieldsD)
  ultimately show ?case using TRecord.IH by blast
next
  case (TFn f)
  then obtain t where t: "t \<in> set_fn_ty f" "v \<in> tvars t" by (auto simp: fn_ty.set_map)
  with TFn.prems(1) TFn.IH show ?case using apply_d_component by blast
next
  case (TTuple xs)
  then obtain t ys where t: "t \<in> set xs" "v \<in> tvars t" and ys: "those (map (apply_d d \<sigma>) xs) = Some ys"
    by auto
  from those_mapD [OF ys t(1)] obtain u where "apply_d d \<sigma> t = Some u" ..
  then show ?case by (rule TTuple.IH [OF t(1) _ t(2)])
next
  case (TAdt i xs)
  then obtain t ys where t: "t \<in> set xs" "v \<in> tvars t" and ys: "those (map (apply_d d \<sigma>) xs) = Some ys"
    by auto
  from those_mapD [OF ys t(1)] obtain u where "apply_d d \<sigma> t = Some u" ..
  then show ?case by (rule TAdt.IH [OF t(1) _ t(2)])
next
  case (TAlias i xs)
  then obtain t ys where t: "t \<in> set xs" "v \<in> tvars t" and ys: "those (map (apply_d d \<sigma>) xs) = Some ys"
    by auto
  from those_mapD [OF ys t(1)] obtain u where "apply_d d \<sigma> t = Some u" ..
  then show ?case by (rule TAlias.IH [OF t(1) _ t(2)])
qed (auto simp: bind_eq_Some_conv)

lemma apply_d_transfer:
  assumes "apply_d d \<sigma> t = Some r"
    and "\<And>v u. apply_d d \<sigma> (TVar v) = Some u \<Longrightarrow> apply_d d' \<sigma> (TVar v) = Some u"
  shows "apply_d d' \<sigma> t = Some r"
proof -
  have "\<forall>v. v \<in> tvars t \<longrightarrow> (\<exists>u. apply_d d \<sigma> (TVar v) = Some u)"
    using apply_d_returns_vars [OF assms(1)] by blast
  then obtain \<theta> where \<theta>: "v \<in> tvars t \<Longrightarrow> apply_d d \<sigma> (TVar v) = Some (\<theta> v)" for v
    by metis
  have "apply_d d \<sigma> t = Some (subst_ty \<theta> t)" by (rule apply_d_subst) (rule \<theta>)
  moreover have "apply_d d' \<sigma> t = Some (subst_ty \<theta> t)"
    by (rule apply_d_subst) (rule assms(2), rule \<theta>)
  ultimately show ?thesis using assms(1) by simp
qed

lemma apply_d_mono:
  assumes "apply_d d \<sigma> t = Some r" "d \<le> d'"
  shows "apply_d d' \<sigma> t = Some r"
  using assms
proof (induction d arbitrary: d' t r)
  case 0
  from 0(1) show ?case
    by (rule apply_d_transfer) (simp add: apply_d_var split: option.splits)
next
  case (Suc d)
  from Suc.prems(2) obtain d'' where d': "d' = Suc d''" "d \<le> d''" by (cases d') auto
  have IH: "apply_d d'' \<sigma> u = Some q" if "apply_d d \<sigma> u = Some q" for u q
    by (rule Suc.IH [OF that d'(2)])
  have "apply_d d' \<sigma> (TVar v) = Some u" if "apply_d (Suc d) \<sigma> (TVar v) = Some u" for v u
  proof (cases "subst_get \<sigma> v")
    case None
    with that show ?thesis by (auto simp: apply_d_var)
  next
    case (Some w)
    with that have "apply_d d \<sigma> w = Some u" by (simp add: apply_d_var)
    with Some show ?thesis by (simp add: apply_d_var d'(1)) (rule IH)
  qed
  with Suc.prems(1) show ?case by (rule apply_d_transfer)
qed

text \<open>
  The chain bound: if the variables met from \<open>t\<close> stay in a finite set \<open>S\<close> and drop in rank
  at every binding, \<open>card S\<close> bindings are enough.
\<close>

lemma apply_d_bounded:
  assumes "finite S"
    and "\<And>v. v \<in> S \<Longrightarrow> \<exists>u. map_of \<sigma> v = Some u
           \<and> (\<forall>w \<in> tvars u \<inter> dom (map_of \<sigma>). w \<in> S \<and> rk w < (rk v :: nat))"
    and "tvars t \<inter> dom (map_of \<sigma>) \<subseteq> S"
  shows "\<exists>r. apply_d (card S) \<sigma> t = Some r"
  using assms
proof (induction "card S" arbitrary: S t rule: less_induct)
  case less
  have "\<exists>u. apply_d (card S) \<sigma> (TVar v) = Some u" if v: "v \<in> tvars t" for v
  proof (cases "map_of \<sigma> v")
    case None
    then show ?thesis by (simp add: apply_d_var subst_get_def)
  next
    case (Some u)
    then have vS: "v \<in> S" using less.prems(3) v by auto
    let ?S = "{w \<in> S. rk w < rk v}"
    have "?S \<subset> S" using vS by blast
    then have lt: "card ?S < card S" using less.prems(1) by (simp add: psubset_card_mono)
    have "\<exists>r. apply_d (card ?S) \<sigma> u = Some r"
    proof (rule less.hyps [OF lt])
      show "finite ?S" using less.prems(1) by simp
      show "tvars u \<inter> dom (map_of \<sigma>) \<subseteq> ?S" using less.prems(2) [OF vS] Some by auto
      fix w assume "w \<in> ?S"
      then have w: "w \<in> S" "rk w < rk v" by auto
      from less.prems(2) [OF w(1)] w(2) show "\<exists>u. map_of \<sigma> w = Some u
           \<and> (\<forall>x \<in> tvars u \<inter> dom (map_of \<sigma>). x \<in> ?S \<and> rk x < rk w)"
        by (blast intro: less_trans)
    qed
    moreover obtain n where n: "card S = Suc n" "card ?S \<le> n" using lt by (cases "card S") auto
    ultimately have "\<exists>r. apply_d n \<sigma> u = Some r" using apply_d_mono by blast
    with Some n show ?thesis by (simp add: apply_d_var subst_get_def)
  qed
  then obtain \<theta> where "\<And>v. v \<in> tvars t \<Longrightarrow> apply_d (card S) \<sigma> (TVar v) = Some (\<theta> v)"
    by metis
  then show ?case using apply_d_subst by blast
qed

lemma card_dom_le: "card (dom (map_of \<sigma>)) \<le> length \<sigma>"
  by (metis card_length dom_map_of_conv_image_fst length_map set_map)

lemma apply_subst_bounded:
  assumes "S \<subseteq> dom (map_of \<sigma>)"
    and "\<And>v. v \<in> S \<Longrightarrow> \<exists>u. map_of \<sigma> v = Some u
           \<and> (\<forall>w \<in> tvars u \<inter> dom (map_of \<sigma>). w \<in> S \<and> rk w < (rk v :: nat))"
    and "tvars t \<inter> dom (map_of \<sigma>) \<subseteq> S"
  shows "\<exists>r. apply_subst \<sigma> t = Some r"
proof -
  have fin: "finite (dom (map_of \<sigma>))" by (rule finite_dom_map_of)
  have S: "finite S" using fin assms(1) by (rule rev_finite_subset)
  have "card S \<le> length \<sigma>" using card_mono [OF fin assms(1)] card_dom_le [of \<sigma>] by simp
  then show ?thesis
    using apply_d_bounded [OF S assms(2,3)] apply_d_mono unfolding apply_subst_def by metis
qed

text \<open>The bound chosen by \<open>apply_subst\<close> is exact: it suffices whenever any bound does.\<close>

lemma apply_d_exact:
  assumes "apply_d d \<sigma> t = Some r"
  shows "apply_subst \<sigma> t = Some r"
proof -
  let ?ret = "\<lambda>v n. apply_d n \<sigma> (TVar v) \<noteq> None"
  let ?S = "{v \<in> dom (map_of \<sigma>). \<exists>n. ?ret v n}"
  let ?rk = "\<lambda>v. LEAST n. ?ret v n"
  have step: "\<exists>u. map_of \<sigma> v = Some u
       \<and> (\<forall>w \<in> tvars u \<inter> dom (map_of \<sigma>). w \<in> ?S \<and> ?rk w < ?rk v)" if v: "v \<in> ?S" for v
  proof -
    from v obtain u where u: "map_of \<sigma> v = Some u" by auto
    from v have ret: "?ret v (?rk v)" using LeastI_ex [of "?ret v"] by blast
    with u obtain m where m: "?rk v = Suc m" "apply_d m \<sigma> u \<noteq> None"
      by (auto simp: apply_d_var subst_get_def split: nat.splits)
    have "w \<in> ?S \<and> ?rk w < ?rk v" if w: "w \<in> tvars u \<inter> dom (map_of \<sigma>)" for w
    proof -
      have "?ret w m" using m(2) w apply_d_returns_vars [of m \<sigma> u] by blast
      then show ?thesis using w m(1) Least_le [of "?ret w" m] by (auto intro: le_imp_less_Suc)
    qed
    with u show ?thesis by blast
  qed
  have "tvars t \<inter> dom (map_of \<sigma>) \<subseteq> ?S"
    using apply_d_returns_vars [OF assms] by blast
  then obtain r' where r': "apply_subst \<sigma> t = Some r'"
    using apply_subst_bounded [of ?S \<sigma> ?rk t] step by blast
  then have "apply_d (max d (length \<sigma>)) \<sigma> t = Some r'" "apply_d (max d (length \<sigma>)) \<sigma> t = Some r"
    using assms by (auto simp: apply_subst_def intro: apply_d_mono)
  with r' show ?thesis by simp
qed

lemma acyclic_apply_returns:
  assumes "acyclic_subst \<sigma>"
  shows "\<exists>r. apply_subst \<sigma> t = Some r"
proof -
  from assms obtain rk where rk: "ranked rk \<sigma>" by (auto simp: acyclic_subst_def)
  show ?thesis
  proof (rule apply_subst_bounded [of "dom (map_of \<sigma>)" \<sigma> rk])
    fix v assume "v \<in> dom (map_of \<sigma>)"
    then obtain u where "map_of \<sigma> v = Some u" by auto
    with rk show "\<exists>u. map_of \<sigma> v = Some u
        \<and> (\<forall>w \<in> tvars u \<inter> dom (map_of \<sigma>). w \<in> dom (map_of \<sigma>) \<and> rk w < rk v)"
      by (auto simp: ranked_def)
  qed auto
qed

section \<open>The instance of a type\<close>

lemma apply_inst:
  assumes acyclic: "acyclic_subst \<sigma>"
  shows "apply_subst \<sigma> t = Some (inst \<sigma> t)"
proof -
  have "apply_d (length \<sigma>) \<sigma> (TVar v) = Some (the (apply_subst \<sigma> (TVar v)))" for v
    using acyclic_apply_returns [OF acyclic, of "TVar v"] by (auto simp: apply_subst_def)
  then show ?thesis
    unfolding apply_subst_def inst_def by (intro apply_d_subst) (simp add: apply_subst_def)
qed

lemma inst_var:
  assumes acyclic: "acyclic_subst \<sigma>"
  shows "inst \<sigma> (TVar v) = (case map_of \<sigma> v of None \<Rightarrow> TVar v | Some u \<Rightarrow> inst \<sigma> u)"
proof (cases "map_of \<sigma> v")
  case None
  then have "apply_subst \<sigma> (TVar v) = Some (TVar v)"
    by (simp add: apply_subst_def apply_d_var subst_get_def)
  with None show ?thesis by (simp add: apply_inst [OF acyclic])
next
  case (Some u)
  then obtain n where n: "length \<sigma> = Suc n" by (cases \<sigma>) auto
  have "apply_d n \<sigma> u = Some (inst \<sigma> (TVar v))"
    using apply_inst [OF acyclic, of "TVar v"] Some n by (simp add: apply_subst_def apply_d_var subst_get_def)
  from apply_d_exact [OF this] Some show ?thesis by (simp add: apply_inst [OF acyclic])
qed

lemma inst_hom: "inst \<sigma> t = subst_ty (\<lambda>v. inst \<sigma> (TVar v)) t"
  by (simp add: inst_def)

lemma tvars_inst_unbound:
  assumes acyclic: "acyclic_subst \<sigma>"
  shows "tvars (inst \<sigma> t) \<inter> dom (map_of \<sigma>) = {}"
proof -
  from acyclic obtain rk where rk: "ranked rk \<sigma>" by (auto simp: acyclic_subst_def)
  have "tvars (inst \<sigma> (TVar v)) \<inter> dom (map_of \<sigma>) = {}" for v
  proof (induction "rk v" arbitrary: v rule: less_induct)
    case less
    show ?case
    proof (cases "map_of \<sigma> v")
      case None
      then show ?thesis by (auto simp: inst_var [OF acyclic])
    next
      case (Some u)
      have "tvars (inst \<sigma> u) = (\<Union>w \<in> tvars u. tvars (inst \<sigma> (TVar w)))"
        by (subst inst_hom) (simp add: tvars_subst_ty)
      moreover have "rk w < rk v" if "w \<in> tvars u" for w
        using rk Some that by (auto simp: ranked_def)
      ultimately show ?thesis using less Some by (force simp: inst_var [OF acyclic])
    qed
  qed
  then show ?thesis by (subst inst_hom) (auto simp: tvars_subst_ty)
qed

lemma inst_unbound:
  assumes acyclic: "acyclic_subst \<sigma>"
    and "tvars t \<inter> dom (map_of \<sigma>) = {}"
  shows "inst \<sigma> t = t"
  using assms(2) by (subst inst_hom, intro subst_ty_ident) (auto simp: inst_var [OF acyclic] split: option.splits)

lemma inst_inst:
  assumes acyclic: "acyclic_subst \<sigma>"
  shows "inst \<sigma> (inst \<sigma> t) = inst \<sigma> t"
  using assms tvars_inst_unbound [OF assms] by (rule inst_unbound)

lemma tvars_inst:
  assumes acyclic: "acyclic_subst \<sigma>"
  shows "tvars (inst \<sigma> t) \<subseteq> tvars t \<union> svars \<sigma>"
proof -
  from acyclic obtain rk where rk: "ranked rk \<sigma>" by (auto simp: acyclic_subst_def)
  have "tvars (inst \<sigma> (TVar v)) \<subseteq> insert v (svars \<sigma>)" for v
  proof (induction "rk v" arbitrary: v rule: less_induct)
    case less
    show ?case
    proof (cases "map_of \<sigma> v")
      case None
      then show ?thesis by (auto simp: inst_var [OF acyclic])
    next
      case (Some u)
      have u: "tvars u \<subseteq> svars \<sigma>" using Some by (auto simp: svars_def ran_def)
      have "tvars (inst \<sigma> u) = (\<Union>w \<in> tvars u. tvars (inst \<sigma> (TVar w)))"
        by (subst inst_hom) (simp add: tvars_subst_ty)
      moreover have "rk w < rk v" if "w \<in> tvars u" for w
        using rk Some that by (auto simp: ranked_def)
      ultimately show ?thesis using less Some u by (force simp: inst_var [OF acyclic])
    qed
  qed
  then show ?thesis by (subst inst_hom) (auto simp: tvars_subst_ty)
qed

text \<open>A larger acyclic substitution refines a smaller one.\<close>

lemma inst_extends:
  assumes acyclic: "acyclic_subst \<sigma>" and acyclic': "acyclic_subst \<sigma>'"
    and le: "map_of \<sigma> \<subseteq>\<^sub>m map_of \<sigma>'"
  shows "inst \<sigma>' (inst \<sigma> t) = inst \<sigma>' t"
proof -
  from acyclic obtain rk where rk: "ranked rk \<sigma>" by (auto simp: acyclic_subst_def)
  have "inst \<sigma>' (inst \<sigma> (TVar v)) = inst \<sigma>' (TVar v)" for v
  proof (induction "rk v" arbitrary: v rule: less_induct)
    case less
    show ?case
    proof (cases "map_of \<sigma> v")
      case None
      then show ?thesis by (simp add: inst_var [OF acyclic])
    next
      case (Some u)
      have "inst \<sigma>' (inst \<sigma> (TVar w)) = inst \<sigma>' (TVar w)" if "w \<in> tvars u" for w
        using rk Some that less by (auto simp: ranked_def)
      then have "subst_ty (\<lambda>w. inst \<sigma>' (inst \<sigma> (TVar w))) u = inst \<sigma>' u"
        by (subst inst_hom [of \<sigma>'], intro subst_ty_cong) simp
      moreover have "map_of \<sigma>' v = Some u" using le Some by (force simp: map_le_def)
      moreover have "inst \<sigma>' (inst \<sigma> u) = subst_ty (\<lambda>w. inst \<sigma>' (inst \<sigma> (TVar w))) u"
        by (subst inst_hom [of \<sigma>], subst inst_hom [of \<sigma>'])
          (simp add: subst_ty_comp inst_hom [of \<sigma>' "inst \<sigma> _", symmetric])
      ultimately show ?thesis using Some by (simp add: inst_var [OF acyclic] inst_var [OF acyclic'])
    qed
  qed
  then show ?thesis
    by (subst inst_hom [of \<sigma>], subst inst_hom [of \<sigma>'], subst inst_hom [of \<sigma>' t])
      (simp add: subst_ty_comp inst_hom [of \<sigma>' "inst \<sigma> _", symmetric])
qed

text \<open>Binding an unbound variable to a resolved type without that variable.\<close>

lemma map_of_extend [simp]: "map_of (extend \<sigma> v u) = (map_of \<sigma>)(v \<mapsto> u)"
  by (simp add: extend_def update_conv')

lemma extend_acyclic:
  assumes "acyclic_subst \<sigma>" "map_of \<sigma> v = None" "v \<notin> tvars u"
    and u: "tvars u \<inter> dom (map_of \<sigma>) = {}"
  shows "acyclic_subst (extend \<sigma> v u)"
proof -
  from assms obtain rk where rk: "ranked rk \<sigma>" by (auto simp: acyclic_subst_def)
  let ?rk = "\<lambda>w. if w = v then 1 else if map_of \<sigma> w = None then 0 else rk w + 2"
  have "ranked ?rk (extend \<sigma> v u)"
    using rk assms by (fastforce simp: ranked_def)
  then show ?thesis by (auto simp: acyclic_subst_def)
qed

lemma inst_extend:
  assumes acyclic: "acyclic_subst \<sigma>" and v: "map_of \<sigma> v = None" "v \<notin> tvars u"
    and u: "tvars u \<inter> dom (map_of \<sigma>) = {}"
  shows "inst (extend \<sigma> v u) t = subst_ty (TVar(v := u)) (inst \<sigma> t)"
proof -
  let ?\<sigma>' = "extend \<sigma> v u"
  have acyclic': "acyclic_subst ?\<sigma>'" by (rule extend_acyclic [OF assms])
  have le: "map_of \<sigma> \<subseteq>\<^sub>m map_of ?\<sigma>'" using v by (auto simp: map_le_def)
  have u': "inst ?\<sigma>' u = u" using u v(2) by (intro inst_unbound [OF acyclic']) auto
  have var: "inst ?\<sigma>' (TVar w) = (TVar(v := u)) w" if "w \<in> tvars (inst \<sigma> t)" for w
    using tvars_inst_unbound [OF acyclic, of t] that u'
    by (auto simp: inst_var [OF acyclic'] split: option.splits)
  have "inst ?\<sigma>' t = inst ?\<sigma>' (inst \<sigma> t)" by (rule inst_extends [OF acyclic acyclic' le, symmetric])
  also have "\<dots> = subst_ty (TVar(v := u)) (inst \<sigma> t)"
    by (subst inst_hom) (rule subst_ty_cong [OF var])
  finally show ?thesis .
qed

end
