(* ===== verification/Infer_Unify.thy ===== *)
theory Infer_Unify
  imports Infer_Sound
begin

text \<open>
  Correctness of \<open>unify\<close>: what it does to the substitution on every path, that it finds a
  unifier (up to \<open>Never\<close> and the variadic parameters of functions, which it does not
  compare), that it finds a most general one whenever there is one, and that it returns.
\<close>

section \<open>Compatible types\<close>

text \<open>
  Equality up to what \<open>unify\<close> leaves uncompared: \<open>Never\<close> matches anything, and the
  \<open>*args\<close> and \<open>**kwargs\<close> types of two functions are not looked at.
\<close>

inductive ty_compat :: "ty \<Rightarrow> ty \<Rightarrow> bool" where
  compat_refl [simp, intro]: "ty_compat t t"
| compat_never1 [simp, intro]: "ty_compat TNever t"
| compat_never2 [simp, intro]: "ty_compat t TNever"
| compat_tuple: "list_all2 ty_compat as bs \<Longrightarrow> ty_compat (TTuple as) (TTuple bs)"
| compat_list: "ty_compat a b \<Longrightarrow> ty_compat (TList a) (TList b)"
| compat_set: "ty_compat a b \<Longrightarrow> ty_compat (TSet a) (TSet b)"
| compat_ref: "ty_compat a b \<Longrightarrow> ty_compat (TRef a) (TRef b)"
| compat_array: "ty_compat a b \<Longrightarrow> ty_compat (TArray a n) (TArray b n)"
| compat_dict: "ty_compat a b \<Longrightarrow> ty_compat a' b' \<Longrightarrow> ty_compat (TDict a a') (TDict b b')"
| compat_record: "map fst fs = map fst gs \<Longrightarrow> list_all2 ty_compat (map snd fs) (map snd gs)
    \<Longrightarrow> ty_compat (TRecord (Record fs)) (TRecord (Record gs))"
| compat_fn: "list_all2 ty_compat ps ps' \<Longrightarrow> map fst ns = map fst ns'
    \<Longrightarrow> list_all2 ty_compat (map snd ns) (map snd ns') \<Longrightarrow> ty_compat r r'
    \<Longrightarrow> ty_compat (TFn (FnTy ps ns vp vk r)) (TFn (FnTy ps' ns' vp' vk' r'))"
| compat_adt: "list_all2 ty_compat as bs \<Longrightarrow> ty_compat (TAdt i as) (TAdt i bs)"
| compat_alias: "list_all2 ty_compat as bs \<Longrightarrow> ty_compat (TAlias i as) (TAlias i bs)"

lemma list_all2_map_subst:
  "list_all2 (\<lambda>a b. ty_compat a b \<and> (\<forall>\<theta>. ty_compat (subst_ty \<theta> a) (subst_ty \<theta> b))) as bs
    \<Longrightarrow> list_all2 ty_compat (map (subst_ty \<theta>) as) (map (subst_ty \<theta>) bs)"
  by (induction rule: list_all2_induct) auto

lemma compat_subst: "ty_compat a b \<Longrightarrow> ty_compat (subst_ty \<theta> a) (subst_ty \<theta> b)"
proof (induction arbitrary: \<theta> rule: ty_compat.induct)
  case (compat_record fs gs)
  have "list_all2 ty_compat (map snd (map (map_prod id (subst_ty \<theta>)) fs))
      (map snd (map (map_prod id (subst_ty \<theta>)) gs))"
    using list_all2_map_subst [OF compat_record(2), of \<theta>] by (simp add: comp_def)
  moreover have "map fst (map (map_prod id (subst_ty \<theta>)) fs)
      = map fst (map (map_prod id (subst_ty \<theta>)) gs)"
    using compat_record(1) by (simp add: comp_def)
  ultimately show ?case by (simp add: ty_compat.compat_record)
next
  case (compat_fn ps ps' ns ns' r r' vp vk vp' vk')
  have "list_all2 ty_compat (map snd (map (map_prod id (subst_ty \<theta>)) ns))
      (map snd (map (map_prod id (subst_ty \<theta>)) ns'))"
    using compat_fn.IH(2) [THEN list_all2_map_subst, of \<theta>] by (simp add: comp_def)
  moreover have "map fst (map (map_prod id (subst_ty \<theta>)) ns)
      = map fst (map (map_prod id (subst_ty \<theta>)) ns')"
    using compat_fn.hyps by (simp add: comp_def)
  moreover have "list_all2 ty_compat (map (subst_ty \<theta>) ps) (map (subst_ty \<theta>) ps')"
    by (rule list_all2_map_subst [OF compat_fn.IH(1)])
  ultimately show ?case using compat_fn.IH by (simp add: ty_compat.compat_fn)
qed (auto intro!: ty_compat.intros list_all2_map_subst)

section \<open>The contract of a unification step\<close>

text \<open>The substitution a call leaves, on success and on failure.\<close>

fun left_subst :: "type_error \<times> subst + subst \<Rightarrow> subst" where
  "left_subst (Inl (e, \<sigma>)) = \<sigma>"
| "left_subst (Inr \<sigma>) = \<sigma>"

definition grows :: "u32 set \<Rightarrow> subst \<Rightarrow> subst \<Rightarrow> bool" where
  "grows V \<sigma> \<sigma>' \<longleftrightarrow> acyclic_subst \<sigma>' \<and> map_of \<sigma> \<subseteq>\<^sub>m map_of \<sigma>' \<and> svars \<sigma>' \<subseteq> svars \<sigma> \<union> V"

definition unified :: "subst \<Rightarrow> ty list \<Rightarrow> ty list \<Rightarrow> bool" where
  "unified \<sigma> as bs \<longleftrightarrow> list_all2 (\<lambda>a b. ty_compat (inst \<sigma> a) (inst \<sigma> b)) as bs"

abbreviation all_vars :: "ty list \<Rightarrow> ty list \<Rightarrow> u32 set" where
  "all_vars as bs \<equiv> (\<Union>t \<in> set as \<union> set bs. tvars t)"

definition post :: "subst \<Rightarrow> ty list \<Rightarrow> ty list \<Rightarrow> type_error \<times> subst + subst \<Rightarrow> bool" where
  "post \<sigma> as bs r \<longleftrightarrow>
     grows (all_vars as bs) \<sigma> (left_subst r) \<and> (\<forall>\<sigma>'. r = Inr \<sigma>' \<longrightarrow> unified \<sigma>' as bs)"

lemma grows_refl: "acyclic_subst \<sigma> \<Longrightarrow> grows V \<sigma> \<sigma>"
  by (simp add: grows_def)

lemma grows_trans: "grows V \<sigma> \<sigma>1 \<Longrightarrow> grows W \<sigma>1 \<sigma>2 \<Longrightarrow> grows (V \<union> W) \<sigma> \<sigma>2"
  by (auto simp: grows_def intro: map_le_trans)

lemma grows_mono: "grows V \<sigma> \<sigma>' \<Longrightarrow> V \<subseteq> W \<Longrightarrow> grows W \<sigma> \<sigma>'"
  by (auto simp: grows_def)

lemma unified_grows:
  assumes "acyclic_subst \<sigma>" "grows V \<sigma> \<sigma>'" "unified \<sigma> as bs"
  shows "unified \<sigma>' as bs"
proof -
  have "ty_compat (inst \<sigma>' a) (inst \<sigma>' b)" if "ty_compat (inst \<sigma> a) (inst \<sigma> b)" for a b
    using compat_subst [OF that] inst_extends [OF assms(1), of \<sigma>'] assms(2)
    unfolding grows_def by (metis inst_hom)
  with assms(3) show ?thesis unfolding unified_def by (auto elim: list_all2_mono)
qed

lemma post_refl: "acyclic_subst \<sigma> \<Longrightarrow> post \<sigma> [a] [a] (Inr \<sigma>)"
  by (simp add: post_def grows_refl unified_def)

lemma post_Nil: "acyclic_subst \<sigma> \<Longrightarrow> post \<sigma> [] [] (Inr \<sigma>)"
  by (simp add: post_def grows_refl unified_def)

lemma post_error: "acyclic_subst \<sigma> \<Longrightarrow> post \<sigma> as bs (Inl (e, \<sigma>))"
  by (simp add: post_def grows_refl)

lemma post_bind:
  assumes ac: "acyclic_subst \<sigma>" and r: "bind_o q f = Some r"
    and q: "\<And>r. q = Some r \<Longrightarrow> post \<sigma> as bs r"
    and f: "\<And>\<sigma>1 r. acyclic_subst \<sigma>1 \<Longrightarrow> f \<sigma>1 = Some r \<Longrightarrow> post \<sigma>1 as' bs' r"
    and len: "length as = length bs"
  shows "post \<sigma> (as @ as') (bs @ bs') r"
proof (cases "q")
  case None
  with r show ?thesis by simp
next
  case (Some p)
  note p = q [OF Some]
  show ?thesis
  proof (cases p)
    case (Inl e)
    with r Some p show ?thesis
      by (cases e) (auto simp: post_def elim!: grows_mono)
  next
    case (Inr \<sigma>1)
    with p have g1: "grows (all_vars as bs) \<sigma> \<sigma>1" and u1: "unified \<sigma>1 as bs"
      by (auto simp: post_def)
    then have ac1: "acyclic_subst \<sigma>1" by (simp add: grows_def)
    from r Some Inr have "post \<sigma>1 as' bs' r" by (intro f [OF ac1]) simp
    then have g2: "grows (all_vars as' bs') \<sigma>1 (left_subst r)"
      and u2: "\<And>\<sigma>'. r = Inr \<sigma>' \<Longrightarrow> unified \<sigma>' as' bs'"
      by (auto simp: post_def)
    have "grows (all_vars (as @ as') (bs @ bs')) \<sigma> (left_subst r)"
      by (rule grows_mono [OF grows_trans [OF g1 g2]]) auto
    moreover have "unified \<sigma>' (as @ as') (bs @ bs')" if "r = Inr \<sigma>'" for \<sigma>'
      using u2 [OF that] unified_grows [OF ac1 _ u1, of "all_vars as' bs'" \<sigma>'] g2 that len
      by (auto simp: unified_def list_all2_append)
    ultimately show ?thesis by (simp add: post_def)
  qed
qed

text \<open>From the components of two types to the types.\<close>

lemma post_lift:
  assumes "post \<sigma> as bs r" "all_vars as bs \<subseteq> all_vars [a] [b]"
    and "\<And>\<sigma>'. unified \<sigma>' as bs \<Longrightarrow> ty_compat (inst \<sigma>' a) (inst \<sigma>' b)"
  shows "post \<sigma> [a] [b] r"
  using assms grows_mono [OF _ assms(2)] by (simp add: post_def unified_def)

lemma inst_hom_simps [simp]:
  "inst \<sigma> TBool = TBool" "inst \<sigma> TInt = TInt" "inst \<sigma> TFloat = TFloat" "inst \<sigma> TImag = TImag"
  "inst \<sigma> TStr = TStr" "inst \<sigma> TBytes = TBytes" "inst \<sigma> TNone = TNone" "inst \<sigma> TNever = TNever"
  "inst \<sigma> (TTuple as) = TTuple (map (inst \<sigma>) as)"
  "inst \<sigma> (TList a) = TList (inst \<sigma> a)"
  "inst \<sigma> (TSet a) = TSet (inst \<sigma> a)"
  "inst \<sigma> (TDict a b) = TDict (inst \<sigma> a) (inst \<sigma> b)"
  "inst \<sigma> (TRecord r) = TRecord (map_record_ty (inst \<sigma>) r)"
  "inst \<sigma> (TFn f) = TFn (map_fn_ty (inst \<sigma>) f)"
  "inst \<sigma> (TAdt i as) = TAdt i (map (inst \<sigma>) as)"
  "inst \<sigma> (TAlias i as) = TAlias i (map (inst \<sigma>) as)"
  "inst \<sigma> (TGeneric g) = TGeneric g"
  "inst \<sigma> (TRef a) = TRef (inst \<sigma> a)"
  "inst \<sigma> (TIntN w) = TIntN w"
  "inst \<sigma> (TArray a n) = TArray (inst \<sigma> a) n"
  by (simp_all add: inst_def cong: map_cong record_ty.map_cong fn_ty.map_cong)

lemma unify_args_pair: "unify_args rec [a, c] [b, d] \<sigma> = bind_o (rec a b \<sigma>) (rec c d)"
  by (auto simp: unify_args_def bind_o_def split: option.splits sum.splits)

text \<open>Any implementation of the recursive call that meets the contract.\<close>

locale unify_call =
  fixes rec :: "ty \<Rightarrow> ty \<Rightarrow> subst \<Rightarrow> unify_result"
  assumes rec_post: "acyclic_subst \<sigma> \<Longrightarrow> rec a b \<sigma> = Some r \<Longrightarrow> post \<sigma> [a] [b] r"
begin

lemma unify_args_post:
  assumes "length as = length bs" "acyclic_subst \<sigma>" "unify_args rec as bs \<sigma> = Some r"
  shows "post \<sigma> as bs r"
  using assms
proof (induction as bs arbitrary: \<sigma> r rule: list_induct2)
  case Nil
  then show ?case by (auto simp: unify_args_def post_Nil)
next
  case (Cons a as b bs)
  have "post \<sigma> ([a] @ as) ([b] @ bs) r"
  proof (rule post_bind [OF Cons.prems(1)])
    show "bind_o (rec a b \<sigma>) (unify_args rec as bs) = Some r"
      using Cons.prems(2) by (simp add: unify_args_def [abs_def])
  qed (use Cons rec_post in auto)
  then show ?case by simp
qed

lemma unify_named_post:
  assumes "length as = length bs" "acyclic_subst \<sigma>" "unify_named rec sp as bs \<sigma> = Some r"
  shows "post \<sigma> (map snd as) (map snd bs) r \<and> (\<forall>\<sigma>'. r = Inr \<sigma>' \<longrightarrow> map fst as = map fst bs)"
  using assms
proof (induction as bs arbitrary: \<sigma> r rule: list_induct2)
  case Nil
  then show ?case by (auto simp: unify_named_def post_Nil)
next
  case (Cons a as b bs)
  obtain n x m y where ab: "a = (n, x)" "b = (m, y)" by (cases a; cases b)
  show ?case
  proof (cases "n = m")
    case False
    with Cons.prems show ?thesis by (auto simp: ab unify_named_def intro: post_error)
  next
    case True
    have r: "bind_o (rec x y \<sigma>) (unify_named rec sp as bs) = Some r"
      using Cons.prems(2) True by (simp add: ab unify_named_def [abs_def])
    have "post \<sigma> ([x] @ map snd as) ([y] @ map snd bs) r"
      by (rule post_bind [OF Cons.prems(1) r]) (use Cons rec_post in auto)
    moreover have "map fst as = map fst bs" if "r = Inr \<sigma>'" for \<sigma>'
    proof -
      from r that obtain \<sigma>1 where s: "rec x y \<sigma> = Some (Inr \<sigma>1)" "unify_named rec sp as bs \<sigma>1 = Some r"
        by (auto elim: bind_o_InrD)
      with rec_post [OF Cons.prems(1) s(1)] have "acyclic_subst \<sigma>1"
        by (simp add: post_def grows_def)
      with Cons.IH s(2) that show ?thesis by blast
    qed
    ultimately show ?thesis using True by (auto simp: ab)
  qed
qed

lemma unify_fn_post:
  assumes ac: "acyclic_subst \<sigma>" and r: "unify_fn rec sp f g \<sigma> = Some r"
  shows "post \<sigma> [TFn f] [TFn g] r"
proof -
  obtain ps ns vp vk t ps' ns' vp' vk' t' where
    f: "f = FnTy ps ns vp vk t" and g: "g = FnTy ps' ns' vp' vk' t'"
    by (cases f; cases g)
  show ?thesis
  proof (cases "length ps = length ps' \<and> length ns = length ns'")
    case False
    with r ac show ?thesis by (auto simp: unify_fn_def f g intro: post_error split: if_splits)
  next
    case True
    let ?rest = "\<lambda>\<sigma>1. bind_o (unify_named rec sp ns ns' \<sigma>1) (rec t t')"
    have r': "bind_o (unify_args rec ps ps' \<sigma>) ?rest = Some r"
      using r True by (simp add: unify_fn_def f g)
    have "post \<sigma>1 (map snd ns @ [t]) (map snd ns' @ [t']) q"
      if "acyclic_subst \<sigma>1" "?rest \<sigma>1 = Some q" for \<sigma>1 q
      by (rule post_bind [OF that]) (use True unify_named_post rec_post that(1) in auto)
    then have p: "post \<sigma> (ps @ map snd ns @ [t]) (ps' @ map snd ns' @ [t']) r"
      by (intro post_bind [OF ac r']) (use True unify_args_post ac in auto)
    have names: "map fst ns = map fst ns'" if rr: "r = Inr \<sigma>'" for \<sigma>'
    proof -
      obtain \<sigma>1 where 1: "unify_args rec ps ps' \<sigma> = Some (Inr \<sigma>1)" "?rest \<sigma>1 = Some (Inr \<sigma>')"
        using r' rr by (auto elim: bind_o_InrD)
      then obtain \<sigma>2 where 2: "unify_named rec sp ns ns' \<sigma>1 = Some (Inr \<sigma>2)"
        by (auto elim: bind_o_InrD)
      from unify_args_post [OF _ ac 1(1)] True have "acyclic_subst \<sigma>1"
        by (simp add: post_def grows_def)
      with unify_named_post [OF _ _ 2] True show ?thesis by blast
    qed
    have vars: "all_vars (ps @ map snd ns @ [t]) (ps' @ map snd ns' @ [t'])
        \<subseteq> all_vars [TFn f] [TFn g]"
      unfolding f g by (fastforce simp: ty_simps)
    have "ty_compat (inst \<sigma>' (TFn f)) (inst \<sigma>' (TFn g))"
      if rr: "r = Inr \<sigma>'" and u: "unified \<sigma>' (ps @ map snd ns @ [t]) (ps' @ map snd ns' @ [t'])" for \<sigma>'
      using u names [OF rr] True
      by (auto simp: f g unified_def list_all2_append list.rel_map comp_def intro!: compat_fn)
    with p grows_mono [OF _ vars] show ?thesis
      by (simp add: post_def) (simp add: unified_def)
  qed
qed

lemma unify_heads_post:
  assumes ac: "acyclic_subst \<sigma>" and r: "unify_heads rec a b sp \<sigma> = Some r"
  shows "post \<sigma> [a] [b] r"
proof -
  have args: "post \<sigma> [a] [b] r"
    if "unify_args rec as bs \<sigma> = Some r" "length as = length bs"
      "all_vars as bs \<subseteq> all_vars [a] [b]"
      "\<And>\<sigma>'. unified \<sigma>' as bs \<Longrightarrow> ty_compat (inst \<sigma>' a) (inst \<sigma>' b)" for as bs
    by (rule post_lift [OF unify_args_post [OF that(2) ac that(1)] that(3,4)])
  have one: "post \<sigma> [a] [b] r"
    if "rec x y \<sigma> = Some r" "all_vars [x] [y] \<subseteq> all_vars [a] [b]"
      "\<And>\<sigma>'. unified \<sigma>' [x] [y] \<Longrightarrow> ty_compat (inst \<sigma>' a) (inst \<sigma>' b)" for x y
    by (rule post_lift [OF rec_post [OF ac that(1)] that(2,3)])
  have miss: "mismatch a b sp \<sigma> = Some r \<Longrightarrow> post \<sigma> [a] [b] r"
    using ac by (auto simp: mismatch_def intro: post_error)
  show ?thesis
  proof (cases a)
    case (TTuple as)
    show ?thesis
    proof (cases "\<exists>bs. b = TTuple bs \<and> length as = length bs")
      case True
      then obtain bs where bs: "b = TTuple bs" "length as = length bs" by blast
      with r TTuple have u: "unify_args rec as bs \<sigma> = Some r" by (simp add: unify_heads_def)
      show ?thesis using TTuple bs
        by (intro args [OF u bs(2)]) (auto simp: unified_def list.rel_map intro!: compat_tuple)
    next
      case False
      with r TTuple have "mismatch a b sp \<sigma> = Some r"
        by (auto simp: unify_heads_def split: ty.splits if_splits)
      then show ?thesis by (rule miss)
    qed
  next
    case (TAdt i as)
    show ?thesis
    proof (cases "\<exists>bs. b = TAdt i bs \<and> length as = length bs")
      case True
      then obtain bs where bs: "b = TAdt i bs" "length as = length bs" by blast
      with r TAdt have u: "unify_args rec as bs \<sigma> = Some r" by (simp add: unify_heads_def)
      show ?thesis using TAdt bs
        by (intro args [OF u bs(2)]) (auto simp: unified_def list.rel_map intro!: compat_adt)
    next
      case False
      with r TAdt have "mismatch a b sp \<sigma> = Some r"
        by (auto simp: unify_heads_def split: ty.splits if_splits)
      then show ?thesis by (rule miss)
    qed
  next
    case (TAlias i as)
    show ?thesis
    proof (cases "\<exists>bs. b = TAlias i bs \<and> length as = length bs")
      case True
      then obtain bs where bs: "b = TAlias i bs" "length as = length bs" by blast
      with r TAlias have u: "unify_args rec as bs \<sigma> = Some r" by (simp add: unify_heads_def)
      show ?thesis using TAlias bs
        by (intro args [OF u bs(2)]) (auto simp: unified_def list.rel_map intro!: compat_alias)
    next
      case False
      with r TAlias have "mismatch a b sp \<sigma> = Some r"
        by (auto simp: unify_heads_def split: ty.splits if_splits)
      then show ?thesis by (rule miss)
    qed
  next
    case (TRecord q)
    obtain fs where q: "q = Record fs" by (cases q)
    show ?thesis
    proof (cases "\<exists>gs. b = TRecord (Record gs) \<and> map fst fs = map fst gs")
      case True
      then obtain gs where gs: "b = TRecord (Record gs)" "map fst fs = map fst gs" by blast
      with r TRecord q have u: "unify_args rec (map snd fs) (map snd gs) \<sigma> = Some r"
        by (simp add: unify_heads_def)
      have "length fs = length gs" using gs(2) by (metis length_map)
      then show ?thesis using TRecord q gs
        by (intro args [OF u]) (auto simp: unified_def list.rel_map comp_def
            intro!: compat_record)
    next
      case False
      with r TRecord q have "mismatch a b sp \<sigma> = Some r"
        by (cases b; simp add: unify_heads_def split: if_splits; metis record_ty.collapse)
      then show ?thesis by (rule miss)
    qed
  next
    case (TDict x y)
    show ?thesis
    proof (cases "\<exists>x' y'. b = TDict x' y'")
      case True
      then obtain x' y' where b: "b = TDict x' y'" by blast
      with r TDict have u: "unify_args rec [x, y] [x', y'] \<sigma> = Some r"
        by (simp add: unify_heads_def unify_args_pair)
      show ?thesis using TDict b
        by (intro args [OF u]) (auto simp: unified_def intro!: compat_dict)
    next
      case False
      with r TDict have "mismatch a b sp \<sigma> = Some r"
        by (auto simp: unify_heads_def split: ty.splits)
      then show ?thesis by (rule miss)
    qed
  next
    case (TList x)
    show ?thesis
    proof (cases "\<exists>y. b = TList y")
      case True
      then obtain y where y: "b = TList y" by blast
      with r TList have u: "rec x y \<sigma> = Some r" by (simp add: unify_heads_def)
      show ?thesis using TList y by (intro one [OF u]) (auto simp: unified_def intro!: compat_list)
    next
      case False
      with r TList have "mismatch a b sp \<sigma> = Some r" by (auto simp: unify_heads_def split: ty.splits)
      then show ?thesis by (rule miss)
    qed
  next
    case (TSet x)
    show ?thesis
    proof (cases "\<exists>y. b = TSet y")
      case True
      then obtain y where y: "b = TSet y" by blast
      with r TSet have u: "rec x y \<sigma> = Some r" by (simp add: unify_heads_def)
      show ?thesis using TSet y by (intro one [OF u]) (auto simp: unified_def intro!: compat_set)
    next
      case False
      with r TSet have "mismatch a b sp \<sigma> = Some r" by (auto simp: unify_heads_def split: ty.splits)
      then show ?thesis by (rule miss)
    qed
  next
    case (TRef x)
    show ?thesis
    proof (cases "\<exists>y. b = TRef y")
      case True
      then obtain y where y: "b = TRef y" by blast
      with r TRef have u: "rec x y \<sigma> = Some r" by (simp add: unify_heads_def)
      show ?thesis using TRef y by (intro one [OF u]) (auto simp: unified_def intro!: compat_ref)
    next
      case False
      with r TRef have "mismatch a b sp \<sigma> = Some r" by (auto simp: unify_heads_def split: ty.splits)
      then show ?thesis by (rule miss)
    qed
  next
    case (TArray x n)
    show ?thesis
    proof (cases "\<exists>y. b = TArray y n")
      case True
      then obtain y where y: "b = TArray y n" by blast
      with r TArray have u: "rec x y \<sigma> = Some r" by (simp add: unify_heads_def)
      show ?thesis using TArray y by (intro one [OF u]) (auto simp: unified_def intro!: compat_array)
    next
      case False
      with r TArray miss ac show ?thesis
        by (auto simp: unify_heads_def intro: post_error split: ty.splits if_splits)
    qed
  next
    case (TFn f)
    with r miss ac show ?thesis
      by (cases b) (auto simp: unify_heads_def intro: unify_fn_post)
  qed (use r miss ac in \<open>auto simp: unify_heads_def intro: post_refl split: if_splits\<close>)
qed

lemma unify_body_post:
  assumes ac: "acyclic_subst \<sigma>" and r: "unify_body rec t1 t2 sp \<sigma> = Some r"
  shows "post \<sigma> [t1] [t2] r"
proof -
  let ?a = "inst \<sigma> t1" and ?b = "inst \<sigma> t2"
  have bind: "post \<sigma> [TVar v] [u] r \<and> post \<sigma> [u] [TVar v] r"
    if b: "bind_var v u sp \<sigma> = Some r" and v: "TVar v = inst \<sigma> t" and u: "u = inst \<sigma> t'" for v u t t'
  proof (cases "v \<in> tvars u")
    case True
    with b ac show ?thesis by (auto simp: bind_var_def set_free_vars intro: post_error)
  next
    case False
    have vn: "map_of \<sigma> v = None" and un: "tvars u \<inter> dom (map_of \<sigma>) = {}"
      using tvars_inst_unbound [OF ac, of t] tvars_inst_unbound [OF ac, of t'] v [symmetric] u
      by auto
    from False b have r: "r = Inr (extend \<sigma> v u)" by (simp add: bind_var_def set_free_vars)
    have "map_of \<sigma> \<subseteq>\<^sub>m map_of (extend \<sigma> v u)" using vn by (auto simp: map_le_def)
    moreover have "svars (extend \<sigma> v u) \<subseteq> svars \<sigma> \<union> all_vars [TVar v] [u]"
      by (auto simp: svars_def ran_def split: if_splits)
    ultimately have "grows (all_vars [TVar v] [u]) \<sigma> (extend \<sigma> v u)"
      using extend_acyclic [OF ac vn False un] by (simp add: grows_def)
    moreover have "inst (extend \<sigma> v u) (TVar v) = u" "inst (extend \<sigma> v u) u = u"
      using inst_extend [OF ac vn False un] inst_unbound [OF ac un] vn False
      by (auto simp: inst_var [OF ac] intro!: subst_ty_ident)
    ultimately show ?thesis by (auto simp: r post_def unified_def insert_commute)
  qed
  have "post \<sigma> [?a] [?b] r"
  proof (cases "?a = TNever \<or> ?b = TNever")
    case True
    with r ac have "r = Inr \<sigma>" by (auto simp: unify_body_def apply_inst)
    then show ?thesis using ac True inst_inst [OF ac, of t1] inst_inst [OF ac, of t2]
      by (auto simp: post_def unified_def grows_refl)
  next
    case False
    then show ?thesis
      using r ac bind [of _ _ t1 t2] bind [of _ _ t2 t1] unify_heads_post [OF ac, of ?a ?b sp r]
      by (cases ?a; cases ?b)
        (auto simp: unify_body_def apply_inst post_refl split: if_splits)
  qed
  then have g: "grows (all_vars [?a] [?b]) \<sigma> (left_subst r)"
    and u: "\<And>\<sigma>'. r = Inr \<sigma>' \<Longrightarrow> unified \<sigma>' [?a] [?b]" by (auto simp: post_def)
  have "grows (all_vars [t1] [t2]) \<sigma> (left_subst r)"
    using g tvars_inst [OF ac, of t1] tvars_inst [OF ac, of t2] by (auto simp: grows_def)
  moreover have "unified \<sigma>' [t1] [t2]" if "r = Inr \<sigma>'" for \<sigma>'
    using u [OF that] g that inst_extends [OF ac, of \<sigma>'] by (simp add: unified_def grows_def)
  ultimately show ?thesis by (simp add: post_def)
qed

end

lemma unify_post:
  "acyclic_subst \<sigma> \<Longrightarrow> unify n sp t1 t2 \<sigma> = Some r \<Longrightarrow> post \<sigma> [t1] [t2] r"
proof (induction n arbitrary: t1 t2 \<sigma> r)
  case (Suc n)
  have "unify_call (unify n sp)" using Suc.IH by unfold_locales
  then show ?case using Suc.prems by (auto intro: unify_call.unify_body_post)
qed simp

interpretation unify: unify_call "unify n sp" for n sp
  using unify_post by unfold_locales

section \<open>Completeness: most general unifiers\<close>

text \<open>
  \<open>solves \<theta> \<sigma> as bs\<close>: the type substitution \<open>\<theta>\<close> makes the instances of \<open>as\<close> and \<open>bs\<close>
  equal. \<open>factors \<theta> \<sigma> \<sigma>'\<close>: going from \<open>\<sigma>\<close> to \<open>\<sigma>'\<close> commits to nothing \<open>\<theta>\<close> does not
  already say.
\<close>

definition factors :: "(u32 \<Rightarrow> ty) \<Rightarrow> subst \<Rightarrow> subst \<Rightarrow> bool" where
  "factors \<theta> \<sigma> \<sigma>' \<longleftrightarrow> (\<forall>t. subst_ty \<theta> (inst \<sigma>' t) = subst_ty \<theta> (inst \<sigma> t))"

definition solves :: "(u32 \<Rightarrow> ty) \<Rightarrow> subst \<Rightarrow> ty list \<Rightarrow> ty list \<Rightarrow> bool" where
  "solves \<theta> \<sigma> as bs \<longleftrightarrow>
     list_all2 (\<lambda>a b. subst_ty \<theta> (inst \<sigma> a) = subst_ty \<theta> (inst \<sigma> b)) as bs"

definition finds :: "(u32 \<Rightarrow> ty) \<Rightarrow> subst \<Rightarrow> type_error \<times> subst + subst \<Rightarrow> bool" where
  "finds \<theta> \<sigma> r \<longleftrightarrow> (\<exists>\<sigma>'. r = Inr \<sigma>' \<and> factors \<theta> \<sigma> \<sigma>')"

lemma factors_refl [simp]: "factors \<theta> \<sigma> \<sigma>"
  by (simp add: factors_def)

lemma solves_map_iff:
  "solves \<theta> \<sigma> as bs \<longleftrightarrow>
     map (\<lambda>t. subst_ty \<theta> (inst \<sigma> t)) as = map (\<lambda>t. subst_ty \<theta> (inst \<sigma> t)) bs"
  by (auto simp: solves_def list_all2_conv_all_nth list_eq_iff_nth_eq)

lemma solves_factors: "factors \<theta> \<sigma> \<sigma>' \<Longrightarrow> solves \<theta> \<sigma> as bs \<Longrightarrow> solves \<theta> \<sigma>' as bs"
  by (simp add: factors_def solves_def)

lemma finds_bind:
  assumes r: "bind_o q f = Some r" and ac: "acyclic_subst \<sigma>"
    and q: "\<And>r. q = Some r \<Longrightarrow> post \<sigma> as bs r \<and> finds \<theta> \<sigma> r"
    and f: "\<And>\<sigma>1. acyclic_subst \<sigma>1 \<Longrightarrow> factors \<theta> \<sigma> \<sigma>1 \<Longrightarrow> f \<sigma>1 = Some r \<Longrightarrow> finds \<theta> \<sigma>1 r"
  shows "finds \<theta> \<sigma> r"
proof (cases q)
  case None
  with r show ?thesis by simp
next
  case (Some p)
  from q [OF Some] obtain \<sigma>1 where p: "p = Inr \<sigma>1" "factors \<theta> \<sigma> \<sigma>1" "acyclic_subst \<sigma>1"
    by (auto simp: finds_def post_def grows_def)
  with r Some f have "finds \<theta> \<sigma>1 r" by simp
  with p(2) show ?thesis by (auto simp: finds_def factors_def)
qed

locale unify_call_complete = unify_call +
  assumes rec_finds:
    "acyclic_subst \<sigma> \<Longrightarrow> rec a b \<sigma> = Some r \<Longrightarrow> solves \<theta> \<sigma> [a] [b] \<Longrightarrow> finds \<theta> \<sigma> r"
begin

lemma unify_args_finds:
  assumes "length as = length bs" "acyclic_subst \<sigma>" "unify_args rec as bs \<sigma> = Some r"
    "solves \<theta> \<sigma> as bs"
  shows "finds \<theta> \<sigma> r"
  using assms
proof (induction as bs arbitrary: \<sigma> r rule: list_induct2)
  case Nil
  then show ?case by (auto simp: unify_args_def finds_def)
next
  case (Cons a as b bs)
  show ?case
  proof (rule finds_bind [where as = "[a]" and bs = "[b]"])
    show "bind_o (rec a b \<sigma>) (unify_args rec as bs) = Some r"
      using Cons.prems(2) by (simp add: unify_args_def [abs_def])
    show "acyclic_subst \<sigma>" by (rule Cons.prems)
    have ab: "solves \<theta> \<sigma> [a] [b]" using Cons.prems(3) by (simp add: solves_def)
    fix q assume "rec a b \<sigma> = Some q"
    then show "post \<sigma> [a] [b] q \<and> finds \<theta> \<sigma> q"
      using rec_post rec_finds Cons.prems(1) ab by blast
  next
    have "solves \<theta> \<sigma> as bs" using Cons.prems(3) by (simp add: solves_def)
    fix \<sigma>1 assume "acyclic_subst \<sigma>1" "factors \<theta> \<sigma> \<sigma>1" "unify_args rec as bs \<sigma>1 = Some r"
    then show "finds \<theta> \<sigma>1 r"
      using \<open>solves \<theta> \<sigma> as bs\<close> by (blast intro: Cons.IH solves_factors)
  qed
qed

lemma unify_named_args:
  "length as = length bs \<Longrightarrow> map fst as = map fst bs
    \<Longrightarrow> unify_named rec sp as bs \<sigma> = unify_args rec (map snd as) (map snd bs) \<sigma>"
proof (induction as bs arbitrary: \<sigma> rule: list_induct2)
  case (Cons a as b bs)
  obtain n x m y where ab: "a = (n, x)" "b = (m, y)" by (cases a; cases b)
  have "unify_named rec sp as bs = unify_args rec (map snd as) (map snd bs)"
    using Cons by (auto simp: fun_eq_iff)
  with Cons.prems show ?case by (simp add: ab unify_named_def [abs_def] unify_args_def [abs_def])
qed (simp add: unify_named_def unify_args_def)

lemma unify_fn_finds:
  assumes ac: "acyclic_subst \<sigma>"
    and r: "unify_fn rec sp (FnTy ps ns vp vk t) (FnTy ps' ns' vp' vk' t') \<sigma> = Some r"
    and names: "map fst ns = map fst ns'"
    and parts: "solves \<theta> \<sigma> ps ps'" "solves \<theta> \<sigma> (map snd ns) (map snd ns')" "solves \<theta> \<sigma> [t] [t']"
  shows "finds \<theta> \<sigma> r"
proof -
  have len: "length ps = length ps'" "length ns = length ns'"
    using parts(1) names by (auto simp: solves_def dest: list_all2_lengthD map_eq_imp_length_eq)
  have len2: "length (map snd ns) = length (map snd ns')" using len(2) by simp
  have named: "unify_named rec sp ns ns' = unify_args rec (map snd ns) (map snd ns')"
    by (rule ext) (rule unify_named_args [OF len(2) names])
  have r': "bind_o (unify_args rec ps ps' \<sigma>)
      (\<lambda>\<sigma>1. bind_o (unify_args rec (map snd ns) (map snd ns') \<sigma>1) (rec t t')) = Some r"
    using r len by (simp add: unify_fn_def named)
  show ?thesis
  proof (rule finds_bind [OF r' ac])
    show "post \<sigma> ps ps' q \<and> finds \<theta> \<sigma> q" if "unify_args rec ps ps' \<sigma> = Some q" for q
      using unify_args_post unify_args_finds that len(1) ac parts(1) by blast
    fix \<sigma>1
    assume 1: "acyclic_subst \<sigma>1" "factors \<theta> \<sigma> \<sigma>1"
      "bind_o (unify_args rec (map snd ns) (map snd ns') \<sigma>1) (rec t t') = Some r"
    show "finds \<theta> \<sigma>1 r"
    proof (rule finds_bind [OF 1(3,1)])
      show "post \<sigma>1 (map snd ns) (map snd ns') q \<and> finds \<theta> \<sigma>1 q"
        if "unify_args rec (map snd ns) (map snd ns') \<sigma>1 = Some q" for q
        using unify_args_post [OF len2 1(1) that]
          unify_args_finds [OF len2 1(1) that solves_factors [OF 1(2) parts(2)]] by blast
      show "finds \<theta> \<sigma>2 r" if "acyclic_subst \<sigma>2" "factors \<theta> \<sigma>1 \<sigma>2" "rec t t' \<sigma>2 = Some r" for \<sigma>2
        using rec_finds that solves_factors [OF that(2) solves_factors [OF 1(2) parts(3)]] by blast
    qed
  qed
qed

lemma unify_heads_finds:
  assumes ac: "acyclic_subst \<sigma>" and r: "unify_heads rec a b sp \<sigma> = Some r"
    and eq: "solves \<theta> \<sigma> [a] [b]"
    and nv: "\<And>v. a \<noteq> TVar v" "\<And>v. b \<noteq> TVar v" "a \<noteq> TNever"
  shows "finds \<theta> \<sigma> r"
proof -
  show ?thesis
  proof (cases a)
    case (TTuple as)
    with eq nv obtain bs where b: "b = TTuple bs" and m: "map (\<lambda>t. subst_ty \<theta> (inst \<sigma> t)) as
        = map (\<lambda>t. subst_ty \<theta> (inst \<sigma> t)) bs"
      by (cases b) (auto simp: solves_def comp_def)
    from m have s: "solves \<theta> \<sigma> as bs" by (simp add: solves_map_iff)
    have len: "length as = length bs" using s by (auto simp: solves_def dest: list_all2_lengthD)
    with r TTuple b have "unify_args rec as bs \<sigma> = Some r" by (simp add: unify_heads_def)
    from unify_args_finds [OF len ac this s] show ?thesis .
  next
    case (TAdt i as)
    with eq nv obtain bs where b: "b = TAdt i bs" and m: "map (\<lambda>t. subst_ty \<theta> (inst \<sigma> t)) as
        = map (\<lambda>t. subst_ty \<theta> (inst \<sigma> t)) bs"
      by (cases b) (auto simp: solves_def comp_def)
    from m have s: "solves \<theta> \<sigma> as bs" by (simp add: solves_map_iff)
    have len: "length as = length bs" using s by (auto simp: solves_def dest: list_all2_lengthD)
    with r TAdt b have "unify_args rec as bs \<sigma> = Some r" by (simp add: unify_heads_def)
    from unify_args_finds [OF len ac this s] show ?thesis .
  next
    case (TAlias i as)
    with eq nv obtain bs where b: "b = TAlias i bs" and m: "map (\<lambda>t. subst_ty \<theta> (inst \<sigma> t)) as
        = map (\<lambda>t. subst_ty \<theta> (inst \<sigma> t)) bs"
      by (cases b) (auto simp: solves_def comp_def)
    from m have s: "solves \<theta> \<sigma> as bs" by (simp add: solves_map_iff)
    have len: "length as = length bs" using s by (auto simp: solves_def dest: list_all2_lengthD)
    with r TAlias b have "unify_args rec as bs \<sigma> = Some r" by (simp add: unify_heads_def)
    from unify_args_finds [OF len ac this s] show ?thesis .
  next
    case (TList x)
    with eq nv obtain y where b: "b = TList y" and s: "solves \<theta> \<sigma> [x] [y]"
      by (cases b) (auto simp: solves_def)
    with r TList have "rec x y \<sigma> = Some r" by (simp add: unify_heads_def)
    from rec_finds [OF ac this s] show ?thesis .
  next
    case (TSet x)
    with eq nv obtain y where b: "b = TSet y" and s: "solves \<theta> \<sigma> [x] [y]"
      by (cases b) (auto simp: solves_def)
    with r TSet have "rec x y \<sigma> = Some r" by (simp add: unify_heads_def)
    from rec_finds [OF ac this s] show ?thesis .
  next
    case (TRef x)
    with eq nv obtain y where b: "b = TRef y" and s: "solves \<theta> \<sigma> [x] [y]"
      by (cases b) (auto simp: solves_def)
    with r TRef have "rec x y \<sigma> = Some r" by (simp add: unify_heads_def)
    from rec_finds [OF ac this s] show ?thesis .
  next
    case (TArray x n)
    with eq nv obtain y where b: "b = TArray y n" and s: "solves \<theta> \<sigma> [x] [y]"
      by (cases b) (auto simp: solves_def)
    with r TArray have "rec x y \<sigma> = Some r" by (simp add: unify_heads_def)
    from rec_finds [OF ac this s] show ?thesis .
  next
    case (TDict x x')
    with eq nv obtain y y' where b: "b = TDict y y'" and s: "solves \<theta> \<sigma> [x, x'] [y, y']"
      by (cases b) (auto simp: solves_def)
    with r TDict have "unify_args rec [x, x'] [y, y'] \<sigma> = Some r"
      by (simp add: unify_heads_def unify_args_pair)
    from unify_args_finds [OF _ ac this s] show ?thesis by simp
  next
    case (TRecord q)
    obtain fs where q: "q = Record fs" by (cases q)
    from TRecord eq nv q obtain q' where "b = TRecord q'" by (cases b) (auto simp: solves_def)
    then obtain gs where b: "b = TRecord (Record gs)" by (cases q') auto
    with TRecord q eq have m: "map (\<lambda>p. (fst p, subst_ty \<theta> (inst \<sigma> (snd p)))) fs
        = map (\<lambda>p. (fst p, subst_ty \<theta> (inst \<sigma> (snd p)))) gs"
      by (simp add: solves_def map_prod_def split_def comp_def)
    from arg_cong [OF m, of "map fst"] have k: "map fst fs = map fst gs" by (simp add: comp_def)
    have s: "solves \<theta> \<sigma> (map snd fs) (map snd gs)"
      using arg_cong [OF m, of "map snd"] by (simp add: solves_map_iff comp_def)
    from r TRecord q b k have "unify_args rec (map snd fs) (map snd gs) \<sigma> = Some r"
      by (simp add: unify_heads_def)
    moreover have "length (map snd fs) = length (map snd gs)" using k by (metis length_map)
    ultimately show ?thesis using unify_args_finds ac s by blast
  next
    case (TFn f)
    with eq nv obtain g where b: "b = TFn g" by (cases b) (auto simp: solves_def)
    obtain ps ns vp vk t ps' ns' vp' vk' t' where
      f: "f = FnTy ps ns vp vk t" and g: "g = FnTy ps' ns' vp' vk' t'"
      by (cases f; cases g)
    have "map fst ns = map fst ns'"
      using eq by (auto simp: TFn b f g solves_def comp_def dest: arg_cong [of _ _ "map fst"])
    moreover have "solves \<theta> \<sigma> ps ps'" "solves \<theta> \<sigma> (map snd ns) (map snd ns')" "solves \<theta> \<sigma> [t] [t']"
      using eq by (auto simp: TFn b f g solves_def list.rel_map list_all2_conv_all_nth
          list_eq_iff_nth_eq prod_eq_iff)
    ultimately show ?thesis
      using r TFn b f g by (intro unify_fn_finds [OF ac]) (simp_all add: unify_heads_def)
  qed (use eq nv r in \<open>cases b; auto simp: solves_def unify_heads_def finds_def\<close>)+
qed

lemma unify_body_finds:
  assumes ac: "acyclic_subst \<sigma>" and r: "unify_body rec t1 t2 sp \<sigma> = Some r"
    and eq: "solves \<theta> \<sigma> [t1] [t2]"
  shows "finds \<theta> \<sigma> r"
proof -
  let ?a = "inst \<sigma> t1" and ?b = "inst \<sigma> t2"
  have eq': "subst_ty \<theta> ?a = subst_ty \<theta> ?b" using eq by (simp add: solves_def)
  have bind: "finds \<theta> \<sigma> r"
    if b: "bind_var v u sp \<sigma> = Some r" and v: "TVar v = inst \<sigma> t" and u: "u = inst \<sigma> t'"
      and ne: "u \<noteq> TVar v" and \<theta>: "\<theta> v = subst_ty \<theta> u" for v u t t'
  proof -
    from occurs_no_unifier [OF _ ne, of \<theta>] \<theta> have nv: "v \<notin> tvars u" by blast
    have vn: "map_of \<sigma> v = None" and un: "tvars u \<inter> dom (map_of \<sigma>) = {}"
      using tvars_inst_unbound [OF ac, of t] tvars_inst_unbound [OF ac, of t'] v [symmetric] u
      by auto
    from b nv have r: "r = Inr (extend \<sigma> v u)" by (simp add: bind_var_def set_free_vars)
    have "subst_ty \<theta> (inst (extend \<sigma> v u) s) = subst_ty \<theta> (inst \<sigma> s)" for s
      by (simp add: inst_extend [OF ac vn nv un] subst_ty_comp) (rule subst_ty_cong, simp add: \<theta>)
    with r show ?thesis by (simp add: finds_def factors_def)
  qed
  show ?thesis
  proof (cases "?a = TNever \<or> ?b = TNever")
    case True
    with r ac show ?thesis by (auto simp: unify_body_def apply_inst finds_def)
  next
    case False
    show ?thesis
    proof (cases "\<exists>v. ?a = TVar v")
      case True
      then obtain v where v: "?a = TVar v" ..
      show ?thesis
      proof (cases "?b = TVar v")
        case True
        with v r ac show ?thesis by (auto simp: unify_body_def apply_inst finds_def)
      next
        case nb: False
        with v False r ac have "bind_var v ?b sp \<sigma> = Some r"
          by (auto simp: unify_body_def apply_inst split: ty.splits)
        with bind [OF _ v [symmetric] refl nb] eq' v show ?thesis by simp
      qed
    next
      case na: False
      show ?thesis
      proof (cases "\<exists>v. ?b = TVar v")
        case True
        then obtain v where v: "?b = TVar v" ..
        with na False r ac have "bind_var v ?a sp \<sigma> = Some r"
          by (auto simp: unify_body_def apply_inst split: ty.splits)
        with bind [OF _ v [symmetric] refl] eq' v na show ?thesis by simp
      next
        case nb: False
        with na False r ac have "unify_heads rec ?a ?b sp \<sigma> = Some r"
          by (auto simp: unify_body_def apply_inst split: ty.splits)
        then show ?thesis
          using unify_heads_finds [OF ac, of ?a ?b] na nb False eq' inst_inst [OF ac]
          by (simp add: solves_def)
      qed
    qed
  qed
qed

end

lemma unify_finds:
  "acyclic_subst \<sigma> \<Longrightarrow> unify n sp t1 t2 \<sigma> = Some r \<Longrightarrow> solves \<theta> \<sigma> [t1] [t2] \<Longrightarrow> finds \<theta> \<sigma> r"
proof (induction n arbitrary: t1 t2 \<sigma> r \<theta>)
  case (Suc n)
  have "unify_call_complete (unify n sp)" using Suc.IH by unfold_locales
  then show ?case using Suc.prems by (auto intro: unify_call_complete.unify_body_finds)
qed simp

interpretation unify_mgu: unify_call_complete "unify n sp" for n sp
  using unify_finds by unfold_locales

section \<open>Termination\<close>

definition plain :: "ty \<Rightarrow> bool" where
  "plain t \<longleftrightarrow> t \<noteq> TNever \<and> (\<forall>v. t \<noteq> TVar v)"

lemma unify_body_plain:
  "apply_subst \<sigma> t1 = Some a \<Longrightarrow> apply_subst \<sigma> t2 = Some b \<Longrightarrow> plain a \<Longrightarrow> plain b
    \<Longrightarrow> unify_body rec t1 t2 sp \<sigma> = unify_heads rec a b sp \<sigma>"
  by (simp add: unify_body_def plain_def split: ty.splits)

lemma unify_body_base:
  "apply_subst \<sigma> t1 = Some a \<Longrightarrow> apply_subst \<sigma> t2 = Some b \<Longrightarrow> \<not> (plain a \<and> plain b)
    \<Longrightarrow> unify_body rec t1 t2 sp \<sigma> = unify_body rec' t1 t2 sp \<sigma> \<and> unify_body rec t1 t2 sp \<sigma> \<noteq> None"
  by (auto simp: unify_body_def plain_def bind_var_def split: ty.splits)

lemma unify_body_mono:
  assumes "unify_body rec t1 t2 sp \<sigma> = Some r"
    and le: "\<And>a b \<sigma> r. rec a b \<sigma> = Some r \<Longrightarrow> rec' a b \<sigma> = Some r"
  shows "unify_body rec' t1 t2 sp \<sigma> = Some r"
proof -
  have args: "unify_args rec as bs \<sigma> = Some r \<Longrightarrow> unify_args rec' as bs \<sigma> = Some r" for as bs \<sigma> r
    unfolding unify_args_def by (erule fold_o_mono) (auto dest: le)
  have named: "unify_named rec sp as bs \<sigma> = Some r \<Longrightarrow> unify_named rec' sp as bs \<sigma> = Some r"
    for as bs \<sigma> r
    unfolding unify_named_def by (erule fold_o_mono) (auto dest: le split: if_splits)
  have bind: "bind_o q f = Some r \<Longrightarrow> (\<And>s. q = Some s \<Longrightarrow> q' = Some s)
      \<Longrightarrow> (\<And>s r. f s = Some r \<Longrightarrow> f' s = Some r) \<Longrightarrow> bind_o q' f' = Some r"
    for q q' :: unify_result and f f' r
    by (auto simp: bind_o_def split: option.splits sum.splits)
  have fn: "unify_fn rec sp f g \<sigma> = Some r \<Longrightarrow> unify_fn rec' sp f g \<sigma> = Some r" for f g \<sigma> r
    unfolding unify_fn_def
    by (auto split: if_splits elim!: bind intro: args named le)
  have dict: "bind_o (rec a b \<sigma>) (rec c d) = Some r \<Longrightarrow> bind_o (rec' a b \<sigma>) (rec' c d) = Some r"
    for a b c d \<sigma> r by (elim bind) (auto intro: le)
  have "unify_heads rec a b sp \<sigma> = Some r \<Longrightarrow> unify_heads rec' a b sp \<sigma> = Some r" for a b
    by (cases a) (auto simp: unify_heads_def le args fn dict split: ty.splits if_splits)
  note heads = this
  from assms(1) obtain a b where ab: "apply_subst \<sigma> t1 = Some a" "apply_subst \<sigma> t2 = Some b"
    by (auto simp: unify_body_def split: option.splits)
  show ?thesis
  proof (cases "plain a \<and> plain b")
    case True
    with assms(1) show ?thesis using heads by (simp add: unify_body_plain [OF ab])
  next
    case False
    with assms(1) unify_body_base [OF ab, of rec sp rec'] show ?thesis by simp
  qed
qed

lemma unify_mono: "unify n sp t1 t2 \<sigma> = Some r \<Longrightarrow> n \<le> m \<Longrightarrow> unify m sp t1 t2 \<sigma> = Some r"
proof (induction n arbitrary: m t1 t2 \<sigma> r)
  case (Suc n)
  from Suc.prems(2) obtain k where m: "m = Suc k" "n \<le> k" by (cases m) auto
  from Suc.prems(1) show ?case
    unfolding m(1) unify.simps by (rule unify_body_mono) (rule Suc.IH [OF _ m(2)])
qed simp

lemma unify_args_mono:
  "unify_args (unify n sp) as bs \<sigma> = Some r \<Longrightarrow> n \<le> m \<Longrightarrow> unify_args (unify m sp) as bs \<sigma> = Some r"
  unfolding unify_args_def by (erule fold_o_mono) (auto intro: unify_mono)

lemma unify_named_mono:
  "unify_named (unify n sp) sp as bs \<sigma> = Some r \<Longrightarrow> n \<le> m
    \<Longrightarrow> unify_named (unify m sp) sp as bs \<sigma> = Some r"
  unfolding unify_named_def by (erule fold_o_mono) (auto intro: unify_mono split: if_splits)

text \<open>
  The walks over components return when every component call does, for any invariant \<open>I\<close>
  of the substitution that the component calls keep.
\<close>

lemma unify_args_terminates:
  assumes "I \<sigma>"
    and call: "\<And>x y \<sigma>. x \<in> set as \<Longrightarrow> y \<in> set bs \<Longrightarrow> I \<sigma> \<Longrightarrow> \<exists>n r. unify n sp x y \<sigma> = Some r"
    and keep: "\<And>n x y \<sigma> \<sigma>'. x \<in> set as \<Longrightarrow> y \<in> set bs \<Longrightarrow> I \<sigma> \<Longrightarrow> unify n sp x y \<sigma> = Some (Inr \<sigma>') \<Longrightarrow> I \<sigma>'"
  shows "\<exists>n r. unify_args (unify n sp) as bs \<sigma> = Some r"
  unfolding unify_args_def
proof (rule fold_o_enough_fuel [where I = I, OF assms(1)])
  fix p \<sigma>2 assume p: "p \<in> set (zip as bs)" and I: "I \<sigma>2"
  then obtain x y where xy: "p = (x, y)" "x \<in> set as" "y \<in> set bs"
    by (metis prod.exhaust set_zip_leftD set_zip_rightD)
  show "\<exists>n r. (case p of (x, y) \<Rightarrow> unify n sp x y) \<sigma>2 = Some r"
    using call [OF xy(2,3) I] xy(1) by simp
  fix n \<sigma>3 assume "(case p of (x, y) \<Rightarrow> unify n sp x y) \<sigma>2 = Some (Inr \<sigma>3)"
  then show "I \<sigma>3" using keep [OF xy(2,3) I] xy(1) by simp
qed (auto intro: unify_mono)

lemma unify_args_keeps:
  assumes "unify_args (unify n sp) as bs \<sigma> = Some (Inr \<sigma>')" "I \<sigma>"
    and keep: "\<And>x y \<sigma> \<sigma>'. x \<in> set as \<Longrightarrow> y \<in> set bs \<Longrightarrow> I \<sigma> \<Longrightarrow> unify n sp x y \<sigma> = Some (Inr \<sigma>') \<Longrightarrow> I \<sigma>'"
  shows "I \<sigma>'"
  using assms(1,2) unfolding unify_args_def
  by (rule fold_o_invariant) (auto dest: set_zip_leftD set_zip_rightD intro: keep)

lemma zip_fieldsE:
  assumes "p \<in> set (zip as bs)"
  obtains k x l y where "p = ((k, x), (l, y))" "x \<in> snd ` set as" "y \<in> snd ` set bs"
proof -
  obtain k x l y where p: "p = ((k, x), (l, y))" by (metis prod.exhaust)
  with assms have "(k, x) \<in> set as" "(l, y) \<in> set bs" by (auto dest: set_zip_leftD set_zip_rightD)
  with p show ?thesis by (intro that) force+
qed

lemma unify_named_terminates:
  assumes "I \<sigma>"
    and call: "\<And>x y \<sigma>. x \<in> snd ` set as \<Longrightarrow> y \<in> snd ` set bs \<Longrightarrow> I \<sigma> \<Longrightarrow> \<exists>n r. unify n sp x y \<sigma> = Some r"
    and keep: "\<And>n x y \<sigma> \<sigma>'. x \<in> snd ` set as \<Longrightarrow> y \<in> snd ` set bs \<Longrightarrow> I \<sigma>
      \<Longrightarrow> unify n sp x y \<sigma> = Some (Inr \<sigma>') \<Longrightarrow> I \<sigma>'"
  shows "\<exists>n r. unify_named (unify n sp) sp as bs \<sigma> = Some r"
proof -
  let ?step = "\<lambda>n p s. (\<lambda>((n1, x), (n2, y)) s.
       if n1 \<noteq> n2 then Some (Inl (KeywordArgMismatch n1 sp
              (Some (''remove or rename '' @ em_dash @ '' the callee does not accept this keyword'')), s))
       else unify n sp x y s) p s"
  show ?thesis
    unfolding unify_named_def
  proof (rule fold_o_enough_fuel [where I = I and g = ?step, OF assms(1)])
    fix p \<sigma>2 assume "p \<in> set (zip as bs)" and I: "I \<sigma>2"
    then obtain k x l y where p: "p = ((k, x), (l, y))" and xy: "x \<in> snd ` set as" "y \<in> snd ` set bs"
      by (elim zip_fieldsE)
    show "\<exists>n r. ?step n p \<sigma>2 = Some r" using call [OF xy I] p by auto
    fix n \<sigma>3 assume "?step n p \<sigma>2 = Some (Inr \<sigma>3)"
    then show "I \<sigma>3" using keep [OF xy I] by (simp add: p split: if_splits)
  qed (auto intro: unify_mono split: if_splits)
qed

lemma unify_named_keeps:
  assumes "unify_named (unify n sp) sp as bs \<sigma> = Some (Inr \<sigma>')" "I \<sigma>"
    and keep: "\<And>x y \<sigma> \<sigma>'. x \<in> snd ` set as \<Longrightarrow> y \<in> snd ` set bs \<Longrightarrow> I \<sigma>
      \<Longrightarrow> unify n sp x y \<sigma> = Some (Inr \<sigma>') \<Longrightarrow> I \<sigma>'"
  shows "I \<sigma>'"
  using assms(1,2) unfolding unify_named_def
  by (rule fold_o_invariant [where I = I]) (erule zip_fieldsE, auto intro: keep split: if_splits)

lemma unify_fn_terminates:
  assumes I: "I \<sigma>"
    and call: "\<And>x y \<sigma>. x \<in> set_fn_ty f \<Longrightarrow> y \<in> set_fn_ty g \<Longrightarrow> I \<sigma> \<Longrightarrow> \<exists>n r. unify n sp x y \<sigma> = Some r"
    and keep: "\<And>n x y \<sigma> \<sigma>'. x \<in> set_fn_ty f \<Longrightarrow> y \<in> set_fn_ty g \<Longrightarrow> I \<sigma>
      \<Longrightarrow> unify n sp x y \<sigma> = Some (Inr \<sigma>') \<Longrightarrow> I \<sigma>'"
  shows "\<exists>n r. unify_fn (unify n sp) sp f g \<sigma> = Some r"
proof -
  obtain ps ns vp vk t ps' ns' vp' vk' t' where
    f: "f = FnTy ps ns vp vk t" and g: "g = FnTy ps' ns' vp' vk' t'"
    by (cases f; cases g)
  have F: "x \<in> set ps \<Longrightarrow> x \<in> set_fn_ty f" "x \<in> snd ` set ns \<Longrightarrow> x \<in> set_fn_ty f" "t \<in> set_fn_ty f"
    and G: "x \<in> set ps' \<Longrightarrow> x \<in> set_fn_ty g" "x \<in> snd ` set ns' \<Longrightarrow> x \<in> set_fn_ty g" "t' \<in> set_fn_ty g"
    for x unfolding f g mem_set_fn_ty by auto
  let ?rest = "\<lambda>n \<sigma>1. bind_o (unify_named (unify n sp) sp ns ns' \<sigma>1) (unify n sp t t')"
  have "\<exists>n r. bind_o (unify_args (unify n sp) ps ps' \<sigma>) (?rest n) = Some r"
  proof (rule bind_o_enough_fuel)
    show "\<exists>n r. unify_args (unify n sp) ps ps' \<sigma> = Some r"
      by (rule unify_args_terminates [where I = I, OF I]) (blast intro: F G call keep)+
    fix n \<sigma>1 assume "unify_args (unify n sp) ps ps' \<sigma> = Some (Inr \<sigma>1)"
    then have I1: "I \<sigma>1" by (rule unify_args_keeps [where I = I, OF _ I]) (blast intro: F G keep)
    show "\<exists>n r. ?rest n \<sigma>1 = Some r"
    proof (rule bind_o_enough_fuel)
      show "\<exists>n r. unify_named (unify n sp) sp ns ns' \<sigma>1 = Some r"
        by (rule unify_named_terminates [where I = I, OF I1]) (blast intro: F G call keep)+
      fix n \<sigma>2 assume "unify_named (unify n sp) sp ns ns' \<sigma>1 = Some (Inr \<sigma>2)"
      then have "I \<sigma>2" by (rule unify_named_keeps [where I = I, OF _ I1]) (blast intro: F G keep)
      then show "\<exists>n r. unify n sp t t' \<sigma>2 = Some r" by (rule call [OF F(3) G(3)])
    qed (rule unify_named_mono unify_mono; assumption)+
  next
    fix n m \<sigma>1 r assume r: "?rest n \<sigma>1 = Some r" and le: "n \<le> m"
    show "?rest m \<sigma>1 = Some r"
    proof (cases "unify_named (unify n sp) sp ns ns' \<sigma>1")
      case (Some q)
      with r le unify_named_mono [OF Some le] show ?thesis
        by (cases q) (auto intro: unify_mono)
    qed (use r in simp)
  qed (rule unify_args_mono)
  then show ?thesis by (auto simp: unify_fn_def f g)
qed

text \<open>
  The measure of a call is the number of variables of a fixed finite set \<open>V\<close> that are still
  unbound, then the size of the first type after \<open>apply\<close>.
\<close>

lemma unify_terminates_within:
  assumes V: "finite V"
  shows "acyclic_subst \<sigma> \<Longrightarrow> svars \<sigma> \<union> tvars t1 \<union> tvars t2 \<subseteq> V
    \<Longrightarrow> \<exists>n r. unify n sp t1 t2 \<sigma> = Some r"
proof (induction "(\<sigma>, t1, t2)" arbitrary: \<sigma> t1 t2
    rule: wf_induct_rule [OF wf_measures [of "[\<lambda>(\<sigma>, t1, t2). card (V - dom (map_of \<sigma>)),
      \<lambda>(\<sigma>, t1, t2). size (inst \<sigma> t1)]"]])
  case (1 \<sigma> t1 t2)
  note ac = 1(2) and within = 1(3)
  let ?a = "inst \<sigma> t1" and ?b = "inst \<sigma> t2"
  let ?I = "\<lambda>\<sigma>1. acyclic_subst \<sigma>1 \<and> map_of \<sigma> \<subseteq>\<^sub>m map_of \<sigma>1 \<and> svars \<sigma>1 \<subseteq> V"
  have ab: "tvars ?a \<subseteq> V" "tvars ?b \<subseteq> V" "tvars ?a \<inter> dom (map_of \<sigma>) = {}"
    using within tvars_inst [OF ac] tvars_inst_unbound [OF ac] by blast+
  have call: "\<exists>n r. unify n sp x y \<sigma>1 = Some r"
    if I: "?I \<sigma>1" and x: "tvars x \<subseteq> tvars ?a" "size x < size ?a" and y: "tvars y \<subseteq> tvars ?b" for x y \<sigma>1
  proof (rule "1.hyps")
    show "acyclic_subst \<sigma>1" "svars \<sigma>1 \<union> tvars x \<union> tvars y \<subseteq> V" using I x y ab by auto
    have sub: "V - dom (map_of \<sigma>1) \<subseteq> V - dom (map_of \<sigma>)"
      using I map_le_implies_dom_le by blast
    show "((\<sigma>1, x, y), \<sigma>, t1, t2) \<in> measures [\<lambda>(\<sigma>, t1, t2). card (V - dom (map_of \<sigma>)),
      \<lambda>(\<sigma>, t1, t2). size (inst \<sigma> t1)]"
    proof (cases "V - dom (map_of \<sigma>1) = V - dom (map_of \<sigma>)")
      case True
      then have "tvars x \<inter> dom (map_of \<sigma>1) = {}" using x(1) ab by blast
      then have "inst \<sigma>1 x = x" using I by (intro inst_unbound) auto
      with True x(2) show ?thesis by simp
    next
      case False
      with sub have "card (V - dom (map_of \<sigma>1)) < card (V - dom (map_of \<sigma>))"
        using V by (intro psubset_card_mono) auto
      then show ?thesis by simp
    qed
  qed
  have keep: "?I \<sigma>2"
    if I: "?I \<sigma>1" and r: "post \<sigma>1 as bs (Inr \<sigma>2)" and v: "all_vars as bs \<subseteq> V" for as bs \<sigma>1 \<sigma>2
  proof -
    from r have g: "acyclic_subst \<sigma>2" "map_of \<sigma>1 \<subseteq>\<^sub>m map_of \<sigma>2" "svars \<sigma>2 \<subseteq> svars \<sigma>1 \<union> all_vars as bs"
      by (auto simp: post_def grows_def)
    from g(3) v I have "svars \<sigma>2 \<subseteq> V" by blast
    with g(1,2) I show ?thesis by (blast intro: map_le_trans)
  qed
  have keep_call: "?I \<sigma>2"
    if I: "?I \<sigma>1" and r: "unify n sp x y \<sigma>1 = Some (Inr \<sigma>2)"
      and v: "tvars x \<subseteq> V" "tvars y \<subseteq> V" for n x y \<sigma>1 \<sigma>2
    using I v by (intro keep [OF I unify_post [OF _ r]]) auto
  have args: "\<exists>n r. unify_args (unify n sp) as bs \<sigma>1 = Some r"
    if I: "?I \<sigma>1" and as: "\<And>x. x \<in> set as \<Longrightarrow> tvars x \<subseteq> tvars ?a \<and> size x < size ?a"
      and bs: "\<And>y. y \<in> set bs \<Longrightarrow> tvars y \<subseteq> tvars ?b" for as bs \<sigma>1
  proof (rule unify_args_terminates [where I = ?I, OF I])
    fix x y \<sigma>2 assume x: "x \<in> set as" and y: "y \<in> set bs" and I2: "?I \<sigma>2"
    show "\<exists>n r. unify n sp x y \<sigma>2 = Some r" using call [OF I2] as [OF x] bs [OF y] by blast
    fix n \<sigma>3 assume "unify n sp x y \<sigma>2 = Some (Inr \<sigma>3)"
    from keep_call [OF I2 this] as [OF x] bs [OF y] ab show "?I \<sigma>3" by blast
  qed
  have I: "?I \<sigma>" using ac within by simp
  have miss: "\<exists>n r. mismatch ?a ?b sp \<sigma> = Some r" by (simp add: mismatch_def)
  have fn: "\<exists>n r. unify_fn (unify n sp) sp f g \<sigma> = Some r"
    if f: "?a = TFn f" and g: "?b = TFn g" for f g
  proof (rule unify_fn_terminates [where I = ?I, OF I])
    fix x y \<sigma>2 assume x: "x \<in> set_fn_ty f" and y: "y \<in> set_fn_ty g" and I2: "?I \<sigma>2"
    have xy: "tvars x \<subseteq> tvars ?a" "size x < size ?a" "tvars y \<subseteq> tvars ?b"
      using f g x y size_fn_mem [OF x, of size] by (auto simp: fn_ty.set_map less_Suc_eq_le)
    show "\<exists>n r. unify n sp x y \<sigma>2 = Some r" using call [OF I2] xy by blast
    fix n \<sigma>3 assume "unify n sp x y \<sigma>2 = Some (Inr \<sigma>3)"
    from keep_call [OF I2 this] xy ab show "?I \<sigma>3" by blast
  qed
  have "\<exists>n r. unify_heads (unify n sp) ?a ?b sp \<sigma> = Some r"
  proof (cases ?a)
    case (TTuple as)
    show ?thesis
    proof (cases "\<exists>bs. ?b = TTuple bs")
      case True
      then obtain bs where b: "?b = TTuple bs" ..
      show ?thesis using miss args [OF I, of as bs] TTuple b
        by (auto simp: unify_heads_def less_Suc_eq_le size_list_mem)
    next
      case False
      with TTuple miss show ?thesis by (auto simp: unify_heads_def split: ty.splits)
    qed
  next
    case (TAdt i as)
    show ?thesis
    proof (cases "\<exists>bs. ?b = TAdt i bs")
      case True
      then obtain bs where b: "?b = TAdt i bs" ..
      show ?thesis using miss args [OF I, of as bs] TAdt b
        by (auto simp: unify_heads_def less_Suc_eq_le size_list_mem)
    next
      case False
      with TAdt miss show ?thesis by (auto simp: unify_heads_def split: ty.splits)
    qed
  next
    case (TAlias i as)
    show ?thesis
    proof (cases "\<exists>bs. ?b = TAlias i bs")
      case True
      then obtain bs where b: "?b = TAlias i bs" ..
      show ?thesis using miss args [OF I, of as bs] TAlias b
        by (auto simp: unify_heads_def less_Suc_eq_le size_list_mem)
    next
      case False
      with TAlias miss show ?thesis by (auto simp: unify_heads_def split: ty.splits)
    qed
  next
    case (TList x)
    show ?thesis
    proof (cases "\<exists>y. ?b = TList y")
      case True
      then obtain y where b: "?b = TList y" ..
      show ?thesis using call [OF I, of x y] TList b by (auto simp: unify_heads_def)
    next
      case False
      with TList miss show ?thesis by (auto simp: unify_heads_def split: ty.splits)
    qed
  next
    case (TSet x)
    show ?thesis
    proof (cases "\<exists>y. ?b = TSet y")
      case True
      then obtain y where b: "?b = TSet y" ..
      show ?thesis using call [OF I, of x y] TSet b by (auto simp: unify_heads_def)
    next
      case False
      with TSet miss show ?thesis by (auto simp: unify_heads_def split: ty.splits)
    qed
  next
    case (TRef x)
    show ?thesis
    proof (cases "\<exists>y. ?b = TRef y")
      case True
      then obtain y where b: "?b = TRef y" ..
      show ?thesis using call [OF I, of x y] TRef b by (auto simp: unify_heads_def)
    next
      case False
      with TRef miss show ?thesis by (auto simp: unify_heads_def split: ty.splits)
    qed
  next
    case (TArray x n)
    show ?thesis
    proof (cases "\<exists>y. ?b = TArray y n")
      case True
      then obtain y where b: "?b = TArray y n" ..
      show ?thesis using call [OF I, of x y] TArray b by (auto simp: unify_heads_def)
    next
      case False
      with TArray miss show ?thesis by (auto simp: unify_heads_def split: ty.splits)
    qed
  next
    case (TDict x x')
    show ?thesis
    proof (cases "\<exists>y y'. ?b = TDict y y'")
      case True
      then obtain y y' where b: "?b = TDict y y'" by blast
      have "\<exists>n r. unify_args (unify n sp) [x, x'] [y, y'] \<sigma> = Some r"
        using TDict b by (intro args [OF I]) auto
      then show ?thesis using TDict b
        by (simp add: unify_heads_def unify_args_pair)
    next
      case False
      with TDict miss show ?thesis by (auto simp: unify_heads_def split: ty.splits)
    qed
  next
    case (TRecord q)
    obtain fs where q: "q = Record fs" by (cases q)
    show ?thesis
    proof (cases "\<exists>r. ?b = TRecord r")
      case True
      then obtain gs where b: "?b = TRecord (Record gs)" by (metis record_ty.exhaust)
      have "\<exists>n r. unify_args (unify n sp) (map snd fs) (map snd gs) \<sigma> = Some r"
        using TRecord q b size_fields_mem [of _ fs size]
        by (intro args [OF I]) (force simp: less_Suc_eq_le mem_set_record_ty)+
      with miss TRecord q b show ?thesis by (auto simp: unify_heads_def)
    next
      case False
      with TRecord miss show ?thesis by (auto simp: unify_heads_def split: ty.splits)
    qed
  next
    case (TFn f)
    show ?thesis
    proof (cases "\<exists>g. ?b = TFn g")
      case True
      then obtain g where "?b = TFn g" ..
      with fn TFn show ?thesis by (simp add: unify_heads_def)
    next
      case False
      with TFn miss show ?thesis by (auto simp: unify_heads_def split: ty.splits)
    qed
  qed (use miss in \<open>auto simp: unify_heads_def\<close>)
  then obtain n r where heads: "unify_heads (unify n sp) ?a ?b sp \<sigma> = Some r" by blast
  have "\<exists>r. unify (Suc n) sp t1 t2 \<sigma> = Some r"
  proof (cases "plain ?a \<and> plain ?b")
    case True
    with heads show ?thesis by (simp add: unify_body_plain [OF apply_inst [OF ac] apply_inst [OF ac]])
  next
    case False
    then show ?thesis
      using unify_body_base [OF apply_inst [OF ac] apply_inst [OF ac], of t1 t2 "unify n sp" sp] by simp
  qed
  then show ?case by blast
qed

lemma unify_terminates:
  "acyclic_subst \<sigma> \<Longrightarrow> \<exists>n r. unify n sp t1 t2 \<sigma> = Some r"
proof -
  have "finite (svars \<sigma>)"
    by (auto simp: svars_def finite_dom_map_of finite_range_map_of)
  then show "acyclic_subst \<sigma> \<Longrightarrow> ?thesis"
    using unify_terminates_within [of "svars \<sigma> \<union> tvars t1 \<union> tvars t2" \<sigma> t1 t2 sp] by simp
qed

end
