(* ===== verification/Infer_Props.thy ===== *)
theory Infer_Props
  imports Infer_Unify
begin

text \<open>
  The properties of the type universe and of the inference engine, each a few steps over
  the lemmas of \<open>Ty\<close>, \<open>Infer_Sound\<close> and \<open>Infer_Unify\<close>, with its witness.
\<close>

section \<open>A concrete substitution\<close>

definition demo_span :: span where
  "demo_span = span_point 0 7"

text \<open>\<open>?1 := List[?2]\<close>.\<close>

definition demo_subst :: subst where
  "demo_subst = extend subst_new 1 (TList (TVar 2))"

lemma demo_acyclic: "acyclic_subst demo_subst"
  unfolding demo_subst_def
  by (rule extend_acyclic [OF acyclic_new]) (simp_all add: subst_new_def)

section \<open>Unification\<close>

text \<open>C4. When \<open>unify\<close> succeeds on an acyclic substitution, the substitution it leaves is
  acyclic, keeps every earlier binding, and makes \<open>apply\<close> return compatible types for the
  two arguments: equal except below \<open>Never\<close> and in the variadic types of functions.\<close>

theorem unify_sound:
  assumes "acyclic_subst \<sigma>" "unify n sp t1 t2 \<sigma> = Some (Inr \<sigma>')"
  shows "acyclic_subst \<sigma>' \<and> map_of \<sigma> \<subseteq>\<^sub>m map_of \<sigma>' \<and>
    (\<exists>a b. apply_subst \<sigma>' t1 = Some a \<and> apply_subst \<sigma>' t2 = Some b \<and> ty_compat a b)"
  using unify_post [OF assms] by (auto simp: post_def grows_def unified_def apply_inst)

theorem unify_sound_witness:
  "\<exists>\<sigma>'. unify 4 demo_span (TVar 1) (TList (TTuple [TInt, TVar 3])) demo_subst = Some (Inr \<sigma>')
    \<and> acyclic_subst \<sigma>' \<and> map_of demo_subst \<subseteq>\<^sub>m map_of \<sigma>' \<and>
    (\<exists>a b. apply_subst \<sigma>' (TVar 1) = Some a
       \<and> apply_subst \<sigma>' (TList (TTuple [TInt, TVar 3])) = Some b \<and> ty_compat a b)"
proof -
  let ?t = "TList (TTuple [TInt, TVar 3])"
  obtain \<sigma>' where u: "unify 4 demo_span (TVar 1) ?t demo_subst = Some (Inr \<sigma>')"
    by (simp add: demo_subst_def subst_new_def extend_def unify_body_def unify_heads_def
        apply_subst_def apply_d_var subst_get_def bind_var_def free_vars_def eval_nat_numeral)
  with unify_sound [OF demo_acyclic u] show ?thesis by blast
qed

text \<open>C6. \<open>unify\<close> finds a most general unifier: if some type substitution \<open>\<theta>\<close> makes the two
  types equal under the running substitution, then \<open>unify\<close> returns \<open>Ok\<close>, and every type
  after the call still has \<open>\<theta>\<close>'s instance of that type before the call as an instance.\<close>

theorem unify_most_general:
  assumes ac: "acyclic_subst \<sigma>"
    and eq: "apply_subst \<sigma> t1 = Some a" "apply_subst \<sigma> t2 = Some b" "subst_ty \<theta> a = subst_ty \<theta> b"
  shows "\<exists>n \<sigma>'. unify n sp t1 t2 \<sigma> = Some (Inr \<sigma>') \<and>
    (\<forall>t. \<exists>u u'. apply_subst \<sigma> t = Some u \<and> apply_subst \<sigma>' t = Some u' \<and> subst_ty \<theta> u' = subst_ty \<theta> u)"
proof -
  obtain n r where r: "unify n sp t1 t2 \<sigma> = Some r" using unify_terminates [OF ac] by blast
  have "solves \<theta> \<sigma> [t1] [t2]" using eq by (simp add: solves_def apply_inst [OF ac])
  with unify_finds [OF ac r] obtain \<sigma>' where \<sigma>': "r = Inr \<sigma>'" "factors \<theta> \<sigma> \<sigma>'"
    by (auto simp: finds_def)
  have ac': "acyclic_subst \<sigma>'" using unify_post [OF ac r] \<sigma>'(1) by (simp add: post_def grows_def)
  show ?thesis
    by (rule exI [of _ n], rule exI [of _ \<sigma>'])
      (use r \<sigma>' in \<open>simp add: factors_def apply_inst [OF ac] apply_inst [OF ac']\<close>)
qed

theorem unify_most_general_witness:
  "\<exists>n \<sigma>'. unify n demo_span (TVar 1) (TList TInt) demo_subst = Some (Inr \<sigma>') \<and>
    (\<forall>t. \<exists>u u'. apply_subst demo_subst t = Some u \<and> apply_subst \<sigma>' t = Some u'
       \<and> subst_ty (\<lambda>_. TInt) u' = subst_ty (\<lambda>_. TInt) u)"
proof (rule unify_most_general [OF demo_acyclic])
  show "apply_subst demo_subst (TVar 1) = Some (TList (TVar 2))"
    by (simp add: demo_subst_def subst_new_def extend_def apply_subst_def apply_d_var subst_get_def)
  show "apply_subst demo_subst (TList TInt) = Some (TList TInt)"
    by (simp add: apply_subst_def)
qed simp

text \<open>C8. On an acyclic substitution \<open>unify\<close> returns: from some fuel on, every fuel gives the
  same result, and on success and failure alike the substitution left behind is acyclic and
  keeps the earlier bindings.\<close>

theorem unify_returns:
  assumes "acyclic_subst \<sigma>"
  shows "\<exists>n r. (\<forall>m \<ge> n. unify m sp t1 t2 \<sigma> = Some r)
    \<and> acyclic_subst (left_subst r) \<and> map_of \<sigma> \<subseteq>\<^sub>m map_of (left_subst r)"
proof -
  obtain n r where r: "unify n sp t1 t2 \<sigma> = Some r" using unify_terminates [OF assms] by blast
  with unify_mono have "\<forall>m \<ge> n. unify m sp t1 t2 \<sigma> = Some r" by blast
  with unify_post [OF assms r] show ?thesis unfolding post_def grows_def by blast
qed

theorem unify_returns_witness:
  "\<exists>n r. (\<forall>m \<ge> n. unify m demo_span (TVar 2) (TList (TVar 1)) demo_subst = Some r)
    \<and> acyclic_subst (left_subst r) \<and> map_of demo_subst \<subseteq>\<^sub>m map_of (left_subst r)"
  by (rule unify_returns [OF demo_acyclic])

text \<open>C23. Two function types with the same positional, named and return types unify whatever
  their \<open>*args\<close> and \<open>**kwargs\<close> types are, and the call changes the instance of no type.\<close>

theorem unify_ignores_variadics:
  assumes ac: "acyclic_subst \<sigma>"
  shows "\<exists>n \<sigma>'. unify n sp (TFn (FnTy ps ns vp vk r)) (TFn (FnTy ps ns vp' vk' r)) \<sigma> = Some (Inr \<sigma>')
    \<and> (\<forall>t. apply_subst \<sigma>' t = apply_subst \<sigma> t)"
proof -
  let ?f = "TFn (FnTy ps ns vp vk r)" and ?g = "TFn (FnTy ps ns vp' vk' r)"
  obtain n q where q: "unify n sp ?f ?g \<sigma> = Some q" using unify_terminates [OF ac] by blast
  then obtain m where n: "n = Suc m" by (cases n) auto
  let ?i = "map_fn_ty (inst \<sigma>) (FnTy ps ns vp vk r)" and ?j = "map_fn_ty (inst \<sigma>) (FnTy ps ns vp' vk' r)"
  have "unify_heads (unify m sp) (TFn ?i) (TFn ?j) sp \<sigma> = Some q"
    using q unify_body_plain [OF apply_inst [OF ac] apply_inst [OF ac], of ?f ?g]
    by (simp add: n plain_def)
  then have "unify_fn (unify m sp) sp ?i ?j \<sigma> = Some q" by (simp add: unify_heads_def)
  then have "finds TVar \<sigma> q"
    unfolding fn_ty.map
    by (rule unify_mgu.unify_fn_finds [OF ac]) (simp_all add: solves_map_iff)
  then obtain \<sigma>' where \<sigma>': "q = Inr \<sigma>'" "\<forall>t. inst \<sigma>' t = inst \<sigma> t"
    by (auto simp: finds_def factors_def)
  have ac': "acyclic_subst \<sigma>'" using unify_post [OF ac q] \<sigma>'(1) by (simp add: post_def grows_def)
  show ?thesis
    by (rule exI [of _ n], rule exI [of _ \<sigma>'])
      (use q \<sigma>' in \<open>simp add: apply_inst [OF ac] apply_inst [OF ac']\<close>)
qed

theorem unify_ignores_variadics_witness:
  "\<exists>n \<sigma>'. unify n demo_span (TFn (FnTy [TInt] [] (Some TInt) None TBool))
       (TFn (FnTy [TInt] [] (Some TStr) None TBool)) demo_subst = Some (Inr \<sigma>')
    \<and> (\<forall>t. apply_subst \<sigma>' t = apply_subst demo_subst t)"
  by (rule unify_ignores_variadics [OF demo_acyclic])

section \<open>Applying and finalising\<close>

text \<open>C20. \<open>Subst::apply\<close> returns on every acyclic substitution, its result mentions no bound
  variable, and applying the substitution again changes nothing.\<close>

theorem apply_resolves:
  assumes ac: "acyclic_subst \<sigma>"
  shows "\<exists>r. apply_subst \<sigma> t = Some r \<and> (\<forall>v. v \<in> set (free_vars r) \<longrightarrow> subst_get \<sigma> v = None)
    \<and> apply_subst \<sigma> r = Some r"
  using tvars_inst_unbound [OF ac, of t]
  by (auto simp: apply_inst [OF ac] inst_inst [OF ac] set_free_vars subst_get_def)

theorem apply_resolves_witness:
  "\<exists>r. apply_subst demo_subst (TDict (TVar 1) (TVar 2)) = Some r
    \<and> (\<forall>v. v \<in> set (free_vars r) \<longrightarrow> subst_get demo_subst v = None) \<and> apply_subst demo_subst r = Some r"
  by (rule apply_resolves [OF demo_acyclic])


text \<open>C25. \<open>finalize\<close> accepts exactly the types that resolve to a type without inference
  variables, returns that type, and otherwise reports \<open>AmbiguousType\<close> at the span.\<close>

theorem finalize_spec:
  assumes ac: "acyclic_subst \<sigma>"
  shows "(finalize t \<sigma> sp = Some (Inr r) \<longleftrightarrow> apply_subst \<sigma> t = Some r \<and> tvars r = {})
    \<and> ((\<exists>r. finalize t \<sigma> sp = Some (Inr r)) \<or> (\<exists>hint. finalize t \<sigma> sp = Some (Inl (AmbiguousType sp hint))))"
  using free_vars_empty_iff by (auto simp: finalize_def apply_inst [OF ac])

theorem finalize_spec_witness:
  "(finalize (TVar 1) demo_subst demo_span = Some (Inr TInt)
      \<longleftrightarrow> apply_subst demo_subst (TVar 1) = Some TInt \<and> tvars TInt = {})
    \<and> ((\<exists>r. finalize (TVar 1) demo_subst demo_span = Some (Inr r))
      \<or> (\<exists>hint. finalize (TVar 1) demo_subst demo_span = Some (Inl (AmbiguousType demo_span hint))))"
  by (rule finalize_spec [OF demo_acyclic])

section \<open>Fresh variables\<close>

lemma fresh_many_eq:
  "fst (fresh_many n a) = map (\<lambda>i. next_var a + word_of_nat i) [0..<n]"
proof (induction n arbitrary: a)
  case (Suc n)
  have "[0..<Suc n] = 0 # map Suc [0..<n]" by (simp add: map_Suc_upt upt_conv_Cons)
  with Suc [of "a\<lparr>next_var := next_var a + 1\<rparr>"] show ?case
    by (simp add: fresh_def split_def comp_def algebra_simps del: upt_Suc)
qed simp

text \<open>C26. The allocator hands out distinct variables for the first \<open>2^32\<close> requests, and the
  request after those repeats the first variable, because the counter wraps around.\<close>

theorem fresh_distinct_then_wraps:
  "distinct (fst (fresh_many (2 ^ 32) a)) \<and>
   fst (fresh_many (2 ^ 32 + 1) a) ! (2 ^ 32) = fst (fresh_many (2 ^ 32 + 1) a) ! 0"
proof -
  have "inj_on (\<lambda>i. next_var a + word_of_nat i :: 32 word) {0..<2 ^ 32}"
    by (rule inj_onI) (simp add: word_of_nat_eq_iff take_bit_nat_eq_self)
  moreover have "(word_of_nat (2 ^ 32) :: 32 word) = 0" by simp
  ultimately show ?thesis unfolding fresh_many_eq
    by (simp add: distinct_map del: upt_Suc)
qed

end
