(* ===== verification/Mir.thy ===== *)
theory Mir
  imports Ty
begin

text \<open>
  The mid-level representation of \<open>crates/cobrust-mir/src/tree.rs\<close>: places, operands,
  rvalues, statements, terminators and control-flow graphs, with the errors of
  \<open>error.rs\<close> that the borrow and drop passes raise.

  Block and local identifiers index vectors; they are natural numbers here, since a body
  has fewer than \<open>2^32\<close> blocks and locals. Indexing past the end of \<open>blocks\<close> panics in the
  code and is the fault \<open>Panic\<close> of the model.
\<close>

type_synonym block_id = nat
type_synonym local_id = nat

section \<open>Operands and places\<close>

datatype mir_const =
    CBool bool | CInt i64 | CFloat u64 | CImag u64 | CStr string | CBytes "u8 list"
  | CNone | CFnRef u32

datatype place = Place (place_local: local_id) (projections: "projection list")
and projection = PField nat | PIndex operand | PDeref | PDiscriminant
and operand = OpCopy place | OpMove place | OpConst mir_const

definition place_of_local :: "local_id \<Rightarrow> place" where
  "place_of_local l = Place l []"

definition with_projection :: "place \<Rightarrow> projection \<Rightarrow> place" where
  "with_projection p proj = Place (place_local p) (projections p @ [proj])"

text \<open>\<open>PlaceDebug::from\<close>\<close>

definition projection_chain :: "place \<Rightarrow> string" where
  "projection_chain p =
     concat (map (\<lambda>proj. case proj of
         PField i \<Rightarrow> ''.'' @ dec_digits i
       | PIndex _ \<Rightarrow> ''[?]''
       | PDeref \<Rightarrow> ''*''
       | PDiscriminant \<Rightarrow> ''.discr'') (projections p))"

section \<open>Rvalues\<close>

datatype borrow_kind = Shared | Mut

datatype bin_op =
    Add | Sub | Mul | Div | FloorDiv | Mod | Pow | MatMul | Shl | Shr | BitAnd | BitOr
  | BitXor | Eq | NotEq | Lt | LtEq | Gt | GtEq | And | Or | In | NotIn

datatype un_op = Plus | Neg | BitNot | Not

datatype cast_kind = IntToFloat | FloatToInt | BoolToInt | IntToBool | StrToBytes | BytesToStr

datatype aggregate_kind = ATuple | AList | ASet | ADict | ARecord | AAdt u32 u32 | AFormatString

datatype nullary_op = SizeOf | AlignOf

datatype rvalue =
    Use operand
  | BinaryOp bin_op operand operand
  | UnaryOp un_op operand
  | Aggregate aggregate_kind "operand list"
  | Cast cast_kind operand ty
  | Ref borrow_kind place
  | Discriminant place
  | Len place
  | NullaryOp nullary_op

section \<open>Statements, terminators, bodies\<close>

datatype statement_kind =
    Assign place rvalue
  | StorageLive local_id
  | StorageDead local_id
  | Nop

record statement =
  st_kind :: statement_kind
  st_span :: span

datatype switch_value = SvBool bool | SvInt i64 | SvAdt u32

datatype assert_kind = DivisionByZero | Overflow | BoundsCheck | AssertUnreachable

datatype terminator =
    Goto block_id
  | SwitchInt operand "(switch_value \<times> block_id) list" block_id
  | Return
  | Call operand "operand list" place block_id "block_id option"
  | Drop place block_id
  | Unreachable
  | Assert operand bool assert_kind block_id

record basic_block =
  bb_id :: block_id
  statements :: "statement list"
  terminator :: terminator
  bb_span :: span

record local_decl =
  ld_id :: local_id
  ld_name :: string
  ld_ty :: ty
  ld_mutable :: bool
  ld_span :: span
  validated_body_of :: "u32 option"

record body =
  def_id :: u32
  body_name :: string
  locals :: "local_decl list"
  blocks :: "basic_block list"
  return_local :: local_id
  param_count :: nat
  body_span :: span

definition local_count :: "body \<Rightarrow> nat" where
  "local_count b = length (locals b)"

definition block_count :: "body \<Rightarrow> nat" where
  "block_count b = length (blocks b)"

definition is_param :: "body \<Rightarrow> local_id \<Rightarrow> bool" where
  "is_param b l \<longleftrightarrow> l < param_count b"

fun terminator_successors :: "terminator \<Rightarrow> block_id list" where
  "terminator_successors (Goto t) = [t]"
| "terminator_successors (Drop _ t) = [t]"
| "terminator_successors (SwitchInt _ cases otherwise) = map snd cases @ [otherwise]"
| "terminator_successors (Call _ _ _ target unwind) =
     [target] @ (case unwind of Some u \<Rightarrow> [u] | None \<Rightarrow> [])"
| "terminator_successors (Assert _ _ _ target) = [target]"
| "terminator_successors Return = []"
| "terminator_successors Unreachable = []"

text \<open>\<open>None\<close> is the panic of an index out of range.\<close>

definition successors :: "body \<Rightarrow> block_id \<Rightarrow> block_id list option" where
  "successors body b =
     (if b < length (blocks body) then Some (terminator_successors (terminator (blocks body ! b)))
      else None)"

section \<open>Errors\<close>

record place_debug =
  pd_local :: local_id
  pd_chain :: string

definition place_debug_of :: "place \<Rightarrow> place_debug" where
  "place_debug_of p = \<lparr>pd_local = place_local p, pd_chain = projection_chain p\<rparr>"

datatype mir_error =
    UseAfterMove local_id span hint
  | UseAfterDrop local_id span hint
  | ConflictingMutBorrow local_id span hint
  | SharedMutOverlap local_id span hint
  | EscapingBorrow local_id span hint
  | DropMissing local_id span hint
  | DoubleDrop local_id span hint
  | FieldOutOfBounds place_debug span hint
  | UnresolvedDefId u32 span hint
  | NonExhaustiveSwitch span hint
  | Internal string

definition category :: "mir_error \<Rightarrow> string" where
  "category e =
     (case e of
        UseAfterMove _ _ _ \<Rightarrow> ''use-after-move''
      | UseAfterDrop _ _ _ \<Rightarrow> ''use-after-drop''
      | ConflictingMutBorrow _ _ _ \<Rightarrow> ''conflicting-mut-borrow''
      | SharedMutOverlap _ _ _ \<Rightarrow> ''shared-mut-overlap''
      | EscapingBorrow _ _ _ \<Rightarrow> ''escaping-borrow''
      | DropMissing _ _ _ \<Rightarrow> ''drop-missing''
      | DoubleDrop _ _ _ \<Rightarrow> ''double-drop''
      | FieldOutOfBounds _ _ _ \<Rightarrow> ''field-out-of-bounds''
      | UnresolvedDefId _ _ _ \<Rightarrow> ''unresolved-defid''
      | NonExhaustiveSwitch _ _ \<Rightarrow> ''non-exhaustive-switch''
      | Internal _ \<Rightarrow> ''internal'')"

definition use_after_move :: "local_id \<Rightarrow> span \<Rightarrow> mir_error" where
  "use_after_move l sp = UseAfterMove l sp
     (Some ''change to `&s` to borrow without consuming (ADR-0052a explicit shared borrow)'')"

definition mir_error_suggestion_text :: "mir_error \<Rightarrow> hint" where
  "mir_error_suggestion_text e =
     (case e of
        UseAfterMove _ _ h \<Rightarrow> h
      | UseAfterDrop _ _ h \<Rightarrow> h
      | ConflictingMutBorrow _ _ h \<Rightarrow> h
      | SharedMutOverlap _ _ h \<Rightarrow> h
      | EscapingBorrow _ _ h \<Rightarrow> h
      | DropMissing _ _ h \<Rightarrow> h
      | DoubleDrop _ _ h \<Rightarrow> h
      | FieldOutOfBounds _ _ h \<Rightarrow> h
      | UnresolvedDefId _ _ h \<Rightarrow> h
      | NonExhaustiveSwitch _ h \<Rightarrow> h
      | Internal _ \<Rightarrow> None)"

definition mir_error_fix_safety_code :: "mir_error \<Rightarrow> u8" where
  "mir_error_fix_safety_code e =
     (case e of
        UseAfterMove _ _ _ \<Rightarrow> 2
      | UseAfterDrop _ _ _ \<Rightarrow> 2
      | ConflictingMutBorrow _ _ _ \<Rightarrow> 2
      | SharedMutOverlap _ _ _ \<Rightarrow> 2
      | EscapingBorrow _ _ _ \<Rightarrow> 5
      | DropMissing _ _ _ \<Rightarrow> 2
      | DoubleDrop _ _ _ \<Rightarrow> 5
      | FieldOutOfBounds _ _ _ \<Rightarrow> 5
      | UnresolvedDefId _ _ _ \<Rightarrow> 5
      | Internal _ \<Rightarrow> 5
      | NonExhaustiveSwitch _ _ \<Rightarrow> 2)"

text \<open>A panic, or an error the pass returns.\<close>

datatype fault = Panic | Fail mir_error

definition synthetic_span :: span where
  "synthetic_span = span_point 0 0"

section \<open>Well-formed graphs\<close>

text \<open>Block \<open>i\<close> carries the identifier \<open>i\<close>, and every edge leads to a block of the body.\<close>

definition wf_cfg :: "body \<Rightarrow> bool" where
  "wf_cfg body \<longleftrightarrow>
     blocks body \<noteq> [] \<and>
     map bb_id (blocks body) = [0..<length (blocks body)] \<and>
     list_all (\<lambda>b. list_all (\<lambda>t. t < length (blocks body)) (terminator_successors (terminator b)))
       (blocks body)"

lemma wf_cfg_nonempty: "wf_cfg body \<Longrightarrow> 0 < length (blocks body)"
  by (simp add: wf_cfg_def)

lemma wf_cfg_succ:
  "wf_cfg body \<Longrightarrow> b < length (blocks body)
     \<Longrightarrow> c \<in> set (terminator_successors (terminator (blocks body ! b))) \<Longrightarrow> c < length (blocks body)"
  by (auto simp: wf_cfg_def list_all_iff)

lemma wf_cfg_id:
  assumes "wf_cfg body" "b < length (blocks body)"
  shows "bb_id (blocks body ! b) = b"
proof -
  have "map bb_id (blocks body) ! b = [0..<length (blocks body)] ! b"
    using assms(1) by (simp only: wf_cfg_def)
  with assms(2) show ?thesis by simp
qed

end
