(* ===== verification/Flow.thy ===== *)
theory Flow
  imports Mir "HOL-Library.Product_Order"
begin

text \<open>
  The work-list iteration both MIR passes use (\<open>borrow_check\<close> in \<open>borrow.rs\<close>, \<open>verify_drops\<close>
  in \<open>drop.rs\<close>), stated as an interface: a transfer function per block on a join
  semilattice of facts, distributive and bounded. One iteration is a relation that the
  concrete loops are shown to take; the lemmas give that the iteration ends, that a finished
  table covers every run of the graph, and that an error found on a joined fact is the error
  of some run. The loop therefore accepts exactly the graphs none of whose runs fails.
\<close>

type_synonym 's table = "block_id \<Rightarrow> 's option"

definition join_into :: "'s::semilattice_sup \<Rightarrow> block_id \<Rightarrow> 's table \<Rightarrow> 's table" where
  "join_into out c T = T(c \<mapsto> (case T c of None \<Rightarrow> out | Some t \<Rightarrow> sup t out))"

definition table_le :: "'s::semilattice_sup table \<Rightarrow> 's table \<Rightarrow> bool" where
  "table_le T T' \<longleftrightarrow> (\<forall>c t. T c = Some t \<longrightarrow> (\<exists>t'. T' c = Some t' \<and> t \<le> t'))"

lemma table_le_refl [simp]: "table_le T T"
  by (simp add: table_le_def)

lemma table_le_trans: "table_le T T' \<Longrightarrow> table_le T' T'' \<Longrightarrow> table_le T T''"
  unfolding table_le_def by (meson order_trans)

lemma table_le_join: "table_le T (join_into out c T)"
  by (auto simp: table_le_def join_into_def)

lemma table_le_joins: "table_le T (fold (join_into out) cs T)"
  by (induction cs arbitrary: T) (auto intro: table_le_trans table_le_join)

lemma joins_above: "c \<in> set cs \<Longrightarrow> \<exists>t. fold (join_into out) cs T c = Some t \<and> out \<le> t"
proof (induction cs arbitrary: T)
  case (Cons d cs)
  show ?case
  proof (cases "c = d")
    case True
    have "\<exists>t. join_into out d T d = Some t \<and> out \<le> t"
      by (auto simp: join_into_def split: option.splits)
    with True table_le_joins [of "join_into out d T" out cs] show ?thesis
      by (force simp: table_le_def intro: order_trans)
  next
    case False
    with Cons show ?thesis by simp
  qed
qed simp

lemma joins_other: "c \<notin> set cs \<Longrightarrow> fold (join_into out) cs T c = T c"
  by (induction cs arbitrary: T) (auto simp: join_into_def)

lemma joins_value:
  assumes "c \<in> set cs"
  shows "fold (join_into out) cs T c = Some (case T c of None \<Rightarrow> out | Some t \<Rightarrow> sup t out)"
  using assms
proof (induction cs arbitrary: T)
  case (Cons d cs)
  show ?case
  proof (cases "c \<in> set cs")
    case True
    then show ?thesis using Cons.IH [of "join_into out d T"]
      by (auto simp: join_into_def sup.assoc split: option.splits)
  next
    case False
    with Cons.prems show ?thesis by (simp add: joins_other) (simp add: join_into_def)
  qed
qed simp

text \<open>A bound on the blocks and edge targets, whether or not the edges stay in the body.\<close>

definition graph_bound :: "body \<Rightarrow> nat" where
  "graph_bound body = Suc (length (blocks body) +
     sum_list (concat (map (\<lambda>blk. terminator_successors (terminator blk)) (blocks body))))"

lemma succ_less_bound:
  assumes "b < length (blocks body)" "c \<in> set (terminator_successors (terminator (blocks body ! b)))"
  shows "c < graph_bound body"
proof -
  have "c \<in> set (concat (map (\<lambda>blk. terminator_successors (terminator blk)) (blocks body)))"
    using assms by auto
  then show ?thesis unfolding graph_bound_def using member_le_sum_list [of c] by fastforce
qed

text \<open>\<open>if !work.contains(&s) { work.push(s); }\<close>, and the propagation of one output to one
  successor in terms of facts.\<close>

definition push_work :: "block_id \<Rightarrow> block_id list \<Rightarrow> block_id list" where
  "push_work b w = (if b \<in> set w then w else b # w)"

definition spread :: "'s::semilattice_sup \<Rightarrow> block_id \<Rightarrow> 's table \<times> block_id list \<Rightarrow> 's table \<times> block_id list" where
  "spread out c = (\<lambda>(T, W). let T' = join_into out c T in (T', if T' c \<noteq> T c then push_work c W else W))"

lemma joins_change_stays:
  assumes "join_into out d T c \<noteq> T c"
  shows "fold (join_into out) cs (join_into out d T) c \<noteq> T c"
proof
  let ?T1 = "join_into out d T"
  assume same: "fold (join_into out) cs ?T1 c = T c"
  have le: "table_le T ?T1" "table_le ?T1 (fold (join_into out) cs ?T1)"
    by (rule table_le_join, rule table_le_joins)
  show False
  proof (cases "T c")
    case None
    with same le(2) assms show ?thesis by (cases "?T1 c") (force simp: table_le_def)+
  next
    case (Some t)
    then obtain t1 where t1: "?T1 c = Some t1" "t \<le> t1" using le(1) by (auto simp: table_le_def)
    from le(2) t1(1) obtain t' where "fold (join_into out) cs ?T1 c = Some t'" "t1 \<le> t'"
      unfolding table_le_def by blast
    with same Some have "t1 \<le> t" by simp
    with t1 Some assms show ?thesis by simp
  qed
qed

lemma fold_spread:
  assumes "distinct W" "fold (spread out) cs (T, W) = (T', W')"
  shows "T' = fold (join_into out) cs T \<and> distinct W' \<and> set W' = set W \<union> {c \<in> set cs. T' c \<noteq> T c}"
  using assms
proof (induction cs arbitrary: T W)
  case (Cons d cs)
  define T1 where "T1 = join_into out d T"
  define W1 where "W1 = (if T1 d \<noteq> T d then push_work d W else W)"
  have spread: "spread out d (T, W) = (T1, W1)"
    by (simp add: spread_def Let_def T1_def W1_def)
  have "fold (spread out) cs (T1, W1) = (T', W')"
    using Cons.prems(2) spread by simp
  moreover have "distinct W1" using Cons.prems(1) by (simp add: W1_def push_work_def)
  ultimately have IH: "T' = fold (join_into out) cs T1" "distinct W'"
    "set W' = set W1 \<union> {c \<in> set cs. T' c \<noteq> T1 c}"
    using Cons.IH by blast+
  have other: "T1 c = T c" if "c \<noteq> d" for c using that by (simp add: T1_def join_into_def)
  have grown: "T' d \<noteq> T d" if "T1 d \<noteq> T d"
    using joins_change_stays [of out d T d cs] that by (simp add: IH(1) T1_def)
  have "set W1 = set W \<union> (if T1 d \<noteq> T d then {d} else {})" by (auto simp: W1_def push_work_def)
  with IH(3) other grown have "set W' = set W \<union> {c \<in> set (d # cs). T' c \<noteq> T c}"
    using joins_other [of d cs out T1] IH(1) by (auto split: if_splits) metis+
  with IH(1,2) show ?case by (simp add: T1_def)
qed simp

locale worklist =
  fixes flow :: "block_id \<Rightarrow> 's::semilattice_sup \<Rightarrow> 'e + block_id list \<times> 's"
    and size_bound :: nat
    and carrier :: "'s \<Rightarrow> bool"
    and room :: "'s \<Rightarrow> nat"
    and max_room :: nat
  assumes flow_sup_ok: "flow b (sup s t) = Inr (cs, out)
      \<Longrightarrow> \<exists>o1 o2. flow b s = Inr (cs, o1) \<and> flow b t = Inr (cs, o2) \<and> out = sup o1 o2"
    and flow_sup_err: "flow b (sup s t) = Inl e \<Longrightarrow> flow b s = Inl e \<or> flow b t = Inl e"
    and flow_targets: "flow b s = Inr (cs, out) \<Longrightarrow> c \<in> set cs \<Longrightarrow> c < size_bound"
    and flow_carrier: "carrier s \<Longrightarrow> flow b s = Inr (cs, out) \<Longrightarrow> carrier out"
    and sup_carrier: "carrier s \<Longrightarrow> carrier t \<Longrightarrow> carrier (sup s t)"
    and room_less: "carrier s \<Longrightarrow> carrier t \<Longrightarrow> s < t \<Longrightarrow> room t < room s"
    and room_max: "carrier s \<Longrightarrow> room s < max_room"
begin

lemma flow_mono:
  assumes "flow b s = Inr (cs, out)" "s' \<le> s"
  shows "\<exists>out'. flow b s' = Inr (cs, out') \<and> out' \<le> out"
  using flow_sup_ok [of b s' s cs out] assms
  by (auto simp: sup_absorb2) (metis sup.cobounded1)

text \<open>One iteration: the popped block's output is joined into its successors, and the
  successors whose entry changed are put on the list.\<close>

definition step :: "'s table \<times> block_id list \<Rightarrow> 's table \<times> block_id list \<Rightarrow> bool" where
  "step = (\<lambda>(T, W) (T', W'). \<exists>b rest s cs out.
     W = b # rest \<and> T b = Some s \<and> flow b s = Inr (cs, out)
     \<and> T' = fold (join_into out) cs T
     \<and> distinct W' \<and> set W' = set rest \<union> {c \<in> set cs. T' c \<noteq> T c})"

definition stable_at :: "'s table \<Rightarrow> block_id \<Rightarrow> bool" where
  "stable_at T b \<longleftrightarrow> (\<forall>s. T b = Some s \<longrightarrow> (\<exists>cs out. flow b s = Inr (cs, out)
     \<and> (\<forall>c \<in> set cs. \<exists>t. T c = Some t \<and> out \<le> t)))"

definition invar :: "'s table \<times> block_id list \<Rightarrow> bool" where
  "invar = (\<lambda>(T, W). (\<forall>b. b \<notin> set W \<longrightarrow> stable_at T b) \<and> distinct W
     \<and> (\<forall>b s. T b = Some s \<longrightarrow> carrier s \<and> b < size_bound) \<and> (\<forall>b \<in> set W. T b \<noteq> None))"

lemma stable_mono:
  assumes "stable_at T b" "table_le T T'" "T' b = T b"
  shows "stable_at T' b"
proof -
  have "\<exists>t. T' c = Some t \<and> out \<le> t" if "\<exists>t. T c = Some t \<and> out \<le> t" for c out
    using that assms(2) by (force simp: table_le_def intro: order_trans)
  then show ?thesis using assms(1,3) unfolding stable_at_def by metis
qed

lemma step_invar:
  assumes "invar (T, W)" "step (T, W) (T', W')"
  shows "invar (T', W')"
proof -
  from assms(2) obtain b rest s cs out where W: "W = b # rest" and b: "T b = Some s"
    and f: "flow b s = Inr (cs, out)" and T': "T' = fold (join_into out) cs T"
    and W': "distinct W'" "set W' = set rest \<union> {c \<in> set cs. T' c \<noteq> T c}"
    by (auto simp: step_def)
  have le: "table_le T T'" unfolding T' by (rule table_le_joins)
  have "stable_at T' c" if c: "c \<notin> set W'" for c
  proof -
    have same: "T' c = T c" using c W' joins_other [of c cs out T] T' by blast
    show ?thesis
    proof (cases "c = b")
      case True
      with same b f joins_above [of _ cs out T] show ?thesis
        by (auto simp: stable_at_def T' [symmetric])
    next
      case False
      with c W' W assms(1) have "stable_at T c" by (auto simp: invar_def)
      then show ?thesis using le same by (rule stable_mono)
    qed
  qed
  moreover have "carrier t \<and> c < size_bound" if t: "T' c = Some t" for c t
  proof (cases "c \<in> set cs")
    case True
    have "carrier s" using assms(1) b by (auto simp: invar_def)
    then have "carrier out" using f by (rule flow_carrier)
    with t True assms(1) show ?thesis
      using joins_value [OF True, of out T] flow_targets [OF f True] sup_carrier
      by (auto simp: T' invar_def split: option.splits)
  next
    case False
    with t assms(1) show ?thesis by (auto simp: T' joins_other invar_def)
  qed
  moreover have "T' c \<noteq> None" if "c \<in> set W'" for c
    using that W' W assms(1) le joins_above [of c cs out T]
    by (fastforce simp: invar_def table_le_def T')
  ultimately show ?thesis using W'(1) by (simp add: invar_def)
qed

text \<open>Termination: every step fills room in the table or shortens the list.\<close>

definition table_room :: "'s table \<Rightarrow> nat" where
  "table_room T = (\<Sum>b < size_bound. case T b of None \<Rightarrow> max_room | Some s \<Rightarrow> room s)"

lemma step_decreases:
  assumes inv: "invar (T, W)" and st: "step (T, W) (T', W')"
  shows "((T', W'), (T, W)) \<in> measures [\<lambda>(T, W). table_room T, \<lambda>(T, W). length W]"
proof -
  from st obtain b rest s cs out where W: "W = b # rest" and T': "T' = fold (join_into out) cs T"
    and W': "distinct W'" "set W' = set rest \<union> {c \<in> set cs. T' c \<noteq> T c}"
    by (auto simp: step_def)
  have inv': "invar (T', W')" by (rule step_invar [OF assms])
  let ?r = "\<lambda>T b. case T b of None \<Rightarrow> max_room | Some s \<Rightarrow> room s"
  have drop: "?r T' c < ?r T c" if "T' c \<noteq> T c" for c
  proof -
    have "c \<in> set cs" using that joins_other [of c cs out T] by (auto simp: T')
    then have v: "T' c = Some (case T c of None \<Rightarrow> out | Some t \<Rightarrow> sup t out)"
      unfolding T' by (rule joins_value)
    show ?thesis
    proof (cases "T c")
      case None
      with v inv' show ?thesis by (auto simp: invar_def intro: room_max)
    next
      case (Some t)
      with v that have "t < sup t out" "T' c = Some (sup t out)" by (auto simp: less_le)
      with Some inv inv' room_less show ?thesis by (auto simp: invar_def)
    qed
  qed
  then have le: "?r T' c \<le> ?r T c" for c by (cases "T' c = T c") (auto intro: less_imp_le)
  show ?thesis
  proof (cases "\<exists>c \<in> set cs. T' c \<noteq> T c")
    case True
    then obtain c where c: "T' c \<noteq> T c" "c \<in> set cs" by blast
    then have "T' c \<noteq> None" using joins_above [of c cs out T] by (auto simp: T')
    with inv' have "c < size_bound" by (auto simp: invar_def)
    then have "table_room T' < table_room T"
      unfolding table_room_def
      by (intro sum_strict_mono_ex1) (use drop [OF c(1)] le in auto)
    then show ?thesis by simp
  next
    case False
    have "T' c = T c" for c
      using False joins_other [of c cs out T] unfolding T' by blast
    then have "T' = T" by (rule ext)
    have "set W' = set rest" using W' False by auto
    moreover have "distinct rest" using inv W by (simp add: invar_def)
    ultimately have "length W' = length rest" using W'(1) by (metis distinct_card)
    with \<open>T' = T\<close> W show ?thesis by simp
  qed
qed

text \<open>Runs of the graph, and the soundness of a finished table.\<close>

inductive run :: "'s \<Rightarrow> block_id \<Rightarrow> 's \<Rightarrow> bool" for s0 where
  run_entry: "run s0 0 s0"
| run_edge: "run s0 b s \<Longrightarrow> flow b s = Inr (cs, out) \<Longrightarrow> c \<in> set cs \<Longrightarrow> run s0 c out"

lemma finished_covers:
  assumes inv: "invar (T, [])" and entry: "T 0 = Some t0" "s0 \<le> t0"
    and r: "run s0 b s"
  shows "\<exists>t. T b = Some t \<and> s \<le> t"
  using r
proof (induction rule: run.induct)
  case run_entry
  then show ?case using entry by blast
next
  case (run_edge b s cs out c)
  then obtain t where t: "T b = Some t" "s \<le> t" by blast
  from inv have "stable_at T b" by (simp add: invar_def)
  with t obtain cs' out' where f: "flow b t = Inr (cs', out')"
    and above: "\<forall>c \<in> set cs'. \<exists>t. T c = Some t \<and> out' \<le> t"
    by (auto simp: stable_at_def)
  from flow_mono [OF f t(2)] run_edge.hyps have "cs = cs'" "out \<le> out'" by auto
  with above run_edge.hyps(3) show ?case by (metis order_trans)
qed

lemma finished_no_error:
  assumes "invar (T, [])" "T 0 = Some t0" "s0 \<le> t0" "run s0 b s"
  shows "\<exists>cs out. flow b s = Inr (cs, out)"
proof -
  from finished_covers [OF assms] obtain t where t: "T b = Some t" "s \<le> t" by blast
  from assms(1) have "stable_at T b" by (simp add: invar_def)
  with t(1) obtain cs out where "flow b t = Inr (cs, out)" by (auto simp: stable_at_def)
  from flow_mono [OF this t(2)] show ?thesis by blast
qed

lemma spread_step:
  assumes "invar (T, b # rest)" "T b = Some s" "flow b s = Inr (cs, out)"
  shows "step (T, b # rest) (fold (spread out) cs (T, rest))"
proof -
  obtain T' W' where r: "fold (spread out) cs (T, rest) = (T', W')" by (cases "fold (spread out) cs (T, rest)")
  have "distinct rest" using assms(1) by (simp add: invar_def)
  from fold_spread [OF this r] assms(2,3) show ?thesis by (auto simp: r step_def)
qed

text \<open>Joined facts and the runs they come from.\<close>

inductive mix :: "'s \<Rightarrow> block_id \<Rightarrow> 's \<Rightarrow> bool" for s0 where
  mix_run: "run s0 b s \<Longrightarrow> mix s0 b s"
| mix_sup: "mix s0 b s \<Longrightarrow> mix s0 b t \<Longrightarrow> mix s0 b (sup s t)"

lemma mix_edge: "mix s0 b s \<Longrightarrow> flow b s = Inr (cs, out) \<Longrightarrow> c \<in> set cs \<Longrightarrow> mix s0 c out"
proof (induction arbitrary: out rule: mix.induct)
  case (mix_run b s)
  then show ?case by (blast intro: mix.intros run_edge)
next
  case (mix_sup b s t)
  from flow_sup_ok [OF mix_sup.prems(1)] mix_sup show ?case by (blast intro: mix.intros)
qed

lemma mix_error: "mix s0 b s \<Longrightarrow> flow b s = Inl e \<Longrightarrow> \<exists>s'. run s0 b s' \<and> flow b s' = Inl e"
  by (induction rule: mix.induct) (use flow_sup_err in blast)+

lemma mix_step:
  assumes "step (T, W) (T', W')" "\<forall>b s. T b = Some s \<longrightarrow> mix s0 b s"
  shows "\<forall>b s. T' b = Some s \<longrightarrow> mix s0 b s"
proof (intro allI impI)
  from assms(1) obtain b s cs out where b: "T b = Some s" "flow b s = Inr (cs, out)"
    and T': "T' = fold (join_into out) cs T"
    by (auto simp: step_def)
  fix c t assume t: "T' c = Some t"
  show "mix s0 c t"
  proof (cases "c \<in> set cs")
    case True
    then have "mix s0 c out" using mix_edge assms(2) b by blast
    with t assms(2) joins_value [OF True, of out T] show ?thesis
      by (auto simp: T' split: option.splits intro: mix_sup)
  next
    case False
    with t assms(2) show ?thesis by (simp add: T' joins_other)
  qed
qed

text \<open>The results of the iteration.\<close>

inductive finishes :: "'s table \<times> block_id list \<Rightarrow> 'e + 's table \<Rightarrow> bool" where
  finishes_done: "finishes (T, []) (Inr T)"
| finishes_error: "T b = Some s \<Longrightarrow> flow b s = Inl e \<Longrightarrow> finishes (T, b # rest) (Inl e)"
| finishes_step: "step (T, W) (T', W') \<Longrightarrow> finishes (T', W') r \<Longrightarrow> finishes (T, W) r"

lemma step_table_le: "step (T, W) (T', W') \<Longrightarrow> table_le T T'"
  by (auto simp: step_def intro: table_le_joins)

lemma finishes_ok:
  "finishes S r \<Longrightarrow> r = Inr T' \<Longrightarrow> invar S \<Longrightarrow> invar (T', []) \<and> table_le (fst S) T'"
  by (induction arbitrary: T' rule: finishes.induct)
    (auto dest: step_invar step_table_le intro: table_le_trans)

lemma finishes_err:
  "finishes S r \<Longrightarrow> r = Inl e \<Longrightarrow> \<forall>b s. fst S b = Some s \<longrightarrow> mix s0 b s
     \<Longrightarrow> \<exists>b s. run s0 b s \<and> flow b s = Inl e"
proof (induction arbitrary: e rule: finishes.induct)
  case (finishes_error T b s e' rest)
  then show ?case using mix_error by fastforce
next
  case (finishes_step T W T' W' r)
  then show ?case using mix_step by simp
qed simp

lemma invar_start: "carrier s0 \<Longrightarrow> 0 < size_bound \<Longrightarrow> invar ([0 \<mapsto> s0], [0])"
  by (auto simp: invar_def stable_at_def)

theorem accepts_iff:
  assumes "finishes ([0 \<mapsto> s0], [0]) r" "carrier s0" "0 < size_bound"
  shows "(\<exists>T. r = Inr T) \<longleftrightarrow> (\<forall>b s. run s0 b s \<longrightarrow> (\<exists>o'. flow b s = Inr o'))"
    and "r = Inl e \<Longrightarrow> \<exists>b s. run s0 b s \<and> flow b s = Inl e"
proof -
  have start: "\<forall>b s. fst ([0 \<mapsto> s0], [0::nat]) b = Some s \<longrightarrow> mix s0 b s"
    by (auto intro: mix_run run_entry)
  show err: "\<exists>b s. run s0 b s \<and> flow b s = Inl e" if "r = Inl e" for e
    using finishes_err [OF assms(1) that start] .
  have "\<exists>o'. flow b s = Inr o'" if "r = Inr T" "run s0 b s" for T b s
  proof -
    have T: "invar (T, [])" "table_le [0 \<mapsto> s0] T"
      using finishes_ok [OF assms(1) that(1) invar_start] assms(2,3) by auto
    then obtain t0 where "T 0 = Some t0" "s0 \<le> t0" unfolding table_le_def by (metis fun_upd_same)
    with finished_no_error [OF T(1) _ _ that(2)] show ?thesis by blast
  qed
  with err show "(\<exists>T. r = Inr T) \<longleftrightarrow> (\<forall>b s. run s0 b s \<longrightarrow> (\<exists>o'. flow b s = Inr o'))"
    by (cases r) fastforce+
qed

text \<open>A loop over its own states \<open>'c\<close> that takes these steps returns.\<close>

lemma loop_finishes:
  fixes abs :: "'c \<Rightarrow> 's table \<times> block_id list" and loop :: "'c \<Rightarrow> ('e + unit) option"
  assumes steps: "\<And>c T W. C c \<Longrightarrow> invar (abs c) \<Longrightarrow> abs c = (T, W) \<Longrightarrow>
      (W = [] \<and> loop c = Some (Inr ())) \<or>
      (\<exists>b rest s e. W = b # rest \<and> T b = Some s \<and> flow b s = Inl e \<and> loop c = Some (Inl e)) \<or>
      (\<exists>c'. C c' \<and> step (T, W) (abs c') \<and> loop c = loop c')"
    and start: "C c" "invar (abs c)"
  shows "\<exists>r. finishes (abs c) r \<and> loop c = Some (map_sum id (\<lambda>_. ()) r)"
proof -
  let ?R = "measures [\<lambda>(T, W). table_room T, \<lambda>(T, W). length W]"
  have wf: "wf (inv_image ?R abs)" by (rule wf_inv_image) (rule wf_measures)
  have "C c \<longrightarrow> invar (abs c) \<longrightarrow> (\<exists>r. finishes (abs c) r \<and> loop c = Some (map_sum id (\<lambda>_. ()) r))"
  proof (induction c rule: wf_induct_rule [OF wf])
    case (1 c)
    show ?case
    proof (intro impI)
      assume c: "C c" "invar (abs c)"
      obtain T W where a: "abs c = (T, W)" by (cases "abs c")
      from steps [OF c a] consider
          (fin) "W = []" "loop c = Some (Inr ())"
        | (error) b rest s e where "W = b # rest" "T b = Some s" "flow b s = Inl e" "loop c = Some (Inl e)"
        | (step) c' where "C c'" "step (T, W) (abs c')" "loop c = loop c'"
        by blast
      then show "\<exists>r. finishes (abs c) r \<and> loop c = Some (map_sum id (\<lambda>_. ()) r)"
      proof cases
        case fin
        then show ?thesis
          using a finishes_done by (intro exI [of _ "Inr T"]) simp
      next
        case error
        then show ?thesis
          using a finishes_error by (intro exI [of _ "Inl e"]) simp
      next
        case step
        obtain T' W' where a': "abs c' = (T', W')" by (cases "abs c'")
        have "invar (T', W')" and "((T', W'), (T, W)) \<in> ?R"
          using step_invar step_decreases c(2) step(2) unfolding a a' by blast+
        with 1 [rule_format, of c'] step(1) a a'
        obtain r where "finishes (T', W') r" "loop c' = Some (map_sum id (\<lambda>_. ()) r)" by auto
        with step(2,3) a a' finishes_step show ?thesis by (intro exI [of _ r]) auto
      qed
    qed
  qed
  with start show ?thesis by blast
qed

end

end
