(* ===== verification/Mir_Borrow.thy ===== *)
theory Mir_Borrow
  imports Flow
begin

text \<open>
  The borrow checker of \<open>crates/cobrust-mir/src/borrow.rs\<close>, one definition per function.
  A \<open>HashMap\<close> of sets is a map to finite sets, the \<open>Vec\<close> of pending blocks a list whose head
  is the end of the vector that \<open>push\<close> and \<open>pop\<close> use. \<open>None\<close> is a loop that does not end,
  \<open>Panic\<close> an index out of range.
\<close>

section \<open>One block\<close>

record block_state =
  moved :: "local_id set"
  dropped :: "local_id set"
  borrows :: "local_id \<rightharpoonup> borrow_kind list"

definition borrow_hint :: hint where
  "borrow_hint =
     Some ''change to `&s` to borrow without consuming (ADR-0052a explicit shared borrow)''"

definition drop_hint :: hint where
  "drop_hint =
     Some ''the value was already dropped; reorder code so the read precedes the drop''"

definition overlap_hint :: hint where
  "overlap_hint =
     Some ''cannot borrow mutably while a shared borrow is active; release shared first''"

fun check_operand_read :: "operand \<Rightarrow> span \<Rightarrow> block_state \<Rightarrow> mir_error + block_state" where
  "check_operand_read (OpConst _) sp s = Inr s"
| "check_operand_read (OpCopy p) sp s =
     (if place_local p \<in> moved s then Inl (UseAfterMove (place_local p) sp borrow_hint)
      else if place_local p \<in> dropped s then Inl (UseAfterDrop (place_local p) sp drop_hint)
      else Inr s)"
| "check_operand_read (OpMove p) sp s =
     (if place_local p \<in> moved s then Inl (UseAfterMove (place_local p) sp borrow_hint)
      else if place_local p \<in> dropped s then Inl (UseAfterDrop (place_local p) sp drop_hint)
      else Inr s)"

fun check_rvalue_reads :: "rvalue \<Rightarrow> span \<Rightarrow> block_state \<Rightarrow> mir_error + block_state" where
  "check_rvalue_reads (Use op) sp s = check_operand_read op sp s"
| "check_rvalue_reads (BinaryOp _ a b) sp s =
     and_then (check_operand_read a sp s) (check_operand_read b sp)"
| "check_rvalue_reads (UnaryOp _ a) sp s = check_operand_read a sp s"
| "check_rvalue_reads (Aggregate _ items) sp s =
     fold_res (\<lambda>it s. check_operand_read it sp s) items s"
| "check_rvalue_reads (Cast _ op _) sp s = check_operand_read op sp s"
| "check_rvalue_reads (Ref _ _) sp s = Inr s"
| "check_rvalue_reads (Discriminant _) sp s = Inr s"
| "check_rvalue_reads (Len _) sp s = Inr s"
| "check_rvalue_reads (NullaryOp _) sp s = Inr s"

text \<open>\<open>entry(..).or_default()\<close> of the stack of a local.\<close>

definition borrow_stack :: "block_state \<Rightarrow> local_id \<Rightarrow> borrow_kind list" where
  "borrow_stack s l = (case borrows s l of Some st \<Rightarrow> st | None \<Rightarrow> [])"

definition push_borrow ::
  "place \<Rightarrow> borrow_kind \<Rightarrow> span \<Rightarrow> block_state \<Rightarrow> mir_error + block_state" where
  "push_borrow p kind sp s =
     (let l = place_local p; stack = borrow_stack s l;
          has_mut = Mut \<in> set stack; has_shared = Shared \<in> set stack;
          pushed = s\<lparr>borrows := (borrows s)(l \<mapsto> stack @ [kind])\<rparr>
      in case kind of
           Mut \<Rightarrow>
             if has_mut then Inl (ConflictingMutBorrow l sp
               (Some ''only one mutable borrow can be active at a time; release the first borrow first''))
             else if has_shared then Inl (SharedMutOverlap l sp overlap_hint)
             else Inr pushed
         | Shared \<Rightarrow>
             if has_mut then Inl (SharedMutOverlap l sp overlap_hint)
             else Inr pushed)"

definition clear_moved :: "place \<Rightarrow> block_state \<Rightarrow> block_state" where
  "clear_moved p s = s\<lparr>moved := moved s - {place_local p}\<rparr>"

definition mark_moved :: "place \<Rightarrow> block_state \<Rightarrow> block_state" where
  "mark_moved p s = s\<lparr>moved := insert (place_local p) (moved s)\<rparr>"

text \<open>The \<open>if let Rvalue::Use(Operand::Move(p))\<close> and \<open>if let Rvalue::Ref\<close> of an assignment.\<close>

definition consume_source :: "rvalue \<Rightarrow> span \<Rightarrow> block_state \<Rightarrow> mir_error + block_state" where
  "consume_source rv sp s =
     (case rv of
        Use (OpMove p) \<Rightarrow>
          if place_local p \<in> moved s then Inl (UseAfterMove (place_local p) sp borrow_hint)
          else Inr (mark_moved p s)
      | _ \<Rightarrow> Inr s)"

definition take_borrow :: "rvalue \<Rightarrow> span \<Rightarrow> block_state \<Rightarrow> mir_error + block_state" where
  "take_borrow rv sp s = (case rv of Ref kind target \<Rightarrow> push_borrow target kind sp s | _ \<Rightarrow> Inr s)"

definition check_statement :: "statement \<Rightarrow> block_state \<Rightarrow> mir_error + block_state" where
  "check_statement st s =
     (case st_kind st of
        Assign p rv \<Rightarrow>
          and_then (check_rvalue_reads rv (st_span st) s) (\<lambda>s1.
          and_then (consume_source rv (st_span st) (clear_moved p s1)) (\<lambda>s2.
          take_borrow rv (st_span st) s2))
      | StorageLive _ \<Rightarrow> Inr s
      | StorageDead _ \<Rightarrow> Inr s
      | Nop \<Rightarrow> Inr s)"

fun check_arg :: "operand \<Rightarrow> block_state \<Rightarrow> mir_error + block_state" where
  "check_arg a s = and_then (check_operand_read a synthetic_span s)
     (\<lambda>s. Inr (case a of OpMove p \<Rightarrow> mark_moved p s | _ \<Rightarrow> s))"

fun check_terminator :: "terminator \<Rightarrow> block_state \<Rightarrow> mir_error + block_id list \<times> block_state" where
  "check_terminator (Goto b) s = Inr ([b], s)"
| "check_terminator (SwitchInt operand cases otherwise) s =
     and_then (check_operand_read operand synthetic_span s)
       (\<lambda>s. Inr (map snd cases @ [otherwise], s))"
| "check_terminator (Call func args destination target unwind) s =
     and_then (check_operand_read func synthetic_span s) (\<lambda>s.
     and_then (fold_res check_arg args s) (\<lambda>s.
     Inr ([target] @ (case unwind of Some u \<Rightarrow> [u] | None \<Rightarrow> []), clear_moved destination s)))"
| "check_terminator (Drop p target) s =
     Inr ([target], s\<lparr>dropped := insert (place_local p) (dropped s)\<rparr>)"
| "check_terminator Return s = Inr ([], s)"
| "check_terminator Unreachable s = Inr ([], s)"
| "check_terminator (Assert cond _ _ target) s =
     and_then (check_operand_read cond synthetic_span s) (\<lambda>s. Inr ([target], s))"

text \<open>The walk of one block from its entry state.\<close>

definition check_block :: "basic_block \<Rightarrow> block_state \<Rightarrow> mir_error + block_id list \<times> block_state" where
  "check_block blk s =
     and_then (fold_res check_statement (statements blk) s) (check_terminator (terminator blk))"

section \<open>The work list\<close>

record check_state =
  entry_moved :: "block_id \<rightharpoonup> local_id set"
  entry_dropped :: "block_id \<rightharpoonup> local_id set"
  visited :: "block_id set"
  work :: "block_id list"

definition entry_of :: "(block_id \<rightharpoonup> local_id set) \<Rightarrow> block_id \<Rightarrow> local_id set" where
  "entry_of table b = (case table b of Some x \<Rightarrow> x | None \<Rightarrow> {})"

definition grow_set ::
  "(block_id \<rightharpoonup> local_id set) \<Rightarrow> block_id \<Rightarrow> local_id set \<Rightarrow> bool \<times> (block_id \<rightharpoonup> local_id set)" where
  "grow_set table b new =
     (\<not> new \<subseteq> entry_of table b, table(b \<mapsto> entry_of table b \<union> new))"

definition propagate_borrow :: "block_state \<Rightarrow> block_id \<Rightarrow> check_state \<Rightarrow> check_state" where
  "propagate_borrow out s st =
     (let (grew_moved, em) = grow_set (entry_moved st) s (moved out);
          (grew_dropped, ed) = grow_set (entry_dropped st) s (dropped out);
          needs_visit = s \<notin> visited st
      in st\<lparr>entry_moved := em, entry_dropped := ed,
            work := if grew_moved \<or> grew_dropped \<or> needs_visit then push_work s (work st)
                    else work st\<rparr>)"

text \<open>One turn of \<open>while let Some(bid) = work.pop()\<close>.\<close>

definition borrow_turn :: "body \<Rightarrow> block_id \<Rightarrow> check_state \<Rightarrow> fault + check_state" where
  "borrow_turn body bid st =
     (let st = st\<lparr>visited := insert bid (visited st)\<rparr>
      in if bid < length (blocks body) then
           (case check_block (blocks body ! bid)
                   \<lparr>moved = entry_of (entry_moved st) bid, dropped = entry_of (entry_dropped st) bid,
                    borrows = Map.empty\<rparr> of
              Inl e \<Rightarrow> Inl (Fail e)
            | Inr (succs, out) \<Rightarrow> Inr (fold (propagate_borrow out) succs st))
         else Inl Panic)"

partial_function (option) borrow_loop :: "body \<Rightarrow> check_state \<Rightarrow> (fault, unit) outcome" where
  "borrow_loop body st =
     (case work st of
        [] \<Rightarrow> Some (Inr ())
      | bid # rest \<Rightarrow>
          (case borrow_turn body bid (st\<lparr>work := rest\<rparr>) of
             Inl e \<Rightarrow> Some (Inl e)
           | Inr st' \<Rightarrow> borrow_loop body st'))"

definition borrow_start :: check_state where
  "borrow_start = \<lparr>entry_moved = [0 \<mapsto> {}], entry_dropped = [0 \<mapsto> {}], visited = {}, work = [0]\<rparr>"

definition borrow_check :: "body \<Rightarrow> (fault, unit) outcome" where
  "borrow_check body =
     (if blocks body = [] then Some (Inr ()) else borrow_loop body borrow_start)"

end
