(* ===== verification/Mir_Drop.thy ===== *)
theory Mir_Drop
  imports Mir_Borrow
begin

text \<open>
  The drop-schedule pass of \<open>crates/cobrust-mir/src/drop.rs\<close> and the pipeline of passes at the
  end of \<open>lower\<close> in \<open>lower.rs\<close>. The pass mutates the body, so the model returns the result
  and the body it leaves. The order in which a \<open>HashSet\<close> is iterated is the argument
  \<open>iter\<close>: any function that lists each element of a finite set once.
\<close>

section \<open>Eligible locals and moves\<close>

definition is_copy :: "ty \<Rightarrow> bool" where
  "is_copy t \<longleftrightarrow> (case t of TBool \<Rightarrow> True | TInt \<Rightarrow> True | TFloat \<Rightarrow> True | TImag \<Rightarrow> True
     | TNone \<Rightarrow> True | TNever \<Rightarrow> True | TIntN _ \<Rightarrow> True | _ \<Rightarrow> False)"

fun collect_move_in_operand :: "operand \<Rightarrow> local_id set \<Rightarrow> local_id set" where
  "collect_move_in_operand (OpMove p) into = insert (place_local p) into"
| "collect_move_in_operand _ into = into"

fun collect_moves_in_rvalue :: "rvalue \<Rightarrow> local_id set \<Rightarrow> local_id set" where
  "collect_moves_in_rvalue (Use op) into = collect_move_in_operand op into"
| "collect_moves_in_rvalue (Cast _ op _) into = collect_move_in_operand op into"
| "collect_moves_in_rvalue (UnaryOp _ op) into = collect_move_in_operand op into"
| "collect_moves_in_rvalue (BinaryOp _ a b) into =
     collect_move_in_operand b (collect_move_in_operand a into)"
| "collect_moves_in_rvalue (Aggregate _ items) into = fold collect_move_in_operand items into"
| "collect_moves_in_rvalue (Ref _ _) into = into"
| "collect_moves_in_rvalue (Discriminant _) into = into"
| "collect_moves_in_rvalue (Len _) into = into"
| "collect_moves_in_rvalue (NullaryOp _) into = into"

fun collect_statement_moves :: "statement_kind \<Rightarrow> local_id set \<Rightarrow> local_id set" where
  "collect_statement_moves (Assign _ rv) into = collect_moves_in_rvalue rv into"
| "collect_statement_moves _ into = into"

fun collect_terminator_moves :: "terminator \<Rightarrow> local_id set \<Rightarrow> local_id set" where
  "collect_terminator_moves (Call _ args _ _ _) into = fold collect_move_in_operand args into"
| "collect_terminator_moves _ into = into"

definition drop_eligible :: "body \<Rightarrow> local_id set" where
  "drop_eligible body =
     (let param_cutoff = param_count body + 1
      in ld_id ` {ld \<in> set (locals body). \<not> is_copy (ld_ty ld) \<and> \<not> ld_id ld < param_cutoff})"

definition block_moves :: "basic_block \<Rightarrow> local_id set" where
  "block_moves blk =
     collect_terminator_moves (terminator blk)
       (fold (\<lambda>st. collect_statement_moves (st_kind st)) (statements blk) {})"

definition record_moves ::
  "basic_block \<Rightarrow> (block_id \<rightharpoonup> local_id set) \<Rightarrow> (block_id \<rightharpoonup> local_id set)" where
  "record_moves blk m = m(bb_id blk \<mapsto> block_moves blk)"

definition moved_out_per_block :: "body \<Rightarrow> (block_id \<rightharpoonup> local_id set)" where
  "moved_out_per_block body = fold record_moves (blocks body) Map.empty"

definition globally_moved :: "body \<Rightarrow> local_id set" where
  "globally_moved body = \<Union> (ran (moved_out_per_block body))"

definition return_blocks :: "body \<Rightarrow> block_id list" where
  "return_blocks body = map bb_id (filter (\<lambda>b. terminator b = Return) (blocks body))"

definition to_drop :: "(local_id set \<Rightarrow> local_id list) \<Rightarrow> body \<Rightarrow> local_id list" where
  "to_drop iter body = filter (\<lambda>l. l \<notin> globally_moved body) (iter (drop_eligible body))"

section \<open>Chains and rewiring\<close>

text \<open>The loop pushes one block per local, the last local first.\<close>

definition push_drop :: "local_id \<Rightarrow> block_id \<times> body \<Rightarrow> block_id \<times> body" where
  "push_drop l = (\<lambda>(tail, body).
     let new_id = length (blocks body)
     in (new_id, body\<lparr>blocks := blocks body @
          [\<lparr>bb_id = new_id, statements = [], terminator = Drop (place_of_local l) tail,
            bb_span = body_span body\<rparr>]\<rparr>))"

definition build_drop_chain :: "body \<Rightarrow> local_id list \<Rightarrow> block_id \<Rightarrow> block_id \<times> body" where
  "build_drop_chain body ls final_target =
     (if ls = [] then (final_target, body) else fold push_drop (rev ls) (final_target, body))"

fun rewire_terminator :: "terminator \<Rightarrow> block_id \<Rightarrow> block_id \<Rightarrow> terminator" where
  "rewire_terminator (Goto b) src dst = (if b = src then Goto dst else Goto b)"
| "rewire_terminator (SwitchInt operand cases otherwise) src dst =
     SwitchInt operand (map (\<lambda>(v, b). (v, if b = src then dst else b)) cases)
       (if otherwise = src then dst else otherwise)"
| "rewire_terminator (Call func args destination target unwind) src dst =
     Call func args destination (if target = src then dst else target)
       (map_option (\<lambda>u. if u = src then dst else u) unwind)"
| "rewire_terminator (Drop p target) src dst = Drop p target"
| "rewire_terminator (Assert cond expected msg target) src dst =
     Assert cond expected msg (if target = src then dst else target)"
| "rewire_terminator Return src dst = Return"
| "rewire_terminator Unreachable src dst = Unreachable"

definition rewire_predecessors :: "body \<Rightarrow> block_id \<Rightarrow> block_id \<Rightarrow> body" where
  "rewire_predecessors body src dst =
     (if src = dst then body
      else body\<lparr>blocks := map (\<lambda>blk. if bb_id blk = src then blk
          else blk\<lparr>terminator := rewire_terminator (terminator blk) src dst\<rparr>) (blocks body)\<rparr>)"

section \<open>Verification\<close>

record drop_state =
  dropped_at :: "block_id \<rightharpoonup> local_id set"
  pending :: "block_id list"

definition propagate :: "local_id set \<Rightarrow> block_id \<Rightarrow> drop_state \<Rightarrow> drop_state" where
  "propagate state target st =
     (let newly_seen = (dropped_at st target = None);
          entry = entry_of (dropped_at st) target;
          grew = (\<not> state \<subseteq> entry)
      in st\<lparr>dropped_at := (dropped_at st)(target \<mapsto> entry \<union> state),
            pending := if grew \<or> newly_seen then push_work target (pending st) else pending st\<rparr>)"

definition double_drop_hint :: hint where
  "double_drop_hint = Some ''a value can only be dropped once; check your control flow''"

text \<open>One turn of the loop of \<open>verify_drops\<close>; every arm propagates to the successors in order.\<close>

definition verify_turn :: "body \<Rightarrow> block_id \<Rightarrow> drop_state \<Rightarrow> fault + drop_state" where
  "verify_turn body bid st =
     (if bid < length (blocks body) then
        (let block = blocks body ! bid;
             dropped = entry_of (dropped_at st) bid
         in case terminator block of
              Drop p target \<Rightarrow>
                if place_local p \<in> dropped
                then Inl (Fail (DoubleDrop (place_local p) (bb_span block) double_drop_hint))
                else Inr (propagate (insert (place_local p) dropped) target st)
            | Goto t \<Rightarrow> Inr (propagate dropped t st)
            | SwitchInt _ cases otherwise \<Rightarrow>
                Inr (propagate dropped otherwise (fold (\<lambda>(_, t). propagate dropped t) cases st))
            | Call _ _ _ target unwind \<Rightarrow>
                (let st = propagate dropped target st
                 in Inr (case unwind of Some u \<Rightarrow> propagate dropped u st | None \<Rightarrow> st))
            | Assert _ _ _ target \<Rightarrow> Inr (propagate dropped target st)
            | Return \<Rightarrow> Inr st
            | Unreachable \<Rightarrow> Inr st)
      else Inl Panic)"

partial_function (option) verify_loop :: "body \<Rightarrow> drop_state \<Rightarrow> (fault, unit) outcome" where
  "verify_loop body st =
     (case pending st of
        [] \<Rightarrow> Some (Inr ())
      | bid # rest \<Rightarrow>
          (case verify_turn body bid (st\<lparr>pending := rest\<rparr>) of
             Inl e \<Rightarrow> Some (Inl e)
           | Inr st' \<Rightarrow> verify_loop body st'))"

definition verify_start :: drop_state where
  "verify_start = \<lparr>dropped_at = [0 \<mapsto> {}], pending = [0]\<rparr>"

definition verify_drops :: "body \<Rightarrow> (fault, unit) outcome" where
  "verify_drops body = (if blocks body = [] then Some (Inr ()) else verify_loop body verify_start)"

section \<open>The schedule\<close>

definition schedule_return :: "local_id list \<Rightarrow> block_id \<Rightarrow> body \<Rightarrow> body" where
  "schedule_return ls ret_id body =
     (if ls = [] then body
      else (let (chain_head, body) = build_drop_chain body ls ret_id
            in rewire_predecessors body ret_id chain_head))"

definition compute_drop_schedule ::
  "(local_id set \<Rightarrow> local_id list) \<Rightarrow> body \<Rightarrow> (fault, unit) outcome \<times> body" where
  "compute_drop_schedule iter body =
     (if blocks body = [] then (Some (Inr ()), body)
      else (let scheduled = fold (schedule_return (to_drop iter body)) (return_blocks body) body
            in (verify_drops scheduled, scheduled)))"

text \<open>The passes \<open>lower\<close> runs on the bodies it built: each over all bodies, in this order.\<close>

fun check_bodies :: "body list \<Rightarrow> (fault, unit) outcome" where
  "check_bodies [] = Some (Inr ())"
| "check_bodies (b # bs) = bind_o (borrow_check b) (\<lambda>_. check_bodies bs)"

fun schedule_bodies ::
  "(local_id set \<Rightarrow> local_id list) \<Rightarrow> body list \<Rightarrow> (fault, body list) outcome" where
  "schedule_bodies iter [] = Some (Inr [])"
| "schedule_bodies iter (b # bs) =
     (let (r, b') = compute_drop_schedule iter b
      in bind_o r (\<lambda>_. bind_o (schedule_bodies iter bs) (\<lambda>bs'. Some (Inr (b' # bs')))))"

definition run_passes ::
  "(local_id set \<Rightarrow> local_id list) \<Rightarrow> body list \<Rightarrow> (fault, body list) outcome" where
  "run_passes iter bodies =
     bind_o (check_bodies bodies) (\<lambda>_.
     bind_o (schedule_bodies iter bodies) (\<lambda>bodies'.
     bind_o (check_bodies bodies') (\<lambda>_. Some (Inr bodies'))))"

end
