(* ===== verification/Mir_Drop_Sound.thy ===== *)
theory Mir_Drop_Sound
  imports Mir_Drop
begin

text \<open>
  \<open>verify_drops\<close> as an instance of the interface \<open>worklist\<close>, with the set of dropped locals as
  the fact, and the paths of a graph with the drops they perform as its specification.
\<close>

section \<open>The transfer function\<close>

definition verify_flow :: "body \<Rightarrow> block_id \<Rightarrow> local_id set \<Rightarrow> fault + block_id list \<times> local_id set" where
  "verify_flow body b D =
     (if b < length (blocks body) then
        (let blk = blocks body ! b; cs = terminator_successors (terminator blk)
         in case terminator blk of
              Drop p target \<Rightarrow>
                if place_local p \<in> D then Inl (Fail (DoubleDrop (place_local p) (bb_span blk) double_drop_hint))
                else Inr (cs, insert (place_local p) D)
            | _ \<Rightarrow> Inr (cs, D))
      else Inl Panic)"

fun term_drops :: "terminator \<Rightarrow> local_id list" where
  "term_drops (Drop p _) = [place_local p]"
| "term_drops _ = []"

lemma verify_flow_ok:
  "verify_flow body b D = Inr (cs, out) \<longleftrightarrow> b < length (blocks body) \<and>
     cs = terminator_successors (terminator (blocks body ! b)) \<and>
     set (term_drops (terminator (blocks body ! b))) \<inter> D = {} \<and>
     out = D \<union> set (term_drops (terminator (blocks body ! b)))"
  by (cases "terminator (blocks body ! b)") (auto simp: verify_flow_def Let_def)

lemma verify_flow_err:
  "verify_flow body b D = Inl e \<longleftrightarrow> (if b < length (blocks body)
     then (\<exists>l \<in> set (term_drops (terminator (blocks body ! b))). l \<in> D \<and>
       e = Fail (DoubleDrop l (bb_span (blocks body ! b)) double_drop_hint))
     else e = Panic)"
  by (cases "terminator (blocks body ! b)") (auto simp: verify_flow_def Let_def)

definition dropped_locals :: "body \<Rightarrow> local_id set" where
  "dropped_locals body = (\<Union>blk \<in> set (blocks body). set (term_drops (terminator blk)))"

definition drop_room :: "body \<Rightarrow> local_id set \<Rightarrow> nat" where
  "drop_room body D = card (dropped_locals body - D)"

lemma finite_dropped_locals: "finite (dropped_locals body)"
  by (simp add: dropped_locals_def)

interpretation verify: worklist "verify_flow body" "graph_bound body" "\<lambda>D. D \<subseteq> dropped_locals body"
  "drop_room body" "Suc (card (dropped_locals body))" for body
proof unfold_locales
  fix b s t cs out
  show "verify_flow body b (sup s t) = Inr (cs, out) \<Longrightarrow>
    \<exists>o1 o2. verify_flow body b s = Inr (cs, o1) \<and> verify_flow body b t = Inr (cs, o2) \<and> out = sup o1 o2"
    by (auto simp: verify_flow_ok)
next
  fix b s t e
  show "verify_flow body b (sup s t) = Inl e \<Longrightarrow> verify_flow body b s = Inl e \<or> verify_flow body b t = Inl e"
    by (auto simp: verify_flow_err split: if_splits)
next
  fix b s cs out c
  show "verify_flow body b s = Inr (cs, out) \<Longrightarrow> c \<in> set cs \<Longrightarrow> c < graph_bound body"
    by (auto simp: verify_flow_ok intro: succ_less_bound)
next
  fix b s cs out
  show "s \<subseteq> dropped_locals body \<Longrightarrow> verify_flow body b s = Inr (cs, out) \<Longrightarrow> out \<subseteq> dropped_locals body"
    by (auto simp: verify_flow_ok dropped_locals_def)
next
  fix s t :: "local_id set"
  show "s \<subseteq> dropped_locals body \<Longrightarrow> t \<subseteq> dropped_locals body \<Longrightarrow> sup s t \<subseteq> dropped_locals body"
    by simp
next
  fix s t :: "local_id set"
  assume "s \<subseteq> dropped_locals body" "t \<subseteq> dropped_locals body" "s < t"
  then have "dropped_locals body - t \<subset> dropped_locals body - s" by blast
  then show "drop_room body t < drop_room body s"
    unfolding drop_room_def by (intro psubset_card_mono) (simp_all add: finite_dropped_locals)
next
  fix s :: "local_id set"
  have "card (dropped_locals body - s) \<le> card (dropped_locals body)"
    by (rule card_mono) (auto simp: finite_dropped_locals)
  then show "drop_room body s < Suc (card (dropped_locals body))" by (simp add: drop_room_def)
qed

section \<open>The loop\<close>

definition abs_drop :: "drop_state \<Rightarrow> local_id set table \<times> block_id list" where
  "abs_drop st = (dropped_at st, pending st)"

lemma propagate_spread_drop: "abs_drop (propagate D c st) = spread D c (abs_drop st)"
  by (auto simp: abs_drop_def propagate_def spread_def Let_def join_into_def entry_of_def
      split: option.splits)

lemma propagates_spread_drop:
  "abs_drop (fold (propagate D) cs st) = fold (spread D) cs (abs_drop st)"
  by (induction cs arbitrary: st) (simp_all add: propagate_spread_drop)

lemma verify_turn_flow:
  assumes "dropped_at st b = Some D"
  shows "verify_turn body b st = (case verify_flow body b D of
     Inl e \<Rightarrow> Inl e | Inr (cs, out) \<Rightarrow> Inr (fold (propagate out) cs st))"
proof -
  have cases_fold: "fold (\<lambda>(_, t). propagate D t) cases st = fold (propagate D) (map snd cases) st"
    for cases :: "(switch_value \<times> block_id) list" and st
    by (induction cases arbitrary: st) auto
  show ?thesis
    using assms by (cases "terminator (blocks body ! b)")
      (auto simp: verify_turn_def verify_flow_def Let_def entry_of_def cases_fold split: option.splits)
qed

lemma verify_loop_finishes:
  assumes "verify.invar body (abs_drop st)"
  shows "\<exists>r. verify.finishes body (abs_drop st) r \<and> verify_loop body st = Some (map_sum id (\<lambda>_. ()) r)"
proof (rule verify.loop_finishes [where C = "\<lambda>_. True" and body = body and abs = abs_drop
      and loop = "verify_loop body" and c = st, OF _ TrueI assms])
  fix st T W
  assume inv: "verify.invar body (abs_drop st)" and a: "abs_drop st = (T, W)"
  show "(W = [] \<and> verify_loop body st = Some (Inr ())) \<or>
      (\<exists>b rest s e. W = b # rest \<and> T b = Some s \<and> verify_flow body b s = Inl e \<and> verify_loop body st = Some (Inl e)) \<or>
      (\<exists>st'. True \<and> verify.step body (T, W) (abs_drop st') \<and> verify_loop body st = verify_loop body st')"
  proof (cases W)
    case Nil
    with a show ?thesis by (subst verify_loop.simps) (simp add: abs_drop_def)
  next
    case (Cons b rest)
    with a have w: "pending st = b # rest" and T: "T = dropped_at st" by (auto simp: abs_drop_def)
    with inv obtain D where D: "dropped_at st b = Some D" by (auto simp: verify.invar_def abs_drop_def)
    then have turn: "verify_turn body b (st\<lparr>pending := rest\<rparr>) = (case verify_flow body b D of
      Inl e \<Rightarrow> Inl e | Inr (cs, out) \<Rightarrow> Inr (fold (propagate out) cs (st\<lparr>pending := rest\<rparr>)))"
      by (simp add: verify_turn_flow)
    show ?thesis
    proof (cases "verify_flow body b D")
      case (Inl e)
      then have "verify_loop body st = Some (Inl e)" by (subst verify_loop.simps) (simp add: w turn)
      with Inl D T Cons show ?thesis by blast
    next
      case (Inr p)
      then obtain cs out where f: "verify_flow body b D = Inr (cs, out)" by (cases p) auto
      let ?st' = "fold (propagate out) cs (st\<lparr>pending := rest\<rparr>)"
      have loop: "verify_loop body st = verify_loop body ?st'" by (subst verify_loop.simps) (simp add: w turn f)
      have st': "abs_drop ?st' = fold (spread out) cs (dropped_at st, rest)"
        unfolding propagates_spread_drop by (simp add: abs_drop_def)
      have "verify.step body (dropped_at st, b # rest) (abs_drop ?st')"
        unfolding st' using inv D f by (intro verify.spread_step) (simp_all add: abs_drop_def w)
      with loop show ?thesis using T Cons by blast
    qed
  qed
qed

section \<open>Paths and their drops\<close>

inductive drops_to :: "body \<Rightarrow> block_id \<Rightarrow> local_id list \<Rightarrow> bool" for body where
  drop_entry: "drops_to body 0 []"
| drop_edge: "drops_to body b ds \<Longrightarrow> b < length (blocks body)
    \<Longrightarrow> c \<in> set (terminator_successors (terminator (blocks body ! b)))
    \<Longrightarrow> drops_to body c (ds @ term_drops (terminator (blocks body ! b)))"

lemma term_drops_distinct: "distinct (term_drops t)"
  by (cases t) simp_all

lemma run_drops:
  "verify.run body {} b D \<Longrightarrow> \<exists>ds. drops_to body b ds \<and> set ds = D"
proof (induction rule: verify.run.induct)
  case run_entry
  then show ?case by (intro exI [of _ "[]"]) (simp add: drop_entry)
next
  case (run_edge b D cs out c)
  then obtain ds where ds: "drops_to body b ds" "set ds = D" by blast
  with run_edge.hyps(2,3) drop_edge [OF ds(1), of c] show ?case
    by (intro exI [of _ "ds @ term_drops (terminator (blocks body ! b))"]) (auto simp: verify_flow_ok)
qed

lemma drops_run:
  assumes ok: "\<forall>b s. verify.run body {} b s \<longrightarrow> (\<exists>o'. verify_flow body b s = Inr o')"
  shows "drops_to body b ds \<Longrightarrow> verify.run body {} b (set ds) \<and> distinct ds"
proof (induction rule: drops_to.induct)
  case drop_entry
  then show ?case by (simp add: verify.run_entry)
next
  case (drop_edge b ds c)
  with ok obtain cs out where f: "verify_flow body b (set ds) = Inr (cs, out)" by fastforce
  with drop_edge verify.run_edge [OF _ f, of "{}" c] show ?case
    by (auto simp: verify_flow_ok term_drops_distinct)
qed

lemma drops_in_body: "drops_to body b ds \<Longrightarrow> wf_cfg body \<Longrightarrow> b < length (blocks body)"
  by (induction rule: drops_to.induct) (auto dest: wf_cfg_succ wf_cfg_nonempty)

lemma verify_drops_runs:
  assumes "blocks body \<noteq> []"
  shows "\<exists>r. verify_drops body = Some r \<and>
    (r = Inr () \<longleftrightarrow> (\<forall>b s. verify.run body {} b s \<longrightarrow> (\<exists>o'. verify_flow body b s = Inr o'))) \<and>
    (\<forall>e. r = Inl e \<longrightarrow> (\<exists>b s. verify.run body {} b s \<and> verify_flow body b s = Inl e))"
proof -
  have a: "abs_drop verify_start = ([0 \<mapsto> {}], [0])" by (simp add: abs_drop_def verify_start_def)
  have "verify.invar body (abs_drop verify_start)"
    unfolding a by (rule verify.invar_start) (simp_all add: graph_bound_def)
  from verify_loop_finishes [OF this] obtain r where
    fin: "verify.finishes body ([0 \<mapsto> {}], [0]) r"
    and r: "verify_drops body = Some (map_sum id (\<lambda>_. ()) r)"
    using assms by (auto simp: verify_drops_def a)
  have "0 < graph_bound body" by (simp add: graph_bound_def)
  from verify.accepts_iff [OF fin empty_subsetI this] r show ?thesis by (cases r) auto
qed

lemma verify_drops_spec:
  assumes "wf_cfg body"
  shows "\<exists>r. verify_drops body = Some r \<and> (r = Inr () \<longleftrightarrow> (\<forall>b ds. drops_to body b ds \<longrightarrow> distinct ds)) \<and>
    (\<forall>e. r = Inl e \<longrightarrow> (\<exists>b ds l. e = Fail (DoubleDrop l (bb_span (blocks body ! b)) double_drop_hint)
       \<and> drops_to body b ds \<and> l \<in> set ds \<and> l \<in> set (term_drops (terminator (blocks body ! b)))))"
proof -
  have ne: "blocks body \<noteq> []" using assms by (simp add: wf_cfg_def)
  from verify_drops_runs [OF ne] obtain r where r: "verify_drops body = Some r"
    and ok: "r = Inr () \<longleftrightarrow> (\<forall>b s. verify.run body {} b s \<longrightarrow> (\<exists>o'. verify_flow body b s = Inr o'))"
    and err: "\<And>e. r = Inl e \<Longrightarrow> \<exists>b s. verify.run body {} b s \<and> verify_flow body b s = Inl e" by blast
  have bad: "\<exists>b ds l. e = Fail (DoubleDrop l (bb_span (blocks body ! b)) double_drop_hint) \<and> b < length (blocks body)
       \<and> drops_to body b ds \<and> l \<in> set ds \<and> l \<in> set (term_drops (terminator (blocks body ! b)))"
    if "r = Inl e" for e
  proof -
    from err [OF that] obtain b s where s: "verify.run body {} b s" "verify_flow body b s = Inl e" by blast
    from run_drops [OF s(1)] obtain ds where ds: "drops_to body b ds" "set ds = s" by blast
    with drops_in_body [OF ds(1) assms] s(2) show ?thesis by (auto simp: verify_flow_err)
  qed
  have "\<not> (\<forall>b ds. drops_to body b ds \<longrightarrow> distinct ds)" if "r = Inl e" for e
  proof -
    from bad [OF that] obtain b ds l where b: "b < length (blocks body)" "drops_to body b ds" "l \<in> set ds"
      "l \<in> set (term_drops (terminator (blocks body ! b)))" by blast
    then obtain p c where "terminator (blocks body ! b) = Drop p c" "l = place_local p"
      by (cases "terminator (blocks body ! b)") auto
    with drop_edge [OF b(2,1), of c] b(3) show ?thesis by fastforce
  qed
  moreover have "\<forall>b ds. drops_to body b ds \<longrightarrow> distinct ds" if "r = Inr ()"
    using drops_run ok that by blast
  ultimately have "r = Inr () \<longleftrightarrow> (\<forall>b ds. drops_to body b ds \<longrightarrow> distinct ds)"
    by (cases r) auto
  with r bad show ?thesis by (intro exI [of _ r]) blast
qed

end
