(* ===== verification/Mir_Drop_Schedule.thy ===== *)
theory Mir_Drop_Schedule
  imports Mir_Drop_Sound
begin

text \<open>
  The graph \<open>compute_drop_schedule\<close> leaves, in closed form: the original blocks with the edges
  into every returning block redirected to the head of its chain, followed by the chains.
\<close>

section \<open>Chains\<close>

definition chain_block :: "span \<Rightarrow> nat \<Rightarrow> block_id \<Rightarrow> local_id list \<Rightarrow> nat \<Rightarrow> basic_block" where
  "chain_block sp n target ls j =
     \<lparr>bb_id = n + j, statements = [],
      terminator = Drop (place_of_local (rev ls ! j)) (if j = 0 then target else n + j - 1), bb_span = sp\<rparr>"

definition chain :: "span \<Rightarrow> nat \<Rightarrow> block_id \<Rightarrow> local_id list \<Rightarrow> basic_block list" where
  "chain sp n target ls = map (chain_block sp n target ls) [0..<length ls]"

lemma length_chain [simp]: "length (chain sp n target ls) = length ls"
  by (simp add: chain_def)

lemma push_drops:
  "fold push_drop xs (target, body) =
     (if xs = [] then target else length (blocks body) + length xs - 1,
      body\<lparr>blocks := blocks body @ chain (body_span body) (length (blocks body)) target (rev xs)\<rparr>)"
proof (induction xs rule: rev_induct)
  case (snoc x xs)
  have step: "push_drop x (t, b) = (length (blocks b), b\<lparr>blocks := blocks b @
      [\<lparr>bb_id = length (blocks b), statements = [], terminator = Drop (place_of_local x) t,
        bb_span = body_span b\<rparr>]\<rparr>)" for t b
    by (simp add: push_drop_def Let_def)
  have "chain sp n t (x # rev xs) = chain sp n t (rev xs) @
      [\<lparr>bb_id = n + length xs, statements = [],
        terminator = Drop (place_of_local x) (if xs = [] then t else n + length xs - 1), bb_span = sp\<rparr>]"
    for sp n t
    by (simp add: chain_def chain_block_def nth_append cong: map_cong)
  then show ?case by (simp add: snoc.IH step)
qed (simp add: chain_def)

lemma build_drop_chain_eq:
  "ls \<noteq> [] \<Longrightarrow> build_drop_chain body ls target =
     (length (blocks body) + length ls - 1,
      body\<lparr>blocks := blocks body @ chain (body_span body) (length (blocks body)) target ls\<rparr>)"
  by (simp add: build_drop_chain_def push_drops)

section \<open>Redirected edges\<close>

fun map_targets :: "(block_id \<Rightarrow> block_id) \<Rightarrow> terminator \<Rightarrow> terminator" where
  "map_targets f (Goto b) = Goto (f b)"
| "map_targets f (SwitchInt op cases other) = SwitchInt op (map (\<lambda>(v, b). (v, f b)) cases) (f other)"
| "map_targets f (Call g args d t u) = Call g args d (f t) (map_option f u)"
| "map_targets f (Assert c e m t) = Assert c e m (f t)"
| "map_targets f t = t"

lemma rewire_map_targets: "rewire_terminator t src dst = map_targets (\<lambda>c. if c = src then dst else c) t"
  by (cases t) auto

lemma map_targets_comp: "map_targets f (map_targets g t) = map_targets (\<lambda>c. f (g c)) t"
  by (cases t) (auto simp: option.map_comp comp_def)

lemma map_targets_cong:
  assumes "\<And>c. c \<in> set (terminator_successors t) \<Longrightarrow> f c = g c"
  shows "map_targets f t = map_targets g t"
proof (cases t)
  case (SwitchInt op cs other)
  then have "(\<lambda>(v, b). (v, f b)) x = (\<lambda>(v, b). (v, g b)) x" if "x \<in> set cs" for x
  proof -
    have "snd x \<in> set (terminator_successors t)" using that SwitchInt by simp
    then have "f (snd x) = g (snd x)" by (rule assms)
    then show ?thesis by (cases x) simp
  qed
  with SwitchInt assms show ?thesis by (simp cong: map_cong)
next
  case (Call h args d target u)
  with assms show ?thesis by (cases u) auto
qed (use assms in auto)

lemma map_targets_ident: "map_targets (\<lambda>c. c) t = t"
proof -
  have "(\<lambda>(v, b). (v, b)) = id" by auto
  then show ?thesis by (cases t) (simp_all add: option.map_ident)
qed

lemma map_targets_id: "(\<And>c. c \<in> set (terminator_successors t) \<Longrightarrow> f c = c) \<Longrightarrow> map_targets f t = t"
  using map_targets_cong [of t f "\<lambda>c. c"] by (simp add: map_targets_ident)

fun is_drop :: "terminator \<Rightarrow> bool" where
  "is_drop (Drop _ _) = True"
| "is_drop _ = False"

lemma successors_map_targets:
  "\<not> is_drop t \<Longrightarrow> terminator_successors (map_targets f t) = map f (terminator_successors t)"
  by (cases t) (auto split: option.splits)

lemma successors_map_targets_le:
  "set (terminator_successors (map_targets f t)) \<subseteq> set (terminator_successors t) \<union> f ` set (terminator_successors t)"
proof (cases "is_drop t")
  case True
  then show ?thesis by (cases t) auto
qed (simp add: successors_map_targets)

text \<open>The head of the \<open>i\<close>-th chain.\<close>

definition head_at :: "nat \<Rightarrow> nat \<Rightarrow> nat \<Rightarrow> block_id" where
  "head_at n k i = n + i * k + k - 1"

definition redirect :: "nat \<Rightarrow> nat \<Rightarrow> block_id list \<Rightarrow> block_id \<Rightarrow> block_id" where
  "redirect n k rets c =
     (case map_of (zip rets (map (head_at n k) [0..<length rets])) c of Some h \<Rightarrow> h | None \<Rightarrow> c)"

lemma redirect_Nil [simp]: "redirect n k [] c = c"
  by (simp add: redirect_def)

lemma redirect_none:
  assumes "c \<notin> set rets"
  shows "redirect n k rets c = c"
proof -
  have "map_of (zip rets (map (head_at n k) [0..<length rets])) c = None"
    using assms by (auto simp: map_of_eq_None_iff dest: set_zip_leftD)
  then show ?thesis unfolding redirect_def by (simp only: option.case)
qed

lemma head_at_ge: "0 < k \<Longrightarrow> n \<le> head_at n k i"
  by (cases k) (simp_all add: head_at_def)

lemma redirect_nth:
  "distinct rets \<Longrightarrow> i < length rets \<Longrightarrow> redirect n k rets (rets ! i) = head_at n k i"
  by (simp add: redirect_def map_of_zip_nth)

lemma redirect_snoc:
  assumes "distinct (rets @ [r])" "r < n" "0 < k"
  shows "(if redirect n k rets c = r then head_at n k (length rets) else redirect n k rets c)
    = redirect n k (rets @ [r]) c"
proof (cases "c \<in> set rets")
  case True
  then obtain i where i: "i < length rets" "c = rets ! i" by (auto simp: in_set_conv_nth)
  then have "redirect n k rets c = head_at n k i" using assms(1) by (simp add: redirect_nth)
  moreover have "redirect n k (rets @ [r]) c = head_at n k i"
    using redirect_nth [OF assms(1), of i n k] i by (simp add: nth_append)
  moreover have "head_at n k i \<noteq> r" using assms(2,3) by (simp add: head_at_def)
  ultimately show ?thesis by simp
next
  case False
  then show ?thesis
    using redirect_nth [OF assms(1), of "length rets" n k] by (auto simp: redirect_none)
qed

section \<open>The scheduled body\<close>

definition redirected :: "(block_id \<Rightarrow> block_id) \<Rightarrow> basic_block \<Rightarrow> basic_block" where
  "redirected f blk = blk\<lparr>terminator := map_targets f (terminator blk)\<rparr>"

definition drop_chains :: "span \<Rightarrow> nat \<Rightarrow> local_id list \<Rightarrow> block_id list \<Rightarrow> basic_block list" where
  "drop_chains sp n ls rets =
     concat (map (\<lambda>(i, r). chain sp (n + i * length ls) r ls) (enumerate 0 rets))"

lemma chains_Nil [simp]: "drop_chains sp n ls [] = []"
  by (simp add: drop_chains_def)

lemma chains_snoc:
  "drop_chains sp n ls (rets @ [r]) = drop_chains sp n ls rets @ chain sp (n + length rets * length ls) r ls"
  by (simp add: drop_chains_def enumerate_append_eq)

lemma length_chains: "length (drop_chains sp n ls rets) = length rets * length ls"
  by (induction rets rule: rev_induct) (simp_all add: chains_snoc)

lemma chains_nth:
  assumes "i < length rets" "j < length ls"
  shows "drop_chains sp n ls rets ! (i * length ls + j) = chain_block sp (n + i * length ls) (rets ! i) ls j"
  using assms
proof (induction rets rule: rev_induct)
  case (snoc r rets)
  show ?case
  proof (cases "i < length rets")
    case True
    then have "Suc i \<le> length rets" by simp
    then have "Suc i * length ls \<le> length rets * length ls" by (rule mult_le_mono1)
    with snoc.prems(2) have "i * length ls + j < length (drop_chains sp n ls rets)" by (simp add: length_chains)
    with True snoc show ?thesis by (simp add: chains_snoc nth_append)
  next
    case False
    with snoc.prems have "i = length rets" by simp
    with snoc.prems show ?thesis by (simp add: chains_snoc nth_append length_chains chain_def)
  qed
qed simp

lemma chain_rewire: "blk \<in> set (chain sp n target ls) \<Longrightarrow> redirected f blk = blk"
  by (auto simp: chain_def chain_block_def redirected_def)

lemma chains_rewire: "blk \<in> set (drop_chains sp n ls rets) \<Longrightarrow> redirected f blk = blk"
  by (auto simp: drop_chains_def chain_rewire)

definition scheduled :: "local_id list \<Rightarrow> block_id list \<Rightarrow> body \<Rightarrow> body" where
  "scheduled ls rets body = body\<lparr>blocks :=
     map (redirected (redirect (length (blocks body)) (length ls) rets)) (blocks body)
     @ drop_chains (body_span body) (length (blocks body)) ls rets\<rparr>"

lemma rewire_predecessors_eq:
  assumes "src \<noteq> dst" "\<And>blk. blk \<in> set (blocks body) \<Longrightarrow> bb_id blk = src \<Longrightarrow> terminator blk = Return"
  shows "rewire_predecessors body src dst
    = body\<lparr>blocks := map (redirected (\<lambda>c. if c = src then dst else c)) (blocks body)\<rparr>"
  using assms by (auto simp: rewire_predecessors_def redirected_def rewire_map_targets intro!: body.equality)

lemma schedule_returns_eq:
  assumes wf: "wf_cfg body" and ls: "ls \<noteq> []"
    and rets: "distinct rets" "\<And>r. r \<in> set rets \<Longrightarrow> r < length (blocks body) \<and> terminator (blocks body ! r) = Return"
  shows "fold (schedule_return ls) rets body = scheduled ls rets body"
  using rets
proof (induction rets rule: rev_induct)
  case Nil
  have "map (redirected (\<lambda>c. c)) (blocks body) = blocks body"
    by (rule map_idI) (simp add: redirected_def map_targets_id)
  moreover have "redirect n k [] = (\<lambda>c. c)" for n k by (rule ext) simp
  ultimately show ?case by (simp add: scheduled_def)
next
  case (snoc r rets)
  let ?n = "length (blocks body)" and ?k = "length ls"
  let ?b = "scheduled ls rets body"
  have r: "r < ?n" "terminator (blocks body ! r) = Return" using snoc.prems(2) by simp_all
  have len: "length (blocks ?b) = ?n + length rets * ?k" by (simp add: scheduled_def length_chains)
  have head: "?n + length rets * ?k + ?k - 1 = head_at ?n ?k (length rets)" by (simp add: head_at_def)
  let ?b1 = "?b\<lparr>blocks := blocks ?b @ chain (body_span ?b) (length (blocks ?b)) r ls\<rparr>"
  have ids: "terminator blk = Return" if "blk \<in> set (blocks ?b1)" "bb_id blk = r" for blk
  proof -
    have "bb_id blk' \<ge> ?n" if "blk' \<in> set (drop_chains (body_span body) ?n ls (rets @ [r]))" for blk'
      using that by (auto simp: drop_chains_def chain_def chain_block_def)
    with that r(1) obtain blk0 where "blk0 \<in> set (blocks body)" "blk = redirected (redirect ?n ?k rets) blk0"
      by (fastforce simp: scheduled_def chains_snoc length_chains)
    with that(2) r wf show ?thesis by (auto simp: redirected_def in_set_conv_nth wf_cfg_id)
  qed
  have IH: "fold (schedule_return ls) rets body = ?b" using snoc.IH snoc.prems by simp
  have "fold (schedule_return ls) (rets @ [r]) body = schedule_return ls r ?b" by (simp add: IH)
  also have "\<dots> = rewire_predecessors ?b1 r (head_at ?n ?k (length rets))"
    unfolding schedule_return_def build_drop_chain_eq [OF ls] len head using ls by simp
  also have "\<dots> = ?b1\<lparr>blocks := map (redirected (\<lambda>c. if c = r then head_at ?n ?k (length rets) else c)) (blocks ?b1)\<rparr>"
    using r(1) ls by (intro rewire_predecessors_eq ids) (use head_at_ge [of ?k ?n "length rets"] in auto)
  also have "\<dots> = scheduled ls (rets @ [r]) body"
  proof -
    have "map (redirected f) (drop_chains sp n ls rets') = drop_chains sp n ls rets'"
      "map (redirected f) (chain sp n r ls) = chain sp n r ls" for f sp n rets'
      by (rule map_idI, erule chains_rewire, rule map_idI, erule chain_rewire)
    moreover have "redirected (\<lambda>c. if c = r then head_at ?n ?k (length rets) else c) (redirected (redirect ?n ?k rets) blk)
        = redirected (redirect ?n ?k (rets @ [r])) blk" for blk
      using redirect_snoc [OF snoc.prems(1) r(1), of ?k] ls by (simp add: redirected_def map_targets_comp)
    ultimately show ?thesis by (simp add: scheduled_def length_chains chains_snoc comp_def)
  qed
  finally show ?case .
qed

section \<open>Which blocks and which locals\<close>

text \<open>An iteration order of a hash set: every element of a finite set, once.\<close>

definition lists_sets :: "(local_id set \<Rightarrow> local_id list) \<Rightarrow> bool" where
  "lists_sets iter \<longleftrightarrow> (\<forall>S. finite S \<longrightarrow> distinct (iter S) \<and> set (iter S) = S)"

definition no_drops :: "body \<Rightarrow> bool" where
  "no_drops body \<longleftrightarrow> list_all (\<lambda>blk. \<not> is_drop (terminator blk)) (blocks body)"

lemma return_blocks_spec:
  assumes "wf_cfg body"
  shows "distinct (return_blocks body)"
    and "r \<in> set (return_blocks body) \<longleftrightarrow> r < length (blocks body) \<and> terminator (blocks body ! r) = Return"
proof -
  have "distinct (map bb_id (blocks body))" using assms by (simp add: wf_cfg_def)
  then show "distinct (return_blocks body)" unfolding return_blocks_def by (rule distinct_map_filter)
  show "r \<in> set (return_blocks body) \<longleftrightarrow> r < length (blocks body) \<and> terminator (blocks body ! r) = Return"
    using wf_cfg_id [OF assms] by (force simp: return_blocks_def in_set_conv_nth)
qed

lemma finite_drop_eligible: "finite (drop_eligible body)"
  by (simp add: drop_eligible_def Let_def)

lemma to_drop_distinct: "lists_sets iter \<Longrightarrow> distinct (to_drop iter body)"
  by (simp add: to_drop_def lists_sets_def finite_drop_eligible)

lemma schedule_eq:
  assumes "wf_cfg body"
  shows "compute_drop_schedule iter body =
    (let b = (if to_drop iter body = [] then body else scheduled (to_drop iter body) (return_blocks body) body)
     in (verify_drops b, b))"
proof -
  have "fold (schedule_return []) rets body = body" for rets
    by (induction rets) (simp_all add: schedule_return_def)
  moreover have "fold (schedule_return (to_drop iter body)) (return_blocks body) body
      = scheduled (to_drop iter body) (return_blocks body) body" if "to_drop iter body \<noteq> []"
    using return_blocks_spec [OF assms] by (intro schedule_returns_eq [OF assms that]) auto
  ultimately show ?thesis
    using assms by (auto simp: compute_drop_schedule_def wf_cfg_def Let_def)
qed

section \<open>The blocks of the scheduled body\<close>

lemma scheduled_old:
  "b < length (blocks body) \<Longrightarrow> blocks (scheduled ls rets body) ! b =
     redirected (redirect (length (blocks body)) (length ls) rets) (blocks body ! b)"
  by (simp add: scheduled_def nth_append)

lemma scheduled_new:
  assumes "i < length rets" "j < length ls"
  shows "blocks (scheduled ls rets body) ! (length (blocks body) + i * length ls + j) =
     chain_block (body_span body) (length (blocks body) + i * length ls) (rets ! i) ls j"
  using chains_nth [OF assms] by (simp add: scheduled_def nth_append add.assoc)

lemma scheduled_length:
  "length (blocks (scheduled ls rets body)) = length (blocks body) + length rets * length ls"
  by (simp add: scheduled_def length_chains)

lemma scheduled_index:
  assumes "b < length (blocks (scheduled ls rets body))"
  obtains "b < length (blocks body)"
  | i j where "i < length rets" "j < length ls" "b = length (blocks body) + i * length ls + j"
proof (cases "b < length (blocks body)")
  case False
  let ?d = "b - length (blocks body)"
  have d: "?d < length rets * length ls" using False assms by (simp add: scheduled_length)
  then have "0 < length ls" by (metis gr0I less_nat_zero_code mult_0_right)
  with d have "?d div length ls < length rets" "?d mod length ls < length ls"
    by (simp_all add: less_mult_imp_div_less)
  moreover have "b = length (blocks body) + ?d div length ls * length ls + ?d mod length ls"
    using False by simp
  ultimately show thesis by (rule that(2))
qed (rule that(1))

lemma chain_index_less:
  "i < m \<Longrightarrow> j < k \<Longrightarrow> n + i * k + j < n + m * (k::nat)"
proof -
  assume "i < m" "j < k"
  then have "Suc i * k \<le> m * k" by (intro mult_le_mono1) simp
  with \<open>j < k\<close> show ?thesis by simp
qed

lemma chain_index_inj:
  assumes "n + i' * k + j' = n + i * k + j" "j' < k" "j < (k::nat)"
  shows "i' = i \<and> j' = j"
proof -
  have "(i' * k + j') mod k = (i * k + j) mod k" using assms(1) by simp
  with assms(2,3) have j: "j' = j" by simp
  with assms(1) have "i' * k = i * k" by simp
  with assms(2) j show ?thesis by auto
qed

text \<open>The edges: those of the body, with an edge to the \<open>i\<close>-th returning block led to the last
  block of its chain, which is walked downwards.\<close>

lemma redirect_cases:
  assumes "distinct rets"
  obtains "c \<notin> set rets" "redirect n k rets c = c"
  | i where "i < length rets" "c = rets ! i" "redirect n k rets c = head_at n k i"
  using assms by (metis in_set_conv_nth redirect_none redirect_nth)

lemma chain_block_sel [simp]:
  "statements (chain_block sp n t ls j) = []"
  "bb_id (chain_block sp n t ls j) = n + j"
  "terminator (chain_block sp n t ls j) =
     Drop (place_of_local (rev ls ! j)) (if j = 0 then t else n + j - 1)"
  by (simp_all add: chain_block_def)

lemma redirected_sel [simp]:
  "statements (redirected f blk) = statements blk"
  "bb_id (redirected f blk) = bb_id blk"
  "terminator (redirected f blk) = map_targets f (terminator blk)"
  by (simp_all add: redirected_def)

end
