(* ===== verification/Mir_Borrow_Sound.thy ===== *)
theory Mir_Borrow_Sound
  imports Mir_Borrow
begin

text \<open>
  What the borrow checker promises. The specification is a transition relation on program
  points \<open>(block, statement index)\<close> carrying the set of moved and of dropped locals, and
  the reads each point makes; it does not mention the checker. The checker's block walk is
  characterised by it, the work list is an instance of the interface \<open>worklist\<close>, and the
  two together give that the checker accepts exactly the bodies no path of which misuses a
  local.
\<close>

section \<open>Reads, moves and borrows of the program text\<close>

fun operand_locals :: "operand \<Rightarrow> local_id list" where
  "operand_locals (OpConst _) = []"
| "operand_locals (OpCopy p) = [place_local p]"
| "operand_locals (OpMove p) = [place_local p]"

fun rvalue_operands :: "rvalue \<Rightarrow> operand list" where
  "rvalue_operands (Use op) = [op]"
| "rvalue_operands (BinaryOp _ a b) = [a, b]"
| "rvalue_operands (UnaryOp _ a) = [a]"
| "rvalue_operands (Aggregate _ items) = items"
| "rvalue_operands (Cast _ op _) = [op]"
| "rvalue_operands _ = []"

definition rvalue_locals :: "rvalue \<Rightarrow> local_id list" where
  "rvalue_locals rv = concat (map operand_locals (rvalue_operands rv))"

fun used_moves :: "rvalue \<Rightarrow> local_id list" where
  "used_moves (Use (OpMove p)) = [place_local p]"
| "used_moves _ = []"

fun moved_args :: "operand list \<Rightarrow> local_id list" where
  "moved_args [] = []"
| "moved_args (OpMove p # as) = place_local p # moved_args as"
| "moved_args (_ # as) = moved_args as"

fun kind_reads :: "statement_kind \<Rightarrow> local_id list" where
  "kind_reads (Assign _ rv) = rvalue_locals rv"
| "kind_reads _ = []"

fun kind_moved :: "statement_kind \<Rightarrow> local_id set \<Rightarrow> local_id set" where
  "kind_moved (Assign p rv) M = (M - {place_local p}) \<union> set (used_moves rv)"
| "kind_moved _ M = M"

text \<open>The locals moved after the first \<open>i\<close> statements.\<close>

definition moved_at :: "statement list \<Rightarrow> nat \<Rightarrow> local_id set \<Rightarrow> local_id set" where
  "moved_at stmts i M = fold (\<lambda>st. kind_moved (st_kind st)) (take i stmts) M"

fun term_moved :: "terminator \<Rightarrow> local_id set \<Rightarrow> local_id set" where
  "term_moved (Call _ args destination _ _) M = (M \<union> set (moved_args args)) - {place_local destination}"
| "term_moved _ M = M"

fun term_dropped :: "terminator \<Rightarrow> local_id set \<Rightarrow> local_id set" where
  "term_dropped (Drop p _) D = insert (place_local p) D"
| "term_dropped _ D = D"

text \<open>The borrows of \<open>l\<close> a list of statements takes, oldest first.\<close>

fun kind_borrows :: "local_id \<Rightarrow> statement_kind \<Rightarrow> borrow_kind list" where
  "kind_borrows l (Assign _ (Ref k p)) = (if place_local p = l then [k] else [])"
| "kind_borrows l _ = []"

definition borrows_of :: "local_id \<Rightarrow> statement list \<Rightarrow> borrow_kind list" where
  "borrows_of l stmts = concat (map (\<lambda>st. kind_borrows l (st_kind st)) stmts)"

section \<open>Paths and safe points\<close>

inductive reaches :: "body \<Rightarrow> block_id \<Rightarrow> nat \<Rightarrow> local_id set \<Rightarrow> local_id set \<Rightarrow> bool"
  for body where
  reach_entry: "reaches body 0 0 {} {}"
| reach_statement:
    "reaches body b i M D \<Longrightarrow> i < length (statements (blocks body ! b))
      \<Longrightarrow> reaches body b (Suc i) (kind_moved (st_kind (statements (blocks body ! b) ! i)) M) D"
| reach_edge:
    "reaches body b (length (statements (blocks body ! b))) M D
      \<Longrightarrow> c \<in> set (terminator_successors (terminator (blocks body ! b)))
      \<Longrightarrow> reaches body c 0 (term_moved (terminator (blocks body ! b)) M)
            (term_dropped (terminator (blocks body ! b)) D)"

text \<open>A read is safe when the local is neither moved nor dropped. The arguments of a call
  are read in order, each after the moves of the arguments before it.\<close>

definition reads_ok :: "local_id list \<Rightarrow> local_id set \<Rightarrow> local_id set \<Rightarrow> bool" where
  "reads_ok ls M D \<longleftrightarrow> set ls \<inter> (M \<union> D) = {}"

fun term_reads_ok :: "terminator \<Rightarrow> local_id set \<Rightarrow> local_id set \<Rightarrow> bool" where
  "term_reads_ok (SwitchInt op _ _) M D = reads_ok (operand_locals op) M D"
| "term_reads_ok (Assert op _ _ _) M D = reads_ok (operand_locals op) M D"
| "term_reads_ok (Call f args _ _ _) M D =
     (reads_ok (operand_locals f) M D \<and>
      (\<forall>i < length args. reads_ok (operand_locals (args ! i)) (M \<union> set (moved_args (take i args))) D))"
| "term_reads_ok _ M D = True"

text \<open>A borrow taken at statement \<open>i\<close> conflicts with an earlier borrow of the same local in
  the same block unless both are shared.\<close>

definition borrow_ok :: "statement list \<Rightarrow> nat \<Rightarrow> bool" where
  "borrow_ok stmts i \<longleftrightarrow>
     (\<forall>l. \<forall>k \<in> set (kind_borrows l (st_kind (stmts ! i))). \<forall>k' \<in> set (borrows_of l (take i stmts)).
        k = Shared \<and> k' = Shared)"

definition statement_ok :: "statement list \<Rightarrow> nat \<Rightarrow> local_id set \<Rightarrow> local_id set \<Rightarrow> bool" where
  "statement_ok stmts i M D \<longleftrightarrow> reads_ok (kind_reads (st_kind (stmts ! i))) M D \<and> borrow_ok stmts i"

definition point_ok :: "body \<Rightarrow> block_id \<Rightarrow> nat \<Rightarrow> local_id set \<Rightarrow> local_id set \<Rightarrow> bool" where
  "point_ok body b i M D \<longleftrightarrow>
     (let stmts = statements (blocks body ! b) in
      if i < length stmts then statement_ok stmts i M D
      else term_reads_ok (terminator (blocks body ! b)) M D)"

section \<open>The checks of one block\<close>

lemma check_operand_ok:
  "check_operand_read op sp s = Inr s' \<longleftrightarrow> s' = s \<and> reads_ok (operand_locals op) (moved s) (dropped s)"
  by (cases op) (auto simp: reads_ok_def)

lemma reads_ok_append: "reads_ok (xs @ ys) M D \<longleftrightarrow> reads_ok xs M D \<and> reads_ok ys M D"
  by (auto simp: reads_ok_def)

lemma reads_ok_Nil [simp]: "reads_ok [] M D"
  by (simp add: reads_ok_def)

lemma check_operands_ok:
  "fold_res (\<lambda>it. check_operand_read it sp) items s = Inr s' \<longleftrightarrow>
     s' = s \<and> reads_ok (concat (map operand_locals items)) (moved s) (dropped s)"
  by (induction items) (auto simp: and_then_Inr_conv check_operand_ok reads_ok_append)

lemma check_rvalue_ok:
  "check_rvalue_reads rv sp s = Inr s' \<longleftrightarrow> s' = s \<and> reads_ok (rvalue_locals rv) (moved s) (dropped s)"
  by (cases rv) (auto simp: and_then_Inr_conv check_operand_ok check_operands_ok rvalue_locals_def
      reads_ok_append)

lemma push_borrow_ok:
  "push_borrow p k sp s = Inr s' \<longleftrightarrow>
     (\<forall>k' \<in> set (borrow_stack s (place_local p)). k = Shared \<and> k' = Shared) \<and>
     s' = s\<lparr>borrows := (borrows s)(place_local p \<mapsto> borrow_stack s (place_local p) @ [k])\<rparr>"
proof -
  have all: "(\<forall>k' \<in> set xs. k' = Shared) \<longleftrightarrow> Mut \<notin> set xs"
    "xs = [] \<longleftrightarrow> Mut \<notin> set xs \<and> Shared \<notin> set xs" for xs
    by (metis borrow_kind.exhaust borrow_kind.distinct(1) list.set_intros(1) neq_Nil_conv
        empty_iff list.set(1))+
  show ?thesis by (cases k) (auto simp: push_borrow_def Let_def all)
qed

lemma borrow_stack_upd:
  "borrow_stack (s\<lparr>borrows := (borrows s)(l \<mapsto> xs)\<rparr>) l' = (if l' = l then xs else borrow_stack s l')"
  by (simp add: borrow_stack_def)

lemma borrow_stack_moved [simp]: "borrow_stack (s\<lparr>moved := M\<rparr>) l = borrow_stack s l"
  by (simp add: borrow_stack_def)

lemma consume_source_ok:
  assumes "reads_ok (rvalue_locals rv) (moved s) D"
  shows "consume_source rv sp (clear_moved p s) =
     Inr (s\<lparr>moved := (moved s - {place_local p}) \<union> set (used_moves rv)\<rparr>)"
  using assms
  by (auto simp: consume_source_def clear_moved_def mark_moved_def reads_ok_def rvalue_locals_def
      split: rvalue.splits operand.splits)

definition after_borrow :: "statement_kind \<Rightarrow> block_state \<Rightarrow> block_state" where
  "after_borrow k s = s\<lparr>borrows := (\<lambda>l. if kind_borrows l k = [] then borrows s l
     else Some (borrow_stack s l @ kind_borrows l k))\<rparr>"

definition borrow_fits :: "statement_kind \<Rightarrow> block_state \<Rightarrow> bool" where
  "borrow_fits k s \<longleftrightarrow> (\<forall>l. \<forall>b \<in> set (kind_borrows l k). \<forall>b' \<in> set (borrow_stack s l).
     b = Shared \<and> b' = Shared)"

lemma take_borrow_ok:
  "take_borrow rv sp s = Inr s' \<longleftrightarrow>
     borrow_fits (Assign p rv) s \<and> s' = after_borrow (Assign p rv) s"
proof (cases rv)
  case (Ref k q)
  have "(borrows s)(place_local q \<mapsto> borrow_stack s (place_local q) @ [k])
      = (\<lambda>l. if kind_borrows l (Assign p rv) = [] then borrows s l
           else Some (borrow_stack s l @ kind_borrows l (Assign p rv)))"
    by (rule ext) (simp add: Ref)
  with Ref show ?thesis
    by (auto simp: take_borrow_def push_borrow_ok borrow_fits_def after_borrow_def)
qed (auto simp: take_borrow_def borrow_fits_def after_borrow_def)

lemma check_statement_ok:
  "check_statement st s = Inr s' \<longleftrightarrow>
     reads_ok (kind_reads (st_kind st)) (moved s) (dropped s) \<and> borrow_fits (st_kind st) s \<and>
     s' = after_borrow (st_kind st) (s\<lparr>moved := kind_moved (st_kind st) (moved s)\<rparr>)"
proof (cases "st_kind st")
  case (Assign p rv)
  show ?thesis
  proof (cases "reads_ok (rvalue_locals rv) (moved s) (dropped s)")
    case True
    then have "check_rvalue_reads rv (st_span st) s = Inr s" by (simp add: check_rvalue_ok)
    moreover have "borrow_fits k (s\<lparr>moved := M\<rparr>) = borrow_fits k s" for k M
      by (simp add: borrow_fits_def)
    ultimately show ?thesis using True
      by (simp add: check_statement_def Assign consume_source_ok [OF True] take_borrow_ok [of _ _ _ _ p])
  next
    case False
    then show ?thesis
      by (auto simp: check_statement_def Assign and_then_Inr_conv check_rvalue_ok)
  qed
qed (auto simp: check_statement_def borrow_fits_def after_borrow_def)

definition tracks :: "statement list \<Rightarrow> block_state \<Rightarrow> bool" where
  "tracks pre s \<longleftrightarrow> (\<forall>l. borrow_stack s l = borrows_of l pre)"

lemma borrows_of_snoc [simp]:
  "borrows_of l (pre @ [st]) = borrows_of l pre @ kind_borrows l (st_kind st)"
  by (simp add: borrows_of_def)

lemma tracks_after:
  "tracks pre s \<Longrightarrow> tracks (pre @ [st]) (after_borrow (st_kind st) (s\<lparr>moved := M\<rparr>))"
  by (simp add: tracks_def after_borrow_def borrow_stack_def split: option.splits)

lemma borrow_fits_ok: "tracks pre s \<Longrightarrow> borrow_fits (st_kind st) s \<longleftrightarrow> borrow_ok (pre @ [st]) (length pre)"
  by (simp add: borrow_fits_def borrow_ok_def tracks_def)

text \<open>The statements of a block, from an entry state without borrows.\<close>

lemma moved_at_Suc:
  "i < length stmts \<Longrightarrow> moved_at stmts (Suc i) M = kind_moved (st_kind (stmts ! i)) (moved_at stmts i M)"
  by (simp add: moved_at_def take_Suc_conv_app_nth)

lemma moved_at_append: "i \<le> length pre \<Longrightarrow> moved_at (pre @ post) i M = moved_at pre i M"
  by (simp add: moved_at_def)

lemma statement_ok_append:
  "i < length pre \<Longrightarrow> statement_ok (pre @ post) i M D = statement_ok pre i M D"
  by (simp add: statement_ok_def borrow_ok_def nth_append)

abbreviation block_entry :: "local_id set \<Rightarrow> local_id set \<Rightarrow> block_state" where
  "block_entry M D \<equiv> \<lparr>moved = M, dropped = D, borrows = Map.empty\<rparr>"

lemma check_statements_ok:
  "(\<exists>s'. fold_res check_statement stmts (block_entry M D) = Inr s') \<longleftrightarrow>
     (\<forall>i < length stmts. statement_ok stmts i (moved_at stmts i M) D)"
  "fold_res check_statement stmts (block_entry M D) = Inr s' \<Longrightarrow>
     moved s' = moved_at stmts (length stmts) M \<and> dropped s' = D \<and> tracks stmts s'"
proof (induction stmts arbitrary: s' rule: rev_induct)
  case Nil
  { case 1 then show ?case by simp }
  { case 2 then show ?case by (auto simp: moved_at_def tracks_def borrow_stack_def borrows_of_def) }
next
  case (snoc st pre)
  have less: "(\<forall>i < Suc n. P i) \<longleftrightarrow> (\<forall>i < n. P i) \<and> P n" for n and P :: "nat \<Rightarrow> bool"
    by (auto simp: less_Suc_eq)
  have last: "statement_ok (pre @ [st]) (length pre) (moved_at (pre @ [st]) (length pre) M) D \<longleftrightarrow>
      reads_ok (kind_reads (st_kind st)) (moved s) (dropped s) \<and> borrow_fits (st_kind st) s"
    if "fold_res check_statement pre (block_entry M D) = Inr s" for s
    using snoc.IH(2) [OF that] borrow_fits_ok [of pre s st]
    by (auto simp: statement_ok_def moved_at_append)
  { case 1 show ?case
      using snoc.IH(1) last
      by (auto simp: fold_res_append and_then_Inr_conv check_statement_ok less statement_ok_append
          moved_at_append) }
  { case 2 then obtain s where s: "fold_res check_statement pre (block_entry M D) = Inr s"
      "check_statement st s = Inr s'"
      by (auto simp: fold_res_append and_then_Inr_conv)
    with snoc.IH(2) [OF s(1)] show ?case
      by (auto simp: check_statement_ok tracks_after moved_at_def after_borrow_def)
        (metis tracks_after after_borrow_def) }
qed

section \<open>The terminator and the block\<close>

lemma check_arg_ok:
  "check_arg a s = Inr s' \<longleftrightarrow> reads_ok (operand_locals a) (moved s) (dropped s) \<and>
     s' = s\<lparr>moved := moved s \<union> set (moved_args [a])\<rparr>"
  by (cases a) (auto simp: and_then_Inr_conv check_operand_ok mark_moved_def reads_ok_def)

lemma moved_args_Cons: "moved_args (a # as) = moved_args [a] @ moved_args as"
  by (cases a) simp_all

lemma check_args_ok:
  "fold_res check_arg args s = Inr s' \<longleftrightarrow>
     (\<forall>i < length args. reads_ok (operand_locals (args ! i)) (moved s \<union> set (moved_args (take i args))) (dropped s))
     \<and> s' = s\<lparr>moved := moved s \<union> set (moved_args args)\<rparr>"
proof (induction args arbitrary: s)
  case (Cons a as)
  show ?case
    by (simp add: and_then_Inr_conv check_arg_ok Cons.IH All_less_Suc2 Un_assoc del: check_arg.simps)
      (simp add: moved_args_Cons [of a as] moved_args_Cons [of a "take _ as"] Un_assoc)
qed auto

lemma check_terminator_ok:
  "check_terminator t s = Inr (cs, s') \<longleftrightarrow>
     term_reads_ok t (moved s) (dropped s) \<and> cs = terminator_successors t \<and>
     s' = s\<lparr>moved := term_moved t (moved s), dropped := term_dropped t (dropped s)\<rparr>"
  by (cases t) (auto simp: and_then_Inr_conv check_operand_ok check_args_ok clear_moved_def)

definition borrow_flow ::
  "body \<Rightarrow> block_id \<Rightarrow> local_id set \<times> local_id set \<Rightarrow> fault + block_id list \<times> local_id set \<times> local_id set" where
  "borrow_flow body b = (\<lambda>(M, D).
     if b < length (blocks body) then
       (case check_block (blocks body ! b) (block_entry M D) of
          Inl e \<Rightarrow> Inl (Fail e)
        | Inr (cs, out) \<Rightarrow> Inr (cs, (moved out, dropped out)))
     else Inl Panic)"

lemma borrow_flow_ok:
  assumes "b < length (blocks body)"
  defines "stmts \<equiv> statements (blocks body ! b)" and "t \<equiv> terminator (blocks body ! b)"
  shows "borrow_flow body b (M, D) = Inr (cs, out) \<longleftrightarrow>
    (\<forall>i \<le> length stmts. point_ok body b i (moved_at stmts i M) D) \<and> cs = terminator_successors t \<and>
    out = (term_moved t (moved_at stmts (length stmts) M), term_dropped t D)"
proof -
  have split: "(\<forall>i \<le> n. P i) \<longleftrightarrow> (\<forall>i < n. P i) \<and> P n" for n and P :: "nat \<Rightarrow> bool"
    by (auto simp: le_less)
  have points: "(\<forall>i \<le> length stmts. point_ok body b i (moved_at stmts i M) D) \<longleftrightarrow>
      (\<forall>i < length stmts. statement_ok stmts i (moved_at stmts i M) D) \<and>
      term_reads_ok t (moved_at stmts (length stmts) M) D"
    unfolding split by (simp add: point_ok_def Let_def stmts_def t_def)
  have "borrow_flow body b (M, D) = Inr (cs, out) \<longleftrightarrow>
      (\<exists>s'. check_block (blocks body ! b) (block_entry M D) = Inr (cs, s') \<and> out = (moved s', dropped s'))"
    using assms(1) by (auto simp: borrow_flow_def split: sum.splits)
  also have "\<dots> \<longleftrightarrow> (\<exists>s. fold_res check_statement stmts (block_entry M D) = Inr s \<and>
      term_reads_ok t (moved s) (dropped s) \<and> cs = terminator_successors t \<and>
      out = (term_moved t (moved s), term_dropped t (dropped s)))"
    by (auto simp: check_block_def and_then_Inr_conv check_terminator_ok stmts_def t_def)
  finally show ?thesis
    using check_statements_ok [of stmts M D] unfolding points by metis
qed

section \<open>Joined states\<close>

text \<open>An operation is exact when on a joined state it fails only as on one of the two states,
  and otherwise yields the join of the two results.\<close>

definition join_state :: "block_state \<Rightarrow> block_state \<Rightarrow> block_state" where
  "join_state s t = s\<lparr>moved := moved s \<union> moved t, dropped := dropped s \<union> dropped t\<rparr>"

definition exact :: "(block_state \<Rightarrow> mir_error + block_state) \<Rightarrow> bool" where
  "exact f \<longleftrightarrow> (\<forall>s t. borrows s = borrows t \<longrightarrow>
     (case f (join_state s t) of
        Inl e \<Rightarrow> f s = Inl e \<or> f t = Inl e
      | Inr j \<Rightarrow> \<exists>a b. f s = Inr a \<and> f t = Inr b \<and> borrows a = borrows b \<and> j = join_state a b))"

lemma exactI:
  assumes "\<And>s t e. borrows s = borrows t \<Longrightarrow> f (join_state s t) = Inl e \<Longrightarrow> f s = Inl e \<or> f t = Inl e"
    and "\<And>s t j. borrows s = borrows t \<Longrightarrow> f (join_state s t) = Inr j
      \<Longrightarrow> \<exists>a b. f s = Inr a \<and> f t = Inr b \<and> borrows a = borrows b \<and> j = join_state a b"
  shows "exact f"
  using assms unfolding exact_def by (fastforce split: sum.splits)

lemma exactD:
  assumes "exact f" "borrows s = borrows t"
  shows "case f (join_state s t) of Inl e \<Rightarrow> f s = Inl e \<or> f t = Inl e
      | Inr j \<Rightarrow> \<exists>a b. f s = Inr a \<and> f t = Inr b \<and> borrows a = borrows b \<and> j = join_state a b"
  using assms by (simp add: exact_def)

lemma exact_err:
  assumes "exact f" "borrows s = borrows t" "f (join_state s t) = Inl e"
  shows "f s = Inl e \<or> f t = Inl e"
  using exactD [OF assms(1,2)] assms(3) by simp

lemma exact_ok:
  assumes "exact f" "borrows s = borrows t" "f (join_state s t) = Inr j"
  obtains a b where "f s = Inr a" "f t = Inr b" "borrows a = borrows b" "j = join_state a b"
  using exactD [OF assms(1,2)] assms(3) that by auto

lemma exact_Inr: "exact Inr"
  by (rule exactI) auto

lemma exact_and_then:
  assumes "exact f" "exact g"
  shows "exact (\<lambda>s. and_then (f s) g)"
proof (rule exactI)
  fix s t e assume b: "borrows s = borrows t" and e: "and_then (f (join_state s t)) g = Inl e"
  show "and_then (f s) g = Inl e \<or> and_then (f t) g = Inl e"
  proof (cases "f (join_state s t)")
    case (Inl e')
    with e exact_err [OF assms(1) b] show ?thesis by auto
  next
    case (Inr j)
    from exact_ok [OF assms(1) b Inr] obtain a c where ac: "f s = Inr a" "f t = Inr c"
      "borrows a = borrows c" "j = join_state a c" .
    with e Inr exact_err [OF assms(2) ac(3)] show ?thesis by auto
  qed
next
  fix s t j assume b: "borrows s = borrows t" and j: "and_then (f (join_state s t)) g = Inr j"
  then obtain i where i: "f (join_state s t) = Inr i" "g i = Inr j" by (auto simp: and_then_Inr_conv)
  from exact_ok [OF assms(1) b i(1)] obtain a c where ac: "f s = Inr a" "f t = Inr c"
    "borrows a = borrows c" "i = join_state a c" .
  with i(2) have "g (join_state a c) = Inr j" by simp
  from exact_ok [OF assms(2) ac(3) this] obtain p q where "g a = Inr p" "g c = Inr q"
    "borrows p = borrows q" "j = join_state p q" .
  with ac(1,2) show "\<exists>a b. and_then (f s) g = Inr a \<and> and_then (f t) g = Inr b \<and> borrows a = borrows b \<and> j = join_state a b"
    by auto
qed

lemma exact_fold: "(\<And>x. x \<in> set xs \<Longrightarrow> exact (f x)) \<Longrightarrow> exact (fold_res f xs)"
proof (induction xs)
  case Nil
  have "fold_res f [] = Inr" by (rule ext) simp
  then show ?case by (simp add: exact_Inr)
next
  case (Cons x xs)
  have "fold_res f (x # xs) = (\<lambda>s. and_then (f x s) (fold_res f xs))" by (rule ext) simp
  with Cons show ?case by (simp add: exact_and_then)
qed

lemma join_state_simps [simp]:
  "moved (join_state s t) = moved s \<union> moved t"
  "dropped (join_state s t) = dropped s \<union> dropped t"
  "borrows (join_state s t) = borrows s"
  by (simp_all add: join_state_def)

lemma exact_read: "exact (check_operand_read op sp)"
  by (cases op) (auto intro!: exactI split: if_splits)

lemma exact_update:
  assumes "\<And>s t. borrows s = borrows t \<Longrightarrow> f (join_state s t) = join_state (f s) (f t) \<and> borrows (f s) = borrows (f t)"
  shows "exact (\<lambda>s. Inr (f s))"
  using assms by (auto intro!: exactI)

lemma exact_clear: "exact (\<lambda>s. Inr (clear_moved p s))"
  by (rule exact_update) (auto intro!: block_state.equality simp: clear_moved_def join_state_def)

lemma exact_mark: "exact (\<lambda>s. Inr (mark_moved p s))"
  by (rule exact_update) (auto intro!: block_state.equality simp: mark_moved_def join_state_def)

lemma exact_drop: "exact (\<lambda>s. Inr (s\<lparr>dropped := insert l (dropped s)\<rparr>))"
  by (rule exact_update) (auto intro!: block_state.equality simp: join_state_def)

lemma exact_reads: "exact (check_rvalue_reads rv sp)"
proof -
  have "check_rvalue_reads rv sp = fold_res (\<lambda>it. check_operand_read it sp) (rvalue_operands rv)"
    by (rule ext, cases rv) (auto simp: and_then_def split: sum.splits)
  then show ?thesis by (simp add: exact_fold exact_read)
qed

lemma borrow_stack_cong: "borrows s = borrows t \<Longrightarrow> borrow_stack s l = borrow_stack t l"
  by (simp add: borrow_stack_def)

lemma push_borrow_err_cong:
  "borrows s = borrows t \<Longrightarrow> push_borrow p k sp s = Inl e \<Longrightarrow> push_borrow p k sp t = Inl e"
  by (cases k) (simp_all add: push_borrow_def Let_def borrow_stack_cong [of s t] split: if_splits)

lemma exact_push: "exact (push_borrow p k sp)"
proof (rule exactI)
  fix s t e assume "borrows s = borrows t" "push_borrow p k sp (join_state s t) = Inl e"
  then show "push_borrow p k sp s = Inl e \<or> push_borrow p k sp t = Inl e"
    using push_borrow_err_cong [of "join_state s t" s] by simp
next
  fix s t j assume b: "borrows s = borrows t" and j: "push_borrow p k sp (join_state s t) = Inr j"
  have stack: "borrow_stack (join_state s t) l = borrow_stack s l" "borrow_stack t l = borrow_stack s l" for l
    using b by (simp_all add: borrow_stack_def)
  from j b show "\<exists>a b. push_borrow p k sp s = Inr a \<and> push_borrow p k sp t = Inr b
      \<and> borrows a = borrows b \<and> j = join_state a b"
    by (simp add: push_borrow_ok stack)
qed

lemma exact_consume: "exact (consume_source rv sp)"
proof (cases "\<exists>p. rv = Use (OpMove p)")
  case True
  then show ?thesis
    by (auto intro!: exactI block_state.equality simp: consume_source_def mark_moved_def split: if_splits)
next
  case False
  then have "consume_source rv sp = Inr"
    by (auto intro!: ext simp: consume_source_def split: rvalue.splits operand.splits)
  then show ?thesis by (simp add: exact_Inr)
qed

lemma exact_take: "exact (take_borrow rv sp)"
proof (cases "\<exists>k p. rv = Ref k p")
  case True
  then obtain k p where "rv = Ref k p" by blast
  then have "take_borrow rv sp = push_borrow p k sp" by (auto intro!: ext simp: take_borrow_def)
  then show ?thesis by (simp add: exact_push)
next
  case False
  then have "take_borrow rv sp = Inr"
    by (auto intro!: ext simp: take_borrow_def split: rvalue.splits)
  then show ?thesis by (simp add: exact_Inr)
qed

lemma exact_statement: "exact (check_statement st)"
proof (cases "st_kind st")
  case (Assign p rv)
  have "check_statement st = (\<lambda>s. and_then (check_rvalue_reads rv (st_span st) s) (\<lambda>s.
      and_then (and_then (Inr (clear_moved p s)) (consume_source rv (st_span st)))
        (take_borrow rv (st_span st))))"
    by (rule ext) (simp add: check_statement_def Assign)
  then show ?thesis
    by (simp only:) (intro exact_and_then exact_reads exact_clear exact_consume exact_take)
next
  case (StorageLive l)
  then have "check_statement st = Inr" by (auto simp: check_statement_def)
  then show ?thesis by (simp add: exact_Inr)
next
  case (StorageDead l)
  then have "check_statement st = Inr" by (auto simp: check_statement_def)
  then show ?thesis by (simp add: exact_Inr)
next
  case Nop
  then have "check_statement st = Inr" by (auto simp: check_statement_def)
  then show ?thesis by (simp add: exact_Inr)
qed

lemma check_terminator_succ:
  "check_terminator t s = and_then (map_sum id snd (check_terminator t s)) (\<lambda>s. Inr (terminator_successors t, s))"
  by (cases "check_terminator t s") (auto simp: check_terminator_ok)

lemma exact_arg: "exact (check_arg a)"
proof -
  have "check_arg a = (\<lambda>s. and_then (check_operand_read a synthetic_span s)
      (\<lambda>s. Inr (case a of OpMove p \<Rightarrow> mark_moved p s | _ \<Rightarrow> s)))"
    by (rule ext) simp
  moreover have "exact (\<lambda>s. Inr (case a of OpMove p \<Rightarrow> mark_moved p s | _ \<Rightarrow> s))"
    by (cases a) (simp_all add: exact_mark exact_Inr)
  ultimately show ?thesis by (simp add: exact_and_then exact_read)
qed

lemma exact_terminator: "exact (\<lambda>s. map_sum id snd (check_terminator t s))"
proof (cases t)
  case (Call f args d u v)
  have "(\<lambda>s. map_sum id snd (check_terminator t s)) = (\<lambda>s. and_then (check_operand_read f synthetic_span s)
      (\<lambda>s. and_then (fold_res check_arg args s) (\<lambda>s. Inr (clear_moved d s))))"
    by (rule ext) (auto simp: Call and_then_def split: sum.splits)
  then show ?thesis
    by (simp only:) (intro exact_and_then exact_read exact_fold exact_arg exact_clear)
next
  case (SwitchInt op cases other)
  have "(\<lambda>s. map_sum id snd (check_terminator t s)) = check_operand_read op synthetic_span"
    by (rule ext) (auto simp: SwitchInt and_then_def split: sum.splits)
  then show ?thesis by (simp add: exact_read)
next
  case (Assert op e m target)
  have "(\<lambda>s. map_sum id snd (check_terminator t s)) = check_operand_read op synthetic_span"
    by (rule ext) (auto simp: Assert and_then_def split: sum.splits)
  then show ?thesis by (simp add: exact_read)
qed (simp_all add: exact_Inr exact_drop)

definition walk :: "basic_block \<Rightarrow> block_state \<Rightarrow> mir_error + block_state" where
  "walk blk s = and_then (fold_res check_statement (statements blk) s)
     (\<lambda>s. map_sum id snd (check_terminator (terminator blk) s))"

lemma exact_walk: "exact (walk blk)"
  unfolding walk_def [abs_def]
  by (intro exact_and_then exact_fold exact_statement exact_terminator)

lemma check_block_walk:
  "check_block blk s = and_then (walk blk s) (\<lambda>s. Inr (terminator_successors (terminator blk), s))"
proof (cases "fold_res check_statement (statements blk) s")
  case (Inr s')
  then show ?thesis
    using check_terminator_succ [of "terminator blk" s'] by (simp add: check_block_def walk_def)
qed (simp add: check_block_def walk_def)

lemma borrow_flow_walk:
  "borrow_flow body b (M, D) =
     (if b < length (blocks body)
      then (case walk (blocks body ! b) (block_entry M D) of
              Inl e \<Rightarrow> Inl (Fail e)
            | Inr out \<Rightarrow> Inr (terminator_successors (terminator (blocks body ! b)), (moved out, dropped out)))
      else Inl Panic)"
  by (auto simp: borrow_flow_def check_block_walk and_then_def split: sum.splits)

end
