(* ===== verification/Mir_Borrow_Flow.thy ===== *)
theory Mir_Borrow_Flow
  imports Mir_Borrow_Sound
begin

text \<open>
  The loop of \<open>borrow_check\<close> as an instance of the interface \<open>worklist\<close>: facts are pairs of
  moved and dropped locals, bounded by the locals the body marks anywhere.
\<close>

section \<open>The work list as an instance of the interface\<close>

fun term_marks :: "terminator \<Rightarrow> local_id set" where
  "term_marks (Call _ args _ _ _) = set (moved_args args)"
| "term_marks (Drop p _) = {place_local p}"
| "term_marks _ = {}"

definition marks :: "body \<Rightarrow> local_id set" where
  "marks body = (\<Union>blk \<in> set (blocks body). term_marks (terminator blk) \<union>
     (\<Union>st \<in> set (statements blk). kind_moved (st_kind st) {}))"

lemma finite_marks: "finite (marks body)"
proof -
  have "finite (kind_moved k {})" for k by (cases k) simp_all
  moreover have "finite (term_marks t)" for t by (cases t) simp_all
  ultimately show ?thesis by (simp add: marks_def)
qed

lemma kind_moved_Un: "kind_moved k (M \<union> N) = kind_moved k M \<union> kind_moved k N"
  by (cases k) auto

lemma kind_moved_le: "kind_moved k M \<subseteq> M \<union> kind_moved k {}"
  by (cases k) auto

lemma moved_at_le: "M \<subseteq> A \<Longrightarrow> (\<Union>st \<in> set stmts. kind_moved (st_kind st) {}) \<subseteq> A
    \<Longrightarrow> moved_at stmts n M \<subseteq> A"
proof (induction n)
  case (Suc n)
  show ?case
  proof (cases "n < length stmts")
    case True
    with Suc.prems(2) have "kind_moved (st_kind (stmts ! n)) {} \<subseteq> A" by (meson UN_subset_iff nth_mem)
    with Suc kind_moved_le show ?thesis by (simp add: moved_at_Suc True) blast
  next
    case False
    with Suc show ?thesis by (simp add: moved_at_def)
  qed
qed (simp add: moved_at_def)

lemma term_moved_le: "term_moved t A \<subseteq> A \<union> term_marks t"
  by (cases t) auto

lemma term_dropped_le: "term_dropped t A \<subseteq> A \<union> term_marks t"
  by (cases t) auto

definition borrow_carrier :: "body \<Rightarrow> local_id set \<times> local_id set \<Rightarrow> bool" where
  "borrow_carrier body = (\<lambda>(M, D). M \<subseteq> marks body \<and> D \<subseteq> marks body)"

definition borrow_room :: "body \<Rightarrow> local_id set \<times> local_id set \<Rightarrow> nat" where
  "borrow_room body = (\<lambda>(M, D). card (marks body - M) + card (marks body - D))"

lemma borrow_flow_carrier:
  assumes "borrow_carrier body s" "borrow_flow body b s = Inr (cs, out)"
  shows "borrow_carrier body out"
proof -
  obtain M D where s: "s = (M, D)" by (cases s)
  have b: "b < length (blocks body)" using assms(2) by (auto simp: s borrow_flow_def split: if_splits)
  let ?blk = "blocks body ! b"
  have mem: "?blk \<in> set (blocks body)" using b by simp
  have gens: "(\<Union>st \<in> set (statements ?blk). kind_moved (st_kind st) {}) \<subseteq> marks body"
    using mem unfolding marks_def by blast
  have marked: "term_marks (terminator ?blk) \<subseteq> marks body"
    using mem unfolding marks_def by blast
  let ?M = "moved_at (statements ?blk) (length (statements ?blk)) M"
  have "?M \<subseteq> marks body" "D \<subseteq> marks body"
    using assms(1) moved_at_le [OF _ gens] by (simp_all add: s borrow_carrier_def)
  moreover have "out = (term_moved (terminator ?blk) ?M, term_dropped (terminator ?blk) D)"
    using assms(2) by (simp add: s borrow_flow_ok [OF b])
  ultimately show ?thesis
    using marked term_moved_le [of "terminator ?blk" ?M] term_dropped_le [of "terminator ?blk" D]
    by (simp add: borrow_carrier_def) blast
qed

lemma marks_room:
  assumes "A \<subseteq> B" "B \<subseteq> marks body"
  shows "card (marks body - B) \<le> card (marks body - A)"
    and "A \<noteq> B \<Longrightarrow> card (marks body - B) < card (marks body - A)"
  using assms finite_marks [of body] by (auto intro: card_mono psubset_card_mono)

lemma borrow_flow_sup_ok:
  assumes "borrow_flow body b (sup s t) = Inr (cs, out)"
  shows "\<exists>o1 o2. borrow_flow body b s = Inr (cs, o1) \<and> borrow_flow body b t = Inr (cs, o2) \<and> out = sup o1 o2"
proof -
  obtain M D N E where st: "s = (M, D)" "t = (N, E)" by (cases s, cases t)
  have b: "b < length (blocks body)" using assms by (auto simp: st borrow_flow_walk split: if_splits)
  have join: "block_entry (M \<union> N) (D \<union> E) = join_state (block_entry M D) (block_entry N E)"
    by (simp add: join_state_def)
  from assms b obtain j where j: "walk (blocks body ! b) (join_state (block_entry M D) (block_entry N E)) = Inr j"
    and cs: "cs = terminator_successors (terminator (blocks body ! b))" "out = (moved j, dropped j)"
    by (auto simp: st borrow_flow_walk join split: sum.splits)
  from exact_ok [OF exact_walk _ j] obtain a c where
    "walk (blocks body ! b) (block_entry M D) = Inr a" "walk (blocks body ! b) (block_entry N E) = Inr c"
    "j = join_state a c" by (metis block_state.select_convs(3))
  with cs b show ?thesis by (auto simp: st borrow_flow_walk)
qed

lemma borrow_flow_sup_err:
  assumes "borrow_flow body b (sup s t) = Inl e"
  shows "borrow_flow body b s = Inl e \<or> borrow_flow body b t = Inl e"
proof -
  obtain M D N E where st: "s = (M, D)" "t = (N, E)" by (cases s, cases t)
  have join: "block_entry (M \<union> N) (D \<union> E) = join_state (block_entry M D) (block_entry N E)"
    by (simp add: join_state_def)
  show ?thesis
  proof (cases "b < length (blocks body)")
    case True
    with assms obtain e' where e': "e = Fail e'"
      "walk (blocks body ! b) (join_state (block_entry M D) (block_entry N E)) = Inl e'"
      by (auto simp: st borrow_flow_walk join split: sum.splits)
    with exact_err [OF exact_walk _ e'(2)] True show ?thesis by (auto simp: st borrow_flow_walk)
  next
    case False
    with assms show ?thesis by (simp add: st borrow_flow_def)
  qed
qed

interpretation borrow: worklist "borrow_flow body" "graph_bound body" "borrow_carrier body"
  "borrow_room body" "Suc (2 * card (marks body))" for body
proof unfold_locales
  fix b s t cs out
  show "borrow_flow body b (sup s t) = Inr (cs, out) \<Longrightarrow>
    \<exists>o1 o2. borrow_flow body b s = Inr (cs, o1) \<and> borrow_flow body b t = Inr (cs, o2) \<and> out = sup o1 o2"
    by (rule borrow_flow_sup_ok)
next
  fix b s t e
  show "borrow_flow body b (sup s t) = Inl e \<Longrightarrow> borrow_flow body b s = Inl e \<or> borrow_flow body b t = Inl e"
    by (rule borrow_flow_sup_err)
next
  fix b s cs out c
  assume f: "borrow_flow body b s = Inr (cs, out)" and c: "c \<in> set cs"
  obtain M D where s: "s = (M, D)" by (cases s)
  have b: "b < length (blocks body)" using f by (auto simp: s borrow_flow_def split: if_splits)
  with f c show "c < graph_bound body" by (auto simp: s borrow_flow_ok [OF b] intro: succ_less_bound)
next
  fix b s cs out
  show "borrow_carrier body s \<Longrightarrow> borrow_flow body b s = Inr (cs, out) \<Longrightarrow> borrow_carrier body out"
    by (rule borrow_flow_carrier)
next
  fix s t :: "local_id set \<times> local_id set"
  show "borrow_carrier body s \<Longrightarrow> borrow_carrier body t \<Longrightarrow> borrow_carrier body (sup s t)"
    by (auto simp: borrow_carrier_def)
next
  fix s t :: "local_id set \<times> local_id set"
  assume st: "borrow_carrier body s" "borrow_carrier body t" "s < t"
  obtain M D N E where eq: "s = (M, D)" "t = (N, E)" by (cases s, cases t)
  from st have le: "M \<subseteq> N" "D \<subseteq> E" and ne: "M \<noteq> N \<or> D \<noteq> E"
    and c: "N \<subseteq> marks body" "E \<subseteq> marks body"
    by (auto simp: eq less_le borrow_carrier_def)
  with marks_room [OF le(1) c(1)] marks_room [OF le(2) c(2)] show "borrow_room body t < borrow_room body s"
    by (simp add: eq borrow_room_def) (metis add_le_less_mono add_less_le_mono)
next
  fix s :: "local_id set \<times> local_id set"
  obtain M D where s: "s = (M, D)" by (cases s)
  have "card (marks body - A) \<le> card (marks body)" for A
    using finite_marks [of body] by (auto intro: card_mono)
  from add_mono [OF this [of M] this [of D]] show "borrow_room body s < Suc (2 * card (marks body))"
    by (simp add: s borrow_room_def)
qed

section \<open>The loop takes the steps of the interface\<close>

definition facts :: "check_state \<Rightarrow> (local_id set \<times> local_id set) table" where
  "facts st b = (case (entry_moved st b, entry_dropped st b) of
     (Some M, Some D) \<Rightarrow> Some (M, D) | _ \<Rightarrow> None)"

definition abs_state :: "check_state \<Rightarrow> (local_id set \<times> local_id set) table \<times> block_id list" where
  "abs_state st = (facts st, work st)"

text \<open>The two tables have the same keys, and a block with an entry state that was not yet
  visited is pending.\<close>

definition coupled :: "check_state \<Rightarrow> bool" where
  "coupled st \<longleftrightarrow> dom (entry_dropped st) = dom (entry_moved st) \<and>
     visited st \<subseteq> dom (entry_moved st) \<and> dom (entry_moved st) \<subseteq> visited st \<union> set (work st)"

lemma propagate_spread:
  assumes "coupled st"
  shows "abs_state (propagate_borrow out s st) = spread (moved out, dropped out) s (abs_state st)
    \<and> coupled (propagate_borrow out s st)"
proof (cases "entry_moved st s")
  case None
  then have "s \<notin> dom (entry_moved st)" by blast
  then have "entry_dropped st s = None" "s \<notin> visited st" using assms by (auto simp: coupled_def)
  with None assms show ?thesis
    by (auto simp: coupled_def abs_state_def spread_def Let_def propagate_borrow_def grow_set_def
        entry_of_def facts_def join_into_def push_work_def fun_eq_iff)
next
  case (Some M)
  then have "s \<in> dom (entry_dropped st)" using assms by (auto simp: coupled_def)
  then obtain D where D: "entry_dropped st s = Some D" by blast
  have pending: "s \<notin> visited st \<Longrightarrow> s \<in> set (work st)" using Some assms by (auto simp: coupled_def)
  have facts: "facts (propagate_borrow out s st) = join_into (moved out, dropped out) s (facts st)"
    using Some D by (auto simp: propagate_borrow_def grow_set_def entry_of_def facts_def join_into_def
        fun_eq_iff split: option.splits)
  have "work (propagate_borrow out s st) =
      (if join_into (moved out, dropped out) s (facts st) s \<noteq> facts st s then push_work s (work st) else work st)"
    using Some D pending
    by (auto simp: propagate_borrow_def grow_set_def entry_of_def facts_def join_into_def push_work_def)
  moreover have "coupled (propagate_borrow out s st)"
    using Some D assms
    by (auto simp: coupled_def propagate_borrow_def grow_set_def entry_of_def push_work_def)
  ultimately show ?thesis by (simp add: abs_state_def spread_def Let_def facts)
qed

lemma propagate_spreads:
  "coupled st \<Longrightarrow> abs_state (fold (propagate_borrow out) cs st) = fold (spread (moved out, dropped out)) cs (abs_state st)
    \<and> coupled (fold (propagate_borrow out) cs st)"
  by (induction cs arbitrary: st) (simp_all add: propagate_spread)

lemma turn_step:
  assumes c: "coupled st" and inv: "borrow.invar body (abs_state st)" and w: "work st = b # rest"
  defines "st1 \<equiv> st\<lparr>work := rest, visited := insert b (visited st)\<rparr>"
  shows "\<exists>s. facts st b = Some s \<and>
    (case borrow_flow body b s of
       Inl e \<Rightarrow> borrow_turn body b (st\<lparr>work := rest\<rparr>) = Inl e
     | Inr (cs, out) \<Rightarrow> \<exists>st'. borrow_turn body b (st\<lparr>work := rest\<rparr>) = Inr st' \<and> coupled st' \<and>
         abs_state st' = fold (spread out) cs (facts st, rest))"
proof -
  have "facts st b \<noteq> None" using inv w by (auto simp: borrow.invar_def abs_state_def)
  then obtain M D where MD: "entry_moved st b = Some M" "entry_dropped st b = Some D"
    by (auto simp: facts_def split: option.splits)
  have c1: "coupled st1" using c w MD by (auto simp: coupled_def st1_def)
  have a1: "abs_state st1 = (facts st, rest)" by (simp add: abs_state_def st1_def facts_def fun_eq_iff)
  have turn: "borrow_turn body b (st\<lparr>work := rest\<rparr>) =
     (if b < length (blocks body) then
        (case check_block (blocks body ! b) (block_entry M D) of
           Inl e \<Rightarrow> Inl (Fail e)
         | Inr (cs, out) \<Rightarrow> Inr (fold (propagate_borrow out) cs st1))
      else Inl Panic)"
    unfolding st1_def using MD by (simp add: borrow_turn_def entry_of_def)
  show ?thesis
    using MD propagate_spreads [OF c1] a1
    by (intro exI [of _ "(M, D)"])
      (auto simp: turn facts_def borrow_flow_def split: sum.splits)
qed

lemma borrow_loop_finishes:
  assumes "coupled st" "borrow.invar body (abs_state st)"
  shows "\<exists>r. borrow.finishes body (abs_state st) r \<and> borrow_loop body st = Some (map_sum id (\<lambda>_. ()) r)"
proof (rule borrow.loop_finishes [where C = coupled and body = body and abs = abs_state and loop = "borrow_loop body" and c = st, OF _ assms])
  fix st T W
  assume c: "coupled st" and inv: "borrow.invar body (abs_state st)" and a: "abs_state st = (T, W)"
  show "(W = [] \<and> borrow_loop body st = Some (Inr ())) \<or>
      (\<exists>b rest s e. W = b # rest \<and> T b = Some s \<and> borrow_flow body b s = Inl e \<and> borrow_loop body st = Some (Inl e)) \<or>
      (\<exists>st'. coupled st' \<and> borrow.step body (T, W) (abs_state st') \<and> borrow_loop body st = borrow_loop body st')"
  proof (cases W)
    case Nil
    with a show ?thesis by (subst borrow_loop.simps) (simp add: abs_state_def)
  next
    case (Cons b rest)
    with a have w: "work st = b # rest" and T: "T = facts st" by (auto simp: abs_state_def)
    from turn_step [OF c inv w] obtain s where s: "facts st b = Some s" and
      t: "case borrow_flow body b s of
       Inl e \<Rightarrow> borrow_turn body b (st\<lparr>work := rest\<rparr>) = Inl e
     | Inr (cs, out) \<Rightarrow> \<exists>st'. borrow_turn body b (st\<lparr>work := rest\<rparr>) = Inr st' \<and> coupled st' \<and>
         abs_state st' = fold (spread out) cs (facts st, rest)"
      by blast
    show ?thesis
    proof (cases "borrow_flow body b s")
      case (Inl e)
      with t have "borrow_loop body st = Some (Inl e)" by (subst borrow_loop.simps) (simp add: w)
      with Inl s T Cons show ?thesis by blast
    next
      case (Inr p)
      then obtain cs out where f: "borrow_flow body b s = Inr (cs, out)" by (cases p) auto
      with t obtain st' where st': "borrow_turn body b (st\<lparr>work := rest\<rparr>) = Inr st'" "coupled st'"
        "abs_state st' = fold (spread out) cs (facts st, rest)" by auto
      have "borrow_loop body st = borrow_loop body st'" using st'(1)
        by (subst borrow_loop.simps) (simp add: w)
      moreover have "borrow.step body (facts st, b # rest) (abs_state st')"
        unfolding st'(3) using inv s f by (intro borrow.spread_step) (simp_all add: abs_state_def w)
      ultimately show ?thesis using st'(2) T Cons by auto
    qed
  qed
qed

end
