(* ===== verification/Mir_Borrow_Props.thy ===== *)
theory Mir_Borrow_Props
  imports Mir_Borrow_Flow
begin

text \<open>
  The properties of the borrow checker: it returns on every body, accepts exactly the bodies
  all of whose reachable points are safe, and reports only errors some path commits.
\<close>

section \<open>Runs of blocks and paths of program points\<close>

lemma reaches_statements:
  "reaches body b 0 M D \<Longrightarrow> i \<le> length (statements (blocks body ! b))
     \<Longrightarrow> reaches body b i (moved_at (statements (blocks body ! b)) i M) D"
proof (induction i)
  case (Suc i)
  then show ?case using reach_statement [of body b i] by (simp add: moved_at_Suc)
qed (simp add: moved_at_def)

lemma run_reaches: "borrow.run body ({}, {}) b s \<Longrightarrow> reaches body b 0 (fst s) (snd s)"
proof (induction rule: borrow.run.induct)
  case run_entry
  then show ?case by (simp add: reach_entry)
next
  case (run_edge b s cs out c)
  obtain M D where s: "s = (M, D)" by (cases s)
  have b: "b < length (blocks body)" using run_edge.hyps(2) by (auto simp: s borrow_flow_def split: if_splits)
  from run_edge.IH have "reaches body b (length (statements (blocks body ! b)))
      (moved_at (statements (blocks body ! b)) (length (statements (blocks body ! b))) M) D"
    by (intro reaches_statements) (simp_all add: s)
  from reach_edge [OF this] run_edge.hyps(2,3) show ?case by (auto simp: s borrow_flow_ok [OF b])
qed

lemma reaches_run:
  assumes ok: "\<forall>b s. borrow.run body ({}, {}) b s \<longrightarrow> (\<exists>o'. borrow_flow body b s = Inr o')"
    and r: "reaches body b i M D"
  shows "\<exists>M0. borrow.run body ({}, {}) b (M0, D) \<and> M = moved_at (statements (blocks body ! b)) i M0
    \<and> i \<le> length (statements (blocks body ! b))"
  using r
proof (induction rule: reaches.induct)
  case reach_entry
  then show ?case by (intro exI [of _ "{}"]) (simp add: borrow.run_entry moved_at_def)
next
  case (reach_statement b i M D)
  then obtain M0 where "borrow.run body ({}, {}) b (M0, D)"
    "M = moved_at (statements (blocks body ! b)) i M0" by blast
  with reach_statement.hyps(2) show ?case by (intro exI [of _ M0]) (simp add: moved_at_Suc)
next
  case (reach_edge b M D c)
  then obtain M0 where M0: "borrow.run body ({}, {}) b (M0, D)"
    "M = moved_at (statements (blocks body ! b)) (length (statements (blocks body ! b))) M0" by blast
  with ok obtain cs out where f: "borrow_flow body b (M0, D) = Inr (cs, out)" by fastforce
  then have b: "b < length (blocks body)" by (auto simp: borrow_flow_def split: if_splits)
  have "borrow.run body ({}, {}) c out"
    using borrow.run_edge [OF M0(1) f] f reach_edge.hyps(2) by (simp add: borrow_flow_ok [OF b])
  with f M0(2) show ?case by (auto simp: borrow_flow_ok [OF b] moved_at_def)
qed

lemma reaches_in_body: "reaches body b i M D \<Longrightarrow> wf_cfg body \<Longrightarrow> b < length (blocks body)"
  by (induction rule: reaches.induct) (auto dest: wf_cfg_succ wf_cfg_nonempty)

lemma borrow_check_finishes:
  assumes "blocks body \<noteq> []"
  shows "\<exists>r. borrow.finishes body ([0 \<mapsto> ({}, {})], [0]) r \<and> borrow_check body = Some (map_sum id (\<lambda>_. ()) r)"
proof -
  have a: "abs_state borrow_start = ([0 \<mapsto> ({}, {})], [0])"
    by (auto simp: abs_state_def borrow_start_def facts_def fun_eq_iff)
  have "coupled borrow_start" by (simp add: coupled_def borrow_start_def)
  moreover have "borrow.invar body (abs_state borrow_start)"
    unfolding a by (rule borrow.invar_start) (simp_all add: borrow_carrier_def graph_bound_def)
  ultimately show ?thesis using borrow_loop_finishes assms by (fastforce simp: borrow_check_def a)
qed

lemma borrow_check_runs:
  assumes "blocks body \<noteq> []"
  shows "(borrow_check body = Some (Inr ()) \<longleftrightarrow>
      (\<forall>b s. borrow.run body ({}, {}) b s \<longrightarrow> (\<exists>o'. borrow_flow body b s = Inr o')))
    \<and> (\<forall>e. borrow_check body = Some (Inl e) \<longrightarrow> (\<exists>b s. borrow.run body ({}, {}) b s \<and> borrow_flow body b s = Inl e))"
proof -
  from borrow_check_finishes [OF assms] obtain r where
    fin: "borrow.finishes body ([0 \<mapsto> ({}, {})], [0]) r"
    and r: "borrow_check body = Some (map_sum id (\<lambda>_. ()) r)" by blast
  have c: "borrow_carrier body ({}, {})" "0 < graph_bound body"
    by (simp_all add: borrow_carrier_def graph_bound_def)
  show ?thesis
    using borrow.accepts_iff [OF fin c] r by (cases r) auto
qed

section \<open>The errors a point can raise\<close>

definition read_error :: "local_id \<Rightarrow> span \<Rightarrow> local_id set \<Rightarrow> local_id set \<Rightarrow> mir_error \<Rightarrow> bool" where
  "read_error l sp M D e \<longleftrightarrow>
     (e = UseAfterMove l sp borrow_hint \<and> l \<in> M) \<or> (e = UseAfterDrop l sp drop_hint \<and> l \<notin> M \<and> l \<in> D)"

definition operands_error ::
  "operand list \<Rightarrow> span \<Rightarrow> local_id set \<Rightarrow> local_id set \<Rightarrow> mir_error \<Rightarrow> bool" where
  "operands_error ops sp M D e \<longleftrightarrow> (\<exists>op \<in> set ops. \<exists>l \<in> set (operand_locals op). read_error l sp M D e)"

definition borrow_error :: "statement list \<Rightarrow> nat \<Rightarrow> mir_error \<Rightarrow> bool" where
  "borrow_error stmts i e \<longleftrightarrow> (\<exists>l h. \<exists>k \<in> set (kind_borrows l (st_kind (stmts ! i))).
     \<exists>k' \<in> set (borrows_of l (take i stmts)).
       (e = ConflictingMutBorrow l (st_span (stmts ! i)) h \<and> k = Mut \<and> k' = Mut) \<or>
       (e = SharedMutOverlap l (st_span (stmts ! i)) h \<and> k \<noteq> k'))"

fun term_error :: "terminator \<Rightarrow> local_id set \<Rightarrow> local_id set \<Rightarrow> mir_error \<Rightarrow> bool" where
  "term_error (SwitchInt op _ _) M D e = operands_error [op] synthetic_span M D e"
| "term_error (Assert op _ _ _) M D e = operands_error [op] synthetic_span M D e"
| "term_error (Call f args _ _ _) M D e =
     (operands_error [f] synthetic_span M D e \<or>
      (\<exists>i < length args. operands_error [args ! i] synthetic_span (M \<union> set (moved_args (take i args))) D e))"
| "term_error _ M D e = False"

fun kind_operands :: "statement_kind \<Rightarrow> operand list" where
  "kind_operands (Assign _ rv) = rvalue_operands rv"
| "kind_operands _ = []"

definition point_error :: "body \<Rightarrow> block_id \<Rightarrow> nat \<Rightarrow> local_id set \<Rightarrow> local_id set \<Rightarrow> mir_error \<Rightarrow> bool" where
  "point_error body b i M D e \<longleftrightarrow>
     (let stmts = statements (blocks body ! b) in
      if i < length stmts
      then operands_error (kind_operands (st_kind (stmts ! i))) (st_span (stmts ! i)) M D e \<or> borrow_error stmts i e
      else term_error (terminator (blocks body ! b)) M D e)"

lemma operands_error_simps:
  "\<not> operands_error [] sp M D e"
  "operands_error (op # ops) sp M D e \<longleftrightarrow>
     (\<exists>l \<in> set (operand_locals op). read_error l sp M D e) \<or> operands_error ops sp M D e"
  by (simp_all add: operands_error_def)

lemma check_operand_err:
  "check_operand_read op sp s = Inl e \<Longrightarrow> operands_error [op] sp (moved s) (dropped s) e"
  by (cases op) (auto simp: operands_error_def read_error_def split: if_splits)

lemma check_operands_err:
  "fold_res (\<lambda>it. check_operand_read it sp) ops s = Inl e \<Longrightarrow> operands_error ops sp (moved s) (dropped s) e"
  by (induction ops)
    (auto simp: operands_error_simps and_then_Inl_conv check_operand_ok dest: check_operand_err)

lemma check_rvalue_err:
  assumes "check_rvalue_reads rv sp s = Inl e"
  shows "operands_error (rvalue_operands rv) sp (moved s) (dropped s) e"
proof -
  have "check_rvalue_reads rv sp = fold_res (\<lambda>it. check_operand_read it sp) (rvalue_operands rv)"
    by (rule ext, cases rv) (auto simp: and_then_def split: sum.splits)
  with assms check_operands_err show ?thesis by metis
qed

lemma push_borrow_err:
  assumes "push_borrow p k sp s = Inl e"
  shows "\<exists>h. \<exists>k' \<in> set (borrow_stack s (place_local p)).
    (e = ConflictingMutBorrow (place_local p) sp h \<and> k = Mut \<and> k' = Mut) \<or>
    (e = SharedMutOverlap (place_local p) sp h \<and> k \<noteq> k')"
  using assms by (cases k) (auto simp: push_borrow_def Let_def split: if_splits)

lemma check_statement_err:
  assumes "check_statement st s = Inl e" "tracks pre s"
  shows "operands_error (kind_operands (st_kind st)) (st_span st) (moved s) (dropped s) e
    \<or> borrow_error (pre @ st # post) (length pre) e"
proof (cases "st_kind st")
  case (Assign p rv)
  show ?thesis
  proof (cases "check_rvalue_reads rv (st_span st) s")
    case (Inl e')
    with assms(1) have "e = e'" by (simp add: check_statement_def Assign)
    with check_rvalue_err [OF Inl] show ?thesis by (simp add: Assign)
  next
    case (Inr s1)
    then have ok: "reads_ok (rvalue_locals rv) (moved s) (dropped s)" "s1 = s" by (simp_all add: check_rvalue_ok)
    with assms(1) Inr have "take_borrow rv (st_span st) (s\<lparr>moved := moved s - {place_local p} \<union> set (used_moves rv)\<rparr>) = Inl e"
      by (simp add: check_statement_def Assign consume_source_ok [OF ok(1)])
    then obtain k q where q: "rv = Ref k q" "push_borrow q k (st_span st)
        (s\<lparr>moved := moved s - {place_local p} \<union> set (used_moves rv)\<rparr>) = Inl e"
      by (auto simp: take_borrow_def split: rvalue.splits)
    have "borrow_error (pre @ st # post) (length pre) e"
      using push_borrow_err [OF q(2)] assms(2) Assign q(1)
      by (simp add: borrow_error_def tracks_def)
    then show ?thesis ..
  qed
qed (use assms in \<open>auto simp: check_statement_def\<close>)

lemma check_terminator_err:
  assumes "check_terminator t s = Inl e"
  shows "term_error t (moved s) (dropped s) e"
proof (cases t)
  case (Call f args d u v)
  show ?thesis
  proof (cases "check_operand_read f synthetic_span s")
    case Inl
    with assms show ?thesis by (auto simp: Call dest: check_operand_err)
  next
    case (Inr s1)
    with assms have "fold_res check_arg args s = Inl e"
      by (auto simp: Call check_operand_ok and_then_Inl_conv)
    then obtain ys a zs s' where args: "args = ys @ a # zs" "fold_res check_arg ys s = Inr s'"
      "check_arg a s' = Inl e" by (rule fold_res_InlE)
    have "operands_error [a] synthetic_span (moved s') (dropped s') e"
      using args(3) by (auto simp: and_then_Inl_conv dest: check_operand_err)
    with args(1,2) show ?thesis
      by (auto simp: Call check_args_ok intro!: exI [of _ "length ys"])
  qed
qed (use assms in \<open>auto simp: and_then_Inl_conv dest: check_operand_err\<close>)

lemma borrow_flow_err:
  assumes "borrow_flow body b (M, D) = Inl (Fail e)"
  shows "\<exists>i \<le> length (statements (blocks body ! b)).
    point_error body b i (moved_at (statements (blocks body ! b)) i M) D e"
proof -
  let ?stmts = "statements (blocks body ! b)" and ?t = "terminator (blocks body ! b)"
  from assms have "check_block (blocks body ! b) (block_entry M D) = Inl e"
    by (auto simp: borrow_flow_def split: if_splits sum.splits)
  then consider (stmt) "fold_res check_statement ?stmts (block_entry M D) = Inl e"
    | (trm) s where "fold_res check_statement ?stmts (block_entry M D) = Inr s" "check_terminator ?t s = Inl e"
    by (auto simp: check_block_def and_then_Inl_conv)
  then show ?thesis
  proof cases
    case stmt
    then obtain pre st post s where split: "?stmts = pre @ st # post"
      and s: "fold_res check_statement pre (block_entry M D) = Inr s" "check_statement st s = Inl e"
      by (rule fold_res_InlE)
    from check_statements_ok(2) [OF s(1)] have m: "moved s = moved_at ?stmts (length pre) M"
      and "dropped s = D" "tracks pre s"
      by (simp_all add: split moved_at_append)
    with check_statement_err [OF s(2) \<open>tracks pre s\<close>, of post]
    show ?thesis by (intro exI [of _ "length pre"]) (auto simp: split point_error_def)
  next
    case trm
    with check_statements_ok(2) [OF trm(1)] check_terminator_err [OF trm(2)]
    show ?thesis by (intro exI [of _ "length ?stmts"]) (simp add: point_error_def)
  qed
qed

lemma borrow_check_total: "\<exists>r. borrow_check body = Some r"
  using borrow_check_finishes [of body] by (cases "blocks body = []") (auto simp: borrow_check_def)

section \<open>Properties\<close>

text \<open>C15. The borrow checker returns on every body, and panics on none whose edges stay in the
  body.\<close>

theorem borrow_check_returns:
  "\<exists>r. borrow_check body = Some r \<and> (wf_cfg body \<longrightarrow> r \<noteq> Inl Panic)"
proof (cases "blocks body = []")
  case True
  then show ?thesis by (simp add: borrow_check_def)
next
  case False
  from borrow_check_finishes [OF False] obtain r where r: "borrow_check body = Some r" by blast
  have "r \<noteq> Inl Panic" if wf: "wf_cfg body"
  proof
    assume "r = Inl Panic"
    with borrow_check_runs [OF False] r obtain b s where
      "borrow.run body ({}, {}) b s" "borrow_flow body b s = Inl Panic" by blast
    with reaches_in_body [OF run_reaches wf] show False
      by (cases s) (force simp: borrow_flow_def split: if_splits sum.splits)
  qed
  with r show ?thesis by blast
qed

lemma borrow_check_ok_iff:
  assumes wf: "wf_cfg body"
  shows "borrow_check body = Some (Inr ()) \<longleftrightarrow>
    (\<forall>b i M D. reaches body b i M D \<longrightarrow> point_ok body b i M D)"
proof -
  have "blocks body \<noteq> []" using wf by (simp add: wf_cfg_def)
  note runs = conjunct1 [OF borrow_check_runs [OF this]]
  show ?thesis unfolding runs
  proof (intro iffI allI impI)
    fix b i M D assume ok: "\<forall>b s. borrow.run body ({}, {}) b s \<longrightarrow> (\<exists>o'. borrow_flow body b s = Inr o')"
      and r: "reaches body b i M D"
    from reaches_run [OF ok r] obtain M0 where M0: "borrow.run body ({}, {}) b (M0, D)"
      "M = moved_at (statements (blocks body ! b)) i M0" "i \<le> length (statements (blocks body ! b))" by blast
    with ok obtain cs out where f: "borrow_flow body b (M0, D) = Inr (cs, out)" by fastforce
    have "b < length (blocks body)" using r wf by (rule reaches_in_body)
    from f M0(2,3) show "point_ok body b i M D" unfolding borrow_flow_ok [OF \<open>b < _\<close>] by blast
  next
    fix b s assume safe: "\<forall>b i M D. reaches body b i M D \<longrightarrow> point_ok body b i M D"
      and r: "borrow.run body ({}, {}) b s"
    obtain M D where s: "s = (M, D)" by (cases s)
    have p: "reaches body b 0 M D" using run_reaches [OF r] by (simp add: s)
    then have "b < length (blocks body)" using wf by (blast intro: reaches_in_body)
    moreover have "\<forall>i \<le> length (statements (blocks body ! b)).
        point_ok body b i (moved_at (statements (blocks body ! b)) i M) D"
      using safe reaches_statements [OF p] by blast
    ultimately show "\<exists>o'. borrow_flow body b s = Inr o'" unfolding s using borrow_flow_ok by blast
  qed
qed

text \<open>C1. The borrow checker accepts a body exactly when no path through it reads a moved or a
  dropped local, call arguments counted in order, and no block borrows a local mutably while
  another borrow of it is live in that block.\<close>

theorem borrow_check_accepts:
  assumes "wf_cfg body"
  shows "borrow_check body = Some (Inr ()) \<longleftrightarrow>
    (\<forall>b i M D. reaches body b i M D \<longrightarrow> point_ok body b i M D)"
  using assms by (rule borrow_check_ok_iff)

text \<open>C14. An error the borrow checker reports is committed on some path: at a point the path
  reaches, the reported local is read after it was moved or dropped there, or borrowed against
  a borrow the block already holds, and the span is that of the point.\<close>

theorem borrow_error_genuine:
  assumes "borrow_check body = Some (Inl (Fail e))"
  shows "\<exists>b i M D. reaches body b i M D \<and> point_error body b i M D e"
proof -
  have "blocks body \<noteq> []" using assms by (auto simp: borrow_check_def)
  from borrow_check_runs [OF this] assms obtain b s where
    r: "borrow.run body ({}, {}) b s" and f: "borrow_flow body b s = Inl (Fail e)" by blast
  obtain M D where s: "s = (M, D)" by (cases s)
  from borrow_flow_err [OF f [unfolded s]] run_reaches [OF r] show ?thesis
    using reaches_statements by (fastforce simp: s)
qed

section \<open>A concrete body\<close>

text \<open>\<open>bb0: _2 = move _1; switch copy _3 -> bb1, bb2\<close>; \<open>bb1\<close> reads \<open>_1\<close>, \<open>bb2\<close> returns.\<close>

definition demo_stmt :: "statement_kind \<Rightarrow> statement" where
  "demo_stmt k = \<lparr>st_kind = k, st_span = span_point 0 4\<rparr>"

definition demo_block :: "nat \<Rightarrow> statement list \<Rightarrow> terminator \<Rightarrow> basic_block" where
  "demo_block i ss t = \<lparr>bb_id = i, statements = ss, terminator = t, bb_span = span_point 0 4\<rparr>"

definition demo_body :: "basic_block list \<Rightarrow> body" where
  "demo_body bs = \<lparr>def_id = 0, body_name = ''f'', locals = [], blocks = bs, return_local = 0,
     param_count = 0, body_span = span_point 0 0\<rparr>"

definition moved_twice :: body where
  "moved_twice = demo_body
     [demo_block 0 [demo_stmt (Assign (Place 2 []) (Use (OpMove (Place 1 []))))]
        (SwitchInt (OpCopy (Place 3 [])) [(SvInt 0, 1)] 2),
      demo_block 1 [demo_stmt (Assign (Place 4 []) (Use (OpCopy (Place 1 []))))] Return,
      demo_block 2 [] Return]"

lemmas borrow_eval = borrow_check_def borrow_loop.simps borrow_start_def borrow_turn_def Let_def
  entry_of_def check_block_def check_statement_def consume_source_def take_borrow_def clear_moved_def
  mark_moved_def propagate_borrow_def grow_set_def push_work_def demo_body_def demo_block_def
  demo_stmt_def moved_twice_def

lemma moved_twice_wf: "wf_cfg moved_twice"
  by (simp add: wf_cfg_def moved_twice_def demo_body_def demo_block_def numeral_2_eq_2)

theorem borrow_check_accepts_witness:
  "borrow_check moved_twice = Some (Inr ()) \<longleftrightarrow>
    (\<forall>b i M D. reaches moved_twice b i M D \<longrightarrow> point_ok moved_twice b i M D)"
  by (rule borrow_check_accepts [OF moved_twice_wf])

theorem borrow_error_genuine_witness:
  "\<exists>b i M D. reaches moved_twice b i M D \<and>
     point_error moved_twice b i M D (UseAfterMove 1 (span_point 0 4) borrow_hint)"
proof (rule borrow_error_genuine)
  show "borrow_check moved_twice = Some (Inl (Fail (UseAfterMove 1 (span_point 0 4) borrow_hint)))"
    by (simp add: borrow_eval)
qed

theorem borrow_check_returns_witness:
  "\<exists>r. borrow_check moved_twice = Some r \<and> r \<noteq> Inl Panic"
  using borrow_check_returns [of moved_twice] moved_twice_wf by blast

end
