(* ===== verification/Mir_Drop_Props.thy ===== *)
theory Mir_Drop_Props
  imports Mir_Drop_Schedule Mir_Borrow_Props
begin

text \<open>
  The properties of the drop schedule: the verifier accepts exactly the graphs no path of
  which drops a local twice, the scheduled graph is accepted and drops every scheduled local
  once on every path to a return, and a body that passed the borrow check passes it again
  after scheduling unless a returning block itself reads a scheduled local.
\<close>

section \<open>Paths of the scheduled graph\<close>

text \<open>Where a path that performed the drops \<open>ds\<close> can be.\<close>

definition on_schedule :: "nat \<Rightarrow> local_id list \<Rightarrow> block_id list \<Rightarrow> block_id \<Rightarrow> local_id list \<Rightarrow> bool" where
  "on_schedule n ls rets b ds \<longleftrightarrow>
     (b < n \<and> b \<notin> set rets \<and> ds = []) \<or>
     (b \<in> set rets \<and> (ds = ls \<or> (b = 0 \<and> ds = []))) \<or>
     (\<exists>i j. i < length rets \<and> j < length ls \<and> b = n + i * length ls + j \<and> ds = take (length ls - 1 - j) ls)"

lemma on_schedule_return:
  "on_schedule n ls rets b ds \<Longrightarrow> b \<in> set rets \<Longrightarrow> b < n \<Longrightarrow> b \<noteq> 0 \<Longrightarrow> ds = ls"
  by (auto simp: on_schedule_def)

lemma on_schedule_old_edge:
  assumes "distinct rets" "ls \<noteq> []" "c < n"
  shows "on_schedule n ls rets (redirect n (length ls) rets c) []"
  using redirect_cases [OF assms(1), of c n "length ls"]
proof cases
  case 1
  then show ?thesis using assms(3) by (simp add: on_schedule_def)
next
  case (2 i)
  have "0 < length ls" using assms(2) by simp
  then have "redirect n (length ls) rets c = n + i * length ls + (length ls - 1)"
    using 2(3) by (simp add: head_at_def Nat.add_diff_assoc Suc_leI)
  with 2(1) \<open>0 < length ls\<close> show ?thesis unfolding on_schedule_def
    by (intro disjI2 exI [of _ i] exI [of _ "length ls - 1"]) simp
qed

lemma on_schedule_chain_edge:
  assumes "i < length rets" "j < length ls"
  shows "on_schedule n ls rets (if j = 0 then rets ! i else n + i * length ls + j - 1)
    (take (length ls - 1 - j) ls @ [rev ls ! j])"
proof -
  have nth: "rev ls ! j = ls ! (length ls - 1 - j)" using assms(2) by (simp add: rev_nth)
  have "take (length ls - 1 - j) ls @ [rev ls ! j] = take (length ls - j) ls"
    unfolding nth using assms(2) take_Suc_conv_app_nth [of "length ls - 1 - j" ls] by (simp add: Suc_diff_Suc)
  then show ?thesis
  proof (cases j)
    case 0
    with assms(1) \<open>take _ ls @ _ = _\<close> show ?thesis by (simp add: on_schedule_def)
  next
    case (Suc j')
    with assms have "i < length rets" "j' < length ls" by simp_all
    with \<open>take _ ls @ _ = _\<close> show ?thesis unfolding on_schedule_def Suc
      by (intro disjI2 exI [of _ i] exI [of _ j']) simp
  qed
qed

lemma path_on_schedule:
  assumes wf: "wf_cfg body" and nd: "no_drops body" and ls: "ls \<noteq> []"
  defines "rets \<equiv> return_blocks body" and "n \<equiv> length (blocks body)"
  shows "drops_to (scheduled ls rets body) b ds \<Longrightarrow> on_schedule n ls rets b ds"
proof (induction rule: drops_to.induct)
  case drop_entry
  then show ?case using wf by (auto simp: on_schedule_def n_def wf_cfg_def)
next
  case (drop_edge b ds c)
  note rets = return_blocks_spec [OF wf, folded rets_def]
  show ?case using drop_edge.hyps(2)
  proof (cases rule: scheduled_index)
    case 1
    let ?t = "terminator (blocks body ! b)"
    have t: "terminator (blocks (scheduled ls rets body) ! b) = map_targets (redirect n (length ls) rets) ?t"
      using 1 by (simp add: scheduled_old n_def)
    have "\<not> is_drop ?t" using nd 1 by (simp add: no_drops_def list_all_length)
    then have "c \<in> redirect n (length ls) rets ` set (terminator_successors ?t)" "term_drops (map_targets f ?t) = []" for f
      using drop_edge.hyps(3) by (simp_all add: t successors_map_targets, cases ?t) auto
    moreover from this have "b \<notin> set rets" using rets(2) by auto
    ultimately show ?thesis
      using drop_edge.IH 1 wf on_schedule_old_edge [OF rets(1) ls] wf_cfg_succ [OF wf 1]
      by (auto simp: t on_schedule_def [of _ _ _ b] n_def)
  next
    case (2 i j)
    have t: "terminator (blocks (scheduled ls rets body) ! b) =
        Drop (place_of_local (rev ls ! j)) (if j = 0 then rets ! i else n + i * length ls + j - 1)"
      using scheduled_new [OF 2(1,2)] by (simp add: 2(3) n_def)
    have "ds = take (length ls - 1 - j) ls"
    proof -
      have "b \<notin> set rets" using rets(2) 2(3) by auto
      then obtain i' j' where "j' < length ls" "b = n + i' * length ls + j'"
        "ds = take (length ls - 1 - j') ls"
        using drop_edge.IH 2(3) by (auto simp: on_schedule_def n_def)
      with chain_index_inj [of n i' "length ls" j' i j] 2(2,3) show ?thesis by (simp add: n_def)
    qed
    then show ?thesis
      using on_schedule_chain_edge [OF 2(1,2)] drop_edge.hyps(3) by (simp add: t place_of_local_def)
  qed
qed

lemma scheduled_wf:
  assumes wf: "wf_cfg body" and ls: "ls \<noteq> []"
  shows "wf_cfg (scheduled ls (return_blocks body) body)"
proof -
  let ?rets = "return_blocks body" and ?n = "length (blocks body)"
  let ?b = "scheduled ls ?rets body"
  note rets = return_blocks_spec [OF wf]
  have block: "bb_id (blocks ?b ! b) = b \<and>
      (\<forall>c \<in> set (terminator_successors (terminator (blocks ?b ! b))). c < length (blocks ?b))"
    if "b < length (blocks ?b)" for b
    using that
  proof (cases rule: scheduled_index)
    case 1
    have "redirect ?n (length ls) ?rets c < length (blocks ?b)" if "c < ?n" for c
      using redirect_cases [OF rets(1), of c ?n "length ls"]
    proof cases
      case (2 i)
      then show ?thesis
        using chain_index_less [of i "length ?rets" "length ls - 1" "length ls" ?n] ls
        by (simp add: scheduled_length head_at_def)
    qed (use that in \<open>simp add: scheduled_length\<close>)
    note red = this
    have "c < length (blocks ?b)"
      if c: "c \<in> set (terminator_successors (map_targets (redirect ?n (length ls) ?rets) (terminator (blocks body ! b))))" for c
    proof -
      obtain d where "d \<in> set (terminator_successors (terminator (blocks body ! b)))"
        "c = d \<or> c = redirect ?n (length ls) ?rets d"
        using c successors_map_targets_le by blast
      with red wf_cfg_succ [OF wf 1] show ?thesis by (auto simp: scheduled_length intro: trans_less_add1)
    qed
    with 1 wf_cfg_id [OF wf 1] show ?thesis by (simp add: scheduled_old)
  next
    case (2 i j)
    have "?rets ! i < ?n" using rets(2) 2(1) by (meson nth_mem)
    with chain_index_less [OF 2(1,2), of ?n] show ?thesis
      unfolding 2(3) scheduled_new [OF 2(1,2)] scheduled_length by simp linarith
  qed
  have "map bb_id (blocks ?b) = [0..<length (blocks ?b)]"
    by (rule nth_equalityI) (simp_all add: block)
  moreover have "0 < length (blocks ?b)" using wf_cfg_nonempty [OF wf] by (simp add: scheduled_length)
  moreover have "list_all (\<lambda>blk. list_all (\<lambda>c. c < length (blocks ?b)) (terminator_successors (terminator blk))) (blocks ?b)"
    unfolding list_all_length [of _ "blocks ?b"] using block by (simp add: list_all_iff)
  ultimately show ?thesis unfolding wf_cfg_def by blast
qed

section \<open>The borrow state of the scheduled graph\<close>

lemma map_targets_effects [simp]:
  "term_moved (map_targets f t) M = term_moved t M"
  "term_dropped (map_targets f t) D = term_dropped t D"
  "term_reads_ok (map_targets f t) M D = term_reads_ok t M D"
  by (cases t; simp)+

lemma term_dropped_not_drop: "\<not> is_drop t \<Longrightarrow> term_dropped t D = D"
  by (cases t) simp_all

definition at_schedule :: "body \<Rightarrow> local_id list \<Rightarrow> block_id list \<Rightarrow> block_id \<Rightarrow> nat
    \<Rightarrow> local_id set \<Rightarrow> local_id set \<Rightarrow> bool" where
  "at_schedule body ls rets b i M D \<longleftrightarrow> D \<subseteq> set ls \<and>
     ((b < length (blocks body) \<and> reaches body b i M {} \<and> (b \<notin> set rets \<longrightarrow> D = {})) \<or>
      (\<exists>q j. q < length rets \<and> j < length ls \<and> b = length (blocks body) + q * length ls + j \<and> i = 0
         \<and> reaches body (rets ! q) 0 M {}))"

lemma at_schedule_old:
  assumes "b < length (blocks body)"
  shows "at_schedule body ls rets b i M D \<longleftrightarrow>
     D \<subseteq> set ls \<and> reaches body b i M {} \<and> (b \<notin> set rets \<longrightarrow> D = {})"
  using assms by (auto simp: at_schedule_def)

lemma at_schedule_redirect:
  assumes "distinct rets" "ls \<noteq> []" "c < length (blocks body)" "reaches body c 0 M {}"
  shows "at_schedule body ls rets (redirect (length (blocks body)) (length ls) rets c) 0 M {}"
  using redirect_cases [OF assms(1), of c "length (blocks body)" "length ls"]
proof cases
  case 1
  then show ?thesis using assms(3,4) by (simp add: at_schedule_def)
next
  case (2 q)
  have "0 < length ls" using assms(2) by simp
  then have "redirect (length (blocks body)) (length ls) rets c =
      length (blocks body) + q * length ls + (length ls - 1)"
    using 2(3) by (simp add: head_at_def Nat.add_diff_assoc Suc_leI)
  with 2(1,2) \<open>0 < length ls\<close> assms(4) show ?thesis unfolding at_schedule_def
    by (intro conjI disjI2 exI [of _ q] exI [of _ "length ls - 1"]) simp_all
qed

lemma at_schedule_edge:
  assumes wf: "wf_cfg body" and nd: "no_drops body" and ls: "ls \<noteq> []"
  defines "rets \<equiv> return_blocks body"
  defines "b' \<equiv> scheduled ls rets body"
  assumes b: "b < length (blocks b')" and at: "at_schedule body ls rets b (length (statements (blocks b' ! b))) M D"
    and c: "c \<in> set (terminator_successors (terminator (blocks b' ! b)))"
  shows "at_schedule body ls rets c 0 (term_moved (terminator (blocks b' ! b)) M)
    (term_dropped (terminator (blocks b' ! b)) D)"
proof -
  note rets = return_blocks_spec [OF wf, folded rets_def]
  have "b < length (blocks (scheduled ls rets body))" using b by (simp add: b'_def)
  then show ?thesis
  proof (cases rule: scheduled_index)
    case 1
    let ?t = "terminator (blocks body ! b)"
    have nodrop: "\<not> is_drop ?t" using nd 1 by (simp add: no_drops_def list_all_length)
    then have "c \<in> redirect (length (blocks body)) (length ls) rets ` set (terminator_successors ?t)"
      using c 1 by (simp add: b'_def scheduled_old successors_map_targets)
    then obtain d where d: "d \<in> set (terminator_successors ?t)"
        "c = redirect (length (blocks body)) (length ls) rets d" by blast
    have "b \<notin> set rets"
    proof
      assume "b \<in> set rets"
      then have "?t = Return" using rets(2) by blast
      with d(1) show False by simp
    qed
    with at have "D = {} \<and> reaches body b (length (statements (blocks body ! b))) M {}"
      unfolding b'_def scheduled_old [OF 1] redirected_sel at_schedule_old [OF 1] using \<open>b \<notin> set rets\<close> by blast
    then have D: "D = {}" and r: "reaches body b (length (statements (blocks body ! b))) M {}" by simp_all
    from reach_edge [OF r d(1)] nodrop have "reaches body d 0 (term_moved ?t M) {}"
      by (simp add: term_dropped_not_drop)
    with at_schedule_redirect [OF rets(1) ls wf_cfg_succ [OF wf 1 d(1)]] D nodrop 1 show ?thesis
      unfolding b'_def by (simp add: d(2) scheduled_old term_dropped_not_drop)
  next
    case (2 q j)
    have t: "terminator (blocks b' ! b) = Drop (place_of_local (rev ls ! j))
        (if j = 0 then rets ! q else length (blocks body) + q * length ls + j - 1)"
      using scheduled_new [OF 2(1,2), of body] by (simp add: b'_def 2(3))
    from at 2(3) obtain q' j' where q': "q' < length rets" "b = length (blocks body) + q' * length ls + j'"
        "j' < length ls" "reaches body (rets ! q') 0 M {}" and D: "D \<subseteq> set ls"
      by (auto simp: at_schedule_def)
    have "q' = q" using chain_index_inj [of "length (blocks body)" q' "length ls" j' q j] q'(2,3) 2(2,3) by simp
    then have r: "reaches body (rets ! q) 0 M {}" using q'(4) by simp
    have lt: "rets ! q < length (blocks body)" using rets(2) 2(1) by (meson nth_mem)
    have mem: "rev ls ! j \<in> set ls" using 2(2) by (metis length_rev nth_mem set_rev)
    show ?thesis
    proof (cases j)
      case 0
      with c r lt D mem show ?thesis unfolding t
        by (simp add: at_schedule_def place_of_local_def 2(1))
    next
      case (Suc j1)
      with 2(2) have "j1 < length ls" by simp
      with c r 2(1) D mem Suc show ?thesis unfolding t at_schedule_def
        by (intro conjI disjI2 exI [of _ q] exI [of _ j1]) (simp_all add: place_of_local_def)
    qed
  qed
qed

lemma reaches_scheduled:
  assumes "wf_cfg body" "no_drops body" "ls \<noteq> []"
  defines "rets \<equiv> return_blocks body"
  assumes r: "reaches (scheduled ls rets body) b i M D"
  shows "b < length (blocks (scheduled ls rets body)) \<and> at_schedule body ls rets b i M D"
proof -
  have wf: "wf_cfg (scheduled ls rets body)" unfolding rets_def using assms(1,3) by (rule scheduled_wf)
  from r have "at_schedule body ls rets b i M D"
  proof (induction rule: reaches.induct)
    case reach_entry
    then show ?case using wf_cfg_nonempty [OF assms(1)] by (auto simp: at_schedule_def intro: reaches.reach_entry)
  next
    case (reach_statement b i M D)
    have "b < length (blocks (scheduled ls rets body))" using reach_statement.hyps(1) wf by (rule reaches_in_body)
    then show ?case
    proof (cases rule: scheduled_index)
      case 1
      with reach_statement.IH have "reaches body b i M {}" by (simp add: at_schedule_old)
      from reaches.reach_statement [OF this] reach_statement.hyps(2) reach_statement.IH 1
      show ?thesis by (simp add: at_schedule_old scheduled_old)
    next
      case (2 q j)
      with reach_statement.hyps(2) show ?thesis by (simp add: scheduled_new)
    qed
  next
    case (reach_edge b M D c)
    then show ?case
      using at_schedule_edge [OF assms(1-3)] reaches_in_body [OF reach_edge.hyps(1) wf] by (simp add: rets_def)
  qed
  with reaches_in_body [OF r wf] show ?thesis by blast
qed

section \<open>Properties\<close>

text \<open>C16. The verifier returns on every body, and on a well-formed graph it accepts exactly when no
  path drops a local twice; an error names a local, a block and a path that drops the local
  before reaching that block's own drop of it.\<close>

theorem verify_drops_exact:
  assumes "wf_cfg body"
  shows "\<exists>r. verify_drops body = Some r \<and> (r = Inr () \<longleftrightarrow> (\<forall>b ds. drops_to body b ds \<longrightarrow> distinct ds)) \<and>
    (\<forall>e. r = Inl e \<longrightarrow> (\<exists>b ds l. e = Fail (DoubleDrop l (bb_span (blocks body ! b)) double_drop_hint)
       \<and> drops_to body b ds \<and> l \<in> set ds \<and> l \<in> set (term_drops (terminator (blocks body ! b)))))"
  using assms by (rule verify_drops_spec)

lemma no_drops_path:
  assumes "no_drops body" "wf_cfg body"
  shows "drops_to body b ds \<Longrightarrow> ds = []"
proof (induction rule: drops_to.induct)
  case (drop_edge b ds c)
  then have "\<not> is_drop (terminator (blocks body ! b))"
    using assms(1) by (simp add: no_drops_def list_all_length)
  then have "term_drops (terminator (blocks body ! b)) = []" by (cases "terminator (blocks body ! b)") simp_all
  with drop_edge.IH show ?case by simp
qed simp

lemma schedule_paths:
  assumes wf: "wf_cfg body" and nd: "no_drops body" and iter: "lists_sets iter"
  shows "\<exists>body'. compute_drop_schedule iter body = (Some (Inr ()), body') \<and> wf_cfg body' \<and>
    distinct (to_drop iter body) \<and>
    (\<forall>b ds. drops_to body' b ds \<longrightarrow> terminator (blocks body' ! b) = Return \<longrightarrow> b \<noteq> 0 \<longrightarrow> ds = to_drop iter body)"
proof -
  let ?ls = "to_drop iter body" and ?rets = "return_blocks body" and ?n = "length (blocks body)"
  have ls: "distinct ?ls" using iter by (rule to_drop_distinct)
  define b' where "b' = (if ?ls = [] then body else scheduled ?ls ?rets body)"
  have wf': "wf_cfg b'" using wf by (simp add: b'_def scheduled_wf)
  have paths: "distinct ds \<and> (terminator (blocks b' ! b) = Return \<longrightarrow> b \<noteq> 0 \<longrightarrow> ds = ?ls)"
    if p: "drops_to b' b ds" for b ds
  proof (cases "?ls = []")
    case True
    then have "ds = []" using no_drops_path [OF nd wf] p by (simp add: b'_def)
    with True show ?thesis by simp
  next
    case False
    then have b': "b' = scheduled ?ls ?rets body" by (simp add: b'_def)
    have on: "on_schedule ?n ?ls ?rets b ds" using path_on_schedule [OF wf nd False] p by (simp add: b')
    have "b \<in> set ?rets" if "terminator (blocks b' ! b) = Return"
      using drops_in_body [OF p wf', unfolded b']
    proof (cases rule: scheduled_index)
      case 1
      then have "terminator (blocks body ! b) = Return"
        using that by (cases "terminator (blocks body ! b)") (simp_all add: b' scheduled_old)
      with 1 show ?thesis by (simp add: return_blocks_spec [OF wf])
    next
      case (2 i j)
      with that show ?thesis using scheduled_new [OF 2(1,2)] by (simp add: b')
    qed
    moreover have "r < ?n" if "r \<in> set ?rets" for r using that return_blocks_spec(2) [OF wf] by blast
    moreover have "distinct ds" using on ls by (auto simp: on_schedule_def)
    ultimately show ?thesis using on_schedule_return [OF on] by blast
  qed
  then have "\<forall>b ds. drops_to b' b ds \<longrightarrow> distinct ds" by blast
  with verify_drops_spec [OF wf'] have "verify_drops b' = Some (Inr ())" by blast
  then have "compute_drop_schedule iter body = (Some (Inr ()), b')"
    by (simp add: schedule_eq [OF wf] b'_def Let_def)
  with wf' ls paths show ?thesis by blast
qed

lemma schedule_succeeds:
  "wf_cfg body \<Longrightarrow> no_drops body \<Longrightarrow> lists_sets iter \<Longrightarrow> fst (compute_drop_schedule iter body) = Some (Inr ())"
  using schedule_paths [of body iter] by auto

text \<open>C2. Scheduling a body without drops succeeds and leaves a well-formed graph. Every path to a
  returning block other than the entry performs exactly the scheduled drops, each once.\<close>

theorem drop_schedule_drops_once:
  assumes wf: "wf_cfg body" and nd: "no_drops body" and iter: "lists_sets iter"
  shows "\<exists>body'. compute_drop_schedule iter body = (Some (Inr ()), body') \<and> wf_cfg body' \<and>
    distinct (to_drop iter body) \<and>
    (\<forall>b ds. drops_to body' b ds \<longrightarrow> terminator (blocks body' ! b) = Return \<longrightarrow> b \<noteq> 0 \<longrightarrow> ds = to_drop iter body)"
  using assms by (rule schedule_paths)

definition moves_local :: "body \<Rightarrow> local_id \<Rightarrow> bool" where
  "moves_local body l \<longleftrightarrow> (\<exists>blk \<in> set (blocks body).
     (\<exists>st \<in> set (statements blk). \<exists>p rv. st_kind st = Assign p rv \<and> l \<in> set (moved_args (rvalue_operands rv))) \<or>
     (\<exists>f args d t u. terminator blk = Call f args d t u \<and> l \<in> set (moved_args args)))"

lemma collect_operands: "fold collect_move_in_operand ops A = A \<union> set (moved_args ops)"
proof (induction ops arbitrary: A)
  case (Cons op ops)
  then show ?case by (cases op) auto
qed simp

lemma collect_rvalue: "collect_moves_in_rvalue rv A = A \<union> set (moved_args (rvalue_operands rv))"
  using collect_operands [of "rvalue_operands rv" A] by (cases rv) simp_all

lemma collect_statements:
  "fold (\<lambda>st. collect_statement_moves (st_kind st)) sts A =
     A \<union> {l. \<exists>st \<in> set sts. \<exists>p rv. st_kind st = Assign p rv \<and> l \<in> set (moved_args (rvalue_operands rv))}"
proof (induction sts arbitrary: A)
  case (Cons st sts)
  then show ?case by (cases "st_kind st") (auto simp: collect_rvalue)
qed simp

lemma block_moves_iff:
  "l \<in> block_moves blk \<longleftrightarrow>
     (\<exists>st \<in> set (statements blk). \<exists>p rv. st_kind st = Assign p rv \<and> l \<in> set (moved_args (rvalue_operands rv))) \<or>
     (\<exists>f args d t u. terminator blk = Call f args d t u \<and> l \<in> set (moved_args args))"
  by (cases "terminator blk") (auto simp: block_moves_def collect_statements collect_operands)

lemma record_moves_other: "k \<notin> bb_id ` set bs \<Longrightarrow> fold record_moves bs m k = m k"
  by (induction bs arbitrary: m) (auto simp: record_moves_def)

lemma moved_out_fold:
  "distinct (map bb_id bs) \<Longrightarrow> ran (fold record_moves bs Map.empty) = block_moves ` set bs"
proof (induction bs rule: rev_induct)
  case (snoc b bs)
  then have "fold record_moves bs Map.empty (bb_id b) = None" by (simp add: record_moves_other)
  then have "ran (fold record_moves (bs @ [b]) Map.empty) = insert (block_moves b) (ran (fold record_moves bs Map.empty))"
    unfolding fold_append comp_def fold_simps record_moves_def [of b] by (rule ran_map_upd)
  with snoc show ?case by simp
qed simp

text \<open>C17. The locals scheduled for dropping are the locals of an owned type that are not parameters
  and that no block moves, wherever the move stands.\<close>

theorem to_drop_spec:
  assumes "wf_cfg body" "lists_sets iter"
  shows "l \<in> set (to_drop iter body) \<longleftrightarrow>
    (\<exists>ld \<in> set (locals body). ld_id ld = l \<and> \<not> is_copy (ld_ty ld) \<and> param_count body < l) \<and> \<not> moves_local body l"
proof -
  have "distinct (map bb_id (blocks body))" using assms(1) by (simp add: wf_cfg_def)
  then have "l \<in> globally_moved body \<longleftrightarrow> moves_local body l"
    by (auto simp: globally_moved_def moved_out_per_block_def moved_out_fold moves_local_def block_moves_iff)
  moreover have "set (iter (drop_eligible body)) = drop_eligible body"
    using assms(2) finite_drop_eligible by (simp add: lists_sets_def)
  ultimately show ?thesis by (auto simp: to_drop_def drop_eligible_def Let_def)
qed

definition return_reads :: "body \<Rightarrow> local_id set" where
  "return_reads body = (\<Union>blk \<in> set (filter (\<lambda>blk. terminator blk = Return) (blocks body)).
     \<Union>st \<in> set (statements blk). set (kind_reads (st_kind st)))"

lemma scheduled_point_ok:
  assumes wf: "wf_cfg body" and at: "at_schedule body ls (return_blocks body) b i M D"
    and b: "b < length (blocks (scheduled ls (return_blocks body) body))"
    and ok: "\<forall>b i M D. reaches body b i M D \<longrightarrow> point_ok body b i M D"
    and reads: "return_reads body \<inter> set ls = {}"
  shows "point_ok (scheduled ls (return_blocks body) body) b i M D"
  using b
proof (cases rule: scheduled_index)
  case 1
  with at have D: "D \<subseteq> set ls" "b \<notin> set (return_blocks body) \<longrightarrow> D = {}" and "reaches body b i M {}"
    by (simp_all add: at_schedule_old)
  with ok have p: "point_ok body b i M {}" by blast
  show ?thesis
  proof (cases "b \<in> set (return_blocks body)")
    case True
    then have t: "terminator (blocks body ! b) = Return" by (simp add: return_blocks_spec [OF wf])
    have "set (kind_reads (st_kind (statements (blocks body ! b) ! i))) \<inter> D = {}"
      if "i < length (statements (blocks body ! b))"
    proof -
      have "blocks body ! b \<in> set (filter (\<lambda>blk. terminator blk = Return) (blocks body))" using 1 t by simp
      moreover have "statements (blocks body ! b) ! i \<in> set (statements (blocks body ! b))" using that by simp
      ultimately have "set (kind_reads (st_kind (statements (blocks body ! b) ! i))) \<subseteq> return_reads body"
        unfolding return_reads_def by blast
      with reads D(1) show ?thesis by blast
    qed
    with p t 1 show ?thesis
      by (auto simp: point_ok_def Let_def scheduled_old statement_ok_def reads_ok_def)
  next
    case False
    with D p 1 show ?thesis by (simp add: point_ok_def Let_def scheduled_old)
  qed
next
  case (2 q j)
  then show ?thesis by (simp add: point_ok_def scheduled_new)
qed

lemma borrow_ok_after_schedule:
  assumes wf: "wf_cfg body" and nd: "no_drops body" and ok: "borrow_check body = Some (Inr ())"
    and reads: "return_reads body \<inter> set (to_drop iter body) = {}"
  shows "borrow_check (snd (compute_drop_schedule iter body)) = Some (Inr ())"
proof (cases "to_drop iter body = []")
  case True
  then show ?thesis using ok by (simp add: schedule_eq [OF wf] Let_def)
next
  case False
  let ?b = "scheduled (to_drop iter body) (return_blocks body) body"
  have points: "\<forall>b i M D. reaches body b i M D \<longrightarrow> point_ok body b i M D"
    using ok borrow_check_ok_iff [OF wf] by blast
  have "point_ok ?b b i M D" if "reaches ?b b i M D" for b i M D
    using reaches_scheduled [OF wf nd False that] scheduled_point_ok [OF wf _ _ points reads] by blast
  then have "borrow_check ?b = Some (Inr ())"
    using borrow_check_ok_iff [OF scheduled_wf [OF wf False]] by blast
  with False show ?thesis by (simp add: schedule_eq [OF wf] Let_def)
qed

text \<open>C18. A body that passed the borrow check passes it again after scheduling, provided no
  returning block reads a scheduled local in its own statements.\<close>

theorem schedule_keeps_borrow_ok:
  assumes "wf_cfg body" "no_drops body" "borrow_check body = Some (Inr ())"
    and "return_reads body \<inter> set (to_drop iter body) = {}"
  shows "borrow_check (snd (compute_drop_schedule iter body)) = Some (Inr ())"
  using assms by (rule borrow_ok_after_schedule)

section \<open>The pipeline\<close>

lemma check_bodies_ok: "check_bodies bs = Some (Inr ()) \<longleftrightarrow> (\<forall>b \<in> set bs. borrow_check b = Some (Inr ()))"
proof (induction bs)
  case (Cons b bs)
  obtain r where "borrow_check b = Some r" using borrow_check_total by blast
  with Cons show ?case by (cases r) auto
qed simp

lemma schedule_bodies_ok:
  assumes "\<forall>b \<in> set bs. fst (compute_drop_schedule iter b) = Some (Inr ())"
  shows "schedule_bodies iter bs = Some (Inr (map (\<lambda>b. snd (compute_drop_schedule iter b)) bs))"
  using assms by (induction bs) (auto simp: split_def Let_def)


section \<open>Witnesses\<close>

definition demo_iter :: "local_id set \<Rightarrow> local_id list" where
  "demo_iter S = sorted_list_of_set S"

lemma demo_iter_lists: "lists_sets demo_iter"
  by (simp add: lists_sets_def demo_iter_def)

definition demo_local :: "local_id \<Rightarrow> ty \<Rightarrow> local_decl" where
  "demo_local l t = \<lparr>ld_id = l, ld_name = ''x'', ld_ty = t, ld_mutable = False, ld_span = span_point 0 0,
     validated_body_of = None\<rparr>"

text \<open>\<open>fn(_1: str) { let _2: str; let _3: List[i64]; bb0: _3 = agg(); goto bb1; bb1: return }\<close>.\<close>

definition two_owned :: body where
  "two_owned =
     (demo_body [demo_block 0 [demo_stmt (Assign (Place 3 []) (Aggregate AList []))] (Goto 1),
                 demo_block 1 [] Return])
     \<lparr>locals := [demo_local 0 TNone, demo_local 1 TStr, demo_local 2 TStr, demo_local 3 (TList TInt)],
      param_count := 1\<rparr>"

lemma two_owned_wf: "wf_cfg two_owned" "no_drops two_owned"
  by (simp_all add: wf_cfg_def no_drops_def two_owned_def demo_body_def demo_block_def)

theorem verify_drops_exact_witness:
  "\<exists>r. verify_drops two_owned = Some r \<and> (r = Inr () \<longleftrightarrow> (\<forall>b ds. drops_to two_owned b ds \<longrightarrow> distinct ds)) \<and>
    (\<forall>e. r = Inl e \<longrightarrow> (\<exists>b ds l. e = Fail (DoubleDrop l (bb_span (blocks two_owned ! b)) double_drop_hint)
       \<and> drops_to two_owned b ds \<and> l \<in> set ds \<and> l \<in> set (term_drops (terminator (blocks two_owned ! b)))))"
  by (rule verify_drops_exact [OF two_owned_wf(1)])

theorem drop_schedule_drops_once_witness:
  "\<exists>body'. compute_drop_schedule demo_iter two_owned = (Some (Inr ()), body') \<and> wf_cfg body' \<and>
    distinct (to_drop demo_iter two_owned) \<and>
    (\<forall>b ds. drops_to body' b ds \<longrightarrow> terminator (blocks body' ! b) = Return \<longrightarrow> b \<noteq> 0
       \<longrightarrow> ds = to_drop demo_iter two_owned)"
  by (rule drop_schedule_drops_once [OF two_owned_wf demo_iter_lists])

theorem to_drop_spec_witness: "2 \<in> set (to_drop demo_iter two_owned)"
  unfolding to_drop_spec [OF two_owned_wf(1) demo_iter_lists]
  by (simp add: two_owned_def demo_local_def demo_body_def demo_block_def demo_stmt_def is_copy_def moves_local_def)

theorem schedule_keeps_borrow_ok_witness:
  "borrow_check (snd (compute_drop_schedule demo_iter two_owned)) = Some (Inr ())"
proof (rule schedule_keeps_borrow_ok [OF two_owned_wf])
  show "borrow_check two_owned = Some (Inr ())"
    by (simp add: two_owned_def borrow_eval)
  show "return_reads two_owned \<inter> set (to_drop demo_iter two_owned) = {}"
    by (simp add: return_reads_def two_owned_def demo_body_def demo_block_def)
qed

lemma two_owned_safe: "reaches two_owned b i M D \<longrightarrow> point_ok two_owned b i M D"
proof -
  have "borrow_check two_owned = Some (Inr ())" by (simp add: two_owned_def borrow_eval)
  then show ?thesis using borrow_check_ok_iff [OF two_owned_wf(1)] by blast
qed


text \<open>The chain stands before the statements of the returning block: a body whose returning
  block reads an owned local passes the first borrow check and the schedule, and fails the
  second borrow check.\<close>

definition late_read :: body where
  "late_read =
     (demo_body [demo_block 0 [] (Goto 1),
                 demo_block 1 [demo_stmt (Assign (Place 0 []) (Use (OpCopy (Place 1 []))))] Return])
     \<lparr>locals := [demo_local 0 TNone, demo_local 1 TStr]\<rparr>"

lemma late_read_to_drop: "to_drop demo_iter late_read = [1]"
proof -
  have "{ld. (ld = demo_local 0 TNone \<or> ld = demo_local (Suc 0) TStr) \<and> \<not> is_copy (ld_ty ld) \<and> 0 < ld_id ld}
      = {demo_local (Suc 0) TStr}"
    by (auto simp: demo_local_def is_copy_def)
  then have "drop_eligible late_read = {1}"
    by (simp add: drop_eligible_def late_read_def demo_body_def demo_local_def)
  moreover have "globally_moved late_read = {}"
    by (simp add: globally_moved_def moved_out_per_block_def record_moves_def late_read_def demo_body_def
        demo_block_def demo_stmt_def block_moves_def ran_map_upd)
  ultimately show ?thesis by (simp add: to_drop_def demo_iter_def)
qed

theorem late_read_rejected:
  "borrow_check late_read = Some (Inr ())
    \<and> fst (compute_drop_schedule demo_iter late_read) = Some (Inr ())
    \<and> borrow_check (snd (compute_drop_schedule demo_iter late_read))
        = Some (Inl (Fail (UseAfterDrop 1 (span_point 0 4) drop_hint)))"
proof (intro conjI)
  show "borrow_check late_read = Some (Inr ())"
    by (simp add: late_read_def borrow_eval)
  have wf: "wf_cfg late_read" "no_drops late_read"
    by (simp_all add: wf_cfg_def no_drops_def late_read_def demo_body_def demo_block_def)
  show "fst (compute_drop_schedule demo_iter late_read) = Some (Inr ())"
    using schedule_succeeds [OF wf demo_iter_lists] .
  have "snd (compute_drop_schedule demo_iter late_read) = schedule_return [1] 1 late_read"
    by (simp add: compute_drop_schedule_def late_read_to_drop Let_def)
      (simp add: return_blocks_def late_read_def demo_body_def demo_block_def)
  also have "borrow_check \<dots> = Some (Inl (Fail (UseAfterDrop 1 (span_point 0 4) drop_hint)))"
    by (simp add: schedule_return_def build_drop_chain_def push_drop_def rewire_predecessors_def
        late_read_def borrow_eval place_of_local_def)
  finally show "borrow_check (snd (compute_drop_schedule demo_iter late_read))
      = Some (Inl (Fail (UseAfterDrop 1 (span_point 0 4) drop_hint)))" .
qed

end
