(* ===== verification/Utf8.thy ===== *)
theory Utf8
  imports Prelude
begin

text \<open>
  The part of Rust's \<open>str\<close> and \<open>char\<close> the lexer uses. A \<open>str\<close> is a list of bytes
  (\<open>string\<close>, eight-bit characters), a \<open>char\<close> is its scalar value as a natural number.
  The first half gives the operations: \<open>char::len_utf8\<close>, \<open>char::encode_utf8\<close>,
  \<open>chars().next()\<close>, \<open>str::is_char_boundary\<close>, \<open>str::from_utf8\<close> with its \<open>valid_up_to\<close>,
  \<open>str::trim\<close>. The second half shows that they are inverse to each other and how
  character boundaries move, which is what keeps slicing free of panics.
\<close>

section \<open>Characters and bytes\<close>

abbreviation byte :: "char \<Rightarrow> nat" where
  "byte c \<equiv> of_char c"

definition scalar :: "nat \<Rightarrow> bool" where
  "scalar ch \<longleftrightarrow> ch < 0xD800 \<or> 0xE000 \<le> ch \<and> ch < 0x110000"

definition len_utf8 :: "nat \<Rightarrow> nat" where
  "len_utf8 ch = (if ch < 0x80 then 1 else if ch < 0x800 then 2 else if ch < 0x10000 then 3 else 4)"

definition encode_utf8 :: "nat \<Rightarrow> string" where
  "encode_utf8 ch =
     (if ch < 0x80 then [char_of ch]
      else if ch < 0x800 then [char_of (0xC0 + ch div 64), char_of (0x80 + ch mod 64)]
      else if ch < 0x10000
        then [char_of (0xE0 + ch div 4096), char_of (0x80 + ch div 64 mod 64),
              char_of (0x80 + ch mod 64)]
      else [char_of (0xF0 + ch div 262144), char_of (0x80 + ch div 4096 mod 64),
            char_of (0x80 + ch div 64 mod 64), char_of (0x80 + ch mod 64)])"

definition encode_all :: "nat list \<Rightarrow> string" where
  "encode_all chs = concat (map encode_utf8 chs)"

text \<open>The byte at a position, 0 (never part of a longer sequence) beyond the end.\<close>

definition byte_or_0 :: "string \<Rightarrow> nat \<Rightarrow> nat" where
  "byte_or_0 s i = (if i < length s then byte (s ! i) else 0)"

definition cont_byte :: "nat \<Rightarrow> bool" where
  "cont_byte x \<longleftrightarrow> 0x80 \<le> x \<and> x < 0xC0"

text \<open>\<open>core::str::next_code_point\<close>.\<close>

definition decode_char :: "string \<Rightarrow> nat" where
  "decode_char s =
     (let x = byte_or_0 s 0; i = x mod 32;
          y = byte_or_0 s 1 mod 64; z = byte_or_0 s 2 mod 64; w = byte_or_0 s 3 mod 64
      in if x < 0x80 then x
         else if x < 0xE0 then i * 64 + y
         else if x < 0xF0 then i * 4096 + (y * 64 + z)
         else i mod 8 * 262144 + ((y * 64 + z) * 64 + w))"

text \<open>
  \<open>core::str::run_utf8_validation\<close>: the width of the well-formed sequence at the front,
  0 when there is none.
\<close>

definition utf8_width :: "string \<Rightarrow> nat" where
  "utf8_width s =
     (let x = byte_or_0 s 0; y = byte_or_0 s 1; z = byte_or_0 s 2; w = byte_or_0 s 3
      in if s = [] then 0
         else if x < 0x80 then 1
         else if 0xC2 \<le> x \<and> x < 0xE0 then (if cont_byte y then 2 else 0)
         else if 0xE0 \<le> x \<and> x < 0xF0
           then (if cont_byte y \<and> (x = 0xE0 \<longrightarrow> 0xA0 \<le> y) \<and> (x = 0xED \<longrightarrow> y < 0xA0) \<and> cont_byte z
                 then 3 else 0)
         else if 0xF0 \<le> x \<and> x < 0xF5
           then (if cont_byte y \<and> (x = 0xF0 \<longrightarrow> 0x90 \<le> y) \<and> (x = 0xF4 \<longrightarrow> y < 0x90)
                    \<and> cont_byte z \<and> cont_byte w
                 then 4 else 0)
         else 0)"

lemma utf8_width_Nil [simp]: "utf8_width [] = 0"
  by (simp add: utf8_width_def)

lemma utf8_width_pos: "0 < utf8_width s \<Longrightarrow> 0 < length s"
  by (cases s) simp_all

function valid_up_to :: "string \<Rightarrow> nat" where
  "valid_up_to s =
     (let w = utf8_width s in if w = 0 then 0 else w + valid_up_to (drop w s))"
  by auto
termination
  by (relation "measure length") (use utf8_width_pos in \<open>fastforce simp: diff_less\<close>)+

declare valid_up_to.simps [simp del]

definition utf8 :: "string \<Rightarrow> bool" where
  "utf8 s \<longleftrightarrow> valid_up_to s = length s"

definition from_utf8 :: "string \<Rightarrow> nat + string" where
  "from_utf8 s = (if valid_up_to s = length s then Inr s else Inl (valid_up_to s))"

text \<open>\<open>s.chars()\<close>\<close>

function decode_all :: "string \<Rightarrow> nat list" where
  "decode_all s =
     (if s = [] then [] else let ch = decode_char s in ch # decode_all (drop (len_utf8 ch) s))"
  by auto
termination
  by (relation "measure length") (auto simp: len_utf8_def)

declare decode_all.simps [simp del]

text \<open>\<open>str::is_char_boundary\<close>, and indexing a \<open>str\<close> by a range (\<open>None\<close> is the panic).\<close>

definition is_boundary :: "string \<Rightarrow> nat \<Rightarrow> bool" where
  "is_boundary s p \<longleftrightarrow> p = 0 \<or> p = length s \<or> p < length s \<and> \<not> cont_byte (byte (s ! p))"

definition str_range :: "string \<Rightarrow> nat \<Rightarrow> nat \<Rightarrow> string option" where
  "str_range s a b =
     (if a \<le> b \<and> is_boundary s a \<and> is_boundary s b then Some (take (b - a) (drop a s)) else None)"

text \<open>\<open>char::is_whitespace\<close> and \<open>str::trim\<close>.\<close>

definition is_whitespace :: "nat \<Rightarrow> bool" where
  "is_whitespace ch \<longleftrightarrow>
     ch = 0x20 \<or> 0x09 \<le> ch \<and> ch \<le> 0x0D \<or> ch = 0x85 \<or> ch = 0xA0 \<or> ch = 0x1680 \<or>
     0x2000 \<le> ch \<and> ch \<le> 0x200A \<or> ch = 0x2028 \<or> ch = 0x2029 \<or> ch = 0x202F \<or>
     ch = 0x205F \<or> ch = 0x3000"

definition trim :: "string \<Rightarrow> string" where
  "trim s = encode_all (rev (dropWhile is_whitespace (rev (dropWhile is_whitespace (decode_all s)))))"

section \<open>Encoding and decoding one character\<close>

lemma byte_char_of [simp]: "n < 256 \<Longrightarrow> byte (char_of n :: char) = n"
  by simp

lemma len_utf8_pos [simp]: "0 < len_utf8 ch" "len_utf8 ch \<noteq> 0"
  by (simp_all add: len_utf8_def)

lemma length_encode_utf8 [simp]: "length (encode_utf8 ch) = len_utf8 ch"
  by (simp add: encode_utf8_def len_utf8_def)

lemma encode_utf8_not_Nil [simp]: "encode_utf8 ch \<noteq> []"
  by (simp add: encode_utf8_def)

lemma encode_ascii: "ch < 128 \<Longrightarrow> encode_utf8 ch = [char_of ch]"
  by (simp add: encode_utf8_def)

lemma byte_or_0_Cons [simp]:
  "byte_or_0 (a # s) 0 = byte a"
  "byte_or_0 (a # s) (Suc i) = byte_or_0 s i"
  "byte_or_0 (a # s) (numeral k) = byte_or_0 s (pred_numeral k)"
  "byte_or_0 [] i = 0"
  by (simp_all add: byte_or_0_def numeral_eq_Suc)

text \<open>Numbers in base 64.\<close>

lemma base64:
  assumes "(k :: nat) < 64"
  shows "(a * 64 + k) div 64 = a" "(a * 64 + k) mod 64 = k"
  using assms by simp_all

lemma div_base64: "(ch :: nat) div 4096 = ch div 64 div 64" "(ch :: nat) div 262144 = ch div 64 div 64 div 64"
  by (simp_all flip: div_mult2_eq)

lemma base64_E:
  obtains i j where "(ch :: nat) = i * 64 + j" "j < 64"
  by (rule that [of "ch div 64" "ch mod 64"]) simp_all

lemma lead_mod:
  "i < 32 \<Longrightarrow> (192 + i) mod 32 = (i :: nat)"
  "i < 16 \<Longrightarrow> (224 + i) mod 32 = (i :: nat)"
  "i < 16 \<Longrightarrow> (240 + i) mod 32 mod 8 = (i mod 8 :: nat)"
  "j < 64 \<Longrightarrow> (128 + j) mod 64 = (j :: nat)"
proof -
  show "i < 32 \<Longrightarrow> (192 + i) mod 32 = (i :: nat)"
    using mod_mult_self2 [of i 32 6] by (simp add: add.commute)
  show "i < 16 \<Longrightarrow> (224 + i) mod 32 = (i :: nat)"
    using mod_mult_self2 [of i 32 7] by (simp add: add.commute)
  show "i < 16 \<Longrightarrow> (240 + i) mod 32 mod 8 = (i mod 8 :: nat)"
    using mod_mult_self2 [of i 8 30] by (simp add: add.commute mod_mod_cancel)
  show "j < 64 \<Longrightarrow> (128 + j) mod 64 = (j :: nat)"
    using mod_mult_self2 [of j 64 2] by (simp add: add.commute)
qed

text \<open>The encodings of two, three and four bytes.\<close>

lemma encode_2:
  assumes "0x80 \<le> ch" "ch = i * 64 + j" "i < 32" "j < 64"
  shows "encode_utf8 ch = [char_of (0xC0 + i), char_of (0x80 + j)]"
  using assms by (auto simp: encode_utf8_def)

lemma encode_3:
  assumes "0x800 \<le> ch" "ch = a * 64 + k" "k < 64" "a = i * 64 + j" "j < 64" "i < 16"
  shows "encode_utf8 ch = [char_of (0xE0 + i), char_of (0x80 + j), char_of (0x80 + k)]"
proof -
  have "ch div 64 = a" "ch mod 64 = k" using base64 [OF assms(3), of a] assms(2) by simp_all
  moreover have "a div 64 = i" "a mod 64 = j" using base64 [OF assms(5), of i] assms(4) by simp_all
  moreover have "ch < 0x10000" using assms(2-6) by linarith
  ultimately show ?thesis using assms(1) by (simp add: encode_utf8_def div_base64 del: char_of_eq_iff)
qed

lemma encode_4:
  assumes "0x10000 \<le> ch" "ch = a * 64 + l" "l < 64" "a = b * 64 + k" "k < 64" "b = i * 64 + j" "j < 64"
  shows "encode_utf8 ch = [char_of (0xF0 + i), char_of (0x80 + j), char_of (0x80 + k), char_of (0x80 + l)]"
proof -
  have "ch div 64 = a" "ch mod 64 = l" using base64 [OF assms(3), of a] assms(2) by simp_all
  moreover have "a div 64 = b" "a mod 64 = k" using base64 [OF assms(5), of b] assms(4) by simp_all
  moreover have "b div 64 = i" "b mod 64 = j" using base64 [OF assms(7), of i] assms(6) by simp_all
  ultimately show ?thesis using assms(1) by (simp add: encode_utf8_def div_base64 del: char_of_eq_iff)
qed

lemma decode_encode_2:
  assumes "0x80 \<le> ch" "ch < 0x800"
  shows "decode_char (encode_utf8 ch @ r) = ch \<and> utf8_width (encode_utf8 ch @ r) = 2"
proof -
  obtain i j where ch: "ch = i * 64 + j" "j < 64" by (rule base64_E)
  with assms have i: "2 \<le> i" "i < 32" by linarith+
  show ?thesis
    unfolding encode_2 [OF assms(1) ch(1) i(2) ch(2)]
    using ch i by (simp add: decode_char_def utf8_width_def Let_def cont_byte_def lead_mod)
qed

lemma decode_encode_3:
  assumes "0x800 \<le> ch" "ch < 0x10000" "scalar ch"
  shows "decode_char (encode_utf8 ch @ r) = ch \<and> utf8_width (encode_utf8 ch @ r) = 3"
proof -
  obtain a k where a: "ch = a * 64 + k" "k < 64" by (rule base64_E)
  obtain i j where i: "a = i * 64 + j" "j < 64" by (rule base64_E)
  from a i assms have *: "i < 16" "i = 0 \<longrightarrow> 32 \<le> j" "i = 13 \<longrightarrow> j < 32"
    by (auto simp: scalar_def)
  show ?thesis
    unfolding encode_3 [OF assms(1) a i *(1)]
    using a i * by (simp add: decode_char_def utf8_width_def Let_def cont_byte_def lead_mod)
qed

lemma decode_encode_4:
  assumes "0x10000 \<le> ch" "scalar ch"
  shows "decode_char (encode_utf8 ch @ r) = ch \<and> utf8_width (encode_utf8 ch @ r) = 4"
proof -
  obtain a l where a: "ch = a * 64 + l" "l < 64" by (rule base64_E)
  obtain b k where b: "a = b * 64 + k" "k < 64" by (rule base64_E)
  obtain i j where i: "b = i * 64 + j" "j < 64" by (rule base64_E)
  from a b i assms have *: "i < 5" "i = 0 \<longrightarrow> 16 \<le> j" "i = 4 \<longrightarrow> j < 16"
    by (auto simp: scalar_def)
  show ?thesis
    unfolding encode_4 [OF assms(1) a b i]
    using a b i * by (simp add: decode_char_def utf8_width_def Let_def cont_byte_def lead_mod)
qed

lemma decode_encode:
  assumes "scalar ch"
  shows "decode_char (encode_utf8 ch @ r) = ch" "utf8_width (encode_utf8 ch @ r) = len_utf8 ch"
proof -
  have "decode_char (encode_utf8 ch @ r) = ch \<and> utf8_width (encode_utf8 ch @ r) = len_utf8 ch"
  proof (cases "ch < 0x80")
    case True
    then show ?thesis
      by (simp add: encode_utf8_def decode_char_def utf8_width_def len_utf8_def Let_def)
  next
    case False
    then show ?thesis
      using decode_encode_2 [of ch r] decode_encode_3 [of ch r] decode_encode_4 [of ch r] assms
      by (auto simp: len_utf8_def)
  qed
  then show "decode_char (encode_utf8 ch @ r) = ch" "utf8_width (encode_utf8 ch @ r) = len_utf8 ch"
    by simp_all
qed

lemma byte_or_0_pos: "0 < byte_or_0 s i \<Longrightarrow> i < length s"
  by (simp add: byte_or_0_def split: if_splits)

lemma utf8_width_cases:
  assumes "0 < utf8_width s"
  obtains
    (one) a r where "s = a # r" "byte a < 0x80" "utf8_width s = 1"
  | (two) a b r i j where "s = a # b # r" "byte a = 0xC0 + i" "byte b = 0x80 + j"
      "2 \<le> i" "i < 32" "j < 64" "utf8_width s = 2"
  | (three) a b c r i j k where "s = a # b # c # r" "byte a = 0xE0 + i" "byte b = 0x80 + j"
      "byte c = 0x80 + k" "i < 16" "j < 64" "k < 64" "i = 0 \<longrightarrow> 32 \<le> j" "i = 13 \<longrightarrow> j < 32"
      "utf8_width s = 3"
  | (four) a b c d r i j k l where "s = a # b # c # d # r" "byte a = 0xF0 + i" "byte b = 0x80 + j"
      "byte c = 0x80 + k" "byte d = 0x80 + l" "i < 5" "j < 64" "k < 64" "l < 64"
      "i = 0 \<longrightarrow> 16 \<le> j" "i = 4 \<longrightarrow> j < 16" "utf8_width s = 4"
proof -
  obtain a r where s: "s = a # r" using assms by (cases s) auto
  consider "byte a < 0x80" | "0xC2 \<le> byte a" "byte a < 0xE0" | "0xE0 \<le> byte a" "byte a < 0xF0"
    | "0xF0 \<le> byte a" "byte a < 0xF5"
    using assms s by (auto simp: utf8_width_def Let_def split: if_splits)
  then show thesis
  proof cases
    case 1
    with s show ?thesis by (intro one [of a r]) (auto simp: utf8_width_def)
  next
    case 2
    with assms s obtain b r' where r: "r = b # r'" "cont_byte (byte b)" "utf8_width s = 2"
      by (cases r) (auto simp: utf8_width_def Let_def cont_byte_def split: if_splits)
    with 2 s show ?thesis
      by (intro two [of a b r' "byte a - 0xC0" "byte b - 0x80"]) (auto simp: cont_byte_def)
  next
    case 3
    with assms s have w: "utf8_width s = 3" "cont_byte (byte_or_0 s 2)" "cont_byte (byte_or_0 s 1)"
      "byte a = 0xE0 \<longrightarrow> 0xA0 \<le> byte_or_0 s 1" "byte a = 0xED \<longrightarrow> byte_or_0 s 1 < 0xA0"
      by (auto simp: utf8_width_def Let_def split: if_splits)
    then have "2 < length s" by (intro byte_or_0_pos) (simp add: cont_byte_def)
    then obtain b c r' where r: "r = b # c # r'"
      using s by (cases r; cases "tl r") auto
    with w s 3 show ?thesis
      by (intro three [of a b c r' "byte a - 0xE0" "byte b - 0x80" "byte c - 0x80"])
        (auto simp: cont_byte_def)
  next
    case 4
    with assms s have w: "utf8_width s = 4" "cont_byte (byte_or_0 s 3)" "cont_byte (byte_or_0 s 2)"
      "cont_byte (byte_or_0 s 1)"
      "byte a = 0xF0 \<longrightarrow> 0x90 \<le> byte_or_0 s 1" "byte a = 0xF4 \<longrightarrow> byte_or_0 s 1 < 0x90"
      by (auto simp: utf8_width_def Let_def split: if_splits)
    then have "3 < length s" by (intro byte_or_0_pos) (simp add: cont_byte_def)
    then obtain b c d r' where r: "r = b # c # d # r'"
      using s by (cases r; cases "tl r"; cases "tl (tl r)") auto
    with w s 4 show ?thesis
      by (intro four [of a b c d r' "byte a - 0xF0" "byte b - 0x80" "byte c - 0x80" "byte d - 0x80"])
        (auto simp: cont_byte_def)
  qed
qed

lemma char_of_byte: "byte a = n \<Longrightarrow> char_of n = a"
  by auto

lemma encode_decode_aux:
  assumes "0 < utf8_width s"
  shows "scalar (decode_char s) \<and> encode_utf8 (decode_char s) = take (utf8_width s) s \<and>
    len_utf8 (decode_char s) = utf8_width s \<and> utf8_width s \<le> length s"
  using assms
proof (cases rule: utf8_width_cases)
  case (one a r)
  then show ?thesis by (simp add: decode_char_def Let_def scalar_def encode_utf8_def len_utf8_def)
next
  case (two a b r i j)
  then have d: "decode_char s = i * 64 + j"
    by (simp add: decode_char_def Let_def lead_mod)
  have "encode_utf8 (i * 64 + j) = [a, b]"
    using two by (subst encode_2 [of _ i j]) (auto simp: char_of_byte simp del: char_of_eq_iff)
  with d two show ?thesis by (simp add: scalar_def len_utf8_def)
next
  case (three a b c r i j k)
  then have d: "decode_char s = (i * 64 + j) * 64 + k"
    by (simp add: decode_char_def Let_def lead_mod)
  have "encode_utf8 ((i * 64 + j) * 64 + k) = [a, b, c]"
    using three by (subst encode_3 [of _ "i * 64 + j" k i j]) (auto simp: char_of_byte simp del: char_of_eq_iff)
  moreover have "scalar ((i * 64 + j) * 64 + k)"
    using three by (cases "i \<le> 12"; cases "i = 13") (auto simp: scalar_def)
  ultimately show ?thesis using d three by (auto simp: len_utf8_def)
next
  case (four a b c d r i j k l)
  then have d: "decode_char s = ((i * 64 + j) * 64 + k) * 64 + l"
    by (simp add: decode_char_def Let_def lead_mod)
  have "encode_utf8 (((i * 64 + j) * 64 + k) * 64 + l) = [a, b, c, d]"
    using four by (subst encode_4 [of _ "(i * 64 + j) * 64 + k" l "i * 64 + j" k i j])
      (auto simp: char_of_byte simp del: char_of_eq_iff)
  with d four show ?thesis by (auto simp: scalar_def len_utf8_def)
qed

lemma encode_decode:
  assumes "0 < utf8_width s"
  shows "scalar (decode_char s)" "encode_utf8 (decode_char s) = take (utf8_width s) s"
    "len_utf8 (decode_char s) = utf8_width s" "utf8_width s \<le> length s"
  using encode_decode_aux [OF assms] by auto

section \<open>Well-formed strings\<close>

lemma utf8_Nil [simp]: "utf8 []"
  by (simp add: utf8_def valid_up_to.simps)

lemma valid_up_to_le: "valid_up_to s \<le> length s"
proof (induction s rule: valid_up_to.induct)
  case (1 s)
  show ?case
  proof (cases "utf8_width s = 0")
    case False
    then have "utf8_width s \<le> length s" using encode_decode(4) by simp
    with 1 [OF refl False] show ?thesis by (subst valid_up_to.simps) (simp add: Let_def, linarith)
  qed (simp add: valid_up_to.simps)
qed

lemma utf8_encode_append [simp]:
  assumes "scalar ch"
  shows "utf8 (encode_utf8 ch @ s) = utf8 s"
  unfolding utf8_def by (subst valid_up_to.simps) (simp add: Let_def decode_encode assms)

lemma utf8_step:
  assumes "utf8 s" "s \<noteq> []"
  shows "0 < utf8_width s" "utf8 (drop (utf8_width s) s)"
proof -
  show w: "0 < utf8_width s"
    using assms by (cases "utf8_width s = 0") (auto simp: utf8_def valid_up_to.simps [of s])
  show "utf8 (drop (utf8_width s) s)"
    using assms w encode_decode(4) [OF w]
    by (auto simp: utf8_def valid_up_to.simps [of s] Let_def)
qed

lemma utf8_cons:
  assumes "utf8 s" "s \<noteq> []"
  obtains ch t where "s = encode_utf8 ch @ t" "scalar ch" "utf8 t" "ch = decode_char s"
proof
  note w = utf8_step [OF assms]
  show "s = encode_utf8 (decode_char s) @ drop (utf8_width s) s"
    using encode_decode(2) [OF w(1)] by simp
  show "scalar (decode_char s)" using encode_decode(1) [OF w(1)] .
qed (use utf8_step [OF assms] in simp_all)

lemma utf8_induct [consumes 1, case_names Nil Cons]:
  assumes "utf8 s" "P []"
    and "\<And>ch s. scalar ch \<Longrightarrow> utf8 s \<Longrightarrow> P s \<Longrightarrow> P (encode_utf8 ch @ s)"
  shows "P s"
  using assms(1)
proof (induction s rule: length_induct)
  case (1 s)
  show ?case
  proof (cases "s = []")
    case False
    from 1(2) this obtain ch t where t: "s = encode_utf8 ch @ t" "scalar ch" "utf8 t"
      by (rule utf8_cons)
    then have "length t < length s" by simp
    with 1(1) t have "P t" by blast
    with t assms(3) show ?thesis by simp
  qed (simp add: assms(2))
qed

lemma encode_all_simps [simp]:
  "encode_all [] = []"
  "encode_all (ch # chs) = encode_utf8 ch @ encode_all chs"
  "encode_all (chs @ chs') = encode_all chs @ encode_all chs'"
  by (simp_all add: encode_all_def)

lemma utf8_append:
  assumes "utf8 s"
  shows "utf8 (s @ t) = utf8 t"
  using assms by (induction rule: utf8_induct) simp_all

lemma utf8_encode [simp]: "scalar ch \<Longrightarrow> utf8 (encode_utf8 ch)"
  using utf8_encode_append [of ch "[]"] by simp

lemma utf8_encode_all: "(\<And>ch. ch \<in> set chs \<Longrightarrow> scalar ch) \<Longrightarrow> utf8 (encode_all chs)"
  by (induction chs) simp_all

lemma decode_all_encode_append:
  assumes "scalar ch"
  shows "decode_all (encode_utf8 ch @ s) = ch # decode_all s"
  by (subst decode_all.simps) (simp add: Let_def decode_encode assms)

lemma decode_encode_all:
  "(\<And>ch. ch \<in> set chs \<Longrightarrow> scalar ch) \<Longrightarrow> decode_all (encode_all chs) = chs"
  by (induction chs) (simp_all add: decode_all_encode_append, simp add: decode_all.simps)

lemma encode_decode_all:
  assumes "utf8 s"
  shows "encode_all (decode_all s) = s \<and> (\<forall>ch \<in> set (decode_all s). scalar ch)"
  using assms
  by (induction rule: utf8_induct) (simp_all add: decode_all_encode_append, simp add: decode_all.simps)

lemma utf8_iff: "utf8 s \<longleftrightarrow> (\<exists>chs. (\<forall>ch \<in> set chs. scalar ch) \<and> s = encode_all chs)"
  using encode_decode_all utf8_encode_all by metis

lemma utf8_ascii: "(\<And>c. c \<in> set s \<Longrightarrow> byte c < 128) \<Longrightarrow> utf8 s"
proof (induction s)
  case (Cons c s)
  then have c: "byte c < 128" and s: "utf8 s" by simp_all
  then have "utf8 (encode_utf8 (byte c) @ s)" by (simp add: scalar_def)
  with c show ?case by (simp add: encode_ascii)
qed simp

section \<open>Character boundaries\<close>

lemma encode_cont:
  assumes i: "0 < i" "i < len_utf8 ch"
  shows "cont_byte (byte (encode_utf8 ch ! i))"
proof -
  from i have "i = 1 \<or> i = 2 \<or> i = 3" by (auto simp: len_utf8_def split: if_splits)
  with i show ?thesis
    by (auto simp: encode_utf8_def len_utf8_def cont_byte_def split: if_splits)
qed

lemma encode_first:
  assumes "scalar ch"
  shows "\<not> cont_byte (byte (encode_utf8 ch ! 0))"
  using assms by (auto simp: encode_utf8_def cont_byte_def scalar_def)

lemma utf8_first: "utf8 s \<Longrightarrow> s \<noteq> [] \<Longrightarrow> \<not> cont_byte (byte (s ! 0))"
  by (metis encode_first encode_utf8_not_Nil length_greater_0_conv nth_append utf8_cons)

lemma boundary_split:
  assumes "utf8 s" "is_boundary s p"
  shows "utf8 (take p s) \<and> utf8 (drop p s)"
  using assms
proof (induction arbitrary: p rule: utf8_induct)
  case (Cons ch s)
  consider "p = 0" | "0 < p" "p < len_utf8 ch" | "len_utf8 ch \<le> p" by linarith
  then show ?case
  proof cases
    case 2
    then have "(encode_utf8 ch @ s) ! p = encode_utf8 ch ! p" by (simp add: nth_append)
    with 2 Cons.prems encode_cont [of p ch] show ?thesis by (auto simp: is_boundary_def)
  next
    case 3
    with Cons.prems have "is_boundary s (p - len_utf8 ch)"
      by (auto simp: is_boundary_def nth_append)
    from Cons.IH [OF this] 3 Cons.hyps show ?thesis by simp
  qed (use Cons.hyps in simp)
qed simp

lemma boundary_le: "is_boundary s p \<Longrightarrow> p \<le> length s"
  by (auto simp: is_boundary_def)

lemma boundary_iff:
  assumes "utf8 s"
  shows "is_boundary s p \<longleftrightarrow> p \<le> length s \<and> utf8 (drop p s)"
proof
  assume "p \<le> length s \<and> utf8 (drop p s)"
  then show "is_boundary s p"
    using utf8_first [of "drop p s"] by (auto simp: is_boundary_def)
qed (use boundary_split boundary_le assms in blast)

lemma boundary_0 [simp]: "is_boundary s 0" and boundary_length [simp]: "is_boundary s (length s)"
  by (simp_all add: is_boundary_def)

text \<open>Stepping over an ASCII byte, and over one character, stays on a boundary.\<close>

lemma boundary_ascii:
  assumes "p < length s" "byte (s ! p) < 128"
  shows "is_boundary s p"
  using assms by (simp add: is_boundary_def cont_byte_def)

lemma boundary_char:
  assumes "utf8 s" "is_boundary s p" "p < length s"
  defines "ch \<equiv> decode_char (drop p s)"
  shows "is_boundary s (p + len_utf8 ch)" "scalar ch" "p + len_utf8 ch \<le> length s"
    "take (len_utf8 ch) (drop p s) = encode_utf8 ch"
proof -
  have d: "utf8 (drop p s)" "drop p s \<noteq> []" using boundary_split assms by auto
  then obtain t where t: "drop p s = encode_utf8 ch @ t" "scalar ch" "utf8 t"
    unfolding ch_def by (metis utf8_cons)
  then show "scalar ch" "take (len_utf8 ch) (drop p s) = encode_utf8 ch" by simp_all
  have "length (drop p s) = len_utf8 ch + length t" using t by simp
  then show le: "p + len_utf8 ch \<le> length s" using assms(3) by simp
  have "drop (p + len_utf8 ch) s = t" using t(1)
    by (metis add.commute append_eq_conv_conj drop_drop length_encode_utf8)
  with le t(3) assms(1) show "is_boundary s (p + len_utf8 ch)" by (simp add: boundary_iff)
qed

lemma boundary_ascii_Suc:
  assumes "utf8 s" "p < length s" "byte (s ! p) < 128"
  shows "is_boundary s (Suc p)"
proof -
  have "decode_char (drop p s) = byte (s ! p)"
    using assms by (simp add: decode_char_def byte_or_0_def Let_def)
  with boundary_char(1) [OF assms(1) boundary_ascii assms(2)] assms(2,3) show ?thesis
    by (simp add: len_utf8_def)
qed

lemma str_range_utf8:
  assumes "utf8 s" "str_range s a b = Some t"
  shows "utf8 t"
proof -
  from assms(2) have ab: "a \<le> b" "is_boundary s a" "is_boundary s b"
    and t: "t = take (b - a) (drop a s)"
    by (simp_all add: str_range_def split: if_splits)
  then have "utf8 (drop a s)" "utf8 (drop b s)" "b \<le> length s"
    using boundary_iff [OF assms(1)] by blast+
  moreover have "drop (b - a) (drop a s) = drop b s" using ab(1) by simp
  ultimately have "is_boundary (drop a s) (b - a)" by (subst boundary_iff) simp_all
  then show ?thesis using boundary_split \<open>utf8 (drop a s)\<close> t by blast
qed

lemma utf8_trim:
  assumes "utf8 s"
  shows "utf8 (trim s)"
  unfolding trim_def
proof (rule utf8_encode_all)
  fix ch
  assume "ch \<in> set (rev (dropWhile is_whitespace (rev (dropWhile is_whitespace (decode_all s)))))"
  then have "ch \<in> set (decode_all s)" by (metis set_dropWhileD set_rev)
  then show "scalar ch" using encode_decode_all [OF assms] by blast
qed

lemma length_encode_suffix:
  "length (encode_all (dropWhile P chs)) \<le> length (encode_all chs)"
  "length (encode_all (rev chs)) = length (encode_all chs)"
proof -
  show "length (encode_all (dropWhile P chs)) \<le> length (encode_all chs)"
    by (induction chs) auto
  show "length (encode_all (rev chs)) = length (encode_all chs)"
    by (induction chs) (auto simp: encode_all_def)
qed

lemma length_trim:
  assumes "utf8 s"
  shows "length (trim s) \<le> length s"
proof -
  have "length (trim s) \<le> length (encode_all (decode_all s))"
    unfolding trim_def using length_encode_suffix le_trans by metis
  then show ?thesis using encode_decode_all [OF assms] by simp
qed

text \<open>\<open>from_utf8\<close> returns its input or the length of the longest well-formed prefix.\<close>

lemma from_utf8_Inr_iff: "from_utf8 s = Inr t \<longleftrightarrow> t = s \<and> utf8 s"
  by (auto simp: from_utf8_def utf8_def)

lemma utf8_prefix_le: "utf8 t \<Longrightarrow> s = t @ r \<Longrightarrow> length t \<le> valid_up_to s"
proof (induction arbitrary: s rule: utf8_induct)
  case (Cons ch t)
  then have "length t \<le> valid_up_to (t @ r)" by blast
  with Cons show ?case
    by (subst valid_up_to.simps) (simp add: Let_def decode_encode)
qed simp

lemma utf8_valid_prefix: "utf8 (take (valid_up_to s) s)"
proof (induction s rule: valid_up_to.induct)
  case (1 s)
  show ?case
  proof (cases "utf8_width s = 0")
    case False
    let ?w = "utf8_width s" and ?ch = "decode_char s"
    from False have w: "0 < ?w" by simp
    have "take (?w + n) s = encode_utf8 ?ch @ take n (drop ?w s)" for n
      by (simp add: encode_decode(2) [OF w] take_add)
    with 1 [OF refl False] encode_decode(1) [OF w] False show ?thesis
      by (subst valid_up_to.simps) (simp add: Let_def)
  qed (simp add: valid_up_to.simps)
qed

end
