(* ===== verification/Token.thy ===== *)
theory Token
  imports Prelude
begin

text \<open>
  Tokens and diagnostics of the frontend (\<open>crates/cobrust-frontend/src/token.rs\<close> and
  \<open>error.rs\<close>). The one flat enumeration of the source is split at its own section comments:
  the keywords and the operators are datatypes of their own, under the constructors \<open>TKw\<close>
  and \<open>TOp\<close>; the other kinds carry the source's names with a \<open>T\<close> in front. Payloads of type
  \<open>String\<close> are UTF-8 byte strings.
\<close>

datatype (plugins only: code) keyword =
    KwAnd | KwAs | KwAwait | KwBreak | KwCase | KwClass | KwContinue | KwElif | KwElse
  | KwExcept | KwFalse | KwFinally | KwFn | KwFor | KwFrom | KwIf | KwImport | KwIn
  | KwLambda | KwLet | KwMatch | KwNone | KwNot | KwOr | KwPass | KwRaise | KwReturn | KwTrue
  | KwTry | KwType | KwWhile | KwWith | KwYield

datatype (plugins only: code) op =
    LParen | RParen | LBracket | RBracket | LBrace | RBrace | Comma | Colon | Semicolon | Dot
  | DotDotDot | Arrow | At | Eq | Walrus | Plus | Minus | Star | StarStar | Slash
  | SlashSlash | Percent | Amp | Pipe | Caret | Tilde | Shl | Shr | EqEq | NotEq | Lt | LtEq
  | Gt | GtEq | PlusEq | MinusEq | StarEq | StarStarEq | SlashEq | SlashSlashEq | PercentEq
  | AmpEq | PipeEq | CaretEq | ShlEq | ShrEq

record str_prefix =
  raw :: bool
  is_bytes :: bool

text \<open>One segment of an f-string, in source order.\<close>

datatype fstring_piece =
    Lit string
  | Expr (expr_source: string) (debug_equals: bool) (format_spec: "string option")

datatype token_kind =
    TIdent string | TInt string | TFloat string | TImag string
  | TStr string str_prefix | TBytes string str_prefix | TFString "fstring_piece list"
  | TKw keyword | TOp op
  | TUnderscore | TNewline | TIndent | TDedent | TEof

record token =
  kind :: token_kind
  tspan :: span

definition token_new :: "token_kind \<Rightarrow> span \<Rightarrow> token" where
  "token_new k s = \<lparr>kind = k, tspan = s\<rparr>"

text \<open>\<open>TokenKind::classify\<close>, the stable name of a kind in diagnostics.\<close>

primrec classify_keyword :: "keyword \<Rightarrow> string" where
  "classify_keyword KwAnd = ''`and`''"
| "classify_keyword KwAs = ''`as`''"
| "classify_keyword KwAwait = ''`await`''"
| "classify_keyword KwBreak = ''`break`''"
| "classify_keyword KwCase = ''`case`''"
| "classify_keyword KwClass = ''`class`''"
| "classify_keyword KwContinue = ''`continue`''"
| "classify_keyword KwElif = ''`elif`''"
| "classify_keyword KwElse = ''`else`''"
| "classify_keyword KwExcept = ''`except`''"
| "classify_keyword KwFalse = ''`False`''"
| "classify_keyword KwFinally = ''`finally`''"
| "classify_keyword KwFn = ''`fn`''"
| "classify_keyword KwFor = ''`for`''"
| "classify_keyword KwFrom = ''`from`''"
| "classify_keyword KwIf = ''`if`''"
| "classify_keyword KwImport = ''`import`''"
| "classify_keyword KwIn = ''`in`''"
| "classify_keyword KwLambda = ''`lambda`''"
| "classify_keyword KwLet = ''`let`''"
| "classify_keyword KwMatch = ''`match`''"
| "classify_keyword KwNone = ''`None`''"
| "classify_keyword KwNot = ''`not`''"
| "classify_keyword KwOr = ''`or`''"
| "classify_keyword KwPass = ''`pass`''"
| "classify_keyword KwRaise = ''`raise`''"
| "classify_keyword KwReturn = ''`return`''"
| "classify_keyword KwTrue = ''`True`''"
| "classify_keyword KwTry = ''`try`''"
| "classify_keyword KwType = ''`type`''"
| "classify_keyword KwWhile = ''`while`''"
| "classify_keyword KwWith = ''`with`''"
| "classify_keyword KwYield = ''`yield`''"

primrec classify_op :: "op \<Rightarrow> string" where
  "classify_op LParen = ''`(`''"
| "classify_op RParen = ''`)`''"
| "classify_op LBracket = ''`[`''"
| "classify_op RBracket = ''`]`''"
| "classify_op LBrace = ''`{`''"
| "classify_op RBrace = ''`}`''"
| "classify_op Comma = ''`,`''"
| "classify_op Colon = ''`:`''"
| "classify_op Semicolon = ''`;`''"
| "classify_op Dot = ''`.`''"
| "classify_op DotDotDot = ''`...`''"
| "classify_op Arrow = ''`->`''"
| "classify_op At = ''`@`''"
| "classify_op Eq = ''`=`''"
| "classify_op Walrus = ''`:=`''"
| "classify_op Plus = ''`+`''"
| "classify_op Minus = ''`-`''"
| "classify_op Star = ''`*`''"
| "classify_op StarStar = ''`**`''"
| "classify_op Slash = ''`/`''"
| "classify_op SlashSlash = ''`//`''"
| "classify_op Percent = ''`%`''"
| "classify_op Amp = ''`&`''"
| "classify_op Pipe = ''`|`''"
| "classify_op Caret = ''`^`''"
| "classify_op Tilde = ''`~`''"
| "classify_op Shl = ''`<<`''"
| "classify_op Shr = ''`>>`''"
| "classify_op EqEq = ''`==`''"
| "classify_op NotEq = ''`!=`''"
| "classify_op Lt = ''`<`''"
| "classify_op LtEq = ''`<=`''"
| "classify_op Gt = ''`>`''"
| "classify_op GtEq = ''`>=`''"
| "classify_op PlusEq = ''`+=`''"
| "classify_op MinusEq = ''`-=`''"
| "classify_op StarEq = ''`*=`''"
| "classify_op StarStarEq = ''`**=`''"
| "classify_op SlashEq = ''`/=`''"
| "classify_op SlashSlashEq = ''`//=`''"
| "classify_op PercentEq = ''`%=`''"
| "classify_op AmpEq = ''`&=`''"
| "classify_op PipeEq = ''`|=`''"
| "classify_op CaretEq = ''`^=`''"
| "classify_op ShlEq = ''`<<=`''"
| "classify_op ShrEq = ''`>>=`''"

primrec classify :: "token_kind \<Rightarrow> string" where
  "classify (TIdent s) = ''identifier''"
| "classify (TInt s) = ''integer literal''"
| "classify (TFloat s) = ''float literal''"
| "classify (TImag s) = ''imaginary literal''"
| "classify (TStr v p) = ''string literal''"
| "classify (TBytes v p) = ''bytes literal''"
| "classify (TFString ps) = ''f-string literal''"
| "classify (TKw k) = classify_keyword k"
| "classify (TOp p) = classify_op p"
| "classify TUnderscore = ''`_`''"
| "classify TNewline = ''newline''"
| "classify TIndent = ''indent''"
| "classify TDedent = ''dedent''"
| "classify TEof = ''end of input''"

section \<open>Diagnostics\<close>

datatype lex_error =
    InvalidUtf8 u32
  | UnexpectedChar nat span
  | UnterminatedString span
  | UnterminatedFString span
  | MalformedNumber span
  | InconsistentIndent span
  | InvalidEscape span

datatype parse_error =
    Expected "token_kind list" token_kind span hint
  | Syntax string span hint
  | UnexpectedEof span hint
  | DroppedByConstitution string span hint
  | NonLiteralDefault span hint
  | IndentError string span hint
  | ExpressionTooDeep u32 u32 span hint

primrec parse_error_suggestion_text :: "parse_error \<Rightarrow> hint" where
  "parse_error_suggestion_text (Expected e f s h) = h"
| "parse_error_suggestion_text (Syntax m s h) = h"
| "parse_error_suggestion_text (UnexpectedEof s h) = h"
| "parse_error_suggestion_text (DroppedByConstitution n s h) = h"
| "parse_error_suggestion_text (NonLiteralDefault s h) = h"
| "parse_error_suggestion_text (IndentError m s h) = h"
| "parse_error_suggestion_text (ExpressionTooDeep d m s h) = h"

datatype frontend_error = Lex lex_error | Parse parse_error

end
