(* ===== verification/Lexer.thy ===== *)
theory Lexer
  imports Utf8 Token
begin

text \<open>
  The lexer (\<open>crates/cobrust-frontend/src/lexer.rs\<close>) up to its dispatch on the next byte: the
  state, indentation at the start of a line, words with their string prefixes, numbers and
  string literals. F-strings are in \<open>Lexer_FString\<close>, the main loop in \<open>Lexer_Run\<close>.

  A panic (a slice off a character boundary, an index past the end, a failed \<open>expect\<close>) is the
  fault \<open>LexPanic\<close>; an error return is \<open>LexErr\<close>. Positions are byte indices into \<open>bytes\<close>.
  Inner loops take the lexer they read from and the current position, and the operation
  stores the final position back. The character tables and the normalisation of
  \<open>unicode_xid\<close> and \<open>unicode_normalization\<close> are the parameter \<open>unicode\<close>.
\<close>

record unicode =
  uni_xid_start :: "nat \<Rightarrow> bool"
  uni_xid_continue :: "nat \<Rightarrow> bool"
  uni_nfkc :: "string \<Rightarrow> string"

datatype lex_fault = LexPanic | LexErr lex_error

type_synonym 'a lexed = "lex_fault + 'a"

record lexer =
  bytes :: string
  pos :: nat
  file_id :: u32
  indents :: "nat list"
  at_line_start :: bool
  bracket_depth :: int
  last_emitted_newline :: bool
  out :: "token list"

text \<open>The indentation stack is kept with its last element first.\<close>

definition lexer_new :: "string \<Rightarrow> u32 \<Rightarrow> lexer" where
  "lexer_new src f =
     \<lparr>bytes = src, pos = 0, file_id = f, indents = [0], at_line_start = True, bracket_depth = 0,
      last_emitted_newline = True, out = []\<rparr>"

section \<open>Reading the source\<close>

definition mk_span :: "lexer \<Rightarrow> nat \<Rightarrow> nat \<Rightarrow> span" where
  "mk_span l a b = span_new (file_id l) (word_of_nat a) (word_of_nat b)"

definition byte_at :: "lexer \<Rightarrow> nat \<Rightarrow> char option" where
  "byte_at l p = (if p < length (bytes l) then Some (bytes l ! p) else None)"

definition starts_with :: "lexer \<Rightarrow> string \<Rightarrow> bool" where
  "starts_with l needle \<longleftrightarrow> take (length needle) (drop (pos l) (bytes l)) = needle"

definition current_char :: "lexer \<Rightarrow> nat \<Rightarrow> nat lexed" where
  "current_char l p =
     (if is_boundary (bytes l) p
      then (if drop p (bytes l) = [] then Inl (LexErr (InvalidUtf8 (word_of_nat p)))
            else Inr (decode_char (drop p (bytes l))))
      else Inl LexPanic)"

definition slice :: "lexer \<Rightarrow> nat \<Rightarrow> nat \<Rightarrow> string lexed" where
  "slice l a b = (case str_range (bytes l) a b of None \<Rightarrow> Inl LexPanic | Some s \<Rightarrow> Inr s)"

text \<open>\<open>while self.pos < self.bytes.len() && valid(self.bytes[self.pos]) { self.pos += 1; }\<close>\<close>

definition skip_while :: "lexer \<Rightarrow> (char \<Rightarrow> bool) \<Rightarrow> nat \<Rightarrow> nat" where
  "skip_while l valid p = p + length (takeWhile valid (drop p (bytes l)))"

definition is_ascii_digit :: "char \<Rightarrow> bool" where
  "is_ascii_digit c \<longleftrightarrow> 48 \<le> byte c \<and> byte c \<le> 57"

definition ascii_alphabetic :: "nat \<Rightarrow> bool" where
  "ascii_alphabetic ch \<longleftrightarrow> 65 \<le> ch \<and> ch \<le> 90 \<or> 97 \<le> ch \<and> ch \<le> 122"

definition ascii_alphanumeric :: "nat \<Rightarrow> bool" where
  "ascii_alphanumeric ch \<longleftrightarrow> ascii_alphabetic ch \<or> 48 \<le> ch \<and> ch \<le> 57"

definition is_ascii_hexdigit :: "char \<Rightarrow> bool" where
  "is_ascii_hexdigit c \<longleftrightarrow>
     is_ascii_digit c \<or> 65 \<le> byte c \<and> byte c \<le> 70 \<or> 97 \<le> byte c \<and> byte c \<le> 102"

definition is_xid_start :: "unicode \<Rightarrow> nat \<Rightarrow> bool" where
  "is_xid_start u ch \<longleftrightarrow> ascii_alphabetic ch \<or> ch = 95 \<or> uni_xid_start u ch"

definition is_xid_continue :: "unicode \<Rightarrow> nat \<Rightarrow> bool" where
  "is_xid_continue u ch \<longleftrightarrow> ascii_alphanumeric ch \<or> ch = 95 \<or> uni_xid_continue u ch"

section \<open>Emitting tokens\<close>

text \<open>The tail every token shares: push it with the span from \<open>start\<close> to the new position.\<close>

definition push_token :: "lexer \<Rightarrow> token_kind \<Rightarrow> nat \<Rightarrow> nat \<Rightarrow> lexer" where
  "push_token l k start p =
     l\<lparr>pos := p, out := out l @ [token_new k (mk_span l start p)], last_emitted_newline := False\<rparr>"

definition simple :: "lexer \<Rightarrow> op \<Rightarrow> nat \<Rightarrow> lexer" where
  "simple l k n = push_token l (TOp k) (pos l) (pos l + n)"

definition single :: "lexer \<Rightarrow> op \<Rightarrow> lexer" where
  "single l k =
     simple
       (if k \<in> {LParen, LBracket, LBrace} then l\<lparr>bracket_depth := bracket_depth l + 1\<rparr>
        else if k \<in> {RParen, RBracket, RBrace}
          then l\<lparr>bracket_depth := max (bracket_depth l - 1) 0\<rparr>
        else l)
       k 1"

definition maybe_eq :: "lexer \<Rightarrow> op \<Rightarrow> op \<Rightarrow> lexer" where
  "maybe_eq l plain with_eq =
     (if byte_at l (pos l + 1) = Some (CHR ''='') then simple l with_eq 2 else simple l plain 1)"

definition emit_newline_if_needed :: "lexer \<Rightarrow> lexer" where
  "emit_newline_if_needed l =
     (if last_emitted_newline l then l
      else l\<lparr>out := out l @ [token_new TNewline (mk_span l (pos l) (pos l))],
             last_emitted_newline := True\<rparr>)"

definition consume_newline :: "lexer \<Rightarrow> lexer" where
  "consume_newline l =
     (if byte_at l (pos l) = Some (CHR 0x0D)
      then (if byte_at l (pos l + 1) = Some (CHR 0x0A) then l\<lparr>pos := pos l + 2\<rparr>
            else l\<lparr>pos := pos l + 1\<rparr>)
      else l\<lparr>pos := pos l + 1\<rparr>)"

section \<open>Indentation\<close>

text \<open>
  The loop over leading blanks: position, column count, whether a tab and whether a space
  was seen.
\<close>

fun leading_blanks :: "string \<Rightarrow> nat \<times> nat \<times> bool \<times> bool \<Rightarrow> nat \<times> nat \<times> bool \<times> bool" where
  "leading_blanks [] s = s"
| "leading_blanks (c # r) (p, spaces, saw_tab, saw_space) =
     (if c = CHR '' '' then leading_blanks r (p + 1, spaces + 1, saw_tab, True)
      else if c = CHR 0x09 then leading_blanks r (p + 1, (spaces div 8 + 1) * 8, True, saw_space)
      else (p, spaces, saw_tab, saw_space))"

text \<open>The loop that pops indentation levels, with the number of \<open>Dedent\<close> tokens it pushes.\<close>

fun pop_levels :: "nat list \<Rightarrow> nat \<Rightarrow> (nat list \<times> nat) lexed" where
  "pop_levels [] spaces = Inl LexPanic"
| "pop_levels (i # is) spaces =
     (if spaces < i
      then and_then (pop_levels is spaces) (\<lambda>(is', n). Inr (is', n + 1))
      else Inr (i # is, 0))"

definition inconsistent_indent :: "lexer \<Rightarrow> nat \<Rightarrow> 'a lexed" where
  "inconsistent_indent l p = Inl (LexErr (InconsistentIndent (mk_span l (pos l) p)))"

definition indent_to :: "lexer \<Rightarrow> nat \<Rightarrow> nat \<Rightarrow> lexer" where
  "indent_to l p spaces =
     l\<lparr>pos := p, indents := spaces # indents l,
       out := out l @ [token_new TIndent (mk_span l (pos l) p)], at_line_start := False\<rparr>"

definition dedent_to :: "lexer \<Rightarrow> nat \<Rightarrow> nat list \<Rightarrow> nat \<Rightarrow> lexer" where
  "dedent_to l p levels n =
     l\<lparr>pos := p, indents := levels,
       out := out l @ replicate n (token_new TDedent (mk_span l (pos l) (pos l))),
       at_line_start := False\<rparr>"

definition handle_line_start :: "lexer \<Rightarrow> lexer lexed" where
  "handle_line_start l =
     (case leading_blanks (drop (pos l) (bytes l)) (pos l, 0, False, False) of
        (p, spaces, saw_tab, saw_space) \<Rightarrow>
          if saw_tab \<and> saw_space then inconsistent_indent l p
          else if byte_at l p \<in> {None, Some (CHR 0x0A), Some (CHR 0x0D), Some (CHR ''#'')}
            then Inr (l\<lparr>pos := p\<rparr>)
          else if indents l = [] then Inl LexPanic
          else if hd (indents l) < spaces then Inr (indent_to l p spaces)
          else and_then (pop_levels (indents l) spaces) (\<lambda>(levels, n).
            if levels = [] then Inl LexPanic
            else if hd levels \<noteq> spaces then inconsistent_indent l p
            else Inr (dedent_to l p levels n)))"

section \<open>Words\<close>

definition keyword_table :: "(string \<times> keyword) list" where
  "keyword_table =
     [(''and'', KwAnd), (''as'', KwAs), (''await'', KwAwait), (''break'', KwBreak),
      (''case'', KwCase), (''class'', KwClass), (''continue'', KwContinue), (''elif'', KwElif),
      (''else'', KwElse), (''except'', KwExcept), (''False'', KwFalse), (''finally'', KwFinally),
      (''fn'', KwFn), (''for'', KwFor), (''from'', KwFrom), (''if'', KwIf), (''import'', KwImport),
      (''in'', KwIn), (''lambda'', KwLambda), (''let'', KwLet), (''match'', KwMatch),
      (''None'', KwNone), (''not'', KwNot), (''or'', KwOr), (''pass'', KwPass),
      (''raise'', KwRaise), (''return'', KwReturn), (''True'', KwTrue), (''try'', KwTry),
      (''type'', KwType), (''while'', KwWhile), (''with'', KwWith), (''yield'', KwYield)]"

definition match_keyword :: "string \<Rightarrow> token_kind option" where
  "match_keyword s = map_option TKw (map_of keyword_table s)"

definition is_string_prefix :: "string \<Rightarrow> bool" where
  "is_string_prefix w \<longleftrightarrow>
     w \<in> {''r'', ''R'', ''b'', ''B'', ''f'', ''F'', ''rb'', ''Rb'', ''rB'', ''RB'', ''br'', ''Br'',
           ''bR'', ''BR'', ''rf'', ''Rf'', ''rF'', ''RF'', ''fr'', ''Fr'', ''fR'', ''FR''}"

definition parse_str_prefix :: "string \<Rightarrow> str_prefix" where
  "parse_str_prefix w =
     \<lparr>raw = (CHR ''r'' \<in> set w \<or> CHR ''R'' \<in> set w),
      is_bytes = (CHR ''b'' \<in> set w \<or> CHR ''B'' \<in> set w)\<rparr>"

definition ascii_lower :: "string \<Rightarrow> string" where
  "ascii_lower s = map (\<lambda>c. if 65 \<le> byte c \<and> byte c \<le> 90 then char_of (byte c + 32) else c) s"

definition is_fstring_prefix :: "string \<Rightarrow> bool" where
  "is_fstring_prefix w \<longleftrightarrow> ascii_lower w \<in> {''f'', ''rf'', ''fr''}"

text \<open>The loop over the characters of a word after its first.\<close>

function scan_word :: "unicode \<Rightarrow> lexer \<Rightarrow> nat \<Rightarrow> nat lexed" where
  "scan_word u l p =
     (if p < length (bytes l)
      then (case current_char l p of
              Inl e \<Rightarrow> Inl e
            | Inr ch \<Rightarrow>
                if ch = 95 \<or> is_xid_continue u ch then scan_word u l (p + len_utf8 ch) else Inr p)
      else Inr p)"
  by auto
termination
  by (relation "measure (\<lambda>(u, l, p). length (bytes l) - p)") (auto intro: diff_less_mono2)

declare scan_word.simps [simp del]

section \<open>Numbers\<close>

text \<open>The digits a base prefix admits.\<close>

definition radix_digits :: "char \<Rightarrow> (char \<Rightarrow> bool) option" where
  "radix_digits x =
     (if x = CHR ''x'' \<or> x = CHR ''X'' then Some (\<lambda>c. is_ascii_hexdigit c \<or> c = CHR ''_'')
      else if x = CHR ''o'' \<or> x = CHR ''O''
        then Some (\<lambda>c. 48 \<le> byte c \<and> byte c \<le> 55 \<or> c = CHR ''_'')
      else if x = CHR ''b'' \<or> x = CHR ''B''
        then Some (\<lambda>c. c = CHR ''0'' \<or> c = CHR ''1'' \<or> c = CHR ''_'')
      else None)"

definition digits_from :: "lexer \<Rightarrow> nat \<Rightarrow> nat" where
  "digits_from l p = skip_while l (\<lambda>c. is_ascii_digit c \<or> c = CHR ''_'') p"

definition malformed :: "lexer \<Rightarrow> nat \<Rightarrow> 'a lexed" where
  "malformed l p = Inl (LexErr (MalformedNumber (mk_span l (pos l) p)))"

definition number_token :: "lexer \<Rightarrow> (string \<Rightarrow> token_kind) \<Rightarrow> nat \<Rightarrow> lexer lexed" where
  "number_token l k p =
     and_then (slice l (pos l) p) (\<lambda>text. Inr (push_token l (k text) (pos l) p))"

definition lex_radix :: "lexer \<Rightarrow> (char \<Rightarrow> bool) \<Rightarrow> lexer lexed" where
  "lex_radix l valid =
     (let p = skip_while l valid (pos l + 2)
      in if p = pos l + 2 then malformed l p else number_token l TInt p)"

text \<open>The whole part: position after it, and whether the literal is a float so far.\<close>

definition scan_whole :: "lexer \<Rightarrow> (nat \<times> bool) lexed" where
  "scan_whole l =
     (if byte_at l (pos l) = Some (CHR ''.'')
      then (case byte_at l (pos l + 1) of
              Some c \<Rightarrow> if is_ascii_digit c then Inr (digits_from l (pos l + 1), True)
                        else malformed l (pos l + 1)
            | None \<Rightarrow> malformed l (pos l + 1))
      else Inr (digits_from l (pos l), False))"

definition scan_fraction :: "lexer \<Rightarrow> nat \<times> bool \<Rightarrow> nat \<times> bool" where
  "scan_fraction l s =
     (case s of (p, is_float) \<Rightarrow>
        if byte_at l (pos l) \<noteq> Some (CHR ''.'') \<and> byte_at l p = Some (CHR ''.'')
        then (case byte_at l (p + 1) of
                Some c \<Rightarrow>
                  if c = CHR ''_'' \<or> ascii_alphabetic (byte c) then (p, is_float)
                  else (digits_from l (p + 1), True)
              | None \<Rightarrow> (digits_from l (p + 1), True))
        else (p, is_float))"

definition scan_exponent :: "lexer \<Rightarrow> nat \<times> bool \<Rightarrow> (nat \<times> bool) lexed" where
  "scan_exponent l s =
     (case s of (p, is_float) \<Rightarrow>
        if byte_at l p \<in> {Some (CHR ''e''), Some (CHR ''E'')}
        then (let q = (if byte_at l (p + 1) \<in> {Some (CHR ''+''), Some (CHR ''-'')}
                       then p + 2 else p + 1);
                  r = digits_from l q
              in if r = q then malformed l r else Inr (r, True))
        else Inr (p, is_float))"

definition lex_decimal :: "lexer \<Rightarrow> lexer lexed" where
  "lex_decimal l =
     and_then (scan_whole l) (\<lambda>s.
       and_then (scan_exponent l (scan_fraction l s)) (\<lambda>(p, is_float).
         if byte_at l p \<in> {Some (CHR ''j''), Some (CHR ''J'')} then number_token l TImag (p + 1)
         else number_token l (if is_float then TFloat else TInt) p))"

definition lex_number :: "lexer \<Rightarrow> lexer lexed" where
  "lex_number l =
     (case (if byte_at l (pos l) = Some (CHR ''0'')
            then Option.bind (byte_at l (pos l + 1)) radix_digits else None) of
        Some valid \<Rightarrow> lex_radix l valid
      | None \<Rightarrow> lex_decimal l)"

section \<open>String literals\<close>

definition hex_digit :: "char \<Rightarrow> nat" where
  "hex_digit c =
     (if is_ascii_digit c then byte c - 48
      else if byte c \<le> 70 then byte c - 55 else byte c - 87)"

definition read_hex :: "lexer \<Rightarrow> nat \<Rightarrow> nat \<Rightarrow> nat option" where
  "read_hex l p n =
     (let ds = take n (drop p (bytes l))
      in if length (bytes l) < p + n then None
         else if \<not> list_all is_ascii_hexdigit ds then None
         else Some (foldl (\<lambda>v c. v * 16 + hex_digit c) 0 ds))"

text \<open>The escapes of one letter.\<close>

definition simple_escape :: "char \<Rightarrow> char option" where
  "simple_escape c =
     (if c = CHR 0x5C then Some (CHR 0x5C)
      else if c = CHR 0x27 then Some (CHR 0x27)
      else if c = CHR 0x22 then Some (CHR 0x22)
      else if c = CHR ''n'' then Some (CHR 0x0A)
      else if c = CHR ''t'' then Some (CHR 0x09)
      else if c = CHR ''r'' then Some (CHR 0x0D)
      else if c = CHR ''0'' then Some (CHR 0x00)
      else None)"

text \<open>
  One turn of the loop of \<open>lex_string\<close>: the literal closed, or the position and the value so
  far. \<open>value\<close> (a \<open>String\<close>) and \<open>bytes_value\<close> (a \<open>Vec<u8>\<close>) are one accumulator, since the
  prefix decides which of the two is written.
\<close>

datatype string_turn = Closed nat string | More nat string

definition two_quotes :: "lexer \<Rightarrow> nat \<Rightarrow> char \<Rightarrow> bool" where
  "two_quotes l p q \<longleftrightarrow> byte_at l p = Some q \<and> byte_at l (p + 1) = Some q"

definition string_escape :: "lexer \<Rightarrow> str_prefix \<Rightarrow> nat \<Rightarrow> string \<Rightarrow> string_turn lexed" where
  "string_escape l prefix p v =
     (let invalid = (\<lambda>q. Inl (LexErr (InvalidEscape (mk_span l p q)))) in
      case byte_at l (p + 1) of
        None \<Rightarrow> Inl (LexErr (UnterminatedString (mk_span l (pos l) (p + 1))))
      | Some c \<Rightarrow>
          if c = CHR 0x0A then Inr (More (p + 2) v)
          else (case simple_escape c of
                  Some e \<Rightarrow> Inr (More (p + 2) (v @ [e]))
                | None \<Rightarrow>
                    if c = CHR ''x''
                    then (case read_hex l (p + 2) 2 of
                            None \<Rightarrow> invalid (p + 2)
                          | Some h \<Rightarrow> Inr (More (p + 4)
                              (v @ (if is_bytes prefix then [char_of h] else encode_utf8 h))))
                    else if c = CHR ''u''
                    then (case read_hex l (p + 2) 4 of
                            None \<Rightarrow> invalid (p + 2)
                          | Some h \<Rightarrow>
                              if is_bytes prefix then invalid (p + 6)
                              else if scalar h then Inr (More (p + 6) (v @ encode_utf8 h))
                              else invalid (p + 6))
                    else invalid (p + 1)))"

definition string_step ::
  "lexer \<Rightarrow> char \<Rightarrow> bool \<Rightarrow> str_prefix \<Rightarrow> nat \<Rightarrow> string \<Rightarrow> string_turn lexed" where
  "string_step l quote triple prefix p v =
     (let unterminated = Inl (LexErr (UnterminatedString (mk_span l (pos l) p))) in
      case byte_at l p of
        None \<Rightarrow> unterminated
      | Some b \<Rightarrow>
          if \<not> triple \<and> b \<in> {CHR 0x0A, CHR 0x0D} then unterminated
          else if b = quote
          then (if triple \<and> two_quotes l (p + 1) quote then Inr (Closed (p + 3) v)
                else if \<not> triple then Inr (Closed (p + 1) v)
                else Inr (More (p + 1) (v @ [b])))
          else if b = CHR 0x5C \<and> \<not> raw prefix then string_escape l prefix p v
          else and_then (current_char l p)
            (\<lambda>ch. Inr (More (p + len_utf8 ch) (v @ encode_utf8 ch))))"


lemma byte_at_eq_Some: "byte_at l p = Some c \<longleftrightarrow> p < length (bytes l) \<and> bytes l ! p = c"
  by (simp add: byte_at_def)

lemma byte_at_eq_None: "byte_at l p = None \<longleftrightarrow> length (bytes l) \<le> p"
  by (simp add: byte_at_def)

lemma string_step_advances:
  assumes "string_step l q triple prefix p v = Inr (More p' v')"
  shows "p < p' \<and> p < length (bytes l)"
  using assms
  by (auto simp: string_step_def string_escape_def Let_def byte_at_eq_Some and_then_Inr_conv
      split: option.splits if_splits)

lemma length_diff_less: "p < p' \<and> p < n \<Longrightarrow> n - p' < n - (p :: nat)"
  by linarith

function string_loop ::
  "lexer \<Rightarrow> char \<Rightarrow> bool \<Rightarrow> str_prefix \<Rightarrow> nat \<Rightarrow> string \<Rightarrow> (nat \<times> string) lexed" where
  "string_loop l quote triple prefix p v =
     (case string_step l quote triple prefix p v of
        Inl e \<Rightarrow> Inl e
      | Inr (Closed p' v') \<Rightarrow> Inr (p', v')
      | Inr (More p' v') \<Rightarrow> string_loop l quote triple prefix p' v')"
  by auto
termination
  by (relation "measure (\<lambda>(l, q, t, pr, p, v). length (bytes l) - p)")
    (auto dest!: string_step_advances intro!: length_diff_less)

declare string_loop.simps [simp del]

text \<open>
  \<open>lex_string(start, prefix)\<close> with the opening quote at \<open>p\<close>; \<open>start\<close> is the position of \<open>l\<close>.
\<close>

definition lex_string :: "lexer \<Rightarrow> str_prefix \<Rightarrow> nat \<Rightarrow> lexer lexed" where
  "lex_string l prefix p =
     (case byte_at l p of
        None \<Rightarrow> Inl LexPanic
      | Some quote \<Rightarrow>
          (let triple = two_quotes l (p + 1) quote in
           and_then (string_loop l quote triple prefix (p + (if triple then 3 else 1)) [])
             (\<lambda>(p', v). Inr (push_token l
                (if is_bytes prefix then TBytes v prefix else TStr v prefix) (pos l) p'))))"

end
