(* ===== verification/Lexer_FString.thy ===== *)
theory Lexer_FString
  imports Lexer
begin

text \<open>
  F-strings: \<open>lex_fstring\<close> of \<open>crates/cobrust-frontend/src/lexer.rs\<close>, with the scan of one
  interpolation, its nested strings, brackets, debug sign and format specification.
\<close>

section \<open>One interpolation\<close>

text \<open>
  The position and depth, the quote of an open nested string, and \<open>debug_equals\<close>. A turn
  goes on with a new state, or leaves the loop with the piece it pushed.
\<close>

datatype interp_turn =
    Go nat int "char option" bool
  | Leave nat int "fstring_piece option"

text \<open>The position of the brace that ends a format specification, if there is one.\<close>

fun spec_scan :: "string \<Rightarrow> nat \<Rightarrow> int \<Rightarrow> nat option" where
  "spec_scan [] p spec_depth = None"
| "spec_scan (c # r) p spec_depth =
     (if c = CHR ''{'' then spec_scan r (p + 1) (spec_depth + 1)
      else if c = CHR ''}''
        then (if spec_depth = 0 then Some p else spec_scan r (p + 1) (spec_depth - 1))
      else spec_scan r (p + 1) spec_depth)"

definition unterminated_fstring :: "lexer \<Rightarrow> nat \<Rightarrow> 'a lexed" where
  "unterminated_fstring l p = Inl (LexErr (UnterminatedFString (mk_span l (pos l) p)))"

definition interp_spec :: "lexer \<Rightarrow> nat \<Rightarrow> nat \<Rightarrow> bool \<Rightarrow> interp_turn lexed" where
  "interp_spec l i p dbg =
     and_then (slice l i p) (\<lambda>expr_text.
       case spec_scan (drop (p + 1) (bytes l)) (p + 1) 0 of
         None \<Rightarrow> unterminated_fstring l (length (bytes l))
       | Some q \<Rightarrow>
           and_then (slice l (p + 1) q) (\<lambda>spec.
             Inr (Leave (q + 1) 0 (Some (Expr (trim expr_text) dbg (Some spec))))))"

definition interp_byte :: "lexer \<Rightarrow> nat \<Rightarrow> nat \<Rightarrow> int \<Rightarrow> bool \<Rightarrow> char \<Rightarrow> interp_turn lexed" where
  "interp_byte l i p depth dbg c =
     (if c \<in> {CHR 0x27, CHR 0x22} then Inr (Go (p + 1) depth (Some c) dbg)
      else if c \<in> {CHR ''{'', CHR ''('', CHR ''[''} then Inr (Go (p + 1) (depth + 1) None dbg)
      else if c \<in> {CHR '')'', CHR '']''} then Inr (Go (p + 1) (depth - 1) None dbg)
      else if c = CHR ''}''
        then (if depth - 1 = 0
              then and_then (slice l i p)
                (\<lambda>s. Inr (Leave (p + 1) 0 (Some (Expr (trim s) dbg None))))
              else Inr (Go (p + 1) (depth - 1) None dbg))
      else if c = CHR '':'' \<and> depth = 1 then interp_spec l i p dbg
      else if c = CHR ''='' \<and> depth = 1 \<and> byte_at l (p + 1) \<noteq> Some (CHR ''='') \<and> \<not> dbg
        then Inr (Go (p + 1) depth None True)
      else and_then (current_char l p) (\<lambda>ch. Inr (Go (p + len_utf8 ch) depth None dbg)))"

definition interp_step ::
  "lexer \<Rightarrow> nat \<Rightarrow> nat \<Rightarrow> int \<Rightarrow> char option \<Rightarrow> bool \<Rightarrow> interp_turn lexed" where
  "interp_step l i p depth in_str dbg =
     (case byte_at l p of
        None \<Rightarrow> Inr (Leave p depth None)
      | Some c \<Rightarrow>
          if depth \<le> 0 then Inr (Leave p depth None)
          else (case in_str of
                  Some q \<Rightarrow>
                    Inr (if c = CHR 0x5C then Go (min (p + 2) (length (bytes l))) depth (Some q) dbg
                         else Go (p + 1) depth (if c = q then None else Some q) dbg)
                | None \<Rightarrow> interp_byte l i p depth dbg c))"

lemma interp_step_advances:
  assumes "interp_step l i p depth in_str dbg = Inr (Go p' depth' in_str' dbg')"
  shows "p < p' \<and> p < length (bytes l)"
  using assms
  by (auto simp: interp_step_def interp_byte_def interp_spec_def unterminated_fstring_def
      byte_at_eq_Some and_then_Inr_conv split: option.splits if_splits)

function interp_loop ::
  "lexer \<Rightarrow> nat \<Rightarrow> nat \<Rightarrow> int \<Rightarrow> char option \<Rightarrow> bool \<Rightarrow> (nat \<times> int \<times> fstring_piece option) lexed" where
  "interp_loop l i p depth in_str dbg =
     (case interp_step l i p depth in_str dbg of
        Inl e \<Rightarrow> Inl e
      | Inr (Leave p' depth' piece) \<Rightarrow> Inr (p', depth', piece)
      | Inr (Go p' depth' in_str' dbg') \<Rightarrow> interp_loop l i p' depth' in_str' dbg')"
  by auto
termination
  by (relation "measure (\<lambda>(l, i, p, d, s, b). length (bytes l) - p)")
    (auto dest!: interp_step_advances intro!: length_diff_less)

declare interp_loop.simps [simp del]

section \<open>The whole literal\<close>

text \<open>Position, pieces pushed and the literal text collected since the last of them.\<close>

datatype fstring_turn =
    FClosed nat "fstring_piece list" string
  | FMore nat "fstring_piece list" string

definition flush_lit :: "fstring_piece list \<Rightarrow> string \<Rightarrow> fstring_piece list" where
  "flush_lit ps lit = (if lit = [] then ps else ps @ [Lit lit])"

definition fstring_interp :: "lexer \<Rightarrow> nat \<Rightarrow> fstring_piece list \<Rightarrow> string \<Rightarrow> fstring_turn lexed" where
  "fstring_interp l p ps lit =
     and_then (interp_loop l (p + 1) (p + 1) 1 None False) (\<lambda>(p', depth, piece).
       if depth \<noteq> 0 then unterminated_fstring l p'
       else Inr (FMore p'
         (flush_lit ps lit @ (case piece of None \<Rightarrow> [] | Some e \<Rightarrow> [e])) []))"

definition fstring_step ::
  "lexer \<Rightarrow> char \<Rightarrow> bool \<Rightarrow> nat \<Rightarrow> fstring_piece list \<Rightarrow> string \<Rightarrow> fstring_turn lexed" where
  "fstring_step l quote triple p ps lit =
     (let unterminated = Inl (LexErr (UnterminatedString (mk_span l (pos l) p))) in
      case byte_at l p of
        None \<Rightarrow> unterminated
      | Some b \<Rightarrow>
          if \<not> triple \<and> b \<in> {CHR 0x0A, CHR 0x0D} then unterminated
          else if b = quote
          then (if triple \<and> two_quotes l (p + 1) quote then Inr (FClosed (p + 3) ps lit)
                else if \<not> triple then Inr (FClosed (p + 1) ps lit)
                else Inr (FMore (p + 1) ps (lit @ [b])))
          else if b \<in> {CHR ''{'', CHR ''}''} \<and> byte_at l (p + 1) = Some b
            then Inr (FMore (p + 2) ps (lit @ [b]))
          else if b = CHR ''{'' then fstring_interp l p ps lit
          else and_then (current_char l p)
            (\<lambda>ch. Inr (FMore (p + len_utf8 ch) ps (lit @ encode_utf8 ch))))"

lemma spec_scan_ge: "spec_scan r p d = Some q \<Longrightarrow> p \<le> q"
  by (induction r p d rule: spec_scan.induct) (auto split: if_splits)

lemma interp_spec_leave: "interp_spec l i p dbg = Inr (Leave p' d piece) \<Longrightarrow> p \<le> p'"
  unfolding interp_spec_def and_then_Inr_conv
  by (elim exE conjE) (simp add: and_then_Inr_conv unterminated_fstring_def split: option.split_asm, use spec_scan_ge in fastforce)

lemma interp_byte_leave: "interp_byte l i p depth dbg c = Inr (Leave p' d piece) \<Longrightarrow> p \<le> p'"
  unfolding interp_byte_def
  by (simp add: and_then_Inr_conv split: if_split_asm) (elim exE conjE interp_spec_leave; simp)+
lemma interp_step_leave:
  "interp_step l i p depth in_str dbg = Inr (Leave p' depth' piece) \<Longrightarrow> p \<le> p'"
  by (auto simp: interp_step_def dest: interp_byte_leave split: option.splits if_splits)

lemma interp_loop_ge:
  "interp_loop l i p depth in_str dbg = Inr (p', depth', piece) \<Longrightarrow> p \<le> p'"
proof (induction l i p depth in_str dbg rule: interp_loop.induct)
  case (1 l i p depth in_str dbg)
  show ?case
  proof (cases "interp_step l i p depth in_str dbg")
    case (Inr t)
    show ?thesis
    proof (cases t)
      case (Go q d s b)
      with Inr "1.prems" have "interp_loop l i q d s b = Inr (p', depth', piece)"
        by (simp add: interp_loop.simps [of l i p])
      with "1.IH" [OF Inr Go] have "q \<le> p'" by blast
      with interp_step_advances Inr Go show ?thesis by fastforce
    next
      case (Leave q d pc)
      with Inr "1.prems" interp_step_leave show ?thesis
        by (fastforce simp: interp_loop.simps [of l i p])
    qed
  qed (use "1.prems" in \<open>simp add: interp_loop.simps [of l i p]\<close>)
qed

lemma fstring_step_advances:
  assumes "fstring_step l q triple p ps lit = Inr (FMore p' ps' lit')"
  shows "p < p' \<and> p < length (bytes l)"
  using assms
  by (auto simp: fstring_step_def fstring_interp_def Let_def byte_at_eq_Some and_then_Inr_conv
      unterminated_fstring_def dest!: interp_loop_ge split: option.splits if_splits prod.splits)

function fstring_loop ::
  "lexer \<Rightarrow> char \<Rightarrow> bool \<Rightarrow> nat \<Rightarrow> fstring_piece list \<Rightarrow> string \<Rightarrow> (nat \<times> fstring_piece list) lexed" where
  "fstring_loop l quote triple p ps lit =
     (case fstring_step l quote triple p ps lit of
        Inl e \<Rightarrow> Inl e
      | Inr (FClosed p' ps' lit') \<Rightarrow> Inr (p', flush_lit ps' lit')
      | Inr (FMore p' ps' lit') \<Rightarrow> fstring_loop l quote triple p' ps' lit')"
  by auto
termination
  by (relation "measure (\<lambda>(l, q, t, p, ps, lit). length (bytes l) - p)")
    (auto dest!: fstring_step_advances intro!: length_diff_less)

declare fstring_loop.simps [simp del]

definition lex_fstring :: "lexer \<Rightarrow> nat \<Rightarrow> lexer lexed" where
  "lex_fstring l p =
     (case byte_at l p of
        None \<Rightarrow> Inl LexPanic
      | Some quote \<Rightarrow>
          (let triple = two_quotes l (p + 1) quote in
           and_then (fstring_loop l quote triple (p + (if triple then 3 else 1)) [] [])
             (\<lambda>(p', ps). Inr (push_token l (TFString ps) (pos l) p'))))"

end
