(* ===== verification/Lexer_Run.thy ===== *)
theory Lexer_Run
  imports Lexer_FString
begin

text \<open>
  The main loop of the lexer: words, the dispatch on the first byte of a token, the
  separators between tokens, \<open>run\<close>, \<open>lex\<close> and \<open>lex_bytes\<close>.
\<close>

section \<open>Words\<close>

definition word_token :: "unicode \<Rightarrow> string \<Rightarrow> token_kind" where
  "word_token u w =
     (if w = ''inf'' then TFloat ''inf'' else if w = ''nan'' then TFloat ''nan''
      else case match_keyword w of Some kw \<Rightarrow> kw | None \<Rightarrow> TIdent (uni_nfkc u w))"

text \<open>A lone underscore; any following byte counts as a continuation, as in the code.\<close>

definition is_continuation :: "char option \<Rightarrow> bool" where
  "is_continuation nxt =
     (case nxt of
        Some c \<Rightarrow> if ascii_alphanumeric (byte c) \<or> c = CHR ''_'' then True else True
      | None \<Rightarrow> False)"

definition finish_word :: "unicode \<Rightarrow> lexer \<Rightarrow> nat \<Rightarrow> string \<Rightarrow> lexer lexed" where
  "finish_word u l p w =
     (if byte_at l p \<in> {Some (CHR 0x22), Some (CHR 0x27)} \<and> is_string_prefix w
      then (if is_fstring_prefix w then lex_fstring l p else lex_string l (parse_str_prefix w) p)
      else Inr (push_token l (word_token u w) (pos l) p))"

definition lex_word_or_string_with_prefix :: "unicode \<Rightarrow> lexer \<Rightarrow> lexer lexed" where
  "lex_word_or_string_with_prefix u l =
     and_then (current_char l (pos l)) (\<lambda>first_ch.
       if first_ch = 95 \<and> \<not> is_continuation (byte_at l (pos l + 1))
       then Inr (push_token l TUnderscore (pos l) (pos l + 1))
       else if \<not> is_xid_start u first_ch \<and> first_ch \<noteq> 95
       then Inl (LexErr (UnexpectedChar first_ch (mk_span l (pos l) (pos l + len_utf8 first_ch))))
       else and_then (scan_word u l (pos l + len_utf8 first_ch)) (\<lambda>p.
         and_then (slice l (pos l) p) (finish_word u l p)))"

section \<open>Dispatch\<close>

definition prev_token_completes_postfix :: "lexer \<Rightarrow> bool" where
  "prev_token_completes_postfix l =
     (out l \<noteq> [] \<and>
      (case kind (last (out l)) of
         TIdent _ \<Rightarrow> True | TInt _ \<Rightarrow> True | TOp p \<Rightarrow> p \<in> {RParen, RBracket}
       | TStr _ _ \<Rightarrow> True | TBytes _ _ \<Rightarrow> True | _ \<Rightarrow> False))"

text \<open>The first alternative whose text starts at the position, longest first.\<close>

fun first_match :: "lexer \<Rightarrow> (string \<times> op) list \<Rightarrow> op \<Rightarrow> lexer" where
  "first_match l [] k = simple l k 1"
| "first_match l ((s, k') # alts) k =
     (if starts_with l s then simple l k' (length s) else first_match l alts k)"

definition brackets :: "(char \<times> op) list" where
  "brackets = [(CHR ''('', LParen), (CHR '')'', RParen), (CHR ''['', LBracket),
     (CHR '']'', RBracket), (CHR ''{'', LBrace), (CHR ''}'', RBrace)]"

definition single_ops :: "(char \<times> op) list" where
  "single_ops = [(CHR '','', Comma), (CHR '';'', Semicolon), (CHR ''@'', At), (CHR ''~'', Tilde)]"

definition assign_ops :: "(char \<times> op \<times> op) list" where
  "assign_ops = [(CHR ''+'', Plus, PlusEq), (CHR ''%'', Percent, PercentEq),
     (CHR ''&'', Amp, AmpEq), (CHR ''|'', Pipe, PipeEq), (CHR ''^'', Caret, CaretEq)]"

definition long_ops :: "(char \<times> (string \<times> op) list \<times> op) list" where
  "long_ops =
     [(CHR '':'', [('':='', Walrus)], Colon),
      (CHR ''-'', [(''->'', Arrow), (''-='', MinusEq)], Minus),
      (CHR ''*'', [(''**='', StarStarEq), (''**'', StarStar), (''*='', StarEq)], Star),
      (CHR ''/'', [(''//='', SlashSlashEq), (''//'', SlashSlash), (''/='', SlashEq)], Slash),
      (CHR ''<'', [(''<<='', ShlEq), (''<<'', Shl), (''<='', LtEq)], Lt),
      (CHR ''>'', [(''>>='', ShrEq), (''>>'', Shr), (''>='', GtEq)], Gt),
      (CHR ''='', [(''=='', EqEq)], Eq)]"

definition lex_dot :: "lexer \<Rightarrow> lexer lexed" where
  "lex_dot l =
     (if starts_with l ''...'' then Inr (simple l DotDotDot 3)
      else if (case byte_at l (pos l + 1) of Some c \<Rightarrow> is_ascii_digit c | None \<Rightarrow> False)
              \<and> \<not> prev_token_completes_postfix l
        then lex_number l
      else Inr (simple l Dot 1))"

definition lex_bang :: "lexer \<Rightarrow> lexer lexed" where
  "lex_bang l =
     (if starts_with l ''!='' then Inr (simple l NotEq 2)
      else Inl (LexErr (UnexpectedChar 33 (mk_span l (pos l) (pos l + 1)))))"

definition lex_one_token :: "unicode \<Rightarrow> lexer \<Rightarrow> char \<Rightarrow> lexer lexed" where
  "lex_one_token u l b =
     (case map_of brackets b of Some k \<Rightarrow> Inr (single l k) | None \<Rightarrow>
      case map_of single_ops b of Some k \<Rightarrow> Inr (simple l k 1) | None \<Rightarrow>
      case map_of assign_ops b of Some (k, k') \<Rightarrow> Inr (maybe_eq l k k') | None \<Rightarrow>
      case map_of long_ops b of Some (alts, k) \<Rightarrow> Inr (first_match l alts k) | None \<Rightarrow>
        if b = CHR ''.'' then lex_dot l
        else if b = CHR ''!'' then lex_bang l
        else if b \<in> {CHR 0x27, CHR 0x22}
          then lex_string l \<lparr>raw = False, is_bytes = False\<rparr> (pos l)
        else if is_ascii_digit b then lex_number l
        else lex_word_or_string_with_prefix u l)"

section \<open>The main loop\<close>

definition newline_step :: "lexer \<Rightarrow> lexer" where
  "newline_step l =
     (let l' = consume_newline l
      in if bracket_depth l' = 0 then (emit_newline_if_needed l')\<lparr>at_line_start := True\<rparr> else l')"

text \<open>The \<open>match\<close> on the byte at the position.\<close>

definition lex_byte :: "unicode \<Rightarrow> lexer \<Rightarrow> lexer lexed" where
  "lex_byte u l =
     (case byte_at l (pos l) of
        None \<Rightarrow> Inl LexPanic
      | Some b \<Rightarrow>
          if b \<in> {CHR '' '', CHR 0x09} then Inr (l\<lparr>pos := pos l + 1\<rparr>)
          else if b = CHR ''#''
            then Inr (l\<lparr>pos := skip_while l (\<lambda>c. c \<noteq> CHR 0x0A) (pos l)\<rparr>)
          else if b = CHR 0x5C \<and> byte_at l (pos l + 1) = Some (CHR 0x0A)
            then Inr (l\<lparr>pos := pos l + 2\<rparr>)
          else if b = CHR 0x5C \<and> byte_at l (pos l + 1) = Some (CHR 0x0D)
            then Inr (l\<lparr>pos := pos l + (if byte_at l (pos l + 2) = Some (CHR 0x0A) then 3 else 2)\<rparr>)
          else if b \<in> {CHR 0x0A, CHR 0x0D} then Inr (newline_step l)
          else lex_one_token u l b)"

definition line_start :: "lexer \<Rightarrow> lexer lexed" where
  "line_start l = (if at_line_start l \<and> bracket_depth l = 0 then handle_line_start l else Inr l)"

subsection \<open>Every turn advances\<close>

text \<open>
  The effect of lexing one token: a token that is no layout token is pushed with the span
  from the old to the new position, and only the bracket depth may change besides.
\<close>

definition layout :: "token_kind \<Rightarrow> bool" where
  "layout k \<longleftrightarrow> k \<in> {TNewline, TIndent, TDedent, TEof}"

definition bracket_effect :: "token_kind \<Rightarrow> int \<Rightarrow> int" where
  "bracket_effect k d =
     (if k \<in> {TOp LParen, TOp LBracket, TOp LBrace} then d + 1
      else if k \<in> {TOp RParen, TOp RBracket, TOp RBrace} then max (d - 1) 0 else d)"

definition emits :: "lexer \<Rightarrow> token_kind \<Rightarrow> nat \<Rightarrow> lexer \<Rightarrow> bool" where
  "emits l k p l' \<longleftrightarrow>
     pos l < p \<and> \<not> layout k \<and>
     l' = push_token (l\<lparr>bracket_depth := bracket_effect k (bracket_depth l)\<rparr>) k (pos l) p"

definition plain :: "token_kind \<Rightarrow> bool" where
  "plain k \<longleftrightarrow> \<not> layout k \<and>
     k \<notin> {TOp LParen, TOp LBracket, TOp LBrace, TOp RParen, TOp RBracket, TOp RBrace}"

lemma plain_simps [simp]:
  "plain (TIdent s)" "plain (TInt s)" "plain (TFloat s)" "plain (TImag s)" "plain (TStr s f)"
  "plain (TBytes s f)" "plain (TFString ps)" "plain (TKw w)" "plain TUnderscore"
  by (simp_all add: plain_def layout_def)

lemma emits_push [intro]:
  "pos l < p \<Longrightarrow> plain k \<Longrightarrow> emits l k p (push_token l k (pos l) p)"
  by (auto simp: emits_def plain_def bracket_effect_def)

lemma emits_push_ex [intro]:
  "pos l < p \<Longrightarrow> plain k \<Longrightarrow> \<exists>k' p'. emits l k' p' (push_token l k (pos l) p)"
  by (blast intro: emits_push)

lemma emits_simple: "0 < n \<Longrightarrow> plain (TOp k) \<Longrightarrow> emits l (TOp k) (pos l + n) (simple l k n)"
  by (auto simp: simple_def)

lemma mk_span_depth [simp]: "mk_span (l\<lparr>bracket_depth := d\<rparr>) = mk_span l"
  by (simp add: mk_span_def fun_eq_iff)

lemma emits_single: "emits l (TOp k) (pos l + 1) (single l k)"
proof -
  have "single l k = simple (l\<lparr>bracket_depth := bracket_effect (TOp k) (bracket_depth l)\<rparr>) k 1"
    by (simp add: single_def bracket_effect_def)
  then show ?thesis by (simp add: emits_def simple_def layout_def)
qed

lemma emits_maybe_eq: "plain (TOp a) \<Longrightarrow> plain (TOp b) \<Longrightarrow> \<exists>k p. emits l k p (maybe_eq l a b)"
  using emits_simple [of 1] emits_simple [of 2] by (fastforce simp: maybe_eq_def)

lemma emits_first_match:
  "list_all (\<lambda>(s, k). s \<noteq> [] \<and> plain (TOp k)) alts \<Longrightarrow> plain (TOp k0) \<Longrightarrow>
     \<exists>k p. emits l k p (first_match l alts k0)"
proof (induction alts)
  case Nil
  then show ?case using emits_simple [of 1 k0 l] by auto
next
  case (Cons a alts)
  then show ?case
    using emits_simple [of "length (fst a)" "snd a" l] by (cases a; cases "starts_with l (fst a)") auto
qed

lemma skip_while_ge: "p \<le> skip_while l valid p"
  by (simp add: skip_while_def)

lemma number_token_Inr:
  "number_token l k p = Inr l' \<longleftrightarrow> (\<exists>text. slice l (pos l) p = Inr text \<and> l' = push_token l (k text) (pos l) p)"
  by (auto simp: number_token_def and_then_Inr_conv)

lemma scan_fraction_ge: "scan_fraction l (p, f) = (p', f') \<Longrightarrow> p \<le> p'"
  using skip_while_ge [of "p + 1" l]
  by (auto simp: scan_fraction_def digits_from_def split: option.splits if_splits intro: Suc_leD)

lemma scan_exponent_ge: "scan_exponent l (p, f) = Inr (p', f') \<Longrightarrow> p \<le> p'"
  using skip_while_ge [of "p + 1" l] skip_while_ge [of "p + 2" l]
  by (auto simp: scan_exponent_def digits_from_def malformed_def Let_def split: if_splits
      intro: Suc_leD)

lemma digits_from_gt:
  "byte_at l p = Some c \<Longrightarrow> is_ascii_digit c \<Longrightarrow> p < digits_from l p"
  by (cases "drop p (bytes l)")
    (auto simp: digits_from_def skip_while_def byte_at_eq_Some hd_drop_conv_nth [symmetric])

lemma scan_whole_gt:
  assumes "byte_at l (pos l) = Some c" "is_ascii_digit c \<or> c = CHR ''.''" "scan_whole l = Inr (p, f)"
  shows "pos l < p"
  using assms digits_from_gt [of l "pos l" c] digits_from_gt [of l "pos l + 1"]
  by (auto simp: scan_whole_def malformed_def split: if_splits option.splits intro: Suc_lessD)

lemma lex_number_ends:
  assumes "lex_number l = Inr l'" "byte_at l (pos l) = Some c" "is_ascii_digit c \<or> c = CHR ''.''"
  obtains k p w where "pos l < p" "slice l (pos l) p = Inr w" "k \<in> {TInt, TFloat, TImag}"
    "l' = push_token l (k w) (pos l) p"
proof (cases "if byte_at l (pos l) = Some (CHR ''0'')
            then Option.bind (byte_at l (pos l + 1)) radix_digits else None")
  case (Some valid)
  with assms(1) have "lex_radix l valid = Inr l'" by (simp add: lex_number_def)
  then show ?thesis
    using skip_while_ge [of "pos l + 2" l valid]
    by (auto simp: lex_radix_def Let_def malformed_def number_token_Inr split: if_splits
        intro!: that [of "skip_while l valid (pos l + 2)" _ TInt])
next
  case None
  with assms(1) have "lex_decimal l = Inr l'" unfolding lex_number_def by simp
  then obtain q f p is_float where s: "scan_whole l = Inr (q, f)"
      "scan_exponent l (scan_fraction l (q, f)) = Inr (p, is_float)"
    and n: "(if byte_at l p \<in> {Some (CHR ''j''), Some (CHR ''J'')} then number_token l TImag (p + 1)
         else number_token l (if is_float then TFloat else TInt) p) = Inr l'"
    by (auto simp: lex_decimal_def and_then_Inr_conv)
  obtain q' f' where s': "scan_fraction l (q, f) = (q', f')" by fastforce
  have "pos l < q" using scan_whole_gt [OF assms(2,3) s(1)] .
  moreover have "q \<le> q'" using scan_fraction_ge s' by blast
  moreover have "q' \<le> p" using scan_exponent_ge s(2) unfolding s' by blast
  ultimately have "pos l < p" by linarith
  with n show ?thesis
    using that [of "p + 1" _ TImag] that [of p _ TFloat] that [of p _ TInt]
    unfolding number_token_Inr by (auto simp: number_token_Inr split: if_split_asm)
qed

lemma emits_number:
  assumes "lex_number l = Inr l'" "byte_at l (pos l) = Some c" "is_ascii_digit c \<or> c = CHR ''.''"
  shows "\<exists>k p. emits l k p l'"
  using lex_number_ends [OF assms] emits_push
  by (metis insertE singletonD plain_simps(2-4))

lemma string_loop_ge: "string_loop l q triple prefix p v = Inr (p', v') \<Longrightarrow> p < p'"
proof (induction l q triple prefix p v rule: string_loop.induct)
  case (1 l q triple prefix p v)
  show ?case
  proof (cases "string_step l q triple prefix p v")
    case (Inr t)
    show ?thesis
    proof (cases t)
      case (More p1 v1)
      with Inr "1.prems" have "string_loop l q triple prefix p1 v1 = Inr (p', v')"
        by (simp add: string_loop.simps [of l q triple prefix p])
      with "1.IH" [OF Inr More] have "p1 < p'" by blast
      with string_step_advances Inr More show ?thesis by fastforce
    next
      case (Closed p1 v1)
      have "p < p1"
        using Inr unfolding Closed string_step_def string_escape_def
        by (auto simp: Let_def and_then_Inr_conv split: option.split_asm if_split_asm)
      with Inr Closed "1.prems" show ?thesis by (simp add: string_loop.simps [of l q triple prefix p])
    qed
  qed (use "1.prems" in \<open>simp add: string_loop.simps [of l q triple prefix p]\<close>)
qed

lemma fstring_loop_ge: "fstring_loop l q triple p ps lit = Inr (p', ps') \<Longrightarrow> p < p'"
proof (induction l q triple p ps lit rule: fstring_loop.induct)
  case (1 l q triple p ps lit)
  show ?case
  proof (cases "fstring_step l q triple p ps lit")
    case (Inr t)
    show ?thesis
    proof (cases t)
      case (FMore p1 ps1 lit1)
      with Inr "1.prems" have "fstring_loop l q triple p1 ps1 lit1 = Inr (p', ps')"
        by (simp add: fstring_loop.simps [of l q triple p])
      with "1.IH" [OF Inr FMore] have "p1 < p'" by blast
      with fstring_step_advances Inr FMore show ?thesis by fastforce
    next
      case (FClosed p1 ps1 lit1)
      have "p < p1"
        using Inr unfolding FClosed fstring_step_def fstring_interp_def unterminated_fstring_def
        by (auto simp: Let_def and_then_Inr_conv split: option.split_asm if_split_asm)
      with Inr FClosed "1.prems" show ?thesis by (simp add: fstring_loop.simps [of l q triple p])
    qed
  qed (use "1.prems" in \<open>simp add: fstring_loop.simps [of l q triple p]\<close>)
qed

lemma lex_string_ends:
  assumes "lex_string l prefix p = Inr l'"
  obtains p' v where "p < p'"
    "l' = push_token l (if is_bytes prefix then TBytes v prefix else TStr v prefix) (pos l) p'"
proof -
  from assms obtain quote triple p' v
    where "string_loop l quote triple prefix (p + (if triple then 3 else 1)) [] = Inr (p', v)"
      and l': "l' = push_token l (if is_bytes prefix then TBytes v prefix else TStr v prefix) (pos l) p'"
    by (auto simp: lex_string_def Let_def and_then_Inr_conv split: option.split_asm)
  then have "p < p'" by (auto dest: string_loop_ge split: if_splits)
  with l' show ?thesis by (rule that [rotated])
qed

lemma lex_fstring_ends:
  assumes "lex_fstring l p = Inr l'"
  obtains p' ps where "p < p'" "l' = push_token l (TFString ps) (pos l) p'"
proof -
  from assms obtain quote triple p' ps
    where "fstring_loop l quote triple (p + (if triple then 3 else 1)) [] [] = Inr (p', ps)"
      and l': "l' = push_token l (TFString ps) (pos l) p'"
    by (auto simp: lex_fstring_def Let_def and_then_Inr_conv split: option.split_asm)
  then have "p < p'" by (auto dest: fstring_loop_ge split: if_splits)
  with l' show ?thesis by (rule that [rotated])
qed

lemma emits_string: "pos l \<le> p \<Longrightarrow> lex_string l prefix p = Inr l' \<Longrightarrow> \<exists>k p. emits l k p l'"
  by (erule lex_string_ends) (fastforce split: if_splits)

lemma emits_fstring: "pos l \<le> p \<Longrightarrow> lex_fstring l p = Inr l' \<Longrightarrow> \<exists>k p. emits l k p l'"
  by (erule lex_fstring_ends) fastforce

lemma scan_word_ge: "scan_word u l p = Inr p' \<Longrightarrow> p \<le> p'"
proof (induction u l p rule: scan_word.induct)
  case (1 u l p)
  show ?case
    using "1.prems" "1.IH" len_utf8_pos
    by (subst (asm) scan_word.simps) (fastforce split: if_splits sum.splits)
qed

lemma word_token_plain [simp]: "plain (word_token u w)"
  by (auto simp: word_token_def match_keyword_def split: option.splits)

lemma emits_word:
  assumes "lex_word_or_string_with_prefix u l = Inr l'"
  shows "\<exists>k p. emits l k p l'"
proof -
  from assms obtain ch where ch: "current_char l (pos l) = Inr ch"
    by (auto simp: lex_word_or_string_with_prefix_def and_then_Inr_conv)
  show ?thesis
  proof (cases "ch = 95 \<and> \<not> is_continuation (byte_at l (pos l + 1))")
    case True
    with ch assms have "l' = push_token l TUnderscore (pos l) (pos l + 1)"
      by (simp add: lex_word_or_string_with_prefix_def)
    then show ?thesis by (simp add: emits_push_ex)
  next
    case False
    with assms ch obtain p w where p: "scan_word u l (pos l + len_utf8 ch) = Inr p"
      and l': "finish_word u l p w = Inr l'"
      unfolding lex_word_or_string_with_prefix_def
      by (auto simp: and_then_Inr_conv split: if_split_asm)
    from p have "pos l < p"
      using scan_word_ge [of u l "pos l + len_utf8 ch" p] len_utf8_pos(1) [of ch] by linarith
    with l' show ?thesis
      using emits_string [of l p _ l'] emits_fstring [of l p l']
      by (auto simp: finish_word_def split: if_split_asm)
  qed
qed

text \<open>The turn of the main loop: a token is emitted, or separators are skipped.\<close>

lemma op_plain: "plain (TOp DotDotDot)" "plain (TOp Dot)" "plain (TOp NotEq)"
  by (simp_all add: plain_def layout_def)

lemma ops_plain:
  "map_of single_ops b = Some k \<Longrightarrow> plain (TOp k)"
  "map_of assign_ops b = Some (k, k') \<Longrightarrow> plain (TOp k) \<and> plain (TOp k')"
  "map_of long_ops b = Some (alts, k) \<Longrightarrow>
     list_all (\<lambda>(s, k). s \<noteq> [] \<and> plain (TOp k)) alts \<and> plain (TOp k)"
  by (auto simp: single_ops_def assign_ops_def long_ops_def plain_def layout_def split: if_split_asm)

lemma emits_one_token:
  assumes "lex_one_token u l b = Inr l'" "byte_at l (pos l) = Some b"
  shows "\<exists>k p. emits l k p l'"
proof -
  consider k where "l' = single l k" | k where "l' = simple l k 1" "plain (TOp k)"
    | k k' where "l' = maybe_eq l k k'" "plain (TOp k)" "plain (TOp k')"
    | alts k where "map_of long_ops b = Some (alts, k)" "l' = first_match l alts k"
    | "b = CHR ''.''" "lex_dot l = Inr l'" | "lex_bang l = Inr l'"
    | "lex_string l \<lparr>raw = False, is_bytes = False\<rparr> (pos l) = Inr l'"
    | "is_ascii_digit b" "lex_number l = Inr l'"
    | "lex_word_or_string_with_prefix u l = Inr l'"
    using assms(1) ops_plain(1,2) unfolding lex_one_token_def
    by (auto split: option.split_asm if_split_asm)
  then show ?thesis
  proof cases
    case 1
    then show ?thesis using emits_single by blast
  next
    case 2
    then show ?thesis using emits_simple [of 1] by fastforce
  next
    case (3 k k')
    then show ?thesis using emits_maybe_eq by blast
  next
    case 4
    then show ?thesis using emits_first_match ops_plain(3) by blast
  next
    case 5
    then show ?thesis
      using emits_simple [of 3 DotDotDot l] emits_simple [of 1 Dot l] emits_number assms(2) op_plain
      by (auto simp: lex_dot_def split: if_split_asm)
  next
    case 6
    then show ?thesis
      using emits_simple [of 2 NotEq l] op_plain by (auto simp: lex_bang_def split: if_split_asm)
  next
    case 7
    then show ?thesis using emits_string by blast
  next
    case 8
    then show ?thesis using emits_number assms(2) by blast
  next
    case 9
    then show ?thesis by (rule emits_word)
  qed
qed

lemma emits_advances:
  "emits l k p l' \<Longrightarrow> bytes l' = bytes l \<and> file_id l' = file_id l \<and> pos l < pos l'"
  by (auto simp: emits_def push_token_def)

lemma consume_newline_advances:
  "bytes (consume_newline l) = bytes l \<and> file_id (consume_newline l) = file_id l \<and>
     pos l < pos (consume_newline l)"
  by (simp add: consume_newline_def)

lemma newline_step_advances:
  "bytes (newline_step l) = bytes l \<and> file_id (newline_step l) = file_id l \<and>
     pos l < pos (newline_step l)"
  using consume_newline_advances [of l] by (simp add: newline_step_def emit_newline_if_needed_def Let_def)

lemma skip_comment_gt:
  "byte_at l p = Some b \<Longrightarrow> valid b \<Longrightarrow> p < skip_while l valid p"
  by (cases "drop p (bytes l)")
    (auto simp: skip_while_def byte_at_eq_Some hd_drop_conv_nth [symmetric])

lemma lex_byte_advances:
  assumes "lex_byte u l = Inr l'"
  shows "bytes l' = bytes l \<and> file_id l' = file_id l \<and> pos l < pos l' \<and> pos l < length (bytes l)"
proof -
  from assms obtain b where b: "byte_at l (pos l) = Some b"
    by (cases "byte_at l (pos l)") (auto simp: lex_byte_def)
  then have len: "pos l < length (bytes l)" by (simp add: byte_at_eq_Some)
  show ?thesis
    using assms b len skip_comment_gt [OF b] newline_step_advances [of l] emits_one_token [OF _ b]
    by (auto simp: lex_byte_def dest!: emits_advances split: if_split_asm)
qed

lemma leading_blanks_ge:
  "leading_blanks r (p, n, t, s) = (p', n', t', s') \<Longrightarrow> p \<le> p'"
  by (induction r "(p, n, t, s)" arbitrary: p n t s rule: leading_blanks.induct)
    (fastforce split: if_split_asm)+

text \<open>What the start of a line does: nothing but skip it, one level more, or some levels less.\<close>

lemma handle_line_start_cases:
  assumes "handle_line_start l = Inr l'"
  obtains p spaces t s
  where "leading_blanks (drop (pos l) (bytes l)) (pos l, 0, False, False) = (p, spaces, t, s)"
    "pos l \<le> p" "\<not> (t \<and> s)"
    "(l' = l\<lparr>pos := p\<rparr> \<and>
        byte_at l p \<in> {None, Some (CHR 0x0A), Some (CHR 0x0D), Some (CHR ''#'')}) \<or>
     (\<exists>i is. indents l = i # is \<and> i < spaces \<and> l' = indent_to l p spaces) \<or>
     (\<exists>is n. pop_levels (indents l) spaces = Inr (spaces # is, n) \<and>
        l' = dedent_to l p (spaces # is) n)"
proof -
  obtain p n t s where lb: "leading_blanks (drop (pos l) (bytes l)) (pos l, 0, False, False) = (p, n, t, s)"
    by (metis surj_pair)
  then have "pos l \<le> p" by (rule leading_blanks_ge)
  moreover have "\<not> (t \<and> s)"
    using assms lb by (auto simp: handle_line_start_def inconsistent_indent_def)
  moreover have "(l' = l\<lparr>pos := p\<rparr> \<and>
        byte_at l p \<in> {None, Some (CHR 0x0A), Some (CHR 0x0D), Some (CHR ''#'')}) \<or>
     (\<exists>i is. indents l = i # is \<and> i < n \<and> l' = indent_to l p n) \<or>
     (\<exists>is k. pop_levels (indents l) n = Inr (n # is, k) \<and> l' = dedent_to l p (n # is) k)"
    using assms lb
    by (cases "indents l")
      (fastforce simp: handle_line_start_def inconsistent_indent_def and_then_Inr_conv neq_Nil_conv
        split: if_split_asm)+
  ultimately show ?thesis using lb that by blast
qed

lemma line_start_advances:
  assumes "line_start l = Inr l'"
  shows "bytes l' = bytes l \<and> file_id l' = file_id l \<and> pos l \<le> pos l'"
proof (cases "at_line_start l \<and> bracket_depth l = 0")
  case True
  with assms have "handle_line_start l = Inr l'" by (simp add: line_start_def)
  then show ?thesis
    by (rule handle_line_start_cases) (auto simp: indent_to_def dedent_to_def)
qed (use assms in \<open>simp add: line_start_def split: if_split_asm\<close>)

subsection \<open>The loop\<close>

definition lex_turn :: "unicode \<Rightarrow> lexer \<Rightarrow> lexer lexed" where
  "lex_turn u l =
     and_then (line_start l) (\<lambda>l'.
       if length (bytes l') \<le> pos l' then Inr l' else lex_byte u l')"

lemma lex_turn_advances:
  assumes "lex_turn u l = Inr l'" "pos l < length (bytes l)"
  shows "length (bytes l') - pos l' < length (bytes l) - pos l"
proof -
  from assms(1) obtain m where m: "line_start l = Inr m"
    "(if length (bytes m) \<le> pos m then Inr m else lex_byte u m) = Inr l'"
    by (auto simp: lex_turn_def and_then_Inr_conv)
  with line_start_advances [OF m(1)] lex_byte_advances [of u m l'] assms(2) show ?thesis
    by (auto split: if_split_asm)
qed

text \<open>\<open>while self.pos < self.bytes.len() { ... }\<close>\<close>

function run_loop :: "unicode \<Rightarrow> lexer \<Rightarrow> lexer lexed" where
  "run_loop u l =
     (if pos l < length (bytes l)
      then (case lex_turn u l of Inl e \<Rightarrow> Inl e | Inr l' \<Rightarrow> run_loop u l') else Inr l)"
  by auto
termination
  by (relation "measure (\<lambda>(u, l). length (bytes l) - pos l)") (auto dest: lex_turn_advances)

declare run_loop.simps [simp del]

definition flush_indents :: "lexer \<Rightarrow> lexer" where
  "flush_indents l =
     (let l' = emit_newline_if_needed l; p = mk_span l (pos l) (pos l) in
      l'\<lparr>indents := drop (length (indents l') - 1) (indents l'),
         out := out l' @ replicate (length (indents l') - 1) (token_new TDedent p)
                  @ [token_new TEof p]\<rparr>)"

definition run :: "unicode \<Rightarrow> lexer \<Rightarrow> token list lexed" where
  "run u l = and_then (run_loop u l) (\<lambda>l'. Inr (out (flush_indents l')))"

definition lex :: "unicode \<Rightarrow> string \<Rightarrow> u32 \<Rightarrow> token list lexed" where
  "lex u src f = run u (lexer_new src f)"

definition lex_bytes :: "unicode \<Rightarrow> string \<Rightarrow> u32 \<Rightarrow> token list lexed" where
  "lex_bytes u bs f =
     (case from_utf8 bs of
        Inl n \<Rightarrow> Inl (LexErr (InvalidUtf8 (word_of_nat n)))
      | Inr s \<Rightarrow> lex u s f)"

end
