(* ===== verification/Lexer_Safe.thy ===== *)
theory Lexer_Safe
  imports Lexer_Run
begin

text \<open>
  The lexer keeps its position on character boundaries of a well-formed source, so that no
  slice, index or decoding of it panics, and every \<open>String\<close> it builds is well-formed.
\<close>

section \<open>Panic-free results\<close>

text \<open>
  An error of a well-formed source: neither a panic nor the report of invalid UTF-8, which
  \<open>current_char\<close> makes at the end of the source only.
\<close>

fun genuine :: "lex_fault \<Rightarrow> bool" where
  "genuine LexPanic = False"
| "genuine (LexErr (InvalidUtf8 n)) = False"
| "genuine e = True"

definition ok_res :: "('a \<Rightarrow> bool) \<Rightarrow> 'a lexed \<Rightarrow> bool" where
  "ok_res P r \<longleftrightarrow> (case r of Inl e \<Rightarrow> genuine e | Inr x \<Rightarrow> P x)"

lemma ok_res_simps [simp]:
  "ok_res P (Inr x) \<longleftrightarrow> P x"
  "ok_res P (Inl e) \<longleftrightarrow> genuine e"
  by (simp_all add: ok_res_def)

lemma ok_res_bind:
  "ok_res P r \<Longrightarrow> (\<And>x. r = Inr x \<Longrightarrow> P x \<Longrightarrow> ok_res Q (f x)) \<Longrightarrow> ok_res Q (and_then r f)"
  by (cases r) (simp_all add: ok_res_def)

lemma ok_res_mono: "ok_res P r \<Longrightarrow> (\<And>x. r = Inr x \<Longrightarrow> P x \<Longrightarrow> Q x) \<Longrightarrow> ok_res Q r"
  by (cases r) (simp_all add: ok_res_def)

lemma ok_res_errors [simp]:
  "ok_res P (malformed l p)" "ok_res P (unterminated_fstring l p)" "ok_res P (inconsistent_indent l p)"
  by (simp_all add: malformed_def unterminated_fstring_def inconsistent_indent_def)

section \<open>Positions on character boundaries\<close>

abbreviation on_char :: "lexer \<Rightarrow> nat \<Rightarrow> bool" where
  "on_char l p \<equiv> is_boundary (bytes l) p"

text \<open>An ASCII byte at \<open>p\<close> makes \<open>p\<close> and \<open>p + 1\<close> boundaries.\<close>

lemma on_char_ascii: "byte_at l p = Some c \<Longrightarrow> byte c < 128 \<Longrightarrow> on_char l p"
  by (simp add: byte_at_eq_Some boundary_ascii)

lemma on_char_next:
  "utf8 (bytes l) \<Longrightarrow> byte_at l p = Some c \<Longrightarrow> byte c < 128 \<Longrightarrow> on_char l (p + 1)"
  by (auto simp: byte_at_eq_Some dest: boundary_ascii_Suc)

lemma current_char_ok:
  assumes "utf8 (bytes l)" "on_char l p" "p < length (bytes l)"
  shows "ok_res (\<lambda>ch. on_char l (p + len_utf8 ch) \<and> scalar ch \<and> utf8 (encode_utf8 ch)) (current_char l p)"
  using assms boundary_char(1,2) [of "bytes l" p] boundary_le [of "bytes l" p]
  by (auto simp: current_char_def)

definition source_text :: "lexer \<Rightarrow> nat \<Rightarrow> nat \<Rightarrow> string" where
  "source_text l a b = take (b - a) (drop a (bytes l))"

lemma slice_ok:
  assumes "utf8 (bytes l)" "on_char l a" "on_char l b" "a \<le> b"
  shows "ok_res (\<lambda>s. utf8 s \<and> s = source_text l a b) (slice l a b)"
  using assms str_range_utf8 [of "bytes l" a b]
  by (auto simp: slice_def str_range_def source_text_def)

lemma on_char_takeWhile:
  assumes "utf8 s" "is_boundary s p" "\<And>c. valid c \<Longrightarrow> byte c < 128"
  shows "is_boundary s (p + length (takeWhile valid (drop p s)))"
proof (cases "takeWhile valid (drop p s) = []")
  case False
  let ?n = "length (takeWhile valid (drop p s))"
  have n: "0 < ?n" "?n \<le> length (drop p s)" using False length_takeWhile_le [of valid "drop p s"] by simp_all
  have "valid (takeWhile valid (drop p s) ! (?n - 1))"
  proof -
    have "takeWhile valid (drop p s) ! (?n - 1) \<in> set (takeWhile valid (drop p s))"
      using n by (intro nth_mem) simp
    then show ?thesis by (blast dest: set_takeWhileD)
  qed
  moreover have "p \<le> length s" by (rule ccontr) (use False in simp)
  ultimately have "valid (s ! (p + (?n - 1)))"
    using n nth_drop [of p s "?n - 1"] by (simp add: takeWhile_nth del: nth_drop)
  moreover have "p + (?n - 1) < length s" using n by (simp only: length_drop)
  ultimately have "is_boundary s (Suc (p + (?n - 1)))"
    using assms boundary_ascii_Suc by blast
  moreover have "Suc (p + (?n - 1)) = p + ?n" using n(1) by linarith
  ultimately show ?thesis by (simp only:)
qed (use assms in simp)

lemma on_char_skip:
  "utf8 (bytes l) \<Longrightarrow> on_char l p \<Longrightarrow> (\<And>c. valid c \<Longrightarrow> byte c < 128) \<Longrightarrow> on_char l (skip_while l valid p)"
  by (simp add: skip_while_def on_char_takeWhile)

lemma digits_from_ok: "utf8 (bytes l) \<Longrightarrow> on_char l p \<Longrightarrow> on_char l (digits_from l p)"
  unfolding digits_from_def by (rule on_char_skip) (auto simp: is_ascii_digit_def)

lemma on_char_until:
  assumes "p \<le> length (bytes l)" "\<And>c. \<not> valid c \<Longrightarrow> byte c < 128"
  shows "on_char l (skip_while l valid p)"
proof (cases "skip_while l valid p < length (bytes l)")
  case True
  let ?r = "drop p (bytes l)"
  from True have n: "length (takeWhile valid ?r) < length ?r" by (simp add: skip_while_def)
  then have "\<not> valid (?r ! length (takeWhile valid ?r))" by (rule nth_length_takeWhile)
  with n assms have "byte (bytes l ! skip_while l valid p) < 128" by (simp add: skip_while_def)
  with True show ?thesis by (rule boundary_ascii)
next
  case False
  have "skip_while l valid p \<le> length (bytes l)"
    using assms(1) length_takeWhile_le [of valid "drop p (bytes l)"] by (simp add: skip_while_def)
  with False show ?thesis by simp
qed

lemma leading_blanks_boundary:
  "leading_blanks r (p, n, t, s) = (p', n', t', s') \<Longrightarrow>
     p' = p + length (takeWhile (\<lambda>c. c = CHR '' '' \<or> c = CHR 0x09) r)"
  by (induction r "(p, n, t, s)" arbitrary: p n t s rule: leading_blanks.induct)
    (fastforce split: if_split_asm)+

section \<open>Well-formed payloads\<close>

definition piece_ok :: "fstring_piece \<Rightarrow> bool" where
  "piece_ok e =
     (case e of Lit s \<Rightarrow> utf8 s | Expr s _ spec \<Rightarrow> utf8 s \<and> (\<forall>f. spec = Some f \<longrightarrow> utf8 f))"

text \<open>
  Every \<open>String\<close> of the token is well-formed; for identifiers, provided the normalisation
  yields well-formed strings.
\<close>

definition kind_ok :: "unicode \<Rightarrow> token_kind \<Rightarrow> bool" where
  "kind_ok u k =
     (case k of
        TIdent s \<Rightarrow> (\<forall>w. utf8 w \<longrightarrow> utf8 (uni_nfkc u w)) \<longrightarrow> utf8 s
      | TInt s \<Rightarrow> utf8 s | TFloat s \<Rightarrow> utf8 s | TImag s \<Rightarrow> utf8 s
      | TStr s _ \<Rightarrow> utf8 s
      | TFString ps \<Rightarrow> list_all piece_ok ps
      | _ \<Rightarrow> True)"

lemma kind_ok_simps [simp]:
  "kind_ok u (TIdent s) \<longleftrightarrow> ((\<forall>w. utf8 w \<longrightarrow> utf8 (uni_nfkc u w)) \<longrightarrow> utf8 s)"
  "kind_ok u (TInt s) \<longleftrightarrow> utf8 s" "kind_ok u (TFloat s) \<longleftrightarrow> utf8 s"
  "kind_ok u (TImag s) \<longleftrightarrow> utf8 s" "kind_ok u (TStr s f) \<longleftrightarrow> utf8 s"
  "kind_ok u (TFString ps) \<longleftrightarrow> list_all piece_ok ps"
  "kind_ok u (TBytes s f)" "kind_ok u (TKw w)" "kind_ok u (TOp p)" "kind_ok u TUnderscore"
  "kind_ok u TNewline" "kind_ok u TIndent" "kind_ok u TDedent" "kind_ok u TEof"
  by (simp_all add: kind_ok_def)

text \<open>
  The text of a number, an identifier before normalisation, and in back quotes the name
  \<open>classify\<close> gives to a keyword or an operator, is the source text of the token.
\<close>

definition spelled :: "unicode \<Rightarrow> string \<Rightarrow> token_kind \<Rightarrow> bool" where
  "spelled u w k =
     (case k of
        TInt s \<Rightarrow> s = w | TFloat s \<Rightarrow> s = w | TImag s \<Rightarrow> s = w
      | TIdent s \<Rightarrow> s = uni_nfkc u w
      | TKw _ \<Rightarrow> classify k = ''`'' @ w @ ''`''
      | TOp _ \<Rightarrow> classify k = ''`'' @ w @ ''`''
      | TUnderscore \<Rightarrow> classify k = ''`'' @ w @ ''`''
      | _ \<Rightarrow> True)"

lemma spelled_simps [simp]:
  "spelled u w (TInt s) \<longleftrightarrow> s = w" "spelled u w (TFloat s) \<longleftrightarrow> s = w" "spelled u w (TImag s) \<longleftrightarrow> s = w"
  "spelled u w (TIdent s) \<longleftrightarrow> s = uni_nfkc u w"
  "spelled u w (TOp p) \<longleftrightarrow> classify_op p = ''`'' @ w @ ''`''"
  "spelled u w (TKw kw) \<longleftrightarrow> classify_keyword kw = ''`'' @ w @ ''`''"
  "spelled u w TUnderscore \<longleftrightarrow> w = ''_''"
  "spelled u w (TStr s f)" "spelled u w (TBytes s f)" "spelled u w (TFString ps)"
  "spelled u w TNewline" "spelled u w TIndent" "spelled u w TDedent" "spelled u w TEof"
  by (auto simp: spelled_def Cons_eq_append_conv)

text \<open>
  The bytes an interpolation takes at least, its two braces included; an f-string token is
  longer than its pieces by the prefix and a quote.
\<close>

fun piece_size :: "fstring_piece \<Rightarrow> nat" where
  "piece_size (Lit s) = 0"
| "piece_size (Expr s dbg spec) = length s + 2"

abbreviation pieces_size :: "fstring_piece list \<Rightarrow> nat" where
  "pieces_size ps \<equiv> sum_list (map piece_size ps)"

definition pieces_fit :: "token_kind \<Rightarrow> nat \<Rightarrow> bool" where
  "pieces_fit k n \<longleftrightarrow> (\<forall>ps. k = TFString ps \<longrightarrow> pieces_size ps + 2 \<le> n)"

lemma pieces_fit_simps [simp]:
  "pieces_fit (TFString ps) n \<longleftrightarrow> pieces_size ps + 2 \<le> n"
  "pieces_fit (TIdent s) n" "pieces_fit (TInt s) n" "pieces_fit (TFloat s) n"
  "pieces_fit (TImag s) n" "pieces_fit (TStr s f) n" "pieces_fit (TBytes s f) n"
  "pieces_fit (TKw w) n" "pieces_fit (TOp p) n" "pieces_fit TUnderscore n"
  by (simp_all add: pieces_fit_def)

lemma pieces_fit_word [simp]: "pieces_fit (word_token u w) n"
  by (auto simp: word_token_def match_keyword_def split: option.split)

text \<open>What lexing one token achieves for its final position and the token it pushes.\<close>

definition token_ok :: "unicode \<Rightarrow> lexer \<Rightarrow> lexer \<Rightarrow> bool" where
  "token_ok u l l' \<longleftrightarrow>
     on_char l (pos l') \<and> kind_ok u (kind (last (out l'))) \<and>
     pieces_fit (kind (last (out l'))) (pos l' - pos l) \<and>
     spelled u (source_text l (pos l) (pos l')) (kind (last (out l')))"

lemma token_ok_push [simp]:
  "token_ok u l (push_token l k start p) \<longleftrightarrow>
     on_char l p \<and> kind_ok u k \<and> pieces_fit k (p - pos l) \<and> spelled u (source_text l (pos l) p) k"
  by (simp add: token_ok_def push_token_def token_new_def)

lemma token_ok_push_depth [simp]:
  "token_ok u l (push_token (l\<lparr>bracket_depth := d\<rparr>) k start p) \<longleftrightarrow>
     on_char l p \<and> kind_ok u k \<and> pieces_fit k (p - pos l) \<and> spelled u (source_text l (pos l) p) k"
  by (simp add: token_ok_def push_token_def token_new_def)

section \<open>Words\<close>

lemma scan_word_ok:
  assumes "utf8 (bytes l)" "on_char l p"
  shows "ok_res (\<lambda>p'. on_char l p') (scan_word u l p)"
  using assms
proof (induction u l p rule: scan_word.induct)
  case (1 u l p)
  show ?case
  proof (cases "p < length (bytes l)")
    case True
    note ch = current_char_ok [OF 1(2,3) True]
    show ?thesis
    proof (cases "current_char l p")
      case (Inl e)
      with ch True show ?thesis by (simp add: scan_word.simps [of u l p])
    next
      case (Inr c)
      with ch 1 show ?thesis by (simp add: scan_word.simps [of u l p])
    qed
  qed (use 1 in \<open>simp add: scan_word.simps [of u l p]\<close>)
qed

lemma keyword_spelling:
  assumes "map_of keyword_table w = Some kw"
  shows "classify_keyword kw = ''`'' @ w @ ''`''"
proof -
  have "list_all (\<lambda>(w, kw). classify_keyword kw = ''`'' @ w @ ''`'') keyword_table" by code_simp
  with map_of_SomeD [OF assms] show ?thesis by (auto simp: list_all_iff)
qed

lemma word_token_ok: "utf8 w \<Longrightarrow> kind_ok u (word_token u w) \<and> spelled u w (word_token u w)"
proof -
  have "utf8 ''inf''" "utf8 ''nan''" by code_simp+
  then show "utf8 w \<Longrightarrow> kind_ok u (word_token u w) \<and> spelled u w (word_token u w)"
    using keyword_spelling [of w]
    by (auto simp: word_token_def match_keyword_def split: option.split)
qed

section \<open>Numbers\<close>

lemma number_token_ok:
  assumes "utf8 (bytes l)" "on_char l (pos l)" "on_char l p" "pos l \<le> p"
    and "k \<in> {TInt, TFloat, TImag}"
  shows "ok_res (token_ok u l) (number_token l k p)"
  unfolding number_token_def
  by (rule ok_res_bind [OF slice_ok [OF assms(1-4)]]) (use assms in auto)

lemma radix_digits_ascii:
  assumes "radix_digits x = Some valid" "valid c"
  shows "byte c < 128"
proof -
  from assms consider "is_ascii_hexdigit c \<or> c = CHR ''_''" | "48 \<le> byte c \<and> byte c \<le> 55 \<or> c = CHR ''_''"
    | "c = CHR ''0'' \<or> c = CHR ''1'' \<or> c = CHR ''_''"
    unfolding radix_digits_def by (simp split: if_split_asm) blast+
  then show ?thesis by cases (auto simp: is_ascii_hexdigit_def is_ascii_digit_def)
qed

lemma radix_digits_letter: "radix_digits x = Some valid \<Longrightarrow> byte x < 128"
  by (auto simp: radix_digits_def split: if_split_asm)

lemma lex_radix_ok:
  assumes "utf8 (bytes l)" "on_char l (pos l)" "byte_at l (pos l + 1) = Some x"
    "radix_digits x = Some valid"
  shows "ok_res (token_ok u l) (lex_radix l valid)"
proof -
  have "on_char l (pos l + 2)"
    using on_char_next [OF assms(1,3)] radix_digits_letter [OF assms(4)] by simp
  then have "on_char l (skip_while l valid (pos l + 2))"
    using on_char_skip assms(1) radix_digits_ascii [OF assms(4)] by blast
  then show ?thesis
    using number_token_ok [OF assms(1,2), of _ TInt u] skip_while_ge [of "pos l + 2" l valid]
    by (simp add: lex_radix_def Let_def)
qed

lemma scan_whole_ok:
  assumes "utf8 (bytes l)" "on_char l (pos l)"
  shows "ok_res (\<lambda>(p, f). on_char l p \<and> pos l \<le> p) (scan_whole l)"
proof (cases "byte_at l (pos l) = Some (CHR ''.'')")
  case True
  then have "on_char l (pos l + 1)" using on_char_next [OF assms(1) True] by simp
  with True show ?thesis
    using digits_from_ok [OF assms(1), of "pos l + 1"] skip_while_ge [of "pos l + 1" l]
    by (auto simp: scan_whole_def digits_from_def intro: Suc_leD split: option.split)
next
  case False
  then show ?thesis
    using digits_from_ok [OF assms] skip_while_ge [of "pos l" l]
    by (simp add: scan_whole_def digits_from_def)
qed

lemma scan_fraction_ok:
  assumes "utf8 (bytes l)" "on_char l p" "scan_fraction l (p, f) = (p', f')"
  shows "on_char l p' \<and> p \<le> p'"
proof (cases "byte_at l p = Some (CHR ''.'')")
  case True
  then have "on_char l (p + 1)" using on_char_next [OF assms(1) True] by simp
  then show ?thesis
    using assms digits_from_ok [OF assms(1), of "p + 1"] scan_fraction_ge [OF assms(3)]
    by (auto simp: scan_fraction_def split: if_split_asm option.split_asm)
next
  case False
  with assms show ?thesis by (auto simp: scan_fraction_def split: if_split_asm)
qed

lemma scan_exponent_ok:
  assumes "utf8 (bytes l)" "on_char l p"
  shows "ok_res (\<lambda>(p', f'). on_char l p' \<and> p \<le> p') (scan_exponent l (p, f))"
proof (cases "byte_at l p \<in> {Some (CHR ''e''), Some (CHR ''E'')}")
  case True
  then have 1: "on_char l (p + 1)" using on_char_next [OF assms(1), of p] by auto
  let ?q = "if byte_at l (p + 1) \<in> {Some (CHR ''+''), Some (CHR ''-'')} then p + 2 else p + 1"
  have "on_char l ?q" using 1 on_char_next [OF assms(1), of "p + 1"] by auto
  then have "on_char l (digits_from l ?q)" by (rule digits_from_ok [OF assms(1)])
  moreover have "p \<le> digits_from l ?q"
    using skip_while_ge [of ?q l] unfolding digits_from_def
    by (rule order_trans [rotated]) simp
  ultimately show ?thesis using True by (auto simp: scan_exponent_def Let_def)
next
  case False
  with assms show ?thesis by (simp add: scan_exponent_def)
qed

lemma lex_decimal_ok:
  assumes "utf8 (bytes l)" "on_char l (pos l)"
  shows "ok_res (token_ok u l) (lex_decimal l)"
  unfolding lex_decimal_def
proof (rule ok_res_bind [OF scan_whole_ok [OF assms]])
  fix s :: "nat \<times> bool" assume s: "case s of (p, f) \<Rightarrow> on_char l p \<and> pos l \<le> p"
  obtain p f where pf: "scan_fraction l s = (p, f)" by fastforce
  with s have p: "on_char l p" "pos l \<le> p"
    using scan_fraction_ok [OF assms(1)] by (auto split: prod.split_asm intro: le_trans)
  show "ok_res (token_ok u l) (and_then (scan_exponent l (scan_fraction l s)) (\<lambda>(p, is_float).
         if byte_at l p \<in> {Some (CHR ''j''), Some (CHR ''J'')} then number_token l TImag (p + 1)
         else number_token l (if is_float then TFloat else TInt) p))"
    unfolding pf
  proof (rule ok_res_bind [OF scan_exponent_ok [OF assms(1) p(1)]], clarify)
    fix q g assume "on_char l q" "p \<le> q"
    with p(2) show "ok_res (token_ok u l)
        (if byte_at l q \<in> {Some (CHR ''j''), Some (CHR ''J'')} then number_token l TImag (q + 1)
         else number_token l (if g then TFloat else TInt) q)"
      using on_char_next [OF assms(1), of q]
      by (auto intro!: number_token_ok assms)
  qed
qed

lemma lex_number_ok:
  assumes "utf8 (bytes l)" "on_char l (pos l)"
  shows "ok_res (token_ok u l) (lex_number l)"
proof (cases "if byte_at l (pos l) = Some (CHR ''0'')
            then Option.bind (byte_at l (pos l + 1)) radix_digits else None")
  case None
  then show ?thesis
    using lex_decimal_ok [OF assms] unfolding lex_number_def by simp
next
  case (Some valid)
  then obtain x where "byte_at l (pos l + 1) = Some x" "radix_digits x = Some valid"
    by (auto simp: bind_eq_Some_conv split: if_split_asm)
  with Some show ?thesis using lex_radix_ok [OF assms] unfolding lex_number_def by simp
qed

section \<open>String literals\<close>

lemma read_hex_ok:
  assumes "utf8 (bytes l)" "on_char l p" "read_hex l p n = Some h"
  shows "on_char l (p + n)"
proof -
  have len: "p + n \<le> length (bytes l)" and hex: "list_all is_ascii_hexdigit (take n (drop p (bytes l)))"
    using assms(3) by (auto simp: read_hex_def Let_def split: if_split_asm)
  have "takeWhile is_ascii_hexdigit (take n (drop p (bytes l))) = take n (drop p (bytes l))"
    using hex by (simp add: takeWhile_eq_all_conv list_all_iff)
  have "is_boundary (take (p + n) (bytes l) @ drop (p + n) (bytes l)) (p + n)"
  proof (cases n)
    case (Suc m)
    with len hex have "is_ascii_hexdigit (bytes l ! (p + m))"
      by (auto simp: list_all_length dest!: spec [of _ m])
    then have "byte (bytes l ! (p + m)) < 128"
      by (auto simp: is_ascii_hexdigit_def is_ascii_digit_def)
    with len Suc show ?thesis
      using boundary_ascii_Suc [OF assms(1), of "p + m"] by simp
  qed (use assms in simp)
  then show ?thesis by simp
qed

lemma hex_digit_lt: "is_ascii_hexdigit c \<Longrightarrow> hex_digit c < 16"
  by (auto simp: is_ascii_hexdigit_def is_ascii_digit_def hex_digit_def)

lemma foldl_hex_lt:
  "list_all is_ascii_hexdigit ds \<Longrightarrow> v < 16 ^ k \<Longrightarrow>
     foldl (\<lambda>v c. v * 16 + hex_digit c) v ds < 16 ^ (k + length ds)"
proof (induction ds arbitrary: v k)
  case (Cons c ds)
  then have "v * 16 + hex_digit c < 16 ^ Suc k" using hex_digit_lt [of c] by simp
  with Cons.IH [of "v * 16 + hex_digit c" "Suc k"] Cons.prems show ?case by simp
qed simp

lemma read_hex_lt:
  assumes "read_hex l p n = Some h"
  shows "h < 16 ^ n"
  using assms foldl_hex_lt [of "take n (drop p (bytes l))" 0 0]
  by (simp add: read_hex_def Let_def split: if_split_asm)

lemma simple_escape_ascii: "simple_escape c = Some e \<Longrightarrow> byte c < 128 \<and> byte e < 128"
  by (auto simp: simple_escape_def split: if_split_asm)

lemma utf8_snoc_ascii: "utf8 v \<Longrightarrow> byte c < 128 \<Longrightarrow> utf8 (v @ [c])"
  using utf8_ascii [of "[c]"] by (simp add: utf8_append)

text \<open>The state of the loop: on a boundary, with a well-formed value unless bytes are collected.\<close>

definition turn_ok :: "lexer \<Rightarrow> str_prefix \<Rightarrow> string_turn \<Rightarrow> bool" where
  "turn_ok l prefix t \<longleftrightarrow>
     (case t of Closed p v \<Rightarrow> on_char l p \<and> (is_bytes prefix \<or> utf8 v)
      | More p v \<Rightarrow> on_char l p \<and> (is_bytes prefix \<or> utf8 v))"

lemma string_escape_ok:
  assumes l: "utf8 (bytes l)" "on_char l (p + 1)" and v: "is_bytes prefix \<or> utf8 v"
  shows "ok_res (turn_ok l prefix) (string_escape l prefix p v)"
proof (cases "byte_at l (p + 1)")
  case (Some c)
  show ?thesis
  proof (cases "byte c < 128")
    case False
    then have "c \<noteq> CHR 0x0A" "c \<noteq> CHR ''x''" "c \<noteq> CHR ''u''" by auto
    moreover have "simple_escape c = None"
      using False simple_escape_ascii by (cases "simple_escape c") auto
    ultimately show ?thesis using Some by (simp add: string_escape_def)
  next
    case True
    then have 2: "on_char l (p + 2)" using on_char_next [OF l(1) Some] by simp
    have "p + 2 + 2 = p + 4" "p + 2 + 4 = p + 6" by simp_all
    note shift = this
    have x: "on_char l (p + 4)" "scalar h" if "read_hex l (p + 2) 2 = Some h" for h
      using read_hex_ok [OF l(1) 2 that, unfolded shift] read_hex_lt [OF that]
      by (simp_all add: scalar_def)
    have u: "on_char l (p + 6)" if "read_hex l (p + 2) 4 = Some h" for h
      using read_hex_ok [OF l(1) 2 that, unfolded shift] .
    have enc: "is_bytes prefix \<or> utf8 (v @ encode_utf8 h)" if "scalar h" for h
      using that v by (auto simp: utf8_append)
    show ?thesis
    proof (cases "c = CHR 0x0A \<or> simple_escape c \<noteq> None")
      case True
      then show ?thesis
        using Some 2 v simple_escape_ascii utf8_snoc_ascii [of v]
        by (fastforce simp: string_escape_def turn_ok_def)
    next
      case False
      then have c: "c \<noteq> CHR 0x0A" "simple_escape c = None" by simp_all
      consider "c = CHR ''x''" | "c = CHR ''u''" | "c \<noteq> CHR ''x''" "c \<noteq> CHR ''u''" by blast
      then show ?thesis
      proof cases
        case 1
        show ?thesis
        proof (cases "read_hex l (p + 2) 2")
          case (Some h)
          from x(1) [OF this] enc [OF x(2) [OF this]] show ?thesis
            using 1 Some c \<open>byte_at l (p + 1) = Some c\<close>
            by (auto simp: string_escape_def turn_ok_def)
        qed (use 1 Some c in \<open>simp add: string_escape_def\<close>)
      next
        case 2
        show ?thesis
        proof (cases "read_hex l (p + 2) 4")
          case (Some h)
          from u [OF this] enc [of h] show ?thesis
            using 2 Some c \<open>byte_at l (p + 1) = Some c\<close>
            by (auto simp: string_escape_def turn_ok_def)
        qed (use 2 Some c in \<open>simp add: string_escape_def\<close>)
      qed (use Some c in \<open>simp add: string_escape_def\<close>)
    qed
  qed
qed (simp add: string_escape_def)

lemma two_quotes_ok:
  "utf8 (bytes l) \<Longrightarrow> two_quotes l p q \<Longrightarrow> byte q < 128 \<Longrightarrow> on_char l (p + 2)"
  using on_char_next [of l "p + 1" q] by (simp add: two_quotes_def)

lemma string_step_ok:
  assumes l: "utf8 (bytes l)" "on_char l p" "byte q < 128" and v: "is_bytes prefix \<or> utf8 v"
  shows "ok_res (turn_ok l prefix) (string_step l q triple prefix p v)"
proof (cases "byte_at l p")
  case (Some b)
  have len: "p < length (bytes l)" using Some by (simp add: byte_at_eq_Some)
  have 1: "byte b < 128 \<Longrightarrow> on_char l (p + 1)" using on_char_next [OF l(1) Some] by simp
  have q: "two_quotes l (p + 1) q \<Longrightarrow> on_char l (p + 3)"
    using two_quotes_ok [OF l(1) _ l(3), of "p + 1"] by (simp add: eval_nat_numeral)
  have "ok_res (turn_ok l prefix) (string_escape l prefix p v)" if "b = CHR 0x5C"
    using string_escape_ok [OF l(1) 1 v] that by simp
  moreover have "ok_res (turn_ok l prefix) (and_then (current_char l p)
            (\<lambda>ch. Inr (More (p + len_utf8 ch) (v @ encode_utf8 ch))))"
    by (rule ok_res_bind [OF current_char_ok [OF l(1,2) len]]) (use v in \<open>auto simp: turn_ok_def utf8_append\<close>)
  ultimately show ?thesis
    using Some 1 q l(3) v
    by (auto simp: string_step_def Let_def turn_ok_def utf8_snoc_ascii)
qed (simp add: string_step_def)

lemma string_loop_ok:
  assumes "utf8 (bytes l)" "on_char l p" "byte q < 128" "is_bytes prefix \<or> utf8 v"
  shows "ok_res (\<lambda>(p', v'). on_char l p' \<and> (is_bytes prefix \<or> utf8 v'))
    (string_loop l q triple prefix p v)"
  using assms
proof (induction l q triple prefix p v rule: string_loop.induct)
  case (1 l q triple prefix p v)
  note st = string_step_ok [OF "1.prems", of triple]
  show ?case
  proof (cases "string_step l q triple prefix p v")
    case (Inl e)
    with st show ?thesis by (auto simp: string_loop.simps [of l q triple prefix p] ok_res_def)
  next
    case (Inr t)
    with st "1.prems" "1.IH" [OF Inr] show ?thesis
      by (cases t) (simp_all add: string_loop.simps [of l q triple prefix p] turn_ok_def)
  qed
qed

lemma open_quote_ok:
  assumes "utf8 (bytes l)" "byte_at l p = Some q" "byte q < 128"
  shows "on_char l (p + (if two_quotes l (p + 1) q then 3 else 1))"
  using on_char_next [OF assms] two_quotes_ok [OF assms(1) _ assms(3), of "p + 1"]
  by (auto simp: eval_nat_numeral)

lemma lex_string_ok:
  assumes "utf8 (bytes l)" "byte_at l p = Some q" "byte q < 128"
  shows "ok_res (token_ok u l) (lex_string l prefix p)"
  unfolding lex_string_def Let_def assms(2) option.case
proof (rule ok_res_bind [OF string_loop_ok [OF assms(1) open_quote_ok [OF assms] assms(3)]])
  show "is_bytes prefix \<or> utf8 []" by simp
qed (auto simp: case_prod_beta)

section \<open>F-strings\<close>

lemma spec_scan_brace:
  "spec_scan r p d = Some q \<Longrightarrow> \<exists>k < length r. q = p + k \<and> r ! k = CHR ''}''"
proof (induction r p d rule: spec_scan.induct)
  case (2 c r p d)
  show ?case
  proof (cases "c = CHR ''}'' \<and> d = 0")
    case True
    with "2.prems" show ?thesis by (intro exI [of _ 0]) auto
  next
    case False
    with "2.prems" "2.IH" obtain k where "k < length r" "q = p + 1 + k" "r ! k = CHR ''}''"
      by (auto split: if_split_asm)
    then show ?thesis by (intro exI [of _ "Suc k"]) auto
  qed
qed simp

definition interp_ok :: "lexer \<Rightarrow> nat \<Rightarrow> interp_turn \<Rightarrow> bool" where
  "interp_ok l i t \<longleftrightarrow>
     (case t of
        Go p depth in_str dbg \<Rightarrow> i \<le> p \<and> p \<le> length (bytes l) \<and> (in_str = None \<longrightarrow> on_char l p) \<and>
          (\<forall>q. in_str = Some q \<longrightarrow> byte q < 128 \<and> 0 < depth)
      | Leave p depth piece \<Rightarrow>
          (depth = 0 \<longrightarrow> on_char l p) \<and>
          (\<forall>e. piece = Some e \<longrightarrow> piece_ok e \<and> piece_size e + i \<le> p + 1))"

lemma source_text_length: "i \<le> p \<Longrightarrow> length (source_text l i p) + i \<le> p"
  by (simp add: source_text_def)

lemma interp_spec_ok:
  assumes l: "utf8 (bytes l)" "on_char l i" "i \<le> p" and c: "byte_at l p = Some (CHR '':'')"
  shows "ok_res (interp_ok l i) (interp_spec l i p dbg)"
  unfolding interp_spec_def
proof (rule ok_res_bind [OF slice_ok [OF l(1,2) _ l(3)]])
  show "on_char l p" using on_char_ascii [OF c] by simp
  have 1: "on_char l (p + 1)" using on_char_next [OF l(1) c] by simp
  fix s assume s: "utf8 s \<and> s = source_text l i p"
  then have trim: "utf8 (trim s)" "length (trim s) + i \<le> p"
    using utf8_trim length_trim [of s] source_text_length [of i p l] l(3) by auto
  show "ok_res (interp_ok l i)
       (case spec_scan (drop (p + 1) (bytes l)) (p + 1) 0 of
          None \<Rightarrow> unterminated_fstring l (length (bytes l))
        | Some q \<Rightarrow> and_then (slice l (p + 1) q)
            (\<lambda>spec. Inr (Leave (q + 1) 0 (Some (Expr (trim s) dbg (Some spec))))))"
  proof (cases "spec_scan (drop (p + 1) (bytes l)) (p + 1) 0")
    case (Some q)
    then obtain k where k: "k < length (drop (p + 1) (bytes l))" "q = p + 1 + k"
      "drop (p + 1) (bytes l) ! k = CHR ''}''" using spec_scan_brace by blast
    then have q: "byte_at l q = Some (CHR ''}'')" by (simp add: byte_at_eq_Some)
    have oq: "on_char l q" "on_char l (q + 1)" "p + 1 \<le> q"
      using on_char_ascii [OF q] on_char_next [OF l(1) q] k(2) by simp_all
    have "ok_res (interp_ok l i) (and_then (slice l (p + 1) q)
            (\<lambda>spec. Inr (Leave (q + 1) 0 (Some (Expr (trim s) dbg (Some spec))))))"
      by (rule ok_res_bind [OF slice_ok [OF l(1) 1 oq(1,3)]])
        (use oq trim in \<open>simp add: interp_ok_def piece_ok_def\<close>)
    with Some show ?thesis by simp
  qed simp
qed

lemma interp_byte_ok:
  assumes l: "utf8 (bytes l)" "on_char l i" "i \<le> p" "on_char l p" and c: "byte_at l p = Some c"
    and d: "0 < depth"
  shows "ok_res (interp_ok l i) (interp_byte l i p depth dbg c)"
proof -
  have next1: "on_char l (p + 1)" if "byte c < 128" using on_char_next [OF l(1) c that] .
  have le: "p + 1 \<le> length (bytes l)" using c by (simp add: byte_at_eq_Some)
  have go: "interp_ok l i (Go (p + 1) d' s b)" if "byte c < 128" "s \<noteq> None \<longrightarrow> s = Some c \<and> 0 < d'" for d' s b
    using next1 [OF that(1)] that le l(3) by (auto simp: interp_ok_def)
  have close: "ok_res (interp_ok l i) (and_then (slice l i p)
      (\<lambda>s. Inr (Leave (p + 1) 0 (Some (Expr (trim s) dbg None)))))" if "byte c < 128"
  proof (rule ok_res_bind [OF slice_ok [OF l(1,2,4,3)]])
    fix s assume s: "utf8 s \<and> s = source_text l i p"
    then have "utf8 (trim s)" "length (trim s) + i \<le> p"
      using utf8_trim length_trim [of s] source_text_length [of i p l] l(3) by auto
    with next1 [OF that] show "ok_res (interp_ok l i) (Inr (Leave (p + 1) 0 (Some (Expr (trim s) dbg None))))"
      by (simp add: interp_ok_def piece_ok_def)
  qed
  have char: "ok_res (interp_ok l i)
      (and_then (current_char l p) (\<lambda>ch. Inr (Go (p + len_utf8 ch) depth None dbg)))"
    using l(3) le boundary_le
    by (auto intro!: ok_res_bind [OF current_char_ok [OF l(1,4)]] simp: interp_ok_def)
  consider "c \<in> {CHR 0x27, CHR 0x22}" | "c \<in> {CHR ''{'', CHR ''('', CHR ''[''}"
    | "c \<in> {CHR '')'', CHR '']''}" | "c = CHR ''}''" | "c = CHR '':''" "depth = 1" | "c = CHR ''=''"
    | "c \<notin> {CHR 0x27, CHR 0x22, CHR ''{'', CHR ''('', CHR ''['', CHR '')'', CHR '']'', CHR ''}'', CHR ''=''}"
      "\<not> (c = CHR '':'' \<and> depth = 1)"
    unfolding insert_iff empty_iff by argo
  then show ?thesis
  proof cases
    case 1
    then have "byte c < 128" by auto
    moreover from 1 have "interp_byte l i p depth dbg c = Inr (Go (p + 1) depth (Some c) dbg)"
      by (simp add: interp_byte_def)
    ultimately show ?thesis using go d by simp
  next
    case 2
    then have "byte c < 128" by auto
    moreover from 2 have "interp_byte l i p depth dbg c = Inr (Go (p + 1) (depth + 1) None dbg)"
      by (auto simp: interp_byte_def)
    ultimately show ?thesis using go by simp
  next
    case 3
    then have "byte c < 128" by auto
    moreover from 3 have "interp_byte l i p depth dbg c = Inr (Go (p + 1) (depth - 1) None dbg)"
      by (auto simp: interp_byte_def)
    ultimately show ?thesis using go by simp
  next
    case 4
    with go close show ?thesis by (simp add: interp_byte_def)
  next
    case 5
    with interp_spec_ok [OF l(1-3)] c show ?thesis by (simp add: interp_byte_def)
  next
    case 6
    with go char show ?thesis by (simp add: interp_byte_def)
  next
    case 7
    with char show ?thesis by (auto simp: interp_byte_def)
  qed
qed

lemma interp_step_ok:
  assumes l: "utf8 (bytes l)" "on_char l i" and s: "interp_ok l i (Go p depth in_str dbg)" and d: "0 \<le> depth"
  shows "ok_res (interp_ok l i) (interp_step l i p depth in_str dbg)"
proof (cases "byte_at l p")
  case None
  then have "interp_step l i p depth in_str dbg = Inr (Leave p depth None)"
    by (simp add: interp_step_def)
  with s None show ?thesis by (auto simp: interp_ok_def byte_at_eq_None)
next
  case (Some c)
  show ?thesis
  proof (cases in_str)
    case None
    with Some s d interp_byte_ok [OF l, of p c depth dbg] show ?thesis
      by (simp add: interp_step_def interp_ok_def)
  next
    case (Some q)
    have "p + 1 \<le> length (bytes l)" using \<open>byte_at l p = Some c\<close> by (simp add: byte_at_eq_Some)
    moreover have "on_char l (p + 1)" if "c = q"
      using on_char_next [OF l(1) \<open>byte_at l p = Some c\<close>] s Some that by (simp add: interp_ok_def)
    ultimately show ?thesis
      using s Some \<open>byte_at l p = Some c\<close> by (auto simp: interp_step_def interp_ok_def)
  qed
qed

lemma interp_byte_depth:
  "interp_byte l i p depth dbg c = Inr (Go p' depth' s' b') \<Longrightarrow> 0 < depth \<Longrightarrow> 0 \<le> depth'"
  by (auto simp: interp_byte_def interp_spec_def and_then_Inr_conv unterminated_fstring_def
      split: if_split_asm option.split_asm)

lemma interp_step_depth:
  "interp_step l i p depth s b = Inr (Go p' depth' s' b') \<Longrightarrow> 0 \<le> depth'"
  using interp_byte_depth by (fastforce simp: interp_step_def split: option.split_asm if_split_asm)

lemma interp_loop_ok:
  assumes "utf8 (bytes l)" "on_char l i" "interp_ok l i (Go p depth in_str dbg)" "0 \<le> depth"
  shows "ok_res (\<lambda>(p', depth', piece).
      (depth' = 0 \<longrightarrow> on_char l p') \<and>
      (\<forall>e. piece = Some e \<longrightarrow> piece_ok e \<and> piece_size e + i \<le> p' + 1))
    (interp_loop l i p depth in_str dbg)"
  using assms
proof (induction l i p depth in_str dbg rule: interp_loop.induct)
  case (1 l i p depth in_str dbg)
  note st = interp_step_ok [OF "1.prems"]
  show ?case
  proof (cases "interp_step l i p depth in_str dbg")
    case (Inl e)
    with st show ?thesis by (auto simp: interp_loop.simps [of l i p] ok_res_def)
  next
    case (Inr t)
    show ?thesis
    proof (cases t)
      case (Go q d s b)
      with "1.IH" [OF Inr Go] "1.prems" st Inr interp_step_depth show ?thesis
        by (simp add: interp_loop.simps [of l i p])
    next
      case (Leave q d e)
      with st Inr show ?thesis by (simp add: interp_loop.simps [of l i p] interp_ok_def)
    qed
  qed
qed

text \<open>With the position \<open>start\<close> of the first byte after the opening quote.\<close>

definition fturn_ok :: "lexer \<Rightarrow> nat \<Rightarrow> fstring_turn \<Rightarrow> bool" where
  "fturn_ok l start t \<longleftrightarrow>
     (case t of
        FClosed p ps lit \<Rightarrow>
          on_char l p \<and> list_all piece_ok ps \<and> utf8 lit \<and> pieces_size ps + start < p
      | FMore p ps lit \<Rightarrow>
          on_char l p \<and> list_all piece_ok ps \<and> utf8 lit \<and> pieces_size ps + start \<le> p)"

lemma flush_lit_ok: "list_all piece_ok ps \<Longrightarrow> utf8 lit \<Longrightarrow> list_all piece_ok (flush_lit ps lit)"
  by (simp add: flush_lit_def piece_ok_def)

lemma flush_lit_size [simp]: "pieces_size (flush_lit ps lit) = pieces_size ps"
  by (simp add: flush_lit_def)

lemma fstring_interp_ok:
  assumes l: "utf8 (bytes l)" "on_char l (p + 1)" and ps: "list_all piece_ok ps" "utf8 lit"
    and sz: "pieces_size ps + start \<le> p"
  shows "ok_res (fturn_ok l start) (fstring_interp l p ps lit)"
  unfolding fstring_interp_def
proof (rule ok_res_bind [OF interp_loop_ok [OF l]])
  show "interp_ok l (p + 1) (Go (p + 1) 1 None False)"
    using l(2) boundary_le by (auto simp: interp_ok_def)
  fix r
  assume r: "interp_loop l (p + 1) (p + 1) 1 None False = Inr r"
    "case r of (p', depth', piece) \<Rightarrow> (depth' = 0 \<longrightarrow> on_char l p') \<and>
      (\<forall>e. piece = Some e \<longrightarrow> piece_ok e \<and> piece_size e + (p + 1) \<le> p' + 1)"
  obtain p' depth piece where [simp]: "r = (p', depth, piece)" by (cases r) auto
  have "p + 1 \<le> p'" using r(1) interp_loop_ge by simp
  with r(2) flush_lit_ok [OF ps] sz show "ok_res (fturn_ok l start)
     (case r of (p', depth, piece) \<Rightarrow> if depth \<noteq> 0 then unterminated_fstring l p'
        else Inr (FMore p' (flush_lit ps lit @ (case piece of None \<Rightarrow> [] | Some e \<Rightarrow> [e])) []))"
    by (auto simp: fturn_ok_def split: option.split)
qed simp

lemma fstring_step_ok:
  assumes l: "utf8 (bytes l)" "on_char l p" "byte q < 128" and ps: "list_all piece_ok ps" "utf8 lit"
    and sz: "pieces_size ps + start \<le> p"
  shows "ok_res (fturn_ok l start) (fstring_step l q triple p ps lit)"
proof (cases "byte_at l p")
  case (Some b)
  have len: "p < length (bytes l)" using Some by (simp add: byte_at_eq_Some)
  have 1: "byte b < 128 \<Longrightarrow> on_char l (p + 1)" using on_char_next [OF l(1) Some] by simp
  have q: "two_quotes l (p + 1) q \<Longrightarrow> on_char l (p + 3)"
    using two_quotes_ok [OF l(1) _ l(3), of "p + 1"] by (simp add: eval_nat_numeral)
  have "on_char l (p + 2)" if "byte b < 128" "byte_at l (p + 1) = Some b"
    using on_char_next [OF l(1) that(2,1)] by simp
  moreover have "ok_res (fturn_ok l start) (fstring_interp l p ps lit)" if "b = CHR ''{''"
    using fstring_interp_ok [OF l(1) 1 ps sz] that by simp
  moreover have "ok_res (fturn_ok l start) (and_then (current_char l p)
            (\<lambda>ch. Inr (FMore (p + len_utf8 ch) ps (lit @ encode_utf8 ch))))"
    by (rule ok_res_bind [OF current_char_ok [OF l(1,2) len]]) (use ps sz in \<open>auto simp: fturn_ok_def utf8_append\<close>)
  ultimately show ?thesis
    using Some 1 q l(3) ps sz
    by (auto simp: fstring_step_def Let_def fturn_ok_def utf8_snoc_ascii)
qed (simp add: fstring_step_def)

lemma fstring_loop_ok:
  assumes "utf8 (bytes l)" "on_char l p" "byte q < 128" "list_all piece_ok ps" "utf8 lit"
    "pieces_size ps + start \<le> p"
  shows "ok_res (\<lambda>(p', ps'). on_char l p' \<and> list_all piece_ok ps' \<and> pieces_size ps' + start < p')
    (fstring_loop l q triple p ps lit)"
  using assms
proof (induction l q triple p ps lit rule: fstring_loop.induct)
  case (1 l q triple p ps lit)
  note st = fstring_step_ok [OF "1.prems", of triple]
  show ?case
  proof (cases "fstring_step l q triple p ps lit")
    case (Inl e)
    with st show ?thesis by (auto simp: fstring_loop.simps [of l q triple p] ok_res_def)
  next
    case (Inr t)
    with st "1.prems" "1.IH" [OF Inr] show ?thesis
      by (cases t) (simp_all add: fstring_loop.simps [of l q triple p] fturn_ok_def flush_lit_ok)
  qed
qed

lemma lex_fstring_ok:
  assumes "utf8 (bytes l)" "byte_at l p = Some q" "byte q < 128" "pos l \<le> p"
  shows "ok_res (token_ok u l) (lex_fstring l p)"
  unfolding lex_fstring_def Let_def assms(2) option.case
proof (rule ok_res_bind [OF fstring_loop_ok [OF assms(1) open_quote_ok [OF assms(1-3)] assms(3)]])
  show "pieces_size [] + (p + 1) \<le> p + (if two_quotes l (p + 1) q then 3 else 1)" by simp
qed (use assms(4) in auto)

section \<open>One token\<close>

lemma source_text_1: "byte_at l p = Some b \<Longrightarrow> source_text l p (p + 1) = [b]"
  by (auto simp: source_text_def byte_at_eq_Some take_Suc_conv_app_nth)

lemma current_char_underscore:
  assumes "utf8 (bytes l)" "on_char l p" "current_char l p = Inr 95"
  shows "byte_at l p = Some (CHR ''_'')"
proof -
  have len: "p < length (bytes l)" and d: "decode_char (drop p (bytes l)) = 95"
    using assms(3) by (auto simp: current_char_def split: if_split_asm)
  have "take (len_utf8 95) (drop p (bytes l)) = encode_utf8 95"
    using boundary_char(4) [OF assms(1,2) len] d by simp
  moreover have "char_of (95 :: nat) = CHR ''_''" by (rule char_of_byte) simp
  ultimately have "take 1 (drop p (bytes l)) = [CHR ''_'']" by (simp add: len_utf8_def encode_utf8_def)
  with len show ?thesis by (simp add: take_Suc_conv_app_nth byte_at_def)
qed

lemma lex_word_ok:
  assumes l: "utf8 (bytes l)" "on_char l (pos l)" "pos l < length (bytes l)"
  shows "ok_res (token_ok u l) (lex_word_or_string_with_prefix u l)"
  unfolding lex_word_or_string_with_prefix_def
proof (rule ok_res_bind [OF current_char_ok [OF l]])
  fix ch assume ch: "current_char l (pos l) = Inr ch"
    "on_char l (pos l + len_utf8 ch) \<and> scalar ch \<and> utf8 (encode_utf8 ch)"
  have step: "ok_res (token_ok u l) (and_then (scan_word u l (pos l + len_utf8 ch)) (\<lambda>p.
         and_then (slice l (pos l) p) (finish_word u l p)))"
  proof (rule ok_res_bind [OF scan_word_ok [OF l(1)]])
    fix p assume p: "scan_word u l (pos l + len_utf8 ch) = Inr p" "on_char l p"
    then have "pos l \<le> p" using scan_word_ge add_leD1 by blast
    then show "ok_res (token_ok u l) (and_then (slice l (pos l) p) (finish_word u l p))"
      using word_token_ok lex_string_ok [OF l(1)] lex_fstring_ok [OF l(1)] p(2)
      by (intro ok_res_bind [OF slice_ok [OF l(1,2) p(2)]]) (auto simp: finish_word_def)
  qed (use ch in simp)
  have "ch = 95 \<Longrightarrow> source_text l (pos l) (pos l + 1) = ''_''"
    using current_char_underscore [OF l(1,2)] ch(1) source_text_1 by blast
  moreover have "len_utf8 95 = 1" by (simp add: len_utf8_def)
  ultimately show "ok_res (token_ok u l)
      (if ch = 95 \<and> \<not> is_continuation (byte_at l (pos l + 1))
       then Inr (push_token l TUnderscore (pos l) (pos l + 1))
       else if \<not> is_xid_start u ch \<and> ch \<noteq> 95
       then Inl (LexErr (UnexpectedChar ch (mk_span l (pos l) (pos l + len_utf8 ch))))
       else and_then (scan_word u l (pos l + len_utf8 ch)) (\<lambda>p.
         and_then (slice l (pos l) p) (finish_word u l p)))"
    using step ch by auto
qed

text \<open>An operator at the position is ASCII.\<close>

lemma on_char_starts:
  assumes "utf8 (bytes l)" "on_char l (pos l)" "starts_with l s" "list_all (\<lambda>c. byte c < 128) s"
  shows "on_char l (pos l + length s)"
proof -
  have d: "drop (pos l) (bytes l) = s @ drop (length s) (drop (pos l) (bytes l))"
    using assms(3) by (metis append_take_drop_id starts_with_def)
  moreover have "utf8 (drop (pos l) (bytes l))" using boundary_split assms(1,2) by blast
  moreover have "utf8 s" using assms(4) by (intro utf8_ascii) (simp add: list_all_iff)
  ultimately have "utf8 (drop (length s) (drop (pos l) (bytes l)))" using utf8_append by metis
  moreover have "length s \<le> length (drop (pos l) (bytes l))"
    by (metis d length_append le_add1)
  moreover have "pos l \<le> length (bytes l)" using boundary_le assms(2) by blast
  ultimately show ?thesis using assms(1) by (simp add: boundary_iff add.commute)
qed

lemma starts_with_text:
  "starts_with l s \<Longrightarrow> source_text l (pos l) (pos l + length s) = s"
  by (simp add: starts_with_def source_text_def)

lemma simple_ok:
  "on_char l (pos l + n) \<Longrightarrow> classify_op k = ''`'' @ source_text l (pos l) (pos l + n) @ ''`'' \<Longrightarrow>
     token_ok u l (simple l k n)"
  by (simp add: simple_def)

lemma single_ok:
  "on_char l (pos l + 1) \<Longrightarrow> classify_op k = ''`'' @ source_text l (pos l) (pos l + 1) @ ''`'' \<Longrightarrow>
     token_ok u l (single l k)"
  by (simp add: single_def simple_def)

lemma first_match_ok:
  assumes "utf8 (bytes l)" "on_char l (pos l)" "on_char l (pos l + 1)"
    and "classify_op k0 = ''`'' @ source_text l (pos l) (pos l + 1) @ ''`''"
  shows "list_all (\<lambda>(s, k). list_all (\<lambda>c. byte c < 128) s \<and> classify_op k = ''`'' @ s @ ''`'') alts \<Longrightarrow>
    token_ok u l (first_match l alts k0)"
proof (induction alts)
  case Nil
  then show ?case using assms simple_ok [of l 1] by simp
next
  case (Cons a alts)
  obtain s k where a: "a = (s, k)" by fastforce
  with Cons.prems have s: "list_all (\<lambda>c. byte c < 128) s" "classify_op k = ''`'' @ s @ ''`''" by simp_all
  show ?case
  proof (cases "starts_with l s")
    case True
    with s a on_char_starts [OF assms(1,2) True] starts_with_text [OF True] show ?thesis
      by (simp add: simple_ok)
  qed (use a Cons in simp)
qed

lemma maybe_eq_ok:
  assumes "utf8 (bytes l)" "on_char l (pos l + 1)" and b: "byte_at l (pos l) = Some b"
    and k: "classify_op k = ''`'' @ [b] @ ''`''" "classify_op k' = ''`'' @ [b] @ ''=`''"
  shows "token_ok u l (maybe_eq l k k')"
proof (cases "byte_at l (pos l + 1) = Some (CHR ''='')")
  case True
  have "source_text l (pos l) (pos l + 2) = [b, CHR ''='']"
    using b True by (auto simp: source_text_def byte_at_eq_Some take_Suc_conv_app_nth numeral_2_eq_2)
  moreover have "on_char l (pos l + 2)" using on_char_next [OF assms(1) True] by simp
  ultimately show ?thesis using True k simple_ok [of l 2 k'] by (simp add: maybe_eq_def)
next
  case False
  with k simple_ok [OF assms(2), of k] source_text_1 [OF b] show ?thesis
    by (simp add: maybe_eq_def)
qed

lemma ops_ascii:
  "map_of brackets b = Some k \<Longrightarrow> byte b < 128"
  "map_of single_ops b = Some k \<Longrightarrow> byte b < 128"
  "map_of assign_ops b = Some kk \<Longrightarrow> byte b < 128"
  "map_of long_ops b = Some ak \<Longrightarrow> byte b < 128"
  by (auto simp: brackets_def single_ops_def assign_ops_def long_ops_def split: if_split_asm)

text \<open>The operator tables spell the operators as \<open>classify\<close> does.\<close>

lemma ops_spelling:
  "map_of brackets b = Some k \<Longrightarrow> classify_op k = ''`'' @ [b] @ ''`''"
  "map_of single_ops b = Some k \<Longrightarrow> classify_op k = ''`'' @ [b] @ ''`''"
  "map_of assign_ops b = Some (k, k') \<Longrightarrow>
     classify_op k = ''`'' @ [b] @ ''`'' \<and> classify_op k' = ''`'' @ [b] @ ''=`''"
  by (auto simp: brackets_def single_ops_def assign_ops_def split: if_split_asm)

lemma long_ops_spelling:
  assumes "map_of long_ops b = Some (alts, k)"
  shows "list_all (\<lambda>(s, k). list_all (\<lambda>c. byte c < 128) s \<and> classify_op k = ''`'' @ s @ ''`'') alts"
    "classify_op k = ''`'' @ [b] @ ''`''"
proof -
  have "list_all (\<lambda>(b, alts, k). list_all (\<lambda>(s, k). list_all (\<lambda>c. byte c < 128) s \<and>
      classify_op k = ''`'' @ s @ ''`'') alts \<and> classify_op k = ''`'' @ [b] @ ''`'') long_ops"
    by code_simp
  with map_of_SomeD [OF assms]
  show "list_all (\<lambda>(s, k). list_all (\<lambda>c. byte c < 128) s \<and> classify_op k = ''`'' @ s @ ''`'') alts"
    "classify_op k = ''`'' @ [b] @ ''`''"
    unfolding list_all_iff [of _ long_ops] by fastforce+
qed

lemma lex_one_token_ok:
  assumes l: "utf8 (bytes l)" "on_char l (pos l)" and b: "byte_at l (pos l) = Some b"
  shows "ok_res (token_ok u l) (lex_one_token u l b)"
proof -
  have 1: "byte b < 128 \<Longrightarrow> on_char l (pos l + 1)" using on_char_next [OF l(1) b] .
  note text1 = source_text_1 [OF b]
  have dot: "ok_res (token_ok u l) (lex_dot l)" if "b = CHR ''.''"
    using lex_number_ok [OF l] simple_ok [OF 1, of Dot] simple_ok [of l 3 DotDotDot] that text1
      on_char_starts [OF l, of "''...''"] starts_with_text [of l "''...''"]
    by (simp add: lex_dot_def numeral_3_eq_3)
  have bang: "ok_res (token_ok u l) (lex_bang l)"
    using on_char_starts [OF l, of "''!=''"] starts_with_text [of l "''!=''"]
      simple_ok [of l 2 NotEq] by (simp add: lex_bang_def)
  have str: "ok_res (token_ok u l) (lex_string l f (pos l))" if "b \<in> {CHR 0x27, CHR 0x22}" for f
    using lex_string_ok [OF l(1) b] that by auto
  have word: "ok_res (token_ok u l) (lex_word_or_string_with_prefix u l)"
    using lex_word_ok [OF l] b by (simp add: byte_at_eq_Some)
  note rest = lex_number_ok [OF l] word
  show ?thesis
  proof (cases "map_of brackets b")
    case (Some k)
    with 1 ops_ascii(1) ops_spelling(1) text1 show ?thesis by (simp add: lex_one_token_def single_ok)
  next
    case None
    note n1 = this
    show ?thesis
    proof (cases "map_of single_ops b")
      case (Some k)
      with n1 1 ops_ascii(2) ops_spelling(2) text1 show ?thesis
        by (simp add: lex_one_token_def simple_ok)
    next
      case None
      note n2 = this
      show ?thesis
      proof (cases "map_of assign_ops b")
        case (Some kk)
        then obtain k k' where kk: "map_of assign_ops b = Some (k, k')" by (cases kk) simp
        with n1 n2 1 ops_ascii(3) ops_spelling(3) maybe_eq_ok [OF l(1) _ b] show ?thesis
          by (simp add: lex_one_token_def)
      next
        case None
        note n3 = this
        show ?thesis
        proof (cases "map_of long_ops b")
          case (Some kk)
          then obtain alts k where kk: "map_of long_ops b = Some (alts, k)" by (cases kk) simp
          have "token_ok u l (first_match l alts k)"
            using kk 1 ops_ascii(4) text1 long_ops_spelling [OF kk] by (intro first_match_ok l) simp_all
          with n1 n2 n3 kk show ?thesis by (simp add: lex_one_token_def)
        next
          case None
          with n1 n2 n3 dot bang str rest show ?thesis by (auto simp: lex_one_token_def)
        qed
      qed
    qed
  qed
qed

end
