(* ===== verification/Lexer_Layout.thy ===== *)
theory Lexer_Layout
  imports Lexer_Safe
begin

text \<open>
  What the parser may assume of a token stream: the layout automaton that \<open>Newline\<close>,
  \<open>Indent\<close>, \<open>Dedent\<close> and \<open>Eof\<close> obey, spans in source order, well-formed payloads. The
  invariant of the lexer relates its stack, bracket depth and newline flag to the state of
  that automaton, and every turn of the main loop keeps it.
\<close>

section \<open>The layout automaton\<close>

text \<open>
  \<open>Line b n d\<close>: inside a file, \<open>b\<close> when no token has appeared since the last \<open>Newline\<close>, \<open>n\<close>
  blocks open, \<open>d\<close> brackets open. \<open>Flush n\<close>: the file ended inside brackets.
\<close>

datatype layout_state = Line bool nat nat | Flush nat | Ended

definition open_bracket :: "token_kind \<Rightarrow> bool" where
  "open_bracket k \<longleftrightarrow> k \<in> {TOp LParen, TOp LBracket, TOp LBrace}"

definition close_bracket :: "token_kind \<Rightarrow> bool" where
  "close_bracket k \<longleftrightarrow> k \<in> {TOp RParen, TOp RBracket, TOp RBrace}"

fun layout_step :: "token_kind \<Rightarrow> layout_state \<Rightarrow> layout_state option" where
  "layout_step k (Line b n d) =
     (if k = TNewline then (if b then None else if d = 0 then Some (Line True n 0) else Some (Flush n))
      else if k = TIndent then (if b \<and> d = 0 then Some (Line True (n + 1) 0) else None)
      else if k = TDedent then (if b \<and> d = 0 \<and> 0 < n then Some (Line True (n - 1) 0) else None)
      else if k = TEof then (if b \<and> d = 0 \<and> n = 0 then Some Ended else None)
      else if open_bracket k then Some (Line False n (d + 1))
      else if close_bracket k then Some (Line False n (d - 1))
      else Some (Line False n d))"
| "layout_step k (Flush n) =
     (if k = TDedent \<and> 0 < n then Some (Flush (n - 1))
      else if k = TEof \<and> n = 0 then Some Ended else None)"
| "layout_step k Ended = None"

fun layout_run :: "token_kind list \<Rightarrow> layout_state \<Rightarrow> layout_state option" where
  "layout_run [] s = Some s"
| "layout_run (k # ks) s = Option.bind (layout_step k s) (layout_run ks)"

lemma layout_run_append:
  "layout_run (ks @ ks') s = Option.bind (layout_run ks s) (layout_run ks')"
  by (induction ks s rule: layout_run.induct) (auto split: bind_split)

lemma layout_run_dedents:
  "layout_run (replicate k TDedent) (Line True (n + k) 0) = Some (Line True n 0)"
  "layout_run (replicate k TDedent) (Flush (n + k)) = Some (Flush n)"
  by (induction k) simp_all

section \<open>Spans in source order\<close>

definition tok_start :: "token \<Rightarrow> nat" where
  "tok_start t = unat (sp_start (tspan t))"

definition tok_end :: "token \<Rightarrow> nat" where
  "tok_end t = unat (sp_end (tspan t))"

definition spelled_at :: "unicode \<Rightarrow> string \<Rightarrow> token \<Rightarrow> bool" where
  "spelled_at u src t \<longleftrightarrow>
     spelled u (take (tok_end t - tok_start t) (drop (tok_start t) src)) (kind t)"

lemma spelled_at_layout [simp]: "layout k \<Longrightarrow> spelled_at u src (token_new k s)"
  by (auto simp: spelled_at_def layout_def token_new_def)

fun spans_between :: "nat \<Rightarrow> token list \<Rightarrow> nat \<Rightarrow> bool" where
  "spans_between a [] b \<longleftrightarrow> a \<le> b"
| "spans_between a (t # ts) b \<longleftrightarrow>
     a \<le> tok_start t \<and> tok_start t \<le> tok_end t \<and> spans_between (tok_end t) ts b"

lemma spans_between_snoc:
  "spans_between a (ts @ [t]) c \<longleftrightarrow>
     spans_between a ts (tok_start t) \<and> tok_start t \<le> tok_end t \<and> tok_end t \<le> c"
  by (induction ts arbitrary: a) auto

lemma spans_between_mono: "spans_between a ts b \<Longrightarrow> b \<le> c \<Longrightarrow> spans_between a ts c"
  by (induction ts arbitrary: a) auto

lemma spans_between_points:
  "spans_between a ts b \<Longrightarrow> tok_start t = b \<Longrightarrow> tok_end t = b \<Longrightarrow> spans_between a (ts @ replicate n t) b"
proof (induction n)
  case (Suc n)
  have "ts @ replicate (Suc n) t = (ts @ replicate n t) @ [t]"
    by (simp add: replicate_append_same)
  with Suc show ?case by (simp only: spans_between_snoc) simp
qed simp

lemma tok_mk_span:
  assumes "a \<le> b" "b < 2 ^ 32"
  shows "tok_start (token_new k (mk_span l a b)) = a" "tok_end (token_new k (mk_span l a b)) = b"
proof -
  have "unat (word_of_nat a :: u32) = a" "unat (word_of_nat b :: u32) = b"
    using assms by (simp_all add: unat_of_nat)
  moreover from this assms have "(word_of_nat a :: u32) \<le> word_of_nat b"
    by (simp add: word_le_nat_alt)
  ultimately show "tok_start (token_new k (mk_span l a b)) = a"
    "tok_end (token_new k (mk_span l a b)) = b"
    by (simp_all add: tok_start_def tok_end_def token_new_def mk_span_def span_new_def)
qed

section \<open>The indentation stack\<close>

definition indent_ok :: "nat list \<Rightarrow> bool" where
  "indent_ok xs \<longleftrightarrow> sorted_wrt (>) xs \<and> xs \<noteq> [] \<and> last xs = 0"

lemma pop_levels_ok:
  assumes "indent_ok xs"
  shows "\<exists>k < length xs. pop_levels xs n = Inr (drop k xs, k) \<and> indent_ok (drop k xs) \<and>
    hd (drop k xs) \<le> n \<and> (\<forall>x \<in> set (take k xs). n < x)"
  using assms
proof (induction xs)
  case (Cons x xs)
  show ?case
  proof (cases "n < x")
    case True
    then have "xs \<noteq> []" using Cons.prems by (auto simp: indent_ok_def)
    then have "indent_ok xs" using Cons.prems by (simp add: indent_ok_def)
    with Cons.IH obtain k where "k < length xs" "pop_levels xs n = Inr (drop k xs, k)"
      "indent_ok (drop k xs)" "hd (drop k xs) \<le> n" "\<forall>x \<in> set (take k xs). n < x" by blast
    with True show ?thesis by (intro exI [of _ "Suc k"]) simp
  next
    case False
    with Cons.prems show ?thesis by (intro exI [of _ 0]) simp
  qed
qed (simp add: indent_ok_def)

section \<open>Weights and files\<close>

text \<open>
  The weight of a token stream bounds the recursion of the parser: a token counts one, an
  interpolation of an f-string as much as the tokens its source can have. A source of \<open>n\<close> bytes
  has weight at most \<open>4 n + 1\<close>: the invariant charges each pending \<open>Newline\<close> and \<open>Dedent\<close> to the
  bytes before it.
\<close>

fun piece_weight :: "fstring_piece \<Rightarrow> nat" where
  "piece_weight (Lit s) = 0"
| "piece_weight (Expr s dbg spec) = 4 * length s + 2"

definition token_weight :: "token \<Rightarrow> nat" where
  "token_weight t =
     1 + (case kind t of TFString ps \<Rightarrow> sum_list (map piece_weight ps) | _ \<Rightarrow> 0)"

abbreviation stream_weight :: "token list \<Rightarrow> nat" where
  "stream_weight ts \<equiv> sum_list (map token_weight ts)"

lemma token_weight_layout [simp]:
  "token_weight \<lparr>kind = TNewline, tspan = s\<rparr> = 1" "token_weight \<lparr>kind = TIndent, tspan = s\<rparr> = 1"
  "token_weight \<lparr>kind = TDedent, tspan = s\<rparr> = 1" "token_weight \<lparr>kind = TEof, tspan = s\<rparr> = 1"
  by (simp_all add: token_weight_def)

lemma piece_weight_le: "sum_list (map piece_weight ps) \<le> 4 * pieces_size ps"
proof (induction ps)
  case (Cons p ps)
  then show ?case by (cases p) simp_all
qed simp

lemma token_weight_fits: "pieces_fit k n \<Longrightarrow> 0 < n \<Longrightarrow> token_weight (token_new k s) + 2 \<le> 4 * n"
proof (cases k)
  case (TFString ps)
  assume "pieces_fit k n"
  with TFString piece_weight_le [of ps] show ?thesis by (simp add: token_weight_def token_new_def)
qed (simp_all add: token_weight_def token_new_def)

definition span_in :: "u32 \<Rightarrow> span \<Rightarrow> bool" where
  "span_in f s \<longleftrightarrow> span_ok s \<and> sp_file s = f"

lemma span_in_mk_span [simp]: "span_in (file_id l) (mk_span l a b)"
  using span_ok_new by (auto simp: span_in_def mk_span_def span_new_def Let_def)

section \<open>The invariant\<close>

definition lex_inv :: "unicode \<Rightarrow> lexer \<Rightarrow> bool" where
  "lex_inv u l \<longleftrightarrow>
     utf8 (bytes l) \<and> on_char l (pos l) \<and> indent_ok (indents l) \<and> 0 \<le> bracket_depth l \<and>
     (at_line_start l \<longrightarrow> last_emitted_newline l \<and> bracket_depth l = 0) \<and>
     (last_emitted_newline l \<longrightarrow> bracket_depth l = 0) \<and>
     list_all (kind_ok u \<circ> kind) (out l) \<and>
     layout_run (map kind (out l)) (Line True 0 0) =
       Some (Line (last_emitted_newline l) (length (indents l) - 1) (nat (bracket_depth l))) \<and>
     stream_weight (out l) + length (indents l) + (if last_emitted_newline l then 0 else 1)
       \<le> 4 * pos l + 1 \<and>
     list_all (span_in (file_id l) \<circ> tspan) (out l) \<and>
     (length (bytes l) < 2 ^ 32 \<longrightarrow>
        spans_between 0 (out l) (pos l) \<and> list_all (spelled_at u (bytes l)) (out l))"

lemma lex_inv_new: "utf8 s \<Longrightarrow> lex_inv u (lexer_new s f)"
  by (simp add: lex_inv_def lexer_new_def indent_ok_def)

text \<open>Moving over separators.\<close>

lemma lex_inv_skip:
  "lex_inv u l \<Longrightarrow> on_char l p \<Longrightarrow> pos l \<le> p \<Longrightarrow> lex_inv u (l\<lparr>pos := p\<rparr>)"
  by (auto simp: lex_inv_def intro: spans_between_mono)

text \<open>Pushing a token of the language.\<close>

lemma kind_push: "out (push_token l k s p) = out l @ [token_new k (mk_span l s p)]"
  by (simp add: push_token_def)

lemma lex_inv_emits:
  assumes inv: "lex_inv u l" and e: "emits l k p l'" and ok: "token_ok u l l'"
    and nl: "\<not> at_line_start l"
  shows "lex_inv u l'"
proof -
  let ?t = "token_new k (mk_span l (pos l) p)" and ?d = "bracket_effect k (bracket_depth l)"
  have p: "pos l < p" and k: "\<not> layout k"
    and l': "l' = push_token (l\<lparr>bracket_depth := ?d\<rparr>) k (pos l) p"
    using e by (simp_all add: emits_def)
  have out: "out l' = out l @ [?t]" unfolding l' by (simp add: push_token_def)
  have ok': "on_char l p" "kind_ok u k" using ok unfolding l' by simp_all
  have "layout_run (map kind (out l')) (Line True 0 0) =
      Some (Line False (length (indents l) - 1) (nat ?d))"
    using inv k unfolding out
    by (auto simp: layout_run_append lex_inv_def layout_def bracket_effect_def open_bracket_def
        close_bracket_def token_new_def nat_add_distrib nat_diff_distrib max_def)
  moreover have "0 \<le> ?d" using inv by (auto simp: lex_inv_def bracket_effect_def)
  moreover have "stream_weight (out l') + length (indents l) + 1 \<le> 4 * p + 1"
  proof -
    have "stream_weight (out l) + length (indents l) \<le> 4 * pos l + 1"
      using inv by (simp add: lex_inv_def)
    moreover have "token_weight ?t + 2 \<le> 4 * (p - pos l)"
      using ok p unfolding l' by (intro token_weight_fits) simp_all
    ultimately show ?thesis using p unfolding out by simp
  qed
  moreover have "spans_between 0 (out l') p \<and> list_all (spelled_at u (bytes l)) (out l')"
    if len: "length (bytes l) < 2 ^ 32"
  proof -
    have "p \<le> length (bytes l)" using ok'(1) boundary_le by blast
    with len p have "tok_start ?t = pos l" "tok_end ?t = p" by (simp_all add: tok_mk_span)
    moreover from this have "spelled_at u (bytes l) ?t"
      using ok unfolding l' by (simp add: spelled_at_def source_text_def token_new_def)
    ultimately show ?thesis using inv len p unfolding out by (simp add: spans_between_snoc lex_inv_def)
  qed
  ultimately show ?thesis
    using inv ok' nl unfolding l'
    by (simp add: lex_inv_def push_token_def token_new_def)
qed

text \<open>Newlines.\<close>

lemma lex_inv_newline:
  assumes inv: "lex_inv u l" and d: "bracket_depth l = 0"
  shows "lex_inv u ((emit_newline_if_needed l)\<lparr>at_line_start := True\<rparr>)"
proof (cases "last_emitted_newline l")
  case True
  with inv d show ?thesis by (simp add: emit_newline_if_needed_def lex_inv_def)
next
  case False
  let ?t = "token_new TNewline (mk_span l (pos l) (pos l))"
  have "layout_run (map kind (out l @ [?t])) (Line True 0 0) =
      Some (Line True (length (indents l) - 1) 0)"
    using inv False d by (simp add: layout_run_append lex_inv_def token_new_def)
  moreover have "spans_between 0 (out l @ [?t]) (pos l)" if len: "length (bytes l) < 2 ^ 32"
    using inv len boundary_le [of "bytes l" "pos l"] tok_mk_span [of "pos l" "pos l" TNewline l]
    by (simp add: spans_between_snoc lex_inv_def)
  ultimately show ?thesis
    using inv False d spelled_at_layout [of TNewline u "bytes l" "mk_span l (pos l) (pos l)"]
    by (simp add: emit_newline_if_needed_def lex_inv_def token_new_def layout_def)
qed

text \<open>The start of a line.\<close>

lemma leading_blanks_on_char:
  assumes "utf8 (bytes l)" "on_char l (pos l)"
    "leading_blanks (drop (pos l) (bytes l)) (pos l, 0, False, False) = (p, n, t, s)"
  shows "on_char l p"
  unfolding leading_blanks_boundary [OF assms(3)]
  by (rule on_char_takeWhile [OF assms(1,2)]) (erule disjE; simp)

lemma leading_blanks_gt:
  "leading_blanks r (p, n, t, s) = (p', n', t', s') \<Longrightarrow> n \<noteq> n' \<Longrightarrow> p < p'"
  by (cases r) (auto dest!: leading_blanks_ge split: if_split_asm)

lemma lex_inv_indent:
  assumes inv: "lex_inv u l" and nl: "at_line_start l" and p: "on_char l p" "pos l < p"
    and i: "indents l = i # is" "i < n"
  shows "lex_inv u (indent_to l p n)"
proof -
  let ?t = "token_new TIndent (mk_span l (pos l) p)"
  have "layout_run (map kind (out l @ [?t])) (Line True 0 0) = Some (Line True (length (indents l)) 0)"
    using inv nl i by (simp add: layout_run_append lex_inv_def token_new_def)
  moreover have "spans_between 0 (out l @ [?t]) p" if len: "length (bytes l) < 2 ^ 32"
    using inv len boundary_le [OF p(1)] p(2) tok_mk_span [of "pos l" p TIndent l]
    by (simp add: spans_between_snoc lex_inv_def)
  moreover have "indent_ok (n # indents l)"
    using inv i by (auto simp: lex_inv_def indent_ok_def)
  ultimately show ?thesis
    using inv p nl spelled_at_layout [of TIndent u "bytes l" "mk_span l (pos l) p"]
    by (simp add: lex_inv_def indent_to_def token_new_def layout_def split: if_split_asm)
qed

lemma lex_inv_dedent:
  assumes inv: "lex_inv u l" and nl: "at_line_start l" and p: "on_char l p" "pos l \<le> p"
    and k: "k < length (indents l)" "indent_ok (drop k (indents l))"
  shows "lex_inv u (dedent_to l p (drop k (indents l)) k)"
proof -
  let ?t = "token_new TDedent (mk_span l (pos l) (pos l))"
  have n: "length (indents l) - 1 = length (indents l) - Suc k + k" using k(1) by simp
  have "layout_run (map kind (out l @ replicate k ?t)) (Line True 0 0) =
      Some (Line True (length (indents l) - Suc k) 0)"
    using inv nl k n layout_run_dedents(1) [of k "length (indents l) - Suc k"]
    by (simp add: layout_run_append lex_inv_def token_new_def map_replicate_const del: One_nat_def)
  moreover have "spans_between 0 (out l @ replicate k ?t) p" if len: "length (bytes l) < 2 ^ 32"
    using inv len boundary_le [of "bytes l" "pos l"] p tok_mk_span [of "pos l" "pos l" TDedent l]
    by (auto simp: lex_inv_def intro!: spans_between_mono [OF spans_between_points])
  ultimately show ?thesis
    using inv p nl k spelled_at_layout [of TDedent u "bytes l" "mk_span l (pos l) (pos l)"]
    by (auto simp: layout_def lex_inv_def dedent_to_def token_new_def list_all_iff sum_list_replicate)
qed

text \<open>After the start of a line, a token may only follow once the line has begun.\<close>

definition begun :: "lexer \<Rightarrow> bool" where
  "begun l \<longleftrightarrow> (at_line_start l \<longrightarrow>
     byte_at l (pos l) \<in> {None, Some (CHR 0x0A), Some (CHR 0x0D), Some (CHR ''#'')})"

lemma handle_line_start_ok:
  assumes inv: "lex_inv u l" and nl: "at_line_start l"
  shows "ok_res (\<lambda>l'. lex_inv u l' \<and> begun l') (handle_line_start l)"
proof -
  obtain p n t s where lb: "leading_blanks (drop (pos l) (bytes l)) (pos l, 0, False, False) = (p, n, t, s)"
    by (metis surj_pair)
  from inv have p: "on_char l p" "pos l \<le> p"
    using leading_blanks_on_char [OF _ _ lb] leading_blanks_ge [OF lb] by (auto simp: lex_inv_def)
  from inv obtain i "is" where i: "indents l = i # is"
    by (cases "indents l") (auto simp: lex_inv_def indent_ok_def)
  obtain k where k: "k < length (indents l)" "pop_levels (indents l) n = Inr (drop k (indents l), k)"
    "indent_ok (drop k (indents l))"
    using pop_levels_ok inv by (metis lex_inv_def)
  have d: "drop k (indents l) \<noteq> []" using k(1) by simp
  have "lex_inv u (l\<lparr>pos := p\<rparr>)" using lex_inv_skip inv p by blast
  moreover have "i < n \<longrightarrow> lex_inv u (indent_to l p n)"
    using lex_inv_indent [OF inv nl p(1) leading_blanks_gt [OF lb] i] by simp
  moreover have "lex_inv u (dedent_to l p (drop k (indents l)) k)" by (rule lex_inv_dedent [OF inv nl p k(1,3)])
  ultimately show ?thesis
    using lb i k(2) d
    by (simp add: handle_line_start_def) (auto simp: begun_def byte_at_def indent_to_def dedent_to_def)
qed

lemma line_start_ok:
  assumes "lex_inv u l"
  shows "ok_res (\<lambda>l'. lex_inv u l' \<and> begun l') (line_start l)"
  using assms handle_line_start_ok [OF assms] by (auto simp: line_start_def begun_def lex_inv_def)

lemma newline_step_ok:
  assumes inv: "lex_inv u l" and b: "byte_at l (pos l) \<in> {Some (CHR 0x0A), Some (CHR 0x0D)}"
  shows "lex_inv u (newline_step l)"
proof -
  have l: "utf8 (bytes l)" using inv by (simp add: lex_inv_def)
  from b have 1: "on_char l (pos l + 1)" using on_char_next [OF l, of "pos l"] by auto
  have "on_char l (pos l + 2)" if "byte_at l (pos l + 1) = Some (CHR 0x0A)"
    using on_char_next [OF l that] by simp
  with 1 inv have "lex_inv u (consume_newline l)"
    by (auto simp: consume_newline_def intro: lex_inv_skip)
  then show ?thesis
    using lex_inv_newline by (simp add: newline_step_def Let_def)
qed

lemma lex_byte_ok:
  assumes inv: "lex_inv u l" and len: "pos l < length (bytes l)" and begun: "begun l"
  shows "ok_res (lex_inv u) (lex_byte u l)"
proof -
  have l: "utf8 (bytes l)" "on_char l (pos l)" using inv by (simp_all add: lex_inv_def)
  obtain b where b: "byte_at l (pos l) = Some b" using len by (simp add: byte_at_def)
  have skip1: "byte b < 128 \<Longrightarrow> lex_inv u (l\<lparr>pos := pos l + 1\<rparr>)"
    using on_char_next [OF l(1) b] inv by (intro lex_inv_skip) auto
  have skip2: "lex_inv u (l\<lparr>pos := pos l + 2\<rparr>)" if "byte_at l (pos l + 1) = Some c" "byte c < 128" for c
    using on_char_next [OF l(1) that] inv by (intro lex_inv_skip) auto
  have skip3: "lex_inv u (l\<lparr>pos := pos l + 3\<rparr>)" if "byte_at l (pos l + 2) = Some (CHR 0x0A)"
    using on_char_next [OF l(1) that] inv by (intro lex_inv_skip) (auto simp: numeral_3_eq_3)
  have comment: "lex_inv u (l\<lparr>pos := skip_while l (\<lambda>c. c \<noteq> CHR 0x0A) (pos l)\<rparr>)"
    using on_char_until [of "pos l" l "\<lambda>c. c \<noteq> CHR 0x0A"] len inv skip_while_ge
    by (intro lex_inv_skip) auto
  have tok: "ok_res (lex_inv u) (lex_one_token u l b)" if "\<not> at_line_start l"
  proof (rule ok_res_mono [OF lex_one_token_ok [OF l b]])
    fix l' assume "lex_one_token u l b = Inr l'" "token_ok u l l'"
    with emits_one_token [OF _ b] lex_inv_emits [OF inv _ _ that] show "lex_inv u l'" by blast
  qed
  have started: "\<not> at_line_start l" if "b \<notin> {CHR 0x0A, CHR 0x0D, CHR ''#''}"
    using begun b that by (auto simp: begun_def)
  show ?thesis
  proof (cases "b \<in> {CHR '' '', CHR 0x09}")
    case True
    then have "byte b < 128" by auto
    with True b skip1 show ?thesis by (simp add: lex_byte_def)
  next
    case False
    note blank = this
    show ?thesis
    proof (cases "b \<in> {CHR 0x0A, CHR 0x0D, CHR ''#''}")
      case True
      with blank b comment newline_step_ok [OF inv] show ?thesis by (auto simp: lex_byte_def)
    next
      case False
      with blank b skip2 [of "CHR 0x0A"] skip2 [of "CHR 0x0D"] skip3 tok [OF started [OF False]]
      show ?thesis by (simp add: lex_byte_def)
    qed
  qed
qed

lemma lex_turn_ok:
  assumes "lex_inv u l"
  shows "ok_res (lex_inv u) (lex_turn u l)"
  unfolding lex_turn_def
  by (rule ok_res_bind [OF line_start_ok [OF assms]]) (simp add: lex_byte_ok)

lemma lex_turn_bytes:
  assumes "lex_turn u l = Inr l'"
  shows "bytes l' = bytes l \<and> file_id l' = file_id l"
proof -
  from assms obtain m where m: "line_start l = Inr m"
    "(if length (bytes m) \<le> pos m then Inr m else lex_byte u m) = Inr l'"
    by (auto simp: lex_turn_def and_then_Inr_conv)
  have "bytes m = bytes l \<and> file_id m = file_id l" using line_start_advances [OF m(1)] by blast
  moreover have "bytes l' = bytes m \<and> file_id l' = file_id m"
    using m(2) lex_byte_advances [of u m l'] by (simp split: if_split_asm)
  ultimately show ?thesis by simp
qed

lemma run_loop_ok:
  "lex_inv u l \<Longrightarrow> ok_res (\<lambda>l'. lex_inv u l' \<and> bytes l' = bytes l \<and> file_id l' = file_id l \<and> pos l' = length (bytes l)) (run_loop u l)"
proof (induction u l rule: run_loop.induct)
  case (1 u l)
  show ?case
  proof (cases "pos l < length (bytes l)")
    case True
    show ?thesis
    proof (cases "lex_turn u l")
      case (Inl e)
      with lex_turn_ok [OF 1(2)] True show ?thesis
        by (auto simp: run_loop.simps [of u l] ok_res_def)
    next
      case (Inr l')
      then have "bytes l' = bytes l \<and> file_id l' = file_id l" by (rule lex_turn_bytes)
      with Inr True lex_turn_ok [OF 1(2)] 1(1) show ?thesis
        by (simp add: run_loop.simps [of u l])
    qed
  next
    case False
    with 1(2) boundary_le [of "bytes l" "pos l"] show ?thesis
      by (simp add: run_loop.simps [of u l] lex_inv_def)
  qed
qed

section \<open>The end of the source\<close>

text \<open>The stream the parser receives.\<close>

definition stream_ok :: "unicode \<Rightarrow> string \<Rightarrow> u32 \<Rightarrow> token list \<Rightarrow> bool" where
  "stream_ok u src f ts \<longleftrightarrow>
     list_all (span_in f \<circ> tspan) ts \<and>
     layout_run (map kind ts) (Line True 0 0) = Some Ended \<and>
     list_all (kind_ok u \<circ> kind) ts \<and>
     stream_weight ts \<le> 4 * length src + 1 \<and>
     (length src < 2 ^ 32 \<longrightarrow> spans_between 0 ts (length src) \<and> list_all (spelled_at u src) ts)"

lemma layout_run_end:
  "layout_run (replicate n TDedent @ [TEof]) (Line True n 0) = Some Ended"
  "layout_run (replicate n TDedent @ [TEof]) (Flush n) = Some Ended"
  using layout_run_dedents [of n 0] by (simp_all add: layout_run_append)

lemma flush_indents_ok:
  assumes inv: "lex_inv u l" and p: "pos l = length (bytes l)"
  shows "stream_ok u (bytes l) (file_id l) (out (flush_indents l))"
proof -
  let ?sp = "mk_span l (pos l) (pos l)"
  let ?nl = "if last_emitted_newline l then [] else [token_new TNewline ?sp]"
  let ?n = "length (indents l) - 1"
  have out: "out (flush_indents l) = out l @ ?nl @ replicate ?n (token_new TDedent ?sp) @ [token_new TEof ?sp]"
    by (simp add: flush_indents_def Let_def emit_newline_if_needed_def)
  have kinds: "map kind (?nl @ replicate ?n (token_new TDedent ?sp) @ [token_new TEof ?sp]) =
      map kind ?nl @ replicate ?n TDedent @ [TEof]"
    by (simp add: token_new_def map_replicate_const)
  have "layout_run (map kind (out (flush_indents l))) (Line True 0 0) = Some Ended"
    using inv layout_run_end [of ?n]
    unfolding out map_append [of kind "out l"] kinds
    by (auto simp: layout_run_append lex_inv_def token_new_def del: One_nat_def)
  moreover have "stream_weight (out (flush_indents l)) \<le> 4 * pos l + 1"
  proof -
    have "indents l \<noteq> []" using inv by (simp add: lex_inv_def indent_ok_def)
    then obtain n where "length (indents l) = Suc n" by (cases "indents l") auto
    with inv show ?thesis
      unfolding out by (simp add: lex_inv_def token_new_def sum_list_replicate split: if_split_asm)
  qed
  moreover have "list_all (span_in (file_id l) \<circ> tspan) (out (flush_indents l))"
    using inv unfolding out by (auto simp: list_all_iff lex_inv_def token_new_def)
  moreover have "list_all (kind_ok u \<circ> kind) (out (flush_indents l))"
    using inv unfolding out by (auto simp: list_all_iff lex_inv_def token_new_def)
  moreover have "spans_between 0 (out (flush_indents l)) (pos l)" if len: "length (bytes l) < 2 ^ 32"
  proof -
    have sp: "tok_start (token_new k ?sp) = pos l" "tok_end (token_new k ?sp) = pos l" for k
      using tok_mk_span [of "pos l" "pos l" k l] len p by simp_all
    have "spans_between 0 (out l @ ?nl) (pos l)"
      using inv len sp by (simp add: spans_between_snoc lex_inv_def)
    from spans_between_points [OF this sp(1,2), of ?n TDedent] sp show ?thesis
      unfolding out append_assoc [symmetric] by (simp only: spans_between_snoc) simp
  qed
  moreover have "list_all (spelled_at u (bytes l)) (out (flush_indents l))"
    if len: "length (bytes l) < 2 ^ 32"
    using inv len unfolding out by (auto simp: list_all_iff lex_inv_def layout_def)
  ultimately show ?thesis using p by (simp add: stream_ok_def)
qed

lemma run_ok:
  assumes "lex_inv u l"
  shows "ok_res (stream_ok u (bytes l) (file_id l)) (run u l)"
  unfolding run_def
proof (rule ok_res_bind [OF run_loop_ok [OF assms]])
  fix l' assume "lex_inv u l' \<and> bytes l' = bytes l \<and> file_id l' = file_id l \<and> pos l' = length (bytes l)"
  then show "ok_res (stream_ok u (bytes l) (file_id l)) (Inr (out (flush_indents l')))"
    using flush_indents_ok [of u l'] by simp
qed

lemma lex_ok: "utf8 src \<Longrightarrow> ok_res (stream_ok u src f) (lex u src f)"
  using run_ok [OF lex_inv_new [of src u f]] by (simp add: lex_def lexer_new_def)

lemma lex_bytes_ok:
  "if utf8 bs then ok_res (stream_ok u bs f) (lex_bytes u bs f)
   else lex_bytes u bs f = Inl (LexErr (InvalidUtf8 (word_of_nat (valid_up_to bs))))"
  using lex_ok [of bs u f] by (auto simp: lex_bytes_def from_utf8_def utf8_def)

end
