(* ===== verification/Ast.thy ===== *)
theory Ast
  imports Token
begin

text \<open>
  The syntax tree of \<open>crates/cobrust-frontend/src/ast.rs\<close>. The type of spans is a parameter,
  so that a tree with its spans erased is an instance, through the map function, of the same
  datatypes. The families that the source boxes into enumerations of their own without
  recursion (call arguments, dictionary entries, comprehensions, index kinds) are datatypes
  over the type of expressions; \<open>Access\<close> is split into its two cases.
\<close>

section \<open>Literals\<close>

datatype literal =
    LitInt string | LitFloat string | LitImag string | LitStr string | LitBytes string
  | LitBool bool | LitNone

section \<open>Types\<close>

datatype 's type_ann = MkType "'s type_kind" 's
and 's type_kind =
    TyName "string list"
  | TyGeneric "string list" "'s type_ann list"
  | TyUnion "'s type_ann list"
  | TyFn "'s type_ann list" "'s type_ann"
  | TyTuple "'s type_ann list"
  | TyRef "'s type_ann"
  | TyArray "'s type_ann" nat

primrec type_kind_of :: "'s type_ann \<Rightarrow> 's type_kind" where
  "type_kind_of (MkType k s) = k"

primrec type_span :: "'s type_ann \<Rightarrow> 's" where
  "type_span (MkType k s) = s"

section \<open>Parameters\<close>

datatype 's param = Param string "'s type_ann option" "literal option" 's

datatype 's params =
  Params (positional: "'s param list") (var_positional: "'s param option")
    (keyword_only: "'s param list") (var_keyword: "'s param option")

definition params_default :: "'s params" where
  "params_default = Params [] None [] None"

section \<open>Expressions and patterns\<close>

datatype bin_op =
    Add | Sub | Mul | MatMul | Div | FloorDiv | Mod | Pow | OpShl | OpShr | BitAnd | BitOr | BitXor
  | OpEq | OpNotEq | OpLt | OpLtEq | OpGt | OpGtEq | OpAnd | OpOr | OpIn | NotIn

datatype unary_op = UPlus | Neg | BitNot | UNot

datatype 'e fstr_part = FLit string | FExpr 'e bool "string option"

datatype 'e dict_entry = DPair 'e 'e | DSpread 'e

datatype 'e collection_lit =
    CTuple "'e list" | CList "'e list" | CSet "'e list" | CDict "'e dict_entry list"

datatype comprehension_kind = CompList | CompSet | CompDict | CompGenerator

datatype 'e comprehension_elem = Single 'e | KeyValue 'e 'e

datatype ('e, 'p) comprehension_clause = Clause 'p 'e "'e list"

datatype ('e, 'p) comprehension =
  Comprehension comprehension_kind "'e comprehension_elem" "('e, 'p) comprehension_clause list"

datatype 'e call_arg =
    Positional 'e | Keyword string 'e | StarArgs 'e | StarStarKwargs 'e

datatype 'e index_kind =
    IndexExpr 'e
  | Slice "'e option" "'e option" "'e option"
  | IndexTuple "'e index_kind list"

datatype 's expr = MkExpr "'s expr_kind" 's
and 's expr_kind =
    ELiteral literal
  | EFString "'s expr fstr_part list"
  | EName string
  | ECollection "'s expr collection_lit"
  | EComprehension "('s expr, 's pattern) comprehension"
  | ELambda "'s params" "'s expr"
  | ECall "'s expr" "'s expr call_arg list"
  | EAttribute "'s expr" string
  | EIndex "'s expr" "'s expr index_kind"
  | EBinary bin_op "'s expr" "'s expr"
  | EUnary unary_op "'s expr"
  | EBorrow "'s expr"
  | EAwait "'s expr"
  | EYield "'s expr option"
  | EYieldFrom "'s expr"
  | ECast "'s expr" "'s type_ann"
  | EIfExpr "'s expr" "'s expr" "'s expr"
and 's pattern = MkPattern "'s pattern_kind" 's
and 's pattern_kind =
    PWildcard
  | PBinding string
  | PLiteral literal
  | PSequence "'s pattern list" "'s pattern option"
  | PMapping "('s expr \<times> 's pattern) list" "string option"
  | PClass "string list" "'s pattern list" "(string \<times> 's pattern) list"
  | POr "'s pattern list"

primrec expr_kind_of :: "'s expr \<Rightarrow> 's expr_kind" where
  "expr_kind_of (MkExpr k s) = k"

primrec expr_span :: "'s expr \<Rightarrow> 's" where
  "expr_span (MkExpr k s) = s"

primrec pattern_span :: "'s pattern \<Rightarrow> 's" where
  "pattern_span (MkPattern k s) = s"

section \<open>Statements\<close>

datatype break_kind = Break | Continue

datatype import_target = ImportTarget string "string option"

datatype import_stmt =
    Import "string list" "string option"
  | From "string list" "import_target list"

datatype 's alias_def = TypeAlias string "string list" "'s type_ann"

datatype assign_op =
    AEq | APlusEq | AMinusEq | AStarEq | AStarStarEq | ASlashEq | ASlashSlashEq | APercentEq
  | AAmpEq | APipeEq | ACaretEq | AShlEq | AShrEq

datatype 's with_item = WithItem "'s expr" "'s pattern option"

text \<open>\<open>FnDef\<close>, \<open>ClassDef\<close>, \<open>MatchArm\<close> and \<open>ExceptHandler\<close>, over the type of blocks.\<close>

datatype ('s, 'b) fn_def = FnDef string "'s params" "'s type_ann option" (fn_body: 'b)

datatype ('s, 'b) class_def =
  ClassDef string "'s expr option" "'s type_ann list" (class_body: 'b)
    (field_refinements: "(string \<times> 's expr) list")

datatype ('s, 'b) match_arm = MatchArm "'s pattern" "'s expr option" (arm_body: 'b)

datatype ('s, 'b) except_handler =
  ExceptHandler "'s type_ann" "string option" (handler_body: 'b)

datatype 's block = Block "'s stmt list" (block_span: 's)
and 's stmt = MkStmt "'s stmt_kind" (stmt_span: 's)
and 's stmt_kind =
    SImport import_stmt
  | SFn "('s, 's block) fn_def"
  | SClass "('s, 's block) class_def"
  | SDecorated "'s expr list" "'s stmt"
  | STypeAlias "'s alias_def"
  | SLet "'s pattern" "'s type_ann option" "'s expr"
  | SAssign "'s expr" assign_op "'s expr"
  | SIf "'s expr" "'s block" "('s expr \<times> 's block) list" "'s block option"
  | SWhile "'s expr" "'s block" "'s block option"
  | SFor "'s pattern" "'s expr" "'s block" "'s block option"
  | SMatch "'s expr" "('s, 's block) match_arm list"
  | SWith "'s with_item list" "'s block"
  | STry "'s block" "('s, 's block) except_handler list" "'s block option" "'s block option"
  | SReturn "'s expr option"
  | SBreakContinue break_kind
  | SRaise "'s expr option" "'s expr option"
  | SPass
  | SExpr "'s expr"

datatype 's module = Module (docstring: "string option") (items: "'s stmt list") (module_span: 's)

end
