(* ===== verification/Lexer_Literal.thy ===== *)
theory Lexer_Literal
  imports Lexer_Layout Ast
begin

text \<open>
  Literals as the unparser writes them (\<open>write_literal\<close> of
  \<open>crates/cobrust-frontend/src/unparse.rs\<close>), and what the lexer
  makes of a written bytes literal. Rust's \<open>{:?}\<close> on a \<open>str\<close> consults the printability tables
  of the standard library; it is the argument \<open>debug_str\<close>.
\<close>

text \<open>\<open>{:02x}\<close>\<close>

definition hex_char :: "nat \<Rightarrow> char" where
  "hex_char d = (if d < 10 then char_of (48 + d) else char_of (87 + d))"

definition write_byte :: "char \<Rightarrow> string" where
  "write_byte b =
     (if b = CHR 0x5C then [CHR 0x5C, CHR 0x5C]
      else if b = CHR 0x22 then [CHR 0x5C, CHR 0x22]
      else if b = CHR 0x0A then [CHR 0x5C, CHR ''n'']
      else if b = CHR 0x09 then [CHR 0x5C, CHR ''t'']
      else if b = CHR 0x0D then [CHR 0x5C, CHR ''r'']
      else if 33 \<le> byte b \<and> byte b \<le> 126 \<or> b = CHR '' '' then [b]
      else [CHR 0x5C, CHR ''x'', hex_char (byte b div 16), hex_char (byte b mod 16)])"

primrec write_literal :: "(string \<Rightarrow> string) \<Rightarrow> literal \<Rightarrow> string" where
  "write_literal debug_str (LitInt s) = s"
| "write_literal debug_str (LitFloat s) = s"
| "write_literal debug_str (LitImag s) = s"
| "write_literal debug_str (LitStr s) = debug_str s"
| "write_literal debug_str (LitBytes bs) =
     [CHR ''b'', CHR 0x22] @ concat (map write_byte bs) @ [CHR 0x22]"
| "write_literal debug_str (LitBool b) = (if b then ''True'' else ''False'')"
| "write_literal debug_str LitNone = ''None''"

section \<open>Reading an escaped byte\<close>

lemma byte_lt_256: "byte c < 256"
  by simp

lemma hex_char_digit:
  assumes "d < 16"
  shows "is_ascii_hexdigit (hex_char d)" "hex_digit (hex_char d) = d"
  using assms
  by (auto simp: hex_char_def is_ascii_hexdigit_def is_ascii_digit_def hex_digit_def)

lemma current_char_ascii:
  assumes "byte_at l p = Some c" "byte c < 128"
  shows "current_char l p = Inr (byte c)"
  using assms boundary_ascii [of p "bytes l"]
  by (auto simp: current_char_def byte_at_eq_Some decode_char_def byte_or_0_def Let_def)

text \<open>The source from a position on, as the loops see it.\<close>

lemma byte_at_drop:
  assumes "drop p (bytes l) = c # r"
  shows "byte_at l p = Some c" "drop (p + 1) (bytes l) = r"
proof -
  have "p < length (bytes l)" using assms by (metis drop_eq_Nil2 list.distinct(1) not_le)
  moreover from this assms have "bytes l ! p = c" by (metis Cons_nth_drop_Suc list.inject)
  ultimately show "byte_at l p = Some c" by (simp add: byte_at_def)
  show "drop (p + 1) (bytes l) = r" using assms by (metis Suc_eq_plus1 drop_Suc list.sel(3) tl_drop)
qed

lemma read_hex_drop:
  assumes "drop p (bytes l) = a # b # r" "is_ascii_hexdigit a" "is_ascii_hexdigit b"
  shows "read_hex l p 2 = Some (hex_digit a * 16 + hex_digit b)"
proof -
  have "length (drop p (bytes l)) = 2 + length r" using assms(1) by simp
  then have "p + 2 \<le> length (bytes l)" by simp
  with assms show ?thesis by (simp add: read_hex_def Let_def)
qed

definition bytes_prefix :: str_prefix where
  "bytes_prefix = \<lparr>raw = False, is_bytes = True\<rparr>"

lemma string_step_written:
  assumes "drop p (bytes l) = write_byte b @ r"
  shows "string_step l (CHR 0x22) False bytes_prefix p v =
    Inr (More (p + length (write_byte b)) (v @ [b]))"
proof -
  consider (special) "b \<in> {CHR 0x5C, CHR 0x22, CHR 0x0A, CHR 0x09, CHR 0x0D}"
    | (graphic) "b \<notin> {CHR 0x5C, CHR 0x22, CHR 0x0A, CHR 0x09, CHR 0x0D}"
        "33 \<le> byte b \<and> byte b \<le> 126 \<or> b = CHR '' ''"
    | (hex) "b \<notin> {CHR 0x5C, CHR 0x22, CHR 0x0A, CHR 0x09, CHR 0x0D}"
        "\<not> (33 \<le> byte b \<and> byte b \<le> 126 \<or> b = CHR '' '')"
    by argo
  then show ?thesis
  proof cases
    case special
    then obtain e where e: "write_byte b = [CHR 0x5C, e]" "simple_escape e = Some b" "e \<noteq> CHR 0x0A"
      by (auto simp: write_byte_def simple_escape_def)
    with assms have d: "drop p (bytes l) = CHR 0x5C # e # r" by simp
    note 1 = byte_at_drop [OF d] byte_at_drop [OF byte_at_drop(2) [OF d]]
    show ?thesis
      using 1 e by (simp add: string_step_def string_escape_def bytes_prefix_def)
  next
    case graphic
    then have w: "write_byte b = [b]" and n: "b \<noteq> CHR 0x22" "b \<noteq> CHR 0x5C" "b \<noteq> CHR 0x0A" "b \<noteq> CHR 0x0D"
      by (simp_all add: write_byte_def)
    have a: "byte b < 128" using graphic(2) by auto
    have d: "drop p (bytes l) = b # r" using assms w by simp
    have len: "len_utf8 (byte b) = 1" using a by (simp add: len_utf8_def)
    show ?thesis
      using byte_at_drop(1) [OF d] current_char_ascii [OF _ a] n w len a
      by (simp add: string_step_def encode_ascii)
  next
    case hex
    let ?a = "hex_char (byte b div 16)" and ?c = "hex_char (byte b mod 16)"
    have w: "write_byte b = [CHR 0x5C, CHR ''x'', ?a, ?c]"
      using hex by (simp add: write_byte_def)
    have "byte b div 16 < 16" using byte_lt_256 [of b] by linarith
    note digits = hex_char_digit [OF this] hex_char_digit [of "byte b mod 16"]
    have d: "drop p (bytes l) = CHR 0x5C # CHR ''x'' # ?a # ?c # r" using assms w by simp
    note 1 = byte_at_drop [OF d]
    note 2 = byte_at_drop [OF 1(2)]
    have "read_hex l (p + 2) 2 = Some (byte b)"
      using read_hex_drop [of "p + 2" l ?a ?c r] 2(2) digits by simp
    then show ?thesis
      using 1(1) 2(1) w by (simp add: string_step_def string_escape_def bytes_prefix_def simple_escape_def)
  qed
qed

lemma string_loop_written:
  "drop p (bytes l) = concat (map write_byte bs) @ CHR 0x22 # r \<Longrightarrow>
     string_loop l (CHR 0x22) False bytes_prefix p v =
       Inr (p + length (concat (map write_byte bs)) + 1, v @ bs)"
proof (induction bs arbitrary: p v)
  case Nil
  then have "byte_at l p = Some (CHR 0x22)" using byte_at_drop by simp
  then show ?case by (subst string_loop.simps) (simp add: string_step_def)
next
  case (Cons b bs)
  then have d: "drop p (bytes l) = write_byte b @ (concat (map write_byte bs) @ CHR 0x22 # r)" by simp
  have "drop (p + length (write_byte b)) (bytes l) =
      drop (length (write_byte b)) (drop p (bytes l))" by (simp add: add.commute)
  also have "\<dots> = concat (map write_byte bs) @ CHR 0x22 # r" unfolding d by simp
  finally have "string_loop l (CHR 0x22) False bytes_prefix (p + length (write_byte b)) (v @ [b]) =
      Inr (p + length (write_byte b) + length (concat (map write_byte bs)) + 1, (v @ [b]) @ bs)"
    by (rule Cons.IH)
  then show ?case
    using string_step_written [OF d, of v] by (subst string_loop.simps) simp
qed

section \<open>A source that is one bytes literal\<close>

text \<open>
  Quotation marks do not continue an identifier; Unicode gives none of them the property
  \<open>XID_Continue\<close>.
\<close>

definition quotes_end_words :: "unicode \<Rightarrow> bool" where
  "quotes_end_words u \<longleftrightarrow> \<not> uni_xid_continue u 0x22 \<and> \<not> uni_xid_continue u 0x27"

definition single_token :: "token_kind \<Rightarrow> u32 \<Rightarrow> nat \<Rightarrow> token list" where
  "single_token k f n =
     (let sp = span_point f (word_of_nat n)
      in [token_new k (span_new f 0 (word_of_nat n)), token_new TNewline sp, token_new TEof sp])"

lemma lex_string_written:
  assumes src: "bytes l = CHR ''b'' # CHR 0x22 # concat (map write_byte bs) @ [CHR 0x22]"
  shows "lex_string l bytes_prefix 1 =
    Inr (push_token l (TBytes bs bytes_prefix) (pos l) (length (bytes l)))"
proof -
  have q: "byte_at l 1 = Some (CHR 0x22)" by (simp add: byte_at_def src)
  have "\<not> two_quotes l 2 (CHR 0x22)"
  proof (cases bs)
    case Nil
    then show ?thesis by (simp add: two_quotes_def byte_at_def src)
  next
    case (Cons b bs')
    have "write_byte b \<noteq> [] \<and> hd (write_byte b) \<noteq> CHR 0x22" by (simp add: write_byte_def)
    then obtain c w where "write_byte b = c # w" "c \<noteq> CHR 0x22" by (metis list.exhaust_sel)
    with Cons show ?thesis by (simp add: two_quotes_def byte_at_def src)
  qed
  moreover have "string_loop l (CHR 0x22) False bytes_prefix 2 [] =
      Inr (2 + length (concat (map write_byte bs)) + 1, [] @ bs)"
    by (rule string_loop_written [where r = "[]"]) (simp add: src)
  ultimately show ?thesis
    using q by (simp add: lex_string_def Let_def src bytes_prefix_def numeral_2_eq_2)
qed

lemma lex_bytes_literal:
  assumes u: "quotes_end_words u"
  shows "lex u (write_literal dbg (LitBytes bs)) f =
    Inr (single_token (TBytes bs bytes_prefix) f (length (write_literal dbg (LitBytes bs))))"
proof -
  let ?src = "write_literal dbg (LitBytes bs)"
  define l where "l = (lexer_new ?src f)\<lparr>at_line_start := False\<rparr>"
  have src: "bytes l = CHR ''b'' # CHR 0x22 # concat (map write_byte bs) @ [CHR 0x22]"
    by (simp add: l_def lexer_new_def)
  have at: "byte_at l 0 = Some (CHR ''b'')" "byte_at l 1 = Some (CHR 0x22)"
    by (simp_all add: byte_at_def src)
  have start: "line_start (lexer_new ?src f) = Inr l"
    by (simp add: line_start_def handle_line_start_def lexer_new_def byte_at_def dedent_to_def l_def)
  have p: "pos l = 0" by (simp add: l_def lexer_new_def)
  have c: "current_char l 0 = Inr 98" "current_char l 1 = Inr 34"
    using current_char_ascii [OF at(1)] current_char_ascii [OF at(2)] by simp_all
  have w: "scan_word u l 1 = Inr 1"
    using u c(2) src
    by (subst scan_word.simps)
      (simp add: is_xid_continue_def ascii_alphanumeric_def ascii_alphabetic_def quotes_end_words_def)
  have "slice l 0 1 = Inr ''b''"
    by (simp add: slice_def str_range_def src is_boundary_def cont_byte_def)
  moreover have "parse_str_prefix ''b'' = bytes_prefix" "is_string_prefix ''b''" "\<not> is_fstring_prefix ''b''"
    by (simp_all add: parse_str_prefix_def bytes_prefix_def is_string_prefix_def is_fstring_prefix_def
        ascii_lower_def)
  moreover have "is_xid_start u 98" by (simp add: is_xid_start_def ascii_alphabetic_def)
  ultimately have "lex_word_or_string_with_prefix u l = lex_string l bytes_prefix 1"
    using c(1) w at p
    by (simp add: lex_word_or_string_with_prefix_def finish_word_def len_utf8_def)
  also have "\<dots> = Inr (push_token l (TBytes bs bytes_prefix) 0 (length (bytes l)))"
    using lex_string_written [OF src] p by simp
  finally have "lex_one_token u l (CHR ''b'') =
      Inr (push_token l (TBytes bs bytes_prefix) 0 (length (bytes l)))"
    by (simp add: lex_one_token_def brackets_def single_ops_def assign_ops_def long_ops_def is_ascii_digit_def)
  then have "lex_turn u (lexer_new ?src f) =
      Inr (push_token l (TBytes bs bytes_prefix) 0 (length (bytes l)))"
    using start at p src by (simp add: lex_turn_def lex_byte_def)
  moreover have "run_loop u (push_token l (TBytes bs bytes_prefix) 0 (length (bytes l))) =
      Inr (push_token l (TBytes bs bytes_prefix) 0 (length (bytes l)))"
    by (subst run_loop.simps) (simp add: push_token_def)
  ultimately have "run_loop u (lexer_new ?src f) =
      Inr (push_token l (TBytes bs bytes_prefix) 0 (length (bytes l)))"
    by (subst run_loop.simps) (simp add: lexer_new_def)
  then show ?thesis
    by (simp add: lex_def run_def flush_indents_def Let_def emit_newline_if_needed_def push_token_def
        single_token_def span_point_def mk_span_def l_def lexer_new_def)
qed

end
