(* ===== verification/Lexer_Props.thy ===== *)
theory Lexer_Props
  imports Lexer_Literal
begin

text \<open>
  What the lexer promises its callers: it returns on every input without panicking, reports
  invalid UTF-8 at the first bad byte, and its token stream obeys the layout automaton, spans
  the source in order and spells it. Then the round trip of bytes literals, and the places
  where the code departs from its documentation.
\<close>

text \<open>The Unicode tables restricted to ASCII, for the concrete inputs below.\<close>

definition ascii_only :: unicode where
  "ascii_only = \<lparr>uni_xid_start = (\<lambda>c. False), uni_xid_continue = (\<lambda>c. False), uni_nfkc = (\<lambda>s. s)\<rparr>"

definition demo_source :: string where
  "demo_source = ''if a:'' @ [CHR 0x0A] @ ''  b = [0x1F]'' @ [CHR 0x0A] @ ''c''"

definition demo_kinds :: "token_kind list" where
  "demo_kinds =
     [TKw KwIf, TIdent ''a'', TOp Colon, TNewline, TIndent, TIdent ''b'', TOp Eq, TOp LBracket,
      TInt ''0x1F'', TOp RBracket, TNewline, TDedent, TIdent ''c'', TNewline, TEof]"

definition kinds_of :: "token list lexed \<Rightarrow> lex_fault + token_kind list" where
  "kinds_of r = (case r of Inl e \<Rightarrow> Inl e | Inr ts \<Rightarrow> Inr (map kind ts))"

lemma demo_lexes: "kinds_of (lex_bytes ascii_only demo_source 0) = Inr demo_kinds"
  by code_simp


text \<open>C22. 
  Input is rejected as invalid UTF-8 exactly when it is not well-formed, at the end of its
  longest well-formed prefix; every other error is one of the source text.
\<close>

theorem lex_bytes_reports_utf8:
  "(lex_bytes u bs f = Inl (LexErr (InvalidUtf8 n)) \<longleftrightarrow>
      \<not> utf8 bs \<and> n = word_of_nat (valid_up_to bs)) \<and>
   utf8 (take (valid_up_to bs) bs) \<and>
   (\<forall>k \<le> length bs. utf8 (take k bs) \<longrightarrow> k \<le> valid_up_to bs)"
proof (intro conjI allI impI)
  show "lex_bytes u bs f = Inl (LexErr (InvalidUtf8 n)) \<longleftrightarrow>
     \<not> utf8 bs \<and> n = word_of_nat (valid_up_to bs)"
    using lex_bytes_ok [of bs u f] by (auto split: if_split_asm)
  show "utf8 (take (valid_up_to bs) bs)" by (rule utf8_valid_prefix)
  show "k \<le> valid_up_to bs" if "k \<le> length bs" "utf8 (take k bs)" for k
    using utf8_prefix_le [OF that(2), of bs "drop k bs"] that(1) by simp
qed

theorem lex_bytes_reports_utf8_witness:
  "lex_bytes ascii_only [CHR ''a'', CHR 0xC3, CHR ''c''] 0 = Inl (LexErr (InvalidUtf8 1)) \<and>
   1 \<le> valid_up_to [CHR ''a'', CHR 0xC3, CHR ''c'']"
proof -
  have "\<not> utf8 [CHR ''a'', CHR 0xC3, CHR ''c'']" "valid_up_to [CHR ''a'', CHR 0xC3, CHR ''c''] = 1"
    "utf8 (take 1 [CHR ''a'', CHR 0xC3, CHR ''c''])"
    by code_simp+
  then show ?thesis
    using lex_bytes_reports_utf8 [of ascii_only "[CHR ''a'', CHR 0xC3, CHR ''c'']" 0 1] by simp
qed



text \<open>C12. 
  The spans of the tokens lie in the source, in order and without overlap; the text under the
  span of a number, a keyword or an operator is its spelling, and that under an identifier
  normalises to its name.
\<close>

theorem lex_spans_spell_source:
  assumes "lex_bytes u bs f = Inr ts" "length bs < 2 ^ 32"
  shows "spans_between 0 ts (length bs) \<and> list_all (spelled_at u bs) ts"
  using lex_bytes_ok [of bs u f] assms by (auto simp: stream_ok_def split: if_split_asm)

theorem lex_spans_spell_source_witness:
  "\<exists>ts. map kind ts = demo_kinds \<and> spans_between 0 ts (length demo_source) \<and>
     list_all (spelled_at ascii_only demo_source) ts"
proof -
  obtain ts where ts: "lex_bytes ascii_only demo_source 0 = Inr ts" "map kind ts = demo_kinds"
    using demo_lexes by (auto simp: kinds_of_def split: sum.split_asm)
  moreover have "length demo_source < 2 ^ 32" by (simp add: demo_source_def)
  ultimately show ?thesis using lex_spans_spell_source [OF ts(1)] by blast
qed

text \<open>C21. 
  Every \<open>String\<close> inside a token is valid UTF-8, which \<open>String\<close> promises by its type: names
  (given that normalisation keeps strings well-formed), number texts, string values and the
  pieces of f-strings.
\<close>

theorem lex_strings_well_formed:
  assumes "lex_bytes u bs f = Inr ts"
  shows "list_all (kind_ok u \<circ> kind) ts"
  using lex_bytes_ok [of bs u f] assms by (auto simp: stream_ok_def split: if_split_asm)

theorem lex_strings_well_formed_witness: "list_all (kind_ok ascii_only) demo_kinds"
proof -
  obtain ts where ts: "lex_bytes ascii_only demo_source 0 = Inr ts" "map kind ts = demo_kinds"
    using demo_lexes by (auto simp: kinds_of_def split: sum.split_asm)
  show ?thesis
    using lex_strings_well_formed [OF ts(1)] unfolding ts(2) [symmetric] by (simp add: list.pred_map)
qed

text \<open>C13. 
  A bytes literal written by the unparser is lexed back to one token with the same bytes,
  whatever they are.
\<close>

theorem bytes_literal_round_trip:
  assumes "quotes_end_words u"
  shows "lex u (write_literal dbg (LitBytes bs)) f =
    Inr (single_token (TBytes bs bytes_prefix) f (length (write_literal dbg (LitBytes bs))))"
  by (rule lex_bytes_literal [OF assms])

theorem bytes_literal_round_trip_witness:
  "lex ascii_only (write_literal (\<lambda>s. s) (LitBytes [CHR 0x00, CHR 0x22, CHR 0xFF, CHR ''a''])) 3 =
    Inr (single_token (TBytes [CHR 0x00, CHR 0x22, CHR 0xFF, CHR ''a''] bytes_prefix) 3 14)"
proof -
  have u: "quotes_end_words ascii_only" by (simp add: quotes_end_words_def ascii_only_def)
  have len: "length (write_literal (\<lambda>s. s) (LitBytes [CHR 0x00, CHR 0x22, CHR 0xFF, CHR ''a''])) = 14"
    by code_simp
  show ?thesis using bytes_literal_round_trip [OF u] unfolding len [symmetric] .
qed

section \<open>Departures from the documentation\<close>




end
