(* ===== verification/Unparse.thy ===== *)
theory Unparse
  imports Lexer_Literal
begin

text \<open>
  The unparser, \<open>crates/cobrust-frontend/src/unparse.rs\<close>. \<open>Writer\<close> only appends to its output
  and balances its indent, so each method is the text it appends; those that write lines take
  the indent. Literals are in \<open>Lexer_Literal\<close>, with \<open>debug_str\<close> for the \<open>{:?}\<close> of a \<open>str\<close>.
\<close>

section \<open>Separated lists\<close>

definition comma_list :: "string list \<Rightarrow> string" where
  "comma_list = join_with '', ''"

definition prefixed :: "string \<Rightarrow> string option \<Rightarrow> string" where
  "prefixed sep s = (case s of None \<Rightarrow> [] | Some t \<Rightarrow> sep @ t)"

section \<open>Types and parameters\<close>

primrec write_type :: "'s type_ann \<Rightarrow> string"
  and write_type_kind :: "'s type_kind \<Rightarrow> string" where
  "write_type (MkType k s) = write_type_kind k"
| "write_type_kind (TyName parts) = join_with ''.'' parts"
| "write_type_kind (TyGeneric base args) =
     join_with ''.'' base @ ''['' @ comma_list (map write_type args) @ '']''"
| "write_type_kind (TyUnion parts) = join_with '' | '' (map write_type parts)"
| "write_type_kind (TyFn params ret) =
     ''('' @ comma_list (map write_type params) @ '') -> '' @ write_type ret"
| "write_type_kind (TyTuple parts) =
     ''('' @ comma_list (map write_type parts) @ (if length parts = 1 then '','' else []) @ '')''"
| "write_type_kind (TyRef inner) = ''&'' @ write_type inner"
| "write_type_kind (TyArray elem len) = ''['' @ write_type elem @ ''; '' @ dec_digits len @ '']''"

primrec write_param :: "(string \<Rightarrow> string) \<Rightarrow> 's param \<Rightarrow> string" where
  "write_param debug_str (Param name annot dflt s) =
     name @ prefixed '': '' (map_option write_type annot) @
     prefixed '' = '' (map_option (write_literal debug_str) dflt)"

primrec write_params :: "(string \<Rightarrow> string) \<Rightarrow> 's params \<Rightarrow> string" where
  "write_params debug_str (Params regular var_pos kw_only var_kw) =
     comma_list
       (map (write_param debug_str) regular @
        (case var_pos of
           Some vp \<Rightarrow> [''*'' @ write_param debug_str vp]
         | None \<Rightarrow> if kw_only = [] then [] else [''*'']) @
        map (write_param debug_str) kw_only @
        (case var_kw of None \<Rightarrow> [] | Some vk \<Rightarrow> [''**'' @ write_param debug_str vk]))"

definition is_empty_params :: "'s params \<Rightarrow> bool" where
  "is_empty_params ps \<longleftrightarrow>
     positional ps = [] \<and> var_positional ps = None \<and> keyword_only ps = [] \<and> var_keyword ps = None"

section \<open>Expressions and patterns\<close>

definition binop_str :: "bin_op \<Rightarrow> string" where
  "binop_str op =
     (case op of
        Add \<Rightarrow> ''+'' | Sub \<Rightarrow> ''-'' | Mul \<Rightarrow> ''*'' | MatMul \<Rightarrow> ''@'' | Div \<Rightarrow> ''/'' | FloorDiv \<Rightarrow> ''//''
      | Mod \<Rightarrow> ''%'' | Pow \<Rightarrow> ''**'' | OpShl \<Rightarrow> ''<<'' | OpShr \<Rightarrow> ''>>'' | BitAnd \<Rightarrow> ''&'' | BitOr \<Rightarrow> ''|''
      | BitXor \<Rightarrow> ''^'' | OpEq \<Rightarrow> ''=='' | OpNotEq \<Rightarrow> ''!='' | OpLt \<Rightarrow> ''<'' | OpLtEq \<Rightarrow> ''<=''
      | OpGt \<Rightarrow> ''>'' | OpGtEq \<Rightarrow> ''>='' | OpAnd \<Rightarrow> ''and'' | OpOr \<Rightarrow> ''or'' | OpIn \<Rightarrow> ''in''
      | NotIn \<Rightarrow> ''not in'')"

definition unaryop_str :: "unary_op \<Rightarrow> string" where
  "unaryop_str op = (case op of UPlus \<Rightarrow> ''+'' | Neg \<Rightarrow> ''-'' | BitNot \<Rightarrow> ''~'' | UNot \<Rightarrow> ''not'')"

text \<open>One byte of a literal piece of an f-string; \<open>chars()\<close> only acts on ASCII characters.\<close>

definition write_fstring_char :: "char \<Rightarrow> string" where
  "write_fstring_char c =
     (if c = CHR 0x22 then [CHR 0x5C, CHR 0x22]
      else if c = CHR 0x5C then [CHR 0x5C, CHR 0x5C]
      else if c = CHR ''{'' then ''{{''
      else if c = CHR ''}'' then ''}}''
      else if c = CHR 0x0A then [CHR 0x5C, CHR ''n'']
      else [c])"

text \<open>The forms below are over the texts of their subexpressions.\<close>

primrec write_fstr_part :: "string fstr_part \<Rightarrow> string" where
  "write_fstr_part (FLit s) = concat (map write_fstring_char s)"
| "write_fstr_part (FExpr e dbg spec) =
     ''{'' @ e @ (if dbg then ''='' else []) @ prefixed '':'' spec @ ''}''"

definition write_fstring :: "string fstr_part list \<Rightarrow> string" where
  "write_fstring parts = [CHR ''f'', CHR 0x22] @ concat (map write_fstr_part parts) @ [CHR 0x22]"

primrec write_dict_entry :: "string dict_entry \<Rightarrow> string" where
  "write_dict_entry (DPair k v) = k @ '': '' @ v"
| "write_dict_entry (DSpread e) = ''**'' @ e"

primrec write_collection :: "string collection_lit \<Rightarrow> string" where
  "write_collection (CTuple elems) =
     ''('' @ comma_list elems @ (if length elems = 1 then '','' else []) @ '')''"
| "write_collection (CList elems) = ''['' @ comma_list elems @ '']''"
| "write_collection (CSet elems) =
     (if elems = [] then ''set()'' else ''{'' @ comma_list elems @ ''}'')"
| "write_collection (CDict entries) = ''{'' @ comma_list (map write_dict_entry entries) @ ''}''"

primrec write_call_arg :: "string call_arg \<Rightarrow> string" where
  "write_call_arg (Positional e) = e"
| "write_call_arg (Keyword n e) = n @ ''='' @ e"
| "write_call_arg (StarArgs e) = ''*'' @ e"
| "write_call_arg (StarStarKwargs e) = ''**'' @ e"

primrec write_index :: "string index_kind \<Rightarrow> string" where
  "write_index (IndexExpr e) = e"
| "write_index (Slice start stop step) =
     prefixed [] start @ '':'' @ prefixed [] stop @ prefixed '':'' step"
| "write_index (IndexTuple elems) = comma_list (map write_index elems)"

primrec write_clause :: "(string, string) comprehension_clause \<Rightarrow> string" where
  "write_clause (Clause target iter guards) =
     '' for '' @ target @ '' in '' @ iter @ concat (map (\<lambda>g. '' if '' @ g) guards)"

primrec write_element :: "string comprehension_elem \<Rightarrow> string" where
  "write_element (Single e) = e"
| "write_element (KeyValue k v) = k @ '': '' @ v"

definition comprehension_brackets :: "comprehension_kind \<Rightarrow> string \<times> string" where
  "comprehension_brackets k =
     (case k of
        CompList \<Rightarrow> (''['', '']'') | CompSet \<Rightarrow> (''{'', ''}'') | CompDict \<Rightarrow> (''{'', ''}'')
      | CompGenerator \<Rightarrow> (''('', '')''))"

primrec write_comprehension :: "(string, string) comprehension \<Rightarrow> string" where
  "write_comprehension (Comprehension kd element clauses) =
     fst (comprehension_brackets kd) @ write_element element @ concat (map write_clause clauses) @
     snd (comprehension_brackets kd)"

primrec write_expr :: "(string \<Rightarrow> string) \<Rightarrow> 's expr \<Rightarrow> string"
  and write_expr_kind :: "(string \<Rightarrow> string) \<Rightarrow> 's expr_kind \<Rightarrow> string"
  and write_pattern :: "(string \<Rightarrow> string) \<Rightarrow> 's pattern \<Rightarrow> string"
  and write_pattern_kind :: "(string \<Rightarrow> string) \<Rightarrow> 's pattern_kind \<Rightarrow> string" where
  "write_expr d (MkExpr k s) = write_expr_kind d k"
| "write_expr_kind d (ELiteral l) = write_literal d l"
| "write_expr_kind d (EFString parts) = write_fstring (map (map_fstr_part (write_expr d)) parts)"
| "write_expr_kind d (EName n) = n"
| "write_expr_kind d (ECollection c) = write_collection (map_collection_lit (write_expr d) c)"
| "write_expr_kind d (EComprehension c) =
     write_comprehension (map_comprehension (write_expr d) (write_pattern d) c)"
| "write_expr_kind d (ELambda params body) =
     ''lambda'' @ (if is_empty_params params then [] else '' '' @ write_params d params) @ '': '' @
     write_expr d body"
| "write_expr_kind d (ECall callee args) =
     write_expr d callee @ ''('' @
     comma_list (map write_call_arg (map (map_call_arg (write_expr d)) args)) @ '')''"
| "write_expr_kind d (EAttribute base name) = write_expr d base @ ''.'' @ name"
| "write_expr_kind d (EIndex base index) =
     write_expr d base @ ''['' @ write_index (map_index_kind (write_expr d) index) @ '']''"
| "write_expr_kind d (EBinary op lhs rhs) =
     ''('' @ write_expr d lhs @ '' '' @ binop_str op @ '' '' @ write_expr d rhs @ '')''"
| "write_expr_kind d (EUnary op operand) =
     ''('' @ unaryop_str op @ (if op = UNot then '' '' else []) @ write_expr d operand @ '')''"
| "write_expr_kind d (EBorrow operand) = ''(&'' @ write_expr d operand @ '')''"
| "write_expr_kind d (EAwait e) = ''(await '' @ write_expr d e @ '')''"
| "write_expr_kind d (EYield e) = ''(yield'' @ prefixed '' '' (map_option (write_expr d) e) @ '')''"
| "write_expr_kind d (EYieldFrom e) = ''(yield from '' @ write_expr d e @ '')''"
| "write_expr_kind d (ECast e target) = ''('' @ write_expr d e @ '' as '' @ write_type target @ '')''"
| "write_expr_kind d (EIfExpr cond then_branch else_branch) =
     ''('' @ write_expr d then_branch @ '' if '' @ write_expr d cond @ '' else '' @
     write_expr d else_branch @ '')''"
| "write_pattern d (MkPattern k s) = write_pattern_kind d k"
| "write_pattern_kind d PWildcard = ''_''"
| "write_pattern_kind d (PBinding n) = n"
| "write_pattern_kind d (PLiteral l) = write_literal d l"
| "write_pattern_kind d (PSequence elems rest) =
     ''['' @ comma_list (map (write_pattern d) elems @
       (case map_option (write_pattern d) rest of None \<Rightarrow> [] | Some r \<Rightarrow> [''*'' @ r])) @ '']''"
| "write_pattern_kind d (PMapping entries rest) =
     ''{'' @ comma_list (map (\<lambda>(k, v). k @ '': '' @ v)
         (map (map_prod (write_expr d) (write_pattern d)) entries) @
       (case rest of None \<Rightarrow> [] | Some r \<Rightarrow> [''**'' @ r])) @ ''}''"
| "write_pattern_kind d (PClass base args kwargs) =
     join_with ''.'' base @ ''('' @ comma_list (map (write_pattern d) args @
       map (\<lambda>(n, p). n @ ''='' @ p) (map (map_prod id (write_pattern d)) kwargs)) @ '')''"
| "write_pattern_kind d (POr alts) = join_with '' | '' (map (write_pattern d) alts)"

section \<open>Statements\<close>

definition pad :: "nat \<Rightarrow> string" where
  "pad indent = concat (replicate indent ''    '')"

definition newline :: string where
  "newline = [CHR 0x0A]"

definition line :: "nat \<Rightarrow> string \<Rightarrow> string" where
  "line indent s = pad indent @ s @ newline"

definition assign_op_str :: "assign_op \<Rightarrow> string" where
  "assign_op_str op =
     (case op of
        AEq \<Rightarrow> '' = '' | APlusEq \<Rightarrow> '' += '' | AMinusEq \<Rightarrow> '' -= '' | AStarEq \<Rightarrow> '' *= ''
      | AStarStarEq \<Rightarrow> '' **= '' | ASlashEq \<Rightarrow> '' /= '' | ASlashSlashEq \<Rightarrow> '' //= ''
      | APercentEq \<Rightarrow> '' %= '' | AAmpEq \<Rightarrow> '' &= '' | APipeEq \<Rightarrow> '' |= '' | ACaretEq \<Rightarrow> '' ^= ''
      | AShlEq \<Rightarrow> '' <<= '' | AShrEq \<Rightarrow> '' >>= '')"

primrec write_import_target :: "import_target \<Rightarrow> string" where
  "write_import_target (ImportTarget name alias) = name @ prefixed '' as '' alias"

primrec write_import :: "import_stmt \<Rightarrow> string" where
  "write_import (Import path alias) = ''import '' @ join_with ''.'' path @ prefixed '' as '' alias"
| "write_import (From path targets) =
     ''from '' @ join_with ''.'' path @ '' import '' @ comma_list (map write_import_target targets)"

primrec write_with_item :: "(string \<Rightarrow> string) \<Rightarrow> 's with_item \<Rightarrow> string" where
  "write_with_item d (WithItem context target) =
     write_expr d context @ prefixed '' as '' (map_option (write_pattern d) target)"

primrec write_type_alias :: "'s alias_def \<Rightarrow> string" where
  "write_type_alias (TypeAlias name type_params v) =
     ''type '' @ name @ (if type_params = [] then [] else ''['' @ comma_list type_params @ '']'') @
     '' = '' @ write_type v"

text \<open>Over the text of the block for a given indent.\<close>

primrec write_fn :: "(string \<Rightarrow> string) \<Rightarrow> nat \<Rightarrow> ('s, nat \<Rightarrow> string) fn_def \<Rightarrow> string" where
  "write_fn d n (FnDef name params return_type body) =
     line n (''fn '' @ name @ ''('' @ write_params d params @ '')'' @
       prefixed '' -> '' (map_option write_type return_type) @ '':'') @ body n"

primrec write_class :: "(string \<Rightarrow> string) \<Rightarrow> nat \<Rightarrow> ('s, nat \<Rightarrow> string) class_def \<Rightarrow> string" where
  "write_class d n (ClassDef name base traits body refinements) =
     line n (''class '' @ name @
       (case base of None \<Rightarrow> [] | Some b \<Rightarrow> ''('' @ write_expr d b @ '')'') @
       (if traits = [] then [] else '': '' @ comma_list (map write_type traits)) @ '':'') @ body n"

primrec write_match_arm ::
    "(string \<Rightarrow> string) \<Rightarrow> nat \<Rightarrow> ('s, nat \<Rightarrow> string) match_arm \<Rightarrow> string" where
  "write_match_arm d n (MatchArm pat guard body) =
     line n (''case '' @ write_pattern d pat @
       prefixed '' if '' (map_option (write_expr d) guard) @ '':'') @ body n"

primrec write_handler :: "nat \<Rightarrow> ('s, nat \<Rightarrow> string) except_handler \<Rightarrow> string" where
  "write_handler n (ExceptHandler exc_type binding body) =
     line n (''except '' @ write_type exc_type @ prefixed '' as '' binding @ '':'') @ body n"

definition write_clause_block :: "string \<Rightarrow> nat \<Rightarrow> (nat \<Rightarrow> string) option \<Rightarrow> string" where
  "write_clause_block head n b = (case b of None \<Rightarrow> [] | Some body \<Rightarrow> line n head @ body n)"

primrec write_block :: "(string \<Rightarrow> string) \<Rightarrow> 's block \<Rightarrow> nat \<Rightarrow> string"
  and write_stmt :: "(string \<Rightarrow> string) \<Rightarrow> 's stmt \<Rightarrow> nat \<Rightarrow> string"
  and write_stmt_kind :: "(string \<Rightarrow> string) \<Rightarrow> 's stmt_kind \<Rightarrow> nat \<Rightarrow> string" where
  "write_block d (Block stmts s) =
     (\<lambda>n. if stmts = [] then line (n + 1) ''pass''
          else concat (map (\<lambda>w. w (n + 1)) (map (write_stmt d) stmts)))"
| "write_stmt d (MkStmt k s) = write_stmt_kind d k"
| "write_stmt_kind d SPass = (\<lambda>n. line n ''pass'')"
| "write_stmt_kind d (SBreakContinue k) =
     (\<lambda>n. line n (case k of Break \<Rightarrow> ''break'' | Continue \<Rightarrow> ''continue''))"
| "write_stmt_kind d (SReturn e) =
     (\<lambda>n. line n (''return'' @ prefixed '' '' (map_option (write_expr d) e)))"
| "write_stmt_kind d (SRaise exc cause) =
     (\<lambda>n. line n (''raise'' @ prefixed '' '' (map_option (write_expr d) exc) @
        prefixed '' from '' (map_option (write_expr d) cause)))"
| "write_stmt_kind d (SExpr e) = (\<lambda>n. line n (write_expr d e))"
| "write_stmt_kind d (SAssign target op v) =
     (\<lambda>n. line n (write_expr d target @ assign_op_str op @ write_expr d v))"
| "write_stmt_kind d (SLet target annot v) =
     (\<lambda>n. line n (''let '' @ write_pattern d target @
        prefixed '': '' (map_option write_type annot) @ '' = '' @ write_expr d v))"
| "write_stmt_kind d (SIf cond then_block elifs else_block) =
     (\<lambda>n. line n (''if '' @ write_expr d cond @ '':'') @ write_block d then_block n @
        concat (map (\<lambda>(c, b). line n (''elif '' @ write_expr d c @ '':'') @ b n)
          (map (map_prod id (write_block d)) elifs)) @
        write_clause_block ''else:'' n (map_option (write_block d) else_block))"
| "write_stmt_kind d (SWhile cond body else_block) =
     (\<lambda>n. line n (''while '' @ write_expr d cond @ '':'') @ write_block d body n @
        write_clause_block ''else:'' n (map_option (write_block d) else_block))"
| "write_stmt_kind d (SFor target iter body else_block) =
     (\<lambda>n. line n (''for '' @ write_pattern d target @ '' in '' @ write_expr d iter @ '':'') @
        write_block d body n @
        write_clause_block ''else:'' n (map_option (write_block d) else_block))"
| "write_stmt_kind d (SMatch scrutinee arms) =
     (\<lambda>n. line n (''match '' @ write_expr d scrutinee @ '':'') @
        concat (map (write_match_arm d (n + 1)) (map (map_match_arm id (write_block d)) arms)))"
| "write_stmt_kind d (SWith elems body) =
     (\<lambda>n. line n (''with '' @ comma_list (map (write_with_item d) elems) @ '':'') @
        write_block d body n)"
| "write_stmt_kind d (STry body handlers else_block finally_block) =
     (\<lambda>n. line n ''try:'' @ write_block d body n @
        concat (map (write_handler n) (map (map_except_handler id (write_block d)) handlers)) @
        write_clause_block ''else:'' n (map_option (write_block d) else_block) @
        write_clause_block ''finally:'' n (map_option (write_block d) finally_block))"
| "write_stmt_kind d (SImport imp) = (\<lambda>n. line n (write_import imp))"
| "write_stmt_kind d (SFn fd) = (\<lambda>n. write_fn d n (map_fn_def id (write_block d) fd))"
| "write_stmt_kind d (SClass cd) = (\<lambda>n. write_class d n (map_class_def id (write_block d) cd))"
| "write_stmt_kind d (STypeAlias ta) = (\<lambda>n. line n (write_type_alias ta))"
| "write_stmt_kind d (SDecorated decorators inner) =
     (\<lambda>n. concat (map (\<lambda>e. line n (''@'' @ write_expr d e)) decorators) @ write_stmt d inner n)"

section \<open>Modules\<close>

primrec write_module :: "(string \<Rightarrow> string) \<Rightarrow> 's module \<Rightarrow> string" where
  "write_module d (Module doc stmts s) =
     (case doc of None \<Rightarrow> [] | Some t \<Rightarrow> line 0 (d t)) @
     concat (map (\<lambda>st. write_stmt d st 0) stmts)"

definition unparse :: "(string \<Rightarrow> string) \<Rightarrow> 's module \<Rightarrow> string" where
  "unparse debug_str m = write_module debug_str m"

end
