(* ===== verification/Lexer_Reads.thy ===== *)
theory Lexer_Reads
  imports Unparse
begin

text \<open>
  Reading known text: which text the lexer turns into which token, given the text that follows,
  and what the main loop makes of a line of such tokens.
\<close>

section \<open>One token\<close>

definition reads_token :: "unicode \<Rightarrow> string \<Rightarrow> token_kind \<Rightarrow> string \<Rightarrow> bool" where
  "reads_token u w k r \<longleftrightarrow>
     w \<noteq> [] \<and> hd w \<notin> {CHR '' '', CHR 0x09, CHR 0x0A, CHR 0x0D, CHR ''#'', CHR 0x5C} \<and> \<not> layout k \<and>
     (\<forall>l. drop (pos l) (bytes l) = w @ r \<longrightarrow>
        lex_one_token u l (hd w) =
          Inr (push_token (l\<lparr>bracket_depth := bracket_effect k (bracket_depth l)\<rparr>) k
            (pos l) (pos l + length w)))"

lemma byte_at_ahead:
  assumes "drop (pos l) (bytes l) = s"
  shows "byte_at l (pos l + i) = (if i < length s then Some (s ! i) else None)"
proof (cases "i < length s")
  case True
  then have "pos l + i < length (bytes l)" using assms by auto
  with True assms show ?thesis by (auto simp: byte_at_def)
next
  case False
  then have "length (bytes l) \<le> pos l + i" using assms by auto
  with False show ?thesis by (simp add: byte_at_def)
qed

text \<open>The text of an operator, and the characters that would make it longer.\<close>

definition op_text :: "op \<Rightarrow> string" where
  "op_text k = butlast (tl (classify_op k))"

definition op_follow :: "string \<Rightarrow> bool" where
  "op_follow r \<longleftrightarrow> r \<noteq> [] \<and> hd r \<notin> set ''=><*/.''"

definition op_ends :: "op \<Rightarrow> string \<Rightarrow> bool" where
  "op_ends k r \<longleftrightarrow>
     k \<in> {LParen, RParen, LBracket, RBracket, LBrace, RBrace, Comma, Semicolon, At, Tilde} \<or>
     k \<noteq> DotDotDot \<and> op_follow r \<and> (k = Dot \<longrightarrow> \<not> is_ascii_digit (hd r))"

lemma reads_op:
  assumes "op_ends k r"
  shows "reads_token u (op_text k) (TOp k) r"
proof -
  have hd: "op_text k \<noteq> [] \<and> hd (op_text k) \<notin> {CHR '' '', CHR 0x09, CHR 0x0A, CHR 0x0D, CHR ''#'', CHR 0x5C}"
    by (cases k) (simp_all add: op_text_def)
  have "lex_one_token u l (hd (op_text k)) =
      Inr (push_token (l\<lparr>bracket_depth := bracket_effect (TOp k) (bracket_depth l)\<rparr>) (TOp k)
        (pos l) (pos l + length (op_text k)))"
    if l: "drop (pos l) (bytes l) = op_text k @ r" for l
  proof (cases r)
    case Nil
    with assms l show ?thesis
      by (cases k)
        (simp_all add: op_ends_def op_follow_def op_text_def lex_one_token_def brackets_def single_ops_def
          single_def simple_def bracket_effect_def push_token_def mk_span_def)
  next
    case (Cons c r')
    with assms l byte_at_ahead [OF l, of 1] show ?thesis
      by (cases k)
        (auto simp: op_text_def op_ends_def op_follow_def lex_one_token_def brackets_def single_ops_def
          assign_ops_def long_ops_def maybe_eq_def starts_with_def single_def simple_def
          bracket_effect_def lex_dot_def lex_bang_def push_token_def mk_span_def)
  qed
  with hd show ?thesis by (simp add: reads_token_def layout_def)
qed

section \<open>Words\<close>

text \<open>What the Unicode standard says of ASCII characters: the identifier characters, and that
  normalisation leaves them alone.\<close>

definition word_char :: "char \<Rightarrow> bool" where
  "word_char c \<longleftrightarrow> ascii_alphanumeric (byte c) \<or> c = CHR ''_''"

definition ascii_tables :: "unicode \<Rightarrow> bool" where
  "ascii_tables u \<longleftrightarrow>
     (\<forall>c < 128. uni_xid_continue u c \<longrightarrow> ascii_alphanumeric c \<or> c = 95) \<and>
     (\<forall>s. list_all (\<lambda>c. byte c < 128) s \<longrightarrow> uni_nfkc u s = s)"

definition word_text :: "string \<Rightarrow> bool" where
  "word_text w \<longleftrightarrow> w \<noteq> [] \<and> list_all word_char w \<and> \<not> is_ascii_digit (hd w)"

lemma byte_underscore: "byte c = 95 \<longleftrightarrow> c = CHR ''_''"
  using of_char_eq_iff [where ?'a = nat, of c "CHR ''_''"] by simp

definition punctuation :: string where
  "punctuation = ''()[]{},;@~+%&|^:-*/<>=.!# '' @
     [CHR 0x27, CHR 0x22, CHR 0x09, CHR 0x0A, CHR 0x0D, CHR 0x5C]"

lemma word_char_not_punctuation:
  assumes "word_char d"
  shows "d \<notin> set punctuation"
proof -
  have "list_all (\<lambda>c. \<not> word_char c) punctuation" by code_simp
  with assms show ?thesis by (auto simp: list_all_iff)
qed

lemma lex_one_token_word_char:
  assumes "word_char d"
  shows "lex_one_token u l d = (if is_ascii_digit d then lex_number l else lex_word_or_string_with_prefix u l)"
    "d \<notin> {CHR '' '', CHR 0x09, CHR 0x0A, CHR 0x0D, CHR ''#'', CHR 0x5C}"
proof -
  note d = word_char_not_punctuation [OF assms, unfolded punctuation_def, simplified]
  have "map_of brackets d = None" "map_of single_ops d = None" "map_of assign_ops d = None"
    "map_of long_ops d = None"
    unfolding brackets_def single_ops_def assign_ops_def long_ops_def using d by simp_all
  with d show "lex_one_token u l d = (if is_ascii_digit d then lex_number l else lex_word_or_string_with_prefix u l)"
    by (simp add: lex_one_token_def)
  show "d \<notin> {CHR '' '', CHR 0x09, CHR 0x0A, CHR 0x0D, CHR ''#'', CHR 0x5C}"
    using d by simp
qed

lemma word_char_ascii: "word_char c \<Longrightarrow> byte c < 128"
  by (auto simp: word_char_def ascii_alphanumeric_def ascii_alphabetic_def)

lemma word_char_continues: "word_char c \<Longrightarrow> byte c = 95 \<or> is_xid_continue u (byte c)"
  by (auto simp: word_char_def is_xid_continue_def)

lemma word_char_ends:
  "ascii_tables u \<Longrightarrow> byte c < 128 \<Longrightarrow> \<not> word_char c \<Longrightarrow> byte c \<noteq> 95 \<and> \<not> is_xid_continue u (byte c)"
  by (auto simp: word_char_def is_xid_continue_def ascii_tables_def byte_underscore)

lemma scan_word_reads:
  assumes "ascii_tables u" "byte c < 128" "\<not> word_char c" "list_all word_char w"
    "drop p (bytes l) = w @ c # r"
  shows "scan_word u l p = Inr (p + length w)"
  using assms(4,5)
proof (induction w arbitrary: p)
  case Nil
  then have c: "byte_at l p = Some c" "p < length (bytes l)"
    using byte_at_drop(1) [of p l c r] by (auto simp: byte_at_eq_Some)
  with current_char_ascii [OF c(1) assms(2)] word_char_ends [OF assms(1-3)] show ?case
    by (subst scan_word.simps) simp
next
  case (Cons d w)
  then have d: "byte_at l p = Some d" "p < length (bytes l)" "drop (p + 1) (bytes l) = w @ c # r"
    using byte_at_drop [of p l d "w @ c # r"] by (auto simp: byte_at_eq_Some)
  have a: "byte d < 128" using Cons.prems(1) word_char_ascii by simp
  have "scan_word u l (p + 1) = Inr (p + 1 + length w)"
    using Cons d(3) by simp
  with d current_char_ascii [OF d(1) a] word_char_continues [of d u] Cons.prems(1) a show ?case
    by (subst scan_word.simps) (simp add: len_utf8_def)
qed

text \<open>A slice between ASCII characters.\<close>

lemma slice_reads:
  assumes "drop (pos l) (bytes l) = w @ c # r" "byte (hd (w @ [c])) < 128" "byte c < 128"
  shows "slice l (pos l) (pos l + length w) = Inr w"
proof -
  have len: "pos l + length w < length (bytes l)"
    using assms(1) by (metis append_eq_conv_conj drop_drop drop_eq_Nil2 list.distinct(1) not_le add.commute)
  have "bytes l ! (pos l + i) = (w @ c # r) ! i" if "i \<le> length w" for i
    using assms(1) len that by (metis nth_drop less_imp_le add_leD1)
  from this [of 0] this [of "length w"] have
    "bytes l ! pos l = hd (w @ [c])" "bytes l ! (pos l + length w) = c"
    by (simp_all add: hd_append nth_append hd_conv_nth)
  then have "is_boundary (bytes l) (pos l)" "is_boundary (bytes l) (pos l + length w)"
    using len assms(2,3) by (auto intro!: boundary_ascii)
  then show ?thesis using assms(1) by (simp add: slice_def str_range_def)
qed

lemma reads_word:
  assumes "ascii_tables u" "word_text w" "byte c < 128" "\<not> word_char c" "c \<noteq> CHR 0x22" "c \<noteq> CHR 0x27"
  shows "reads_token u w (word_token u w) (c # r)"
proof -
  obtain d v where w: "w = d # v" using assms(2) by (cases w) (auto simp: word_text_def)
  have d: "word_char d" "\<not> is_ascii_digit d" "list_all word_char v"
    using assms(2) w by (simp_all add: word_text_def)
  then have alpha: "ascii_alphabetic (byte d) \<or> d = CHR ''_''"
    by (auto simp: word_char_def ascii_alphanumeric_def is_ascii_digit_def)
  have "lex_word_or_string_with_prefix u l = Inr (push_token l (word_token u w) (pos l) (pos l + length w))"
    if l: "drop (pos l) (bytes l) = w @ c # r" for l
  proof -
    have a: "byte d < 128" using d(1) by (rule word_char_ascii)
    have at: "byte_at l (pos l) = Some d" "byte_at l (pos l + 1) \<noteq> None" "byte_at l (pos l + length w) = Some c"
      using byte_at_ahead [OF l, of 0] byte_at_ahead [OF l, of 1] byte_at_ahead [OF l, of "length w"] w
      by (simp_all add: nth_append)
    have start: "is_xid_start u (byte d)" using alpha by (auto simp: is_xid_start_def)
    have "drop (pos l + 1) (bytes l) = v @ c # r"
      using byte_at_drop(2) [of "pos l" l d] l w by simp
    from scan_word_reads [OF assms(1,3,4) d(3) this] have "scan_word u l (pos l + 1) = Inr (pos l + length w)"
      using w by simp
    moreover have "slice l (pos l) (pos l + length w) = Inr w"
      using slice_reads [OF l] a assms(3) w by simp
    moreover have "is_continuation (byte_at l (pos l + 1))" using at(2) by (auto simp: is_continuation_def)
    ultimately show ?thesis
      using current_char_ascii [OF at(1) a] a start at(3) assms(5,6)
      by (simp add: lex_word_or_string_with_prefix_def finish_word_def len_utf8_def)
  qed
  moreover have "bracket_effect (word_token u w) n = n" "\<not> layout (word_token u w)" for n
    by (auto simp: word_token_def match_keyword_def bracket_effect_def layout_def split: option.split)
  ultimately show ?thesis
    using lex_one_token_word_char [OF d(1)] d(2) w by (simp add: reads_token_def)
qed

section \<open>Numbers\<close>

text \<open>A text the lexer takes for one number when there is nothing after it.\<close>

definition number_text :: "string \<Rightarrow> token_kind \<Rightarrow> bool" where
  "number_text w k \<longleftrightarrow>
     w \<noteq> [] \<and> is_ascii_digit (hd w) \<and>
     lex_number (lexer_new w 0) = Inr (push_token (lexer_new w 0) k 0 (length w))"

text \<open>
  The same text before a character that ends a word, where a dot must begin an attribute.
\<close>

definition number_ends :: "string \<Rightarrow> bool" where
  "number_ends r \<longleftrightarrow>
     r \<noteq> [] \<and> byte (hd r) < 128 \<and> \<not> word_char (hd r) \<and>
     (hd r = CHR ''.'' \<longrightarrow> tl r \<noteq> [] \<and> (hd (tl r) = CHR ''_'' \<or> ascii_alphabetic (byte (hd (tl r)))))"

lemma byte_at_alone: "byte_at (lexer_new w f) i = (if i < length w then Some (w ! i) else None)"
  by (simp add: byte_at_def lexer_new_def)

lemma byte_at_within:
  assumes "drop (pos l) (bytes l) = w @ c # r"
  shows "i < length w \<Longrightarrow> byte_at l (pos l + i) = byte_at (lexer_new w f) i"
    "byte_at l (pos l + length w) = Some c" "byte_at (lexer_new w f) (length w) = None"
  using byte_at_ahead [OF assms, of i] byte_at_ahead [OF assms, of "length w"]
  by (simp_all add: byte_at_alone nth_append)

lemma skip_while_within:
  assumes "drop (pos l) (bytes l) = w @ c # r" "i \<le> length w" "\<not> valid c"
  shows "skip_while l valid (pos l + i) = pos l + skip_while (lexer_new w f) valid i"
    "skip_while (lexer_new w f) valid i \<le> length w"
proof -
  have "drop (pos l + i) (bytes l) = drop i (drop (pos l) (bytes l))" by (simp add: add.commute)
  also have "\<dots> = drop i w @ c # r" using assms(1,2) by simp
  finally have "drop (pos l + i) (bytes l) = drop i w @ c # r" .
  then show "skip_while l valid (pos l + i) = pos l + skip_while (lexer_new w f) valid i"
    using assms(3) by (simp add: skip_while_def lexer_new_def takeWhile_append takeWhile_eq_all_conv [THEN iffD2])
  show "skip_while (lexer_new w f) valid i \<le> length w"
    using assms(2) length_takeWhile_le [of valid "drop i w"]
    by (simp add: skip_while_def lexer_new_def)
qed

lemma digits_within:
  assumes "drop (pos l) (bytes l) = w @ c # r" "i \<le> length w" "\<not> word_char c"
  shows "digits_from l (pos l + i) = pos l + digits_from (lexer_new w f) i"
    "digits_from (lexer_new w f) i \<le> length w"
proof -
  have "\<not> (is_ascii_digit c \<or> c = CHR ''_'')"
    using assms(3) by (auto simp: word_char_def ascii_alphanumeric_def is_ascii_digit_def)
  from skip_while_within [OF assms(1,2), of "\<lambda>c. is_ascii_digit c \<or> c = CHR ''_''", OF this]
  show "digits_from l (pos l + i) = pos l + digits_from (lexer_new w f) i"
    "digits_from (lexer_new w f) i \<le> length w" by (simp_all add: digits_from_def)
qed

lemma fraction_within:
  assumes l: "drop (pos l) (bytes l) = w @ c # r" and c: "number_ends (c # r)"
    and i: "i \<le> length w" and w: "w \<noteq> []" "hd w \<noteq> CHR ''.''"
    and s: "scan_fraction (lexer_new w f) (i, fl) = (j, fl')"
  shows "scan_fraction l (pos l + i, fl) = (pos l + j, fl') \<and> j \<le> length w"
proof -
  have word: "\<not> word_char c" using c by (simp add: number_ends_def)
  have first: "byte_at l (pos l) \<noteq> Some (CHR ''.'')" "byte_at (lexer_new w f) 0 \<noteq> Some (CHR ''.'')"
    using byte_at_ahead [OF l, of 0] w by (auto simp: byte_at_alone hd_conv_nth nth_append)
  have p: "pos (lexer_new w f) = 0" by (simp add: lexer_new_def)
  consider "i = length w" | "Suc i = length w" | "Suc i < length w" using i by linarith
  then show ?thesis
  proof cases
    case 1
    have "byte_at l (pos l + i + 1) = Some (hd r)" if "c = CHR ''.''"
      using byte_at_ahead [OF l, of "i + 1"] c that 1
      by (cases r) (auto simp: number_ends_def nth_append add.assoc)
    with 1 s first p c byte_at_within(1) [OF l, of i] byte_at_within(2,3) [OF l] show ?thesis
      by (auto simp: scan_fraction_def number_ends_def)
  next
    case 2
    then have next_pos: "pos l + i + 1 = pos l + length w" by simp
    from 2 have at: "byte_at l (pos l + i) = byte_at (lexer_new w f) i" "byte_at l (pos l + i + 1) = Some c"
      "byte_at (lexer_new w f) (i + 1) = None"
      using byte_at_within(1) [OF l, of i] byte_at_within(2,3) [OF l] unfolding next_pos by simp_all
    have "\<not> (c = CHR ''_'' \<or> ascii_alphabetic (byte c))"
      using word by (auto simp: word_char_def ascii_alphanumeric_def)
    moreover have "digits_from l (pos l + i + 1) = pos l + digits_from (lexer_new w f) (i + 1)"
      "digits_from (lexer_new w f) (i + 1) \<le> length w"
      using digits_within [OF l order_refl word, of f] 2 unfolding next_pos by simp_all
    ultimately show ?thesis
      using s first p at i by (auto simp: scan_fraction_def split: if_splits)
  next
    case 3
    then have at: "byte_at l (pos l + i) = byte_at (lexer_new w f) i"
      "byte_at l (pos l + i + 1) = byte_at (lexer_new w f) (i + 1)"
      using byte_at_within(1) [OF l, of i] byte_at_within(1) [OF l, of "i + 1"] by (simp_all add: add.assoc)
    obtain d where "byte_at (lexer_new w f) (i + 1) = Some d"
      using 3 by (simp add: byte_at_alone)
    with 3 s first p at digits_within [OF l _ word, of "i + 1"] i show ?thesis
      by (auto simp: scan_fraction_def add.assoc split: if_splits)
  qed
qed

lemma exponent_within:
  assumes l: "drop (pos l) (bytes l) = w @ c # r" and c: "\<not> word_char c"
    and i: "i \<le> length w" and s: "scan_exponent (lexer_new w f) (i, fl) = Inr (j, fl')"
  shows "scan_exponent l (pos l + i, fl) = Inr (pos l + j, fl') \<and> j \<le> length w"
proof (cases "i < length w \<and> byte_at (lexer_new w f) i \<in> {Some (CHR ''e''), Some (CHR ''E'')}")
  case False
  have "c \<noteq> CHR ''e''" "c \<noteq> CHR ''E''"
    using c by (auto simp: word_char_def ascii_alphanumeric_def ascii_alphabetic_def)
  moreover have "byte_at l (pos l + i) = (if i < length w then byte_at (lexer_new w f) i else Some c)"
    using byte_at_within(1) [OF l, of i] byte_at_within(2,3) [OF l] i by (cases "i = length w") auto
  moreover have "byte_at (lexer_new w f) i = None" if "\<not> i < length w"
    using that by (simp add: byte_at_alone)
  ultimately show ?thesis using False s i by (auto simp: scan_exponent_def split: if_splits)
next
  case True
  have e: "byte_at l (pos l + i) = byte_at (lexer_new w f) i"
    using byte_at_within(1) [OF l] True by simp
  have "i + 1 < length w"
  proof (rule ccontr)
    assume "\<not> i + 1 < length w"
    then have "byte_at (lexer_new w f) (i + 1) = None" by (simp add: byte_at_alone)
    moreover have "digits_from (lexer_new w f) (i + 1) = i + 1"
      using \<open>\<not> i + 1 < length w\<close> by (simp add: digits_from_def skip_while_def lexer_new_def)
    ultimately show False using s True by (auto simp: scan_exponent_def malformed_def)
  qed
  moreover from this have "byte_at l (pos l + i + 1) = byte_at (lexer_new w f) (i + 1)"
    using byte_at_within(1) [OF l, of "i + 1"] by (simp add: add.assoc)
  ultimately show ?thesis
    using s True e digits_within [OF l _ c, of "i + 1"] digits_within [OF l _ c, of "i + 2"]
    by (auto simp: scan_exponent_def malformed_def Let_def add.assoc split: if_splits)
qed

lemma number_token_within:
  assumes l: "drop (pos l) (bytes l) = w @ c # r" and "byte c < 128" "w \<noteq> []" "byte (hd w) < 128"
    and n: "number_token (lexer_new w f) k' p = Inr (push_token (lexer_new w f) k 0 (length w))"
  shows "p = length w \<and> number_token l k' (pos l + p) = Inr (push_token l k (pos l) (pos l + length w))"
proof -
  from n have p: "p = length w" "slice (lexer_new w f) 0 (length w) = Inr v \<longrightarrow> k = k' v" for v
    by (auto simp: number_token_def and_then_Inr_conv push_token_def token_new_def lexer_new_def)
  have "slice (lexer_new w f) 0 (length w) = Inr w"
    by (simp add: slice_def str_range_def lexer_new_def boundary_0 boundary_le is_boundary_def)
  with p have "k = k' w" by blast
  moreover have "slice l (pos l) (pos l + length w) = Inr w"
    using slice_reads [OF l] assms(2-4) by (simp add: hd_append)
  ultimately show ?thesis using p(1) by (simp add: number_token_def)
qed

lemma radix_digits_word:
  assumes "radix_digits x = Some valid" "valid c"
  shows "word_char c"
proof -
  have "word_char c" if "is_ascii_hexdigit c \<or> 48 \<le> byte c \<and> byte c \<le> 55"
    using that by (auto simp: word_char_def is_ascii_hexdigit_def is_ascii_digit_def
        ascii_alphanumeric_def ascii_alphabetic_def)
  moreover have "word_char (CHR ''_'')" "word_char (CHR ''0'')" "word_char (CHR ''1'')"
    by (simp_all add: word_char_def ascii_alphanumeric_def)
  moreover have "is_ascii_hexdigit c \<or> 48 \<le> byte c \<and> byte c \<le> 55 \<or> c \<in> {CHR ''_'', CHR ''0'', CHR ''1''}"
    using assms unfolding radix_digits_def by (simp split: if_split_asm) blast+
  ultimately show ?thesis by blast
qed

lemma lex_radix_within:
  assumes l: "drop (pos l) (bytes l) = w @ c # r" and c: "byte c < 128" "\<not> valid c"
    and w: "w \<noteq> []" "byte (hd w) < 128" "2 \<le> length w"
    and n: "lex_radix (lexer_new w f) valid = Inr (push_token (lexer_new w f) k 0 (length w))"
  shows "lex_radix l valid = Inr (push_token l k (pos l) (pos l + length w))"
proof -
  let ?p = "skip_while (lexer_new w f) valid 2"
  have p: "pos (lexer_new w f) = 0" by (simp add: lexer_new_def)
  have "skip_while l valid (pos l + 2) = pos l + ?p"
    using skip_while_within(1) [OF l w(3), of valid f] c(2) by simp
  moreover from n p have "?p \<noteq> 2"
    "number_token (lexer_new w f) TInt ?p = Inr (push_token (lexer_new w f) k 0 (length w))"
    by (simp_all add: lex_radix_def Let_def malformed_def numeral_2_eq_2 split: if_split_asm)
  ultimately show ?thesis
    using number_token_within [OF l c(1) w(1,2)] by (simp add: lex_radix_def Let_def numeral_2_eq_2)
qed

lemma lex_decimal_within:
  assumes l: "drop (pos l) (bytes l) = w @ c # r" and c: "number_ends (c # r)"
    and w: "w \<noteq> []" "is_ascii_digit (hd w)"
    and n: "lex_decimal (lexer_new w f) = Inr (push_token (lexer_new w f) k 0 (length w))"
  shows "lex_decimal l = Inr (push_token l k (pos l) (pos l + length w))"
proof -
  let ?l = "lexer_new w f"
  have word: "\<not> word_char c" and ascii: "byte c < 128" using c by (simp_all add: number_ends_def)
  have hd: "byte (hd w) < 128" "hd w \<noteq> CHR ''.''" using w(2) by (auto simp: is_ascii_digit_def)
  have p: "pos ?l = 0" by (simp add: lexer_new_def)
  have "scan_whole ?l = Inr (digits_from ?l 0, False)" "scan_whole l = Inr (pos l + digits_from ?l 0, False)"
    "digits_from ?l 0 \<le> length w"
    using digits_within [OF l _ word, of 0 f] byte_at_ahead [OF l, of 0] hd w(1) p
    by (simp_all add: scan_whole_def byte_at_alone hd_conv_nth nth_append)
  moreover obtain i fl where i: "scan_fraction ?l (digits_from ?l 0, False) = (i, fl)" by fastforce
  moreover from fraction_within [OF l c calculation(3) w(1) hd(2) i]
  have "scan_fraction l (pos l + digits_from ?l 0, False) = (pos l + i, fl)" and il: "i \<le> length w" by simp_all
  ultimately have dec: "lex_decimal l = and_then (scan_exponent l (pos l + i, fl)) (\<lambda>(p, is_float).
         if byte_at l p \<in> {Some (CHR ''j''), Some (CHR ''J'')} then number_token l TImag (p + 1)
         else number_token l (if is_float then TFloat else TInt) p)"
    "and_then (scan_exponent ?l (i, fl)) (\<lambda>(p, is_float).
         if byte_at ?l p \<in> {Some (CHR ''j''), Some (CHR ''J'')} then number_token ?l TImag (p + 1)
         else number_token ?l (if is_float then TFloat else TInt) p) = Inr (push_token ?l k 0 (length w))"
    using n by (simp_all add: lex_decimal_def)
  then obtain j fl' where j: "scan_exponent ?l (i, fl) = Inr (j, fl')"
    and t: "(if byte_at ?l j \<in> {Some (CHR ''j''), Some (CHR ''J'')} then number_token ?l TImag (j + 1)
         else number_token ?l (if fl' then TFloat else TInt) j) = Inr (push_token ?l k 0 (length w))"
    by (auto simp: and_then_Inr_conv)
  from exponent_within [OF l word il j] have e: "scan_exponent l (pos l + i, fl) = Inr (pos l + j, fl')"
    and jl: "j \<le> length w" by simp_all
  have "byte_at l (pos l + j) \<in> {Some (CHR ''j''), Some (CHR ''J'')} \<longleftrightarrow>
      byte_at ?l j \<in> {Some (CHR ''j''), Some (CHR ''J'')}"
    using byte_at_within(1) [OF l, of j] byte_at_within(2,3) [OF l] jl word
    by (cases "j = length w") (auto simp: word_char_def ascii_alphanumeric_def ascii_alphabetic_def)
  note same = this and number = number_token_within [OF l ascii w(1) hd(1), of f]
  show ?thesis
  proof (cases "byte_at ?l j \<in> {Some (CHR ''j''), Some (CHR ''J'')}")
    case True
    with t number [of TImag "j + 1" k] have "number_token l TImag (pos l + j + 1) =
        Inr (push_token l k (pos l) (pos l + length w))" by (simp add: add.assoc)
    with True same dec(1) e show ?thesis by simp
  next
    case False
    with t number [of "if fl' then TFloat else TInt" j k] same dec(1) e show ?thesis
      by (cases fl') auto
  qed
qed

lemma reads_number:
  assumes "number_text w k" "number_ends r" "\<not> layout k" "\<And>d. bracket_effect k d = d"
  shows "reads_token u w k r"
proof -
  obtain c r' where r: "r = c # r'" and c: "byte c < 128" "\<not> word_char c"
    using assms(2) by (cases r) (auto simp: number_ends_def)
  have w: "w \<noteq> []" "is_ascii_digit (hd w)"
    "lex_number (lexer_new w 0) = Inr (push_token (lexer_new w 0) k 0 (length w))"
    using assms(1) by (simp_all add: number_text_def)
  then have hd: "byte (hd w) < 128" "word_char (hd w)"
    by (auto simp: is_ascii_digit_def word_char_def ascii_alphanumeric_def)
  have "lex_number l = Inr (push_token l k (pos l) (pos l + length w))"
    if l: "drop (pos l) (bytes l) = w @ c # r'" for l
  proof -
    have first: "byte_at l (pos l) = byte_at (lexer_new w 0) 0" "pos (lexer_new w 0) = 0"
      using byte_at_within(1) [OF l, of 0 0] w(1) by (simp_all add: lexer_new_def)
    have "length w \<noteq> 0" using w(1) by simp
    then have second: "byte_at l (pos l + 1) = (if length w = 1 then Some c else byte_at (lexer_new w 0) 1)"
      using byte_at_within(1) [OF l, of 1 0] byte_at_within(2) [OF l]
      by (cases "length w = 1") (simp_all add: Suc_lessI)
    have "list_all word_char ''xXoObB''" by code_simp
    with c(2) have "radix_digits c = None" by (auto simp: radix_digits_def)
    show ?thesis
    proof (cases "if byte_at l (pos l) = Some (CHR ''0'') then Option.bind (byte_at l (pos l + 1)) radix_digits else None")
      case None
      then have "lex_decimal (lexer_new w 0) = Inr (push_token (lexer_new w 0) k 0 (length w))"
        using w(3) first second by (auto simp: lex_number_def byte_at_alone split: if_split_asm)
      from lex_decimal_within [OF l _ w(1,2) this] None assms(2) r show ?thesis
        unfolding lex_number_def by simp
    next
      case (Some valid)
      then have z: "byte_at l (pos l) = Some (CHR ''0'')"
        "Option.bind (byte_at l (pos l + 1)) radix_digits = Some valid"
        by (simp_all split: if_split_asm)
      then have len: "length w \<noteq> 1" using second \<open>radix_digits c = None\<close> by auto
      with z(2) second obtain x where x: "byte_at (lexer_new w 0) 1 = Some x" "radix_digits x = Some valid"
        by (auto simp: bind_eq_Some_conv)
      have "lex_radix (lexer_new w 0) valid = Inr (push_token (lexer_new w 0) k 0 (length w))"
        using w(3) z(1) first x by (simp add: lex_number_def)
      moreover have "\<not> valid c" using radix_digits_word [OF x(2)] c(2) by blast
      moreover have "2 \<le> length w" using len w(1) by (cases w) (auto simp: Suc_le_eq)
      ultimately have "lex_radix l valid = Inr (push_token l k (pos l) (pos l + length w))"
        using lex_radix_within [OF l c(1) _ w(1) hd(1)] by blast
      with Some show ?thesis unfolding lex_number_def by simp
    qed
  qed
  then show ?thesis
    using lex_one_token_word_char [OF hd(2)] w(1,2) assms(3,4) r by (simp add: reads_token_def)
qed

section \<open>String and bytes literals\<close>

text \<open>How Rust's Debug format renders the characters that need no Unicode table.\<close>

definition plain_char :: "char \<Rightarrow> bool" where
  "plain_char c \<longleftrightarrow> 32 \<le> byte c \<and> byte c \<le> 126 \<or> c \<in> {CHR 0x00, CHR 0x09, CHR 0x0A, CHR 0x0D}"

definition debug_byte :: "char \<Rightarrow> string" where
  "debug_byte c =
     (if c = CHR 0x5C then [CHR 0x5C, CHR 0x5C]
      else if c = CHR 0x22 then [CHR 0x5C, CHR 0x22]
      else if c = CHR 0x0A then [CHR 0x5C, CHR ''n'']
      else if c = CHR 0x09 then [CHR 0x5C, CHR ''t'']
      else if c = CHR 0x0D then [CHR 0x5C, CHR ''r'']
      else if c = CHR 0x00 then [CHR 0x5C, CHR ''0'']
      else [c])"

definition quoted :: "string \<Rightarrow> string" where
  "quoted s = CHR 0x22 # concat (map debug_byte s) @ [CHR 0x22]"

definition debug_format :: "(string \<Rightarrow> string) \<Rightarrow> bool" where
  "debug_format d \<longleftrightarrow> (\<forall>s. list_all plain_char s \<longrightarrow> d s = quoted s)"

lemma string_step_debug:
  assumes "drop p (bytes l) = debug_byte b @ r" "plain_char b" "\<not> raw pr"
  shows "string_step l (CHR 0x22) False pr p v = Inr (More (p + length (debug_byte b)) (v @ [b]))"
proof (cases "b \<in> {CHR 0x5C, CHR 0x22, CHR 0x0A, CHR 0x09, CHR 0x0D, CHR 0x00}")
  case True
  then obtain e where e: "debug_byte b = [CHR 0x5C, e]" "simple_escape e = Some b" "e \<noteq> CHR 0x0A"
    by (auto simp: debug_byte_def simple_escape_def)
  with assms have d: "drop p (bytes l) = CHR 0x5C # e # r" by simp
  note 1 = byte_at_drop [OF d] byte_at_drop [OF byte_at_drop(2) [OF d]]
  show ?thesis
    using 1 e assms(3) by (simp add: string_step_def string_escape_def)
next
  case False
  then have w: "debug_byte b = [b]" "b \<notin> {CHR 0x5C, CHR 0x22, CHR 0x0A, CHR 0x0D}"
    by (simp_all add: debug_byte_def)
  have a: "byte b < 128" using assms(2) False by (auto simp: plain_char_def)
  then have len: "len_utf8 (byte b) = 1" by (simp add: len_utf8_def)
  have d: "drop p (bytes l) = b # r" using assms(1) w(1) by simp
  show ?thesis
    using byte_at_drop(1) [OF d] current_char_ascii [OF _ a] w len a
    by (simp add: string_step_def encode_ascii)
qed

lemma string_loop_debug:
  "drop p (bytes l) = concat (map debug_byte s) @ CHR 0x22 # r \<Longrightarrow> list_all plain_char s \<Longrightarrow> \<not> raw pr \<Longrightarrow>
     string_loop l (CHR 0x22) False pr p v =
       Inr (p + length (concat (map debug_byte s)) + 1, v @ s)"
proof (induction s arbitrary: p v)
  case Nil
  then have "byte_at l p = Some (CHR 0x22)" using byte_at_drop(1) [of p l "CHR 0x22" r] by simp
  then show ?case by (subst string_loop.simps) (simp add: string_step_def)
next
  case (Cons b s)
  then have d: "drop p (bytes l) = debug_byte b @ concat (map debug_byte s) @ CHR 0x22 # r" by simp
  then have "drop (p + length (debug_byte b)) (bytes l) = concat (map debug_byte s) @ CHR 0x22 # r"
    by (metis add.commute append_eq_conv_conj drop_drop)
  then have "string_loop l (CHR 0x22) False pr (p + length (debug_byte b)) (v @ [b]) =
      Inr (p + length (debug_byte b) + length (concat (map debug_byte s)) + 1, (v @ [b]) @ s)"
    using Cons.prems by (intro Cons.IH) simp_all
  then show ?case
    using string_step_debug [OF d, of pr v] Cons.prems by (subst string_loop.simps) simp
qed

text \<open>The quotation marks around an escaped text, at any place in the source.\<close>

lemma lex_string_reads:
  assumes l: "drop p (bytes l) = CHR 0x22 # t @ CHR 0x22 # c # r" and "c \<noteq> CHR 0x22"
    and t: "t = [] \<or> hd t \<noteq> CHR 0x22"
    and "string_loop l (CHR 0x22) False pr (p + 1) [] = Inr (p + 1 + length t + 1, v)"
  shows "lex_string l pr p =
    Inr (push_token l (if is_bytes pr then TBytes v pr else TStr v pr) (pos l) (p + length t + 2))"
proof -
  note 1 = byte_at_drop [OF l]
  have "\<not> two_quotes l (p + 1) (CHR 0x22)"
  proof (cases t)
    case Nil
    with 1(2) have "drop (p + 1) (bytes l) = CHR 0x22 # c # r" by simp
    from byte_at_drop(1) [OF byte_at_drop(2) [OF this]] assms(2) show ?thesis
      by (simp add: two_quotes_def)
  next
    case (Cons d t')
    with 1(2) have "drop (p + 1) (bytes l) = d # t' @ CHR 0x22 # c # r" by simp
    from byte_at_drop(1) [OF this] Cons t show ?thesis by (simp add: two_quotes_def)
  qed
  with 1(1) assms(4) show ?thesis by (simp add: lex_string_def Let_def)
qed

lemma debug_first: "concat (map debug_byte s) = [] \<or> hd (concat (map debug_byte s)) \<noteq> CHR 0x22"
  by (cases s) (auto simp: debug_byte_def)

lemma write_byte_first: "concat (map write_byte s) = [] \<or> hd (concat (map write_byte s)) \<noteq> CHR 0x22"
  by (cases s) (auto simp: write_byte_def)

lemma reads_string:
  assumes "list_all plain_char s" "c \<noteq> CHR 0x22"
  shows "reads_token u (quoted s) (TStr s \<lparr>raw = False, is_bytes = False\<rparr>) (c # r)"
proof -
  let ?pr = "\<lparr>raw = False, is_bytes = False\<rparr>" and ?t = "concat (map debug_byte s)"
  have "lex_string l ?pr (pos l) = Inr (push_token l (TStr s ?pr) (pos l) (pos l + length (quoted s)))"
    if "drop (pos l) (bytes l) = quoted s @ c # r" for l
  proof -
    have l: "drop (pos l) (bytes l) = CHR 0x22 # ?t @ CHR 0x22 # c # r"
      using that by (simp add: quoted_def)
    from byte_at_drop(2) [OF this] have "drop (pos l + 1) (bytes l) = ?t @ CHR 0x22 # c # r" .
    then have "string_loop l (CHR 0x22) False ?pr (pos l + 1) [] = Inr (pos l + 1 + length ?t + 1, [] @ s)"
      using assms(1) by (intro string_loop_debug) simp_all
    with lex_string_reads [OF l assms(2) debug_first, of ?pr s] show ?thesis
      by (simp add: quoted_def)
  qed
  then show ?thesis
    by (simp add: reads_token_def quoted_def lex_one_token_def brackets_def single_ops_def assign_ops_def
        long_ops_def bracket_effect_def layout_def)
qed

lemma reads_bytes:
  assumes "ascii_tables u" "c \<noteq> CHR 0x22"
  shows "reads_token u ([CHR ''b'', CHR 0x22] @ concat (map write_byte bs) @ [CHR 0x22])
    (TBytes bs bytes_prefix) (c # r)" (is "reads_token u ?w _ _")
proof -
  let ?t = "concat (map write_byte bs)"
  have "lex_word_or_string_with_prefix u l =
      Inr (push_token l (TBytes bs bytes_prefix) (pos l) (pos l + length ?w))"
    if l: "drop (pos l) (bytes l) = ?w @ c # r" for l
  proof -
    from l have b: "drop (pos l) (bytes l) = CHR ''b'' # CHR 0x22 # ?t @ CHR 0x22 # c # r" by simp
    note 1 = byte_at_drop [OF b]
    note 2 = byte_at_drop [OF 1(2)]
    have "string_loop l (CHR 0x22) False bytes_prefix (pos l + 1 + 1) [] =
        Inr (pos l + 1 + 1 + length ?t + 1, [] @ bs)"
      by (rule string_loop_written [OF 2(2)])
    with lex_string_reads [OF 1(2) assms(2) write_byte_first, of bytes_prefix bs]
    have string: "lex_string l bytes_prefix (pos l + 1) =
        Inr (push_token l (TBytes bs bytes_prefix) (pos l) (pos l + length ?w))"
      by (simp add: bytes_prefix_def add.assoc)
    have no_word: "\<not> word_char (CHR 0x22)" by code_simp
    have "scan_word u l (pos l + 1) = Inr (pos l + 1)"
      using scan_word_reads [OF assms(1) _ no_word, of "[]" "pos l + 1" l] 1(2) by simp
    moreover have "slice l (pos l) (pos l + 1) = Inr ''b''"
      using slice_reads [of l "''b''"] b by simp
    moreover have "parse_str_prefix ''b'' = bytes_prefix" "is_string_prefix ''b''" "\<not> is_fstring_prefix ''b''"
      by (simp_all add: parse_str_prefix_def bytes_prefix_def is_string_prefix_def is_fstring_prefix_def
          ascii_lower_def)
    moreover have "is_xid_start u 98" by (simp add: is_xid_start_def ascii_alphabetic_def)
    ultimately show ?thesis
      using current_char_ascii [OF 1(1)] 2(1) string
      by (simp add: lex_word_or_string_with_prefix_def finish_word_def len_utf8_def)
  qed
  moreover have "word_char (CHR ''b'')" "\<not> is_ascii_digit (CHR ''b'')" by code_simp+
  ultimately show ?thesis
    using lex_one_token_word_char(1) [of "CHR ''b''" u]
    by (simp add: reads_token_def bracket_effect_def layout_def)
qed

end
