(* ===== verification/Lexer_Lines.thy ===== *)
theory Lexer_Lines
  imports Lexer_Reads
begin

text \<open>
  What the main loop makes of whole lines: the tokens of a line whose pieces are read one by
  one, and the layout tokens of lines at levels of four columns, as a calculus of texts.
\<close>

section \<open>Lines\<close>

text \<open>A text that, before \<open>r\<close>, is read as the tokens \<open>ks\<close>.\<close>

inductive spells :: "unicode \<Rightarrow> string \<Rightarrow> string \<Rightarrow> token_kind list \<Rightarrow> bool" for u r where
  nothing: "spells u r [] []"
| space: "spells u r s ks \<Longrightarrow> spells u r (CHR '' '' # s) ks"
| token: "reads_token u w k (s @ r) \<Longrightarrow> spells u r s ks \<Longrightarrow> spells u r (w @ s) (k # ks)"

lemma spells_append:
  "spells u (t @ r) s ks \<Longrightarrow> spells u r t ks' \<Longrightarrow> spells u r (s @ t) (ks @ ks')"
  by (induction rule: spells.induct) (auto intro: spells.intros)

lemma spells_token: "reads_token u w k r \<Longrightarrow> spells u r w [k]"
  using spells.token [of u w k "[]" r "[]"] spells.nothing by simp

lemma spells_length: "spells u r s ks \<Longrightarrow> length ks \<le> length s"
proof (induction rule: spells.induct)
  case (token w k s ks)
  then have "w \<noteq> []" by (simp add: reads_token_def)
  then have "1 \<le> length w" by (cases w) simp_all
  with token show ?case by simp
qed simp_all

definition depth_after :: "token_kind list \<Rightarrow> int \<Rightarrow> int" where
  "depth_after ks d = fold bracket_effect ks d"

definition balanced :: "token_kind list \<Rightarrow> bool" where
  "balanced ks \<longleftrightarrow> (\<forall>d \<ge> 0. depth_after ks d = d)"

lemma balanced_Nil [simp]: "balanced []"
  by (simp add: balanced_def depth_after_def)

lemma balanced_append [intro]: "balanced ks \<Longrightarrow> balanced ks' \<Longrightarrow> balanced (ks @ ks')"
  by (simp add: balanced_def depth_after_def)

text \<open>What the properties below need of a lexer state.\<close>

definition stands :: "lexer \<Rightarrow> string \<Rightarrow> nat list \<Rightarrow> bool \<Rightarrow> int \<Rightarrow> bool \<Rightarrow> token_kind list \<Rightarrow> bool" where
  "stands l s levels start d ended ks \<longleftrightarrow>
     drop (pos l) (bytes l) = s \<and> indents l = levels \<and> at_line_start l = start \<and>
     bracket_depth l = d \<and> last_emitted_newline l = ended \<and> map kind (out l) = ks"

lemma run_loop_turn:
  assumes "drop (pos l) (bytes l) = c # s" "lex_turn u l = Inr l'"
  shows "run_loop u l = run_loop u l'"
proof -
  have "pos l < length (bytes l)" using assms(1) by (metis drop_eq_Nil2 list.distinct(1) not_le)
  with assms(2) show ?thesis by (subst run_loop.simps) simp
qed

lemma lex_turn_inside:
  assumes "drop (pos l) (bytes l) = c # s" "\<not> at_line_start l"
  shows "lex_turn u l = lex_byte u l"
proof -
  have "pos l < length (bytes l)" using assms(1) by (metis drop_eq_Nil2 list.distinct(1) not_le)
  with assms(2) show ?thesis by (simp add: lex_turn_def line_start_def)
qed

lemma run_spells:
  assumes "spells u r s ks" "stands l (s @ r) levels False d ended ks0"
  shows "\<exists>l'. run_loop u l = run_loop u l' \<and>
    stands l' r levels False (depth_after ks d) (ended \<and> ks = []) (ks0 @ ks)"
  using assms
proof (induction arbitrary: l d ended ks0 rule: spells.induct)
  case nothing
  then show ?case by (auto simp: depth_after_def)
next
  case (space s ks)
  then have l: "drop (pos l) (bytes l) = CHR '' '' # s @ r" "\<not> at_line_start l"
    by (simp_all add: stands_def)
  note at = byte_at_drop [OF l(1)]
  have "lex_turn u l = Inr (l\<lparr>pos := pos l + 1\<rparr>)"
    using lex_turn_inside [OF l] at(1) by (simp add: lex_byte_def)
  from run_loop_turn [OF l(1) this] space.IH [of "l\<lparr>pos := pos l + 1\<rparr>"] space.prems at(2)
  show ?case by (simp add: stands_def)
next
  case (token w k s ks)
  then obtain c w' where w: "w = c # w'" by (cases w) (auto simp: reads_token_def)
  have l: "drop (pos l) (bytes l) = c # w' @ s @ r" "\<not> at_line_start l"
    using token.prems w by (simp_all add: stands_def)
  let ?l = "push_token (l\<lparr>bracket_depth := bracket_effect k (bracket_depth l)\<rparr>) k (pos l) (pos l + length w)"
  have "lex_one_token u l c = Inr ?l"
    using token.hyps(1) l(1) w unfolding reads_token_def by simp
  moreover have "c \<notin> {CHR '' '', CHR 0x09, CHR 0x0A, CHR 0x0D, CHR ''#'', CHR 0x5C}"
    using token.hyps(1) w unfolding reads_token_def by simp
  ultimately have "lex_turn u l = Inr ?l"
    using lex_turn_inside [OF l] byte_at_drop(1) [OF l(1)] by (simp add: lex_byte_def)
  from run_loop_turn [OF l(1) this] have "run_loop u l = run_loop u ?l" .
  moreover have "drop (pos l + length w) (bytes l) = s @ r"
    using l(1) w by (metis append_Cons append_eq_conv_conj drop_drop add.commute)
  then have "stands ?l (s @ r) levels False (bracket_effect k d) False (ks0 @ [k])"
    using token.prems by (simp add: stands_def push_token_def token_new_def)
  ultimately show ?case
    using token.IH [of ?l "bracket_effect k d" False "ks0 @ [k]"] by (simp add: depth_after_def)
qed

text \<open>A line starts with a token and leaves all brackets closed.\<close>

definition line_spells :: "unicode \<Rightarrow> string \<Rightarrow> token_kind list \<Rightarrow> bool" where
  "line_spells u w ks \<longleftrightarrow>
     w \<noteq> [] \<and> hd w \<notin> {CHR '' '', CHR 0x09, CHR 0x0A, CHR 0x0D, CHR ''#'', CHR 0x5C} \<and>
     ks \<noteq> [] \<and> balanced ks \<and> (\<forall>r. spells u (CHR 0x0A # r) w ks)"

lemma run_line_end:
  assumes "stands l (CHR 0x0A # s) levels False 0 False ks"
  shows "\<exists>l'. run_loop u l = run_loop u l' \<and> stands l' s levels True 0 True (ks @ [TNewline])"
proof -
  have l: "drop (pos l) (bytes l) = CHR 0x0A # s" "\<not> at_line_start l"
    using assms by (simp_all add: stands_def)
  note at = byte_at_drop [OF l(1)]
  have "lex_turn u l = Inr (newline_step l)"
    using lex_turn_inside [OF l] at(1) by (simp add: lex_byte_def)
  moreover have "stands (newline_step l) s levels True 0 True (ks @ [TNewline])"
    using assms at by (simp add: stands_def newline_step_def consume_newline_def
        emit_newline_if_needed_def Let_def token_new_def)
  ultimately show ?thesis using run_loop_turn [OF l(1)] by blast
qed

section \<open>Indentation\<close>

text \<open>The levels open at depth \<open>n\<close>, the innermost first.\<close>

primrec levels_of :: "nat \<Rightarrow> nat list" where
  "levels_of 0 = [0]"
| "levels_of (Suc n) = 4 * Suc n # levels_of n"

lemma levels_of_simps [simp]: "levels_of n \<noteq> []" "hd (levels_of n) = 4 * n" "length (levels_of n) = Suc n"
  by (induction n) simp_all

lemma leading_pad:
  "c \<notin> {CHR '' '', CHR 0x09} \<Longrightarrow>
     leading_blanks (replicate n (CHR '' '') @ c # r) (p, k, t, s) = (p + n, k + n, t, s \<or> 0 < n)"
  by (induction n arbitrary: p k s) auto

lemma pop_levels_of:
  "m \<le> n \<Longrightarrow> pop_levels (levels_of n) (4 * m) = Inr (levels_of m, n - m)"
proof (induction n)
  case (Suc n)
  then show ?case by (cases "m = Suc n") (auto simp: Suc_diff_le)
qed simp

lemma pad_blanks: "pad n = replicate (4 * n) (CHR '' '')"
proof (induction n)
  case (Suc n)
  have "''    '' = replicate 4 (CHR '' '')" by (simp add: numeral_eq_Suc)
  with Suc show ?case by (simp add: pad_def replicate_add [symmetric])
qed (simp add: pad_def)

text \<open>The start of a line of depth \<open>n\<close> while the lines before end at depth \<open>m\<close>.\<close>

definition shift_tokens :: "nat \<Rightarrow> nat \<Rightarrow> token_kind list" where
  "shift_tokens m n = (if m < n then [TIndent] else replicate (m - n) TDedent)"

lemma line_start_stands:
  assumes "stands l (pad n @ c # s) (levels_of m) True 0 True ks" "n \<le> Suc m"
    "c \<notin> {CHR '' '', CHR 0x09, CHR 0x0A, CHR 0x0D, CHR ''#''}"
  shows "\<exists>l'. line_start l = Inr l' \<and> stands l' (c # s) (levels_of n) False 0 True (ks @ shift_tokens m n)"
proof -
  let ?p = "pos l + 4 * n"
  have l: "drop (pos l) (bytes l) = replicate (4 * n) (CHR '' '') @ c # s" "indents l = levels_of m"
    using assms(1) by (simp_all add: stands_def pad_blanks)
  then have blanks: "leading_blanks (drop (pos l) (bytes l)) (pos l, 0, False, False) =
      (?p, 4 * n, False, 0 < n)"
    using leading_pad [of c "4 * n" s "pos l" 0 False False] assms(3) by simp
  have rest: "drop ?p (bytes l) = c # s"
    using l(1) by (metis add.commute append_eq_conv_conj drop_drop length_replicate)
  have head: "handle_line_start l =
      (if hd (indents l) < 4 * n then Inr (indent_to l ?p (4 * n))
       else and_then (pop_levels (indents l) (4 * n)) (\<lambda>(levels, k).
            if levels = [] then Inl LexPanic
            else if hd levels \<noteq> 4 * n then inconsistent_indent l ?p
            else Inr (dedent_to l ?p levels k)))"
    using blanks byte_at_drop(1) [OF rest] assms(3) l(2) by (simp add: handle_line_start_def)
  have start: "line_start l = handle_line_start l"
    using assms(1) by (simp add: stands_def line_start_def)
  show ?thesis
  proof (cases "m < n")
    case True
    then have "n = Suc m" using assms(2) by simp
    with head start l(2) rest assms(1) show ?thesis
      by (auto simp: stands_def indent_to_def shift_tokens_def token_new_def)
  next
    case False
    with head start l(2) rest assms(1) pop_levels_of [of n m] show ?thesis
      by (auto simp: stands_def dedent_to_def shift_tokens_def token_new_def)
  qed
qed

lemma run_line:
  assumes "stands l (line n w @ s) (levels_of m) True 0 True ks" "n \<le> Suc m" "line_spells u w kw"
  shows "\<exists>l'. run_loop u l = run_loop u l' \<and>
    stands l' s (levels_of n) True 0 True (ks @ shift_tokens m n @ kw @ [TNewline])"
proof -
  obtain c w' where w: "w = c # w'" using assms(3) by (cases w) (auto simp: line_spells_def)
  have c: "c \<notin> {CHR '' '', CHR 0x09, CHR 0x0A, CHR 0x0D, CHR ''#''}"
    using assms(3) w by (simp add: line_spells_def)
  have here: "stands l (pad n @ c # w' @ CHR 0x0A # s) (levels_of m) True 0 True ks"
    using assms(1) w by (simp add: line_def newline_def)
  from line_start_stands [OF this assms(2) c] obtain l1 where l1: "line_start l = Inr l1"
    "stands l1 (w @ CHR 0x0A # s) (levels_of n) False 0 True (ks @ shift_tokens m n)"
    using w by auto
  have at1: "drop (pos l1) (bytes l1) = c # w' @ CHR 0x0A # s" "\<not> at_line_start l1"
    using l1(2) w by (simp_all add: stands_def)
  then have inside: "pos l1 < length (bytes l1)" by (metis drop_eq_Nil2 list.distinct(1) not_le)
  then have "lex_turn u l = lex_byte u l1" using l1(1) by (simp add: lex_turn_def)
  moreover have "run_loop u l1 = (case lex_byte u l1 of Inl e \<Rightarrow> Inl e | Inr l' \<Rightarrow> run_loop u l')"
    using inside lex_turn_inside [OF at1] by (subst run_loop.simps) simp
  moreover have "drop (pos l) (bytes l) \<noteq> []" using here by (simp add: stands_def)
  then have "run_loop u l = (case lex_turn u l of Inl e \<Rightarrow> Inl e | Inr l' \<Rightarrow> run_loop u l')"
    by (subst run_loop.simps) auto
  ultimately have "run_loop u l = run_loop u l1" by simp
  moreover from run_spells [OF _ l1(2), of u kw] assms(3) obtain l2 where "run_loop u l1 = run_loop u l2"
    "stands l2 (CHR 0x0A # s) (levels_of n) False 0 False (ks @ shift_tokens m n @ kw)"
    by (auto simp: line_spells_def balanced_def)
  moreover from run_line_end [OF this(2)] obtain l3 where "run_loop u l2 = run_loop u l3"
    "stands l3 s (levels_of n) True 0 True (ks @ shift_tokens m n @ kw @ [TNewline])" by auto
  ultimately show ?thesis by auto
qed

section \<open>Texts of whole lines\<close>

text \<open>
  Before a line of depth \<open>n\<close>, counting the layout tokens such a line brings as read; after a
  line of depth at least \<open>n\<close>, counting the dedents down to \<open>n\<close> as read.
\<close>

definition opens :: "nat \<Rightarrow> token_kind list \<Rightarrow> string \<Rightarrow> lexer \<Rightarrow> bool" where
  "opens n ks s l \<longleftrightarrow>
     (\<exists>m ks'. stands l s (levels_of m) True 0 True ks' \<and> n \<le> Suc m \<and> ks = ks' @ shift_tokens m n)"

definition settled :: "nat \<Rightarrow> token_kind list \<Rightarrow> string \<Rightarrow> lexer \<Rightarrow> bool" where
  "settled n ks s l \<longleftrightarrow>
     (\<exists>m ks'. stands l s (levels_of m) True 0 True ks' \<and> n \<le> m \<and> ks = ks' @ replicate (m - n) TDedent)"

definition runs_on ::
  "unicode \<Rightarrow> (token_kind list \<Rightarrow> string \<Rightarrow> lexer \<Rightarrow> bool) \<Rightarrow> string \<Rightarrow> token_kind list \<Rightarrow>
     (token_kind list \<Rightarrow> string \<Rightarrow> lexer \<Rightarrow> bool) \<Rightarrow> bool" where
  "runs_on u P t ks Q \<longleftrightarrow>
     (\<forall>l s ks0. P ks0 (t @ s) l \<longrightarrow>
        (\<exists>l'. run_loop u l = run_loop u l' \<and> Q (ks0 @ ks) s l'))"

text \<open>Lines that begin and end at depth \<open>n\<close>; and such lines, or none, after another line.\<close>

definition lays :: "unicode \<Rightarrow> nat \<Rightarrow> string \<Rightarrow> token_kind list \<Rightarrow> bool" where
  "lays u n t ks \<longleftrightarrow>
     runs_on u (opens n) t ks (settled n) \<and> length ks + (if n = 0 then 0 else 2) \<le> length t"

definition trails :: "unicode \<Rightarrow> nat \<Rightarrow> string \<Rightarrow> token_kind list \<Rightarrow> bool" where
  "trails u n t ks \<longleftrightarrow> runs_on u (settled n) t ks (settled n) \<and> length ks \<le> length t"

lemma runs_onD:
  assumes "runs_on u P t ks Q" "P ks0 (t @ s) l"
  obtains l' where "run_loop u l = run_loop u l'" "Q (ks0 @ ks) s l'"
  using assms unfolding runs_on_def by blast

lemma runs_on_append:
  assumes "runs_on u P t ks Q" "runs_on u Q t' ks' R"
  shows "runs_on u P (t @ t') (ks @ ks') R"
  unfolding runs_on_def
proof (intro allI impI)
  fix l s ks0 assume "P ks0 ((t @ t') @ s) l"
  then have "P ks0 (t @ t' @ s) l" by simp
  from runs_onD [OF assms(1) this] obtain l1
    where l1: "run_loop u l = run_loop u l1" "Q (ks0 @ ks) (t' @ s) l1" .
  from runs_onD [OF assms(2) l1(2)] obtain l2
    where "run_loop u l1 = run_loop u l2" "R ((ks0 @ ks) @ ks') s l2" .
  with l1(1) show "\<exists>l'. run_loop u l = run_loop u l' \<and> R (ks0 @ ks @ ks') s l'"
    by (intro exI [of _ l2]) simp
qed

lemma runs_on_start:
  "runs_on u P t ks Q \<Longrightarrow> (\<And>ks0 s l. P' ks0 s l \<Longrightarrow> P ks0 s l) \<Longrightarrow> runs_on u P' t ks Q"
  by (auto simp: runs_on_def)

lemma settled_opens: "settled n ks s l \<Longrightarrow> opens n ks s l"
  by (force simp: settled_def opens_def shift_tokens_def)

lemma settled_outer: "settled (Suc n) ks s l \<Longrightarrow> settled n (ks @ [TDedent]) s l"
proof -
  assume "settled (Suc n) ks s l"
  then obtain m ks' where m: "stands l s (levels_of m) True 0 True ks'" "Suc n \<le> m"
    "ks = ks' @ replicate (m - Suc n) TDedent"
    by (auto simp: settled_def)
  then have "m - n = Suc (m - Suc n)" by simp
  then have "replicate (m - n) TDedent = replicate (m - Suc n) TDedent @ [TDedent]"
    by (simp only: replicate_append_same replicate_Suc)
  with m show ?thesis
    unfolding settled_def by (intro exI [of _ m] exI [of _ ks']) simp
qed

lemma lays_trails: "lays u n t ks \<Longrightarrow> trails u n t ks"
  by (auto simp: lays_def trails_def intro: settled_opens runs_on_start)

lemma trails_Nil [simp]: "trails u n [] []"
  by (auto simp: trails_def runs_on_def)

lemma trails_append: "trails u n t ks \<Longrightarrow> trails u n t' ks' \<Longrightarrow> trails u n (t @ t') (ks @ ks')"
  by (auto simp: trails_def intro: runs_on_append)

lemma lays_append: "lays u n t ks \<Longrightarrow> trails u n t' ks' \<Longrightarrow> lays u n (t @ t') (ks @ ks')"
  by (auto simp: trails_def lays_def intro: runs_on_append)

lemma trails_concat:
  "(\<And>x. x \<in> set xs \<Longrightarrow> trails u n (f x) (g x)) \<Longrightarrow>
     trails u n (concat (map f xs)) (concat (map g xs))"
  by (induction xs) (auto intro: trails_append)

lemma lays_concat:
  assumes "xs \<noteq> []" "\<And>x. x \<in> set xs \<Longrightarrow> lays u n (f x) (g x)"
  shows "lays u n (concat (map f xs)) (concat (map g xs))"
  using assms by (cases xs) (auto intro!: lays_append trails_concat intro: lays_trails)

lemma run_opens:
  assumes "opens n ks (line n w @ s) l" "line_spells u w kw"
  shows "\<exists>l'. run_loop u l = run_loop u l' \<and> stands l' s (levels_of n) True 0 True (ks @ kw @ [TNewline])"
  using assms run_line [of l n w s] by (fastforce simp: opens_def)

lemma lays_line:
  assumes "line_spells u w kw"
  shows "lays u n (line n w) (kw @ [TNewline])"
proof -
  have "length kw \<le> length w"
    using assms by (auto simp: line_spells_def dest!: spells_length)
  moreover have "\<exists>l'. run_loop u l = run_loop u l' \<and> settled n (ks0 @ kw @ [TNewline]) s l'"
    if "opens n ks0 (line n w @ s) l" for l s ks0
    using run_opens [OF that assms] by (fastforce simp: settled_def)
  ultimately show ?thesis by (simp add: lays_def runs_on_def line_def newline_def pad_blanks)
qed

lemma lays_block:
  assumes "line_spells u w kw" "lays u (Suc n) b kb"
  shows "lays u n (line n w @ b) (kw @ TNewline # TIndent # kb @ [TDedent])"
proof -
  have "length kw \<le> length w"
    using assms(1) by (auto simp: line_spells_def dest!: spells_length)
  moreover have "\<exists>l'. run_loop u l = run_loop u l' \<and>
      settled n (ks0 @ kw @ TNewline # TIndent # kb @ [TDedent]) s l'"
    if "opens n ks0 ((line n w @ b) @ s) l" for l s ks0
  proof -
    from that run_opens [OF _ assms(1), of n ks0 "b @ s" l] obtain l1 where l1: "run_loop u l = run_loop u l1"
      "stands l1 (b @ s) (levels_of n) True 0 True (ks0 @ kw @ [TNewline])" by auto
    then have "opens (Suc n) (ks0 @ kw @ [TNewline, TIndent]) (b @ s) l1"
      by (auto simp: opens_def shift_tokens_def intro!: exI [of _ n])
    with assms(2) obtain l2 where "run_loop u l1 = run_loop u l2"
      "settled (Suc n) ((ks0 @ kw @ [TNewline, TIndent]) @ kb) s l2"
      by (auto simp: lays_def elim: runs_onD)
    with l1(1) settled_outer [OF this(2)] show ?thesis by auto
  qed
  moreover have "length kb + 2 \<le> length b" using assms(2) by (simp add: lays_def)
  ultimately show ?thesis by (simp add: lays_def runs_on_def line_def newline_def pad_blanks)
qed

lemma lex_lines:
  assumes "trails u 0 t ks"
  shows "\<exists>ts. lex u t f = Inr ts \<and> map kind ts = ks @ [TEof] \<and> length ts \<le> length t + 1"
proof -
  have "settled 0 [] (t @ []) (lexer_new t f)"
    by (auto simp: settled_def stands_def lexer_new_def intro!: exI [of _ 0])
  moreover have "runs_on u (settled 0) t ks (settled 0)" using assms by (simp add: trails_def)
  ultimately obtain l where l: "run_loop u (lexer_new t f) = run_loop u l" "settled 0 ([] @ ks) [] l"
    using runs_onD by blast
  then obtain m ks' where m: "stands l [] (levels_of m) True 0 True ks'" "ks = ks' @ replicate m TDedent"
    by (auto simp: settled_def)
  then have "run_loop u l = Inr l"
    by (subst run_loop.simps) (simp add: stands_def)
  moreover have "map kind (out (flush_indents l)) = ks @ [TEof]"
    using m by (simp add: stands_def flush_indents_def Let_def
        emit_newline_if_needed_def token_new_def)
  moreover from this have "length (out (flush_indents l)) \<le> length t + 1"
    using assms by (metis (no_types, lifting) add_le_cancel_right length_append_singleton length_map
        Suc_eq_plus1 trails_def)
  ultimately show ?thesis using l(1) by (simp add: lex_def run_def)
qed

end
