(* ===== verification/Parser_State.thy ===== *)
theory Parser_State
  imports Lexer_Run Ast
begin

text \<open>
  The state of the parser of \<open>crates/cobrust-frontend/src/parser.rs\<close>, its token helpers and the
  combinators the parsing functions are written with. An action takes the state and either
  does not return (\<open>None\<close>: the fuel that stands for the recursion is used up, or the code loops
  for ever), or returns a fault, or a value and the next state. \<open>?\<close> is the propagation of faults
  by \<open>pbind\<close>; the code never resumes from an error, so the state of a failed action is dropped.
\<close>

section \<open>State and actions\<close>

datatype parse_fault = PPanic | PErr parse_error

record parser =
  toks :: "token list"
  ppos :: nat
  depth :: nat
  in_class_body :: nat
  pending_field_refinements :: "(string \<times> span expr) list"

type_synonym 'a action = "parser \<Rightarrow> (parse_fault, 'a \<times> parser) outcome"

definition pret :: "'a \<Rightarrow> 'a action" where
  "pret a p = Some (Inr (a, p))"

definition pfail :: "parse_error \<Rightarrow> 'a action" where
  "pfail e p = Some (Inl (PErr e))"

definition pbind :: "'a action \<Rightarrow> ('a \<Rightarrow> 'b action) \<Rightarrow> 'b action" where
  "pbind f g p = bind_o (f p) (\<lambda>(a, p'). g a p')"

definition pseq :: "'a action \<Rightarrow> 'b action \<Rightarrow> 'b action" where
  "pseq f g = pbind f (\<lambda>_. g)"

definition pmap :: "('a \<Rightarrow> 'b) \<Rightarrow> 'a action \<Rightarrow> 'b action" where
  "pmap h f = pbind f (\<lambda>a. pret (h a))"

text \<open>Read the state, and update it.\<close>

definition look :: "(parser \<Rightarrow> 'v) \<Rightarrow> ('v \<Rightarrow> 'a action) \<Rightarrow> 'a action" where
  "look get f p = f (get p) p"

definition modify :: "(parser \<Rightarrow> parser) \<Rightarrow> unit action" where
  "modify f p = Some (Inr ((), f p))"

text \<open>\<open>if c { Some(f()?) } else { None }\<close>\<close>

definition optionally :: "bool \<Rightarrow> 'a action \<Rightarrow> 'a option action" where
  "optionally c f = (if c then pmap Some f else pret None)"

text \<open>
  \<open>loop\<close> and \<open>while\<close>: the body ends the loop with \<open>Inr\<close>. Every turn that goes on consumes a token
  in the code below, so one turn more than there are tokens is enough; \<open>None\<close> past that.
\<close>

primrec turns :: "nat \<Rightarrow> ('a \<Rightarrow> ('a + 'b) action) \<Rightarrow> 'a \<Rightarrow> 'b action" where
  "turns 0 body a = (\<lambda>p. None)"
| "turns (Suc n) body a =
     pbind (body a) (\<lambda>r. case r of Inl a' \<Rightarrow> turns n body a' | Inr b \<Rightarrow> pret b)"

definition loop :: "('a \<Rightarrow> ('a + 'b) action) \<Rightarrow> 'a \<Rightarrow> 'b action" where
  "loop body a p = turns (Suc (length (toks p))) body a p"

definition again :: "'a \<Rightarrow> ('a + 'b) action" where
  "again a = pret (Inl a)"

definition break_with :: "'b \<Rightarrow> ('a + 'b) action" where
  "break_with b = pret (Inr b)"

section \<open>Token helpers\<close>

definition parser_new :: "token list \<Rightarrow> parser" where
  "parser_new ts =
     \<lparr>toks = ts, ppos = 0, depth = 0, in_class_body = 0, pending_field_refinements = []\<rparr>"

text \<open>
  \<open>peek\<close> clamps the position to the last token. On an empty slice its subtraction fails, which
  \<open>parse\<close> and the parser of interpolations, the two users of \<open>Parser::new\<close>, meet at once.
\<close>

definition peek :: "parser \<Rightarrow> token" where
  "peek p = toks p ! min (ppos p) (length (toks p) - 1)"

definition peek_kind :: "parser \<Rightarrow> token_kind" where
  "peek_kind p = kind (peek p)"

definition peek_at :: "nat \<Rightarrow> parser \<Rightarrow> token_kind" where
  "peek_at off p = kind (toks p ! min (ppos p + off) (length (toks p) - 1))"

definition bump :: "token action" where
  "bump p = Some (Inr (peek p, if ppos p < length (toks p) - 1 then p\<lparr>ppos := ppos p + 1\<rparr> else p))"

text \<open>\<open>std::mem::discriminant\<close>: the kind without its payload.\<close>

fun discriminant :: "token_kind \<Rightarrow> token_kind" where
  "discriminant (TIdent _) = TIdent []"
| "discriminant (TInt _) = TInt []"
| "discriminant (TFloat _) = TFloat []"
| "discriminant (TImag _) = TImag []"
| "discriminant (TStr _ _) = TStr [] \<lparr>raw = False, is_bytes = False\<rparr>"
| "discriminant (TBytes _ _) = TBytes [] \<lparr>raw = False, is_bytes = False\<rparr>"
| "discriminant (TFString _) = TFString []"
| "discriminant k = k"

definition at :: "token_kind \<Rightarrow> parser \<Rightarrow> bool" where
  "at k p \<longleftrightarrow> discriminant (peek_kind p) = discriminant k"

definition eat :: "token_kind \<Rightarrow> bool action" where
  "eat k = look (at k) (\<lambda>yes. if yes then pseq bump (pret True) else pret False)"

text \<open>
  The loop of \<open>skip_newlines\<close> moves the position itself, past the last token if that is a
  \<open>Newline\<close>; the clamped \<open>peek\<close> then never sees anything else.
\<close>

definition newlines_ahead :: "parser \<Rightarrow> nat" where
  "newlines_ahead p = length (takeWhile (\<lambda>t. kind t = TNewline) (drop (ppos p) (toks p)))"

definition skip_newlines :: "unit action" where
  "skip_newlines p =
     (if peek_kind p \<noteq> TNewline then Some (Inr ((), p))
      else if length (toks p) \<le> ppos p + newlines_ahead p then None
      else Some (Inr ((), p\<lparr>ppos := ppos p + newlines_ahead p\<rparr>)))"

definition current_span :: "parser \<Rightarrow> span" where
  "current_span p = tspan (peek p)"

definition expect :: "token_kind \<Rightarrow> token action" where
  "expect k =
     look (at k) (\<lambda>yes. if yes then bump
       else look peek (\<lambda>t. pfail (Expected [k] (kind t) (tspan t) None)))"

definition expect_ident :: "string action" where
  "expect_ident =
     look peek_kind (\<lambda>k. case k of
         TIdent s \<Rightarrow> pseq bump (pret s)
       | _ \<Rightarrow>
         if k = TKw KwMatch then pseq bump (pret ''match'')
         else look current_span (\<lambda>span.
           pfail (Expected [TIdent []] k span (Some ''expected an identifier here''))))"

definition expect_eos :: "unit action" where
  "expect_eos =
     look peek_kind (\<lambda>k.
       if k = TNewline \<or> k = TOp Semicolon then pseq bump (pret ())
       else if k = TEof then pret ()
       else look current_span (\<lambda>span.
         pfail (Syntax (''expected end of statement, found '' @ classify k) span
           (Some ''end the statement with a newline or `;`''))))"

definition max_parser_depth :: nat where
  "max_parser_depth = 50"

definition check_expr_depth :: "unit action" where
  "check_expr_depth =
     look depth (\<lambda>d.
       if max_parser_depth \<le> d then
         look current_span (\<lambda>span.
           pfail (ExpressionTooDeep (word_of_nat (d + 1)) (word_of_nat max_parser_depth) span
             (Some ''flatten nested parentheses or split into multiple statements'')))
       else modify (\<lambda>p. p\<lparr>depth := d + 1\<rparr>))"

text \<open>\<open>self.depth -= 1\<close> after the guarded call.\<close>

definition guarded :: "'a action \<Rightarrow> 'a action" where
  "guarded f =
     pseq check_expr_depth (
     pbind f (\<lambda>r.
     pseq (modify (\<lambda>p. p\<lparr>depth := depth p - 1\<rparr>)) (pret r)))"

definition parse_dotted_name :: "string list action" where
  "parse_dotted_name =
     pbind expect_ident (\<lambda>first.
       loop (\<lambda>parts.
         pbind (eat (TOp Dot)) (\<lambda>dot.
           if dot then pbind expect_ident (\<lambda>name. again (parts @ [name])) else break_with parts))
         [first])"

section \<open>The recursive entry points\<close>

text \<open>
  What the parsing functions call that leads back to themselves. They are defined over a record
  of these entry points; \<open>Parser.entries\<close> ties the knot, one unit of fuel per recursive call.
  \<open>host\<close> is what the code takes from outside: the Unicode tables of the lexer, and the \<open>Debug\<close>
  form of a character.
\<close>

record host =
  host_unicode :: unicode
  debug_char :: "nat \<Rightarrow> string"

record entry =
  e_host :: host
  e_stmt :: "span stmt action"
  e_expr :: "span expr action"
  e_pratt :: "nat \<Rightarrow> span expr action"
  e_pattern :: "span pattern action"
  e_type :: "span type_ann action"
  e_type_atom :: "span type_ann action"

end
