(* ===== verification/Parser_Type.thy ===== *)
theory Parser_Type
  imports Parser_State
begin

text \<open>
  Type annotations, literal defaults and parameters (the corresponding sections of
  \<open>parser.rs\<close>).
\<close>

section \<open>Literal defaults\<close>

definition literal_default_hint :: string where
  "literal_default_hint =
     ''use a literal default (int / float / str / bool / None); mutable defaults are forbidden per CLAUDE.md '' @
     [CHR 0xC2, CHR 0xA7] @ ''2.2''"

definition non_literal_default :: "span \<Rightarrow> 'a action" where
  "non_literal_default span = pfail (NonLiteralDefault span (Some literal_default_hint))"

definition parse_literal_default :: "literal action" where
  "parse_literal_default =
     look current_span (\<lambda>span. look peek_kind (\<lambda>k. case k of
         TInt s \<Rightarrow> pseq bump (pret (LitInt s))
       | TFloat s \<Rightarrow> pseq bump (pret (LitFloat s))
       | TImag s \<Rightarrow> pseq bump (pret (LitImag s))
       | TStr v _ \<Rightarrow> pseq bump (pret (LitStr v))
       | TBytes v _ \<Rightarrow> pseq bump (pret (LitBytes v))
       | _ \<Rightarrow>
         if k = TKw KwTrue then pseq bump (pret (LitBool True))
         else if k = TKw KwFalse then pseq bump (pret (LitBool False))
         else if k = TKw KwNone then pseq bump (pret LitNone)
         else if k = TOp Minus then
           pseq bump (look peek_kind (\<lambda>n. case n of
               TInt s \<Rightarrow> pseq bump (pret (LitInt (CHR ''-'' # s)))
             | TFloat s \<Rightarrow> pseq bump (pret (LitFloat (CHR ''-'' # s)))
             | _ \<Rightarrow> non_literal_default span))
         else non_literal_default span))"

section \<open>Types\<close>

text \<open>\<open>str::parse::<usize>\<close> on a 64-bit target: an optional plus sign, then decimal digits.\<close>

definition parse_usize :: "string \<Rightarrow> nat option" where
  "parse_usize s =
     (let ds = (if s \<noteq> [] \<and> hd s = CHR ''+'' then tl s else s);
          n = foldl (\<lambda>n c. 10 * n + (byte c - 48)) 0 ds
      in if ds \<noteq> [] \<and> list_all is_ascii_digit ds \<and> n < 2 ^ 64 then Some n else None)"

text \<open>
  \<open>parse_type\<close>: the members of a union so far, and its type. The span of a longer union starts
  at its last member but one.
\<close>

definition parse_union :: "entry \<Rightarrow> span type_ann \<Rightarrow> span type_ann action" where
  "parse_union E first =
     loop (\<lambda>(union_parts, t).
       look (at (TOp Pipe)) (\<lambda>pipe.
         if pipe then
           pseq bump (
           pbind (e_type_atom E) (\<lambda>next.
             case union_parts of
               Some parts \<Rightarrow>
                 let span = span_merge (type_span (last parts)) (type_span next) in
                 again (Some (parts @ [next]), MkType (TyUnion (parts @ [next])) span)
             | None \<Rightarrow>
                 let span = span_merge (type_span t) (type_span next) in
                 again (Some [t, next], MkType (TyUnion [t, next]) span)))
         else break_with t))
       (None, first)"

definition parse_type :: "entry \<Rightarrow> span type_ann action" where
  "parse_type E = pbind (e_type_atom E) (parse_union E)"

text \<open>The comma loop shared by tuple types, function types and type arguments.\<close>

definition parse_type_list :: "entry \<Rightarrow> token_kind \<Rightarrow> span type_ann list action" where
  "parse_type_list E close =
     look (at close) (\<lambda>empty.
       if empty then pret []
       else pbind (e_type E) (\<lambda>first.
         loop (\<lambda>ts.
           pbind (eat (TOp Comma)) (\<lambda>comma.
             if \<not> comma then break_with ts
             else look (at close) (\<lambda>stop.
               if stop then break_with ts
               else pbind (e_type E) (\<lambda>t. again (ts @ [t])))))
           [first]))"

definition parse_array_type :: "entry \<Rightarrow> span \<Rightarrow> span type_ann action" where
  "parse_array_type E start =
     pbind (e_type E) (\<lambda>elem.
     pseq (expect (TOp Semicolon)) (
     look peek (\<lambda>len_tok.
     let span = tspan len_tok in
     case kind len_tok of
       TInt s \<Rightarrow> (case parse_usize s of
           None \<Rightarrow> pfail (Syntax (''array length must be a non-negative integer literal, got `'' @ s @ ''`'')
             span (Some ''use a non-negative integer literal for the array length''))
         | Some len \<Rightarrow>
             pseq bump (
             look current_span (\<lambda>end.
             pseq (expect (TOp RBracket)) (
             pret (MkType (TyArray elem len) (span_merge start end))))))
     | _ \<Rightarrow> pfail (Syntax ''array type `[T; N]` expects an integer length after `;`'' span
         (Some ''supply an integer length: `[T; N]` where N is a non-negative int'')))))"

definition parse_paren_type :: "entry \<Rightarrow> span \<Rightarrow> span type_ann action" where
  "parse_paren_type E start =
     pbind (parse_type_list E (TOp RParen)) (\<lambda>params.
     pseq (expect (TOp RParen)) (
     pbind (eat (TOp Arrow)) (\<lambda>arrow.
     if arrow then
       pbind (e_type E) (\<lambda>ret. pret (MkType (TyFn params ret) (span_merge start (type_span ret))))
     else
       look current_span (\<lambda>end. pret (MkType (TyTuple params) (span_merge start end))))))"

definition parse_named_type :: "entry \<Rightarrow> span \<Rightarrow> span type_ann action" where
  "parse_named_type E start =
     pbind parse_dotted_name (\<lambda>path.
     pbind (eat (TOp LBracket)) (\<lambda>generic.
     if generic then
       pbind (parse_type_list E (TOp RBracket)) (\<lambda>args.
       look current_span (\<lambda>end.
       pseq (expect (TOp RBracket)) (
       pret (MkType (TyGeneric path args) (span_merge start end)))))
     else
       look current_span (\<lambda>end. pret (MkType (TyName path) (span_merge start end)))))"

definition parse_type_atom :: "entry \<Rightarrow> span type_ann action" where
  "parse_type_atom E =
     look current_span (\<lambda>start.
     look (at (TKw KwNone)) (\<lambda>none.
     if none then pseq bump (pret (MkType (TyName [''None'']) start))
     else pbind (eat (TOp Amp)) (\<lambda>amp.
     if amp then
       pbind (e_type_atom E) (\<lambda>inner. pret (MkType (TyRef inner) (span_merge start (type_span inner))))
     else pbind (eat (TOp LBracket)) (\<lambda>bracket.
     if bracket then parse_array_type E start
     else pbind (eat (TOp LParen)) (\<lambda>paren.
     if paren then parse_paren_type E start
     else parse_named_type E start)))))"

section \<open>Parameters\<close>

definition parse_one_param :: "entry \<Rightarrow> span param action" where
  "parse_one_param E =
     look current_span (\<lambda>start.
     pbind expect_ident (\<lambda>name.
     pbind (eat (TOp Colon)) (\<lambda>typed.
     pbind (optionally typed (e_type E)) (\<lambda>annot.
     pbind (eat (TOp Eq)) (\<lambda>defaulted.
     pbind (optionally defaulted parse_literal_default) (\<lambda>default.
     look current_span (\<lambda>end.
     pret (Param name annot default (span_merge start end)))))))))"

definition parse_one_lambda_param :: "span param action" where
  "parse_one_lambda_param =
     look current_span (\<lambda>start.
     pbind expect_ident (\<lambda>name.
     pbind (eat (TOp Eq)) (\<lambda>defaulted.
     pbind (optionally defaulted parse_literal_default) (\<lambda>default.
     look current_span (\<lambda>end.
     pret (Param name None default (span_merge start end)))))))"

text \<open>
  One turn of the two parameter loops, which differ in the parser of one parameter and in the
  tokens that stop after a trailing comma.
\<close>

primrec set_var_positional :: "'s param \<Rightarrow> 's params \<Rightarrow> 's params" where
  "set_var_positional p (Params ps v ks w) = Params ps (Some p) ks w"

primrec set_var_keyword :: "'s param \<Rightarrow> 's params \<Rightarrow> 's params" where
  "set_var_keyword p (Params ps v ks w) = Params ps v ks (Some p)"

primrec push_param :: "bool \<Rightarrow> 's param \<Rightarrow> 's params \<Rightarrow> 's params" where
  "push_param after_star p (Params ps v ks w) =
     (if after_star then Params ps v (ks @ [p]) w else Params (ps @ [p]) v ks w)"

definition parse_param_item ::
    "span param action \<Rightarrow> span params \<times> bool \<Rightarrow> (span params \<times> bool) action" where
  "parse_param_item one = (\<lambda>(params, after_star).
     look (at (TOp Star)) (\<lambda>star.
     if star then
       pseq bump (
       look (at (TIdent [])) (\<lambda>named.
       if named then pbind one (\<lambda>p. pret (set_var_positional p params, True))
       else pret (params, True)))
     else
       pbind (eat (TOp StarStar)) (\<lambda>starstar.
       if starstar then pbind one (\<lambda>p. pret (set_var_keyword p params, after_star))
       else pbind one (\<lambda>p. pret (push_param after_star p params, after_star)))))"

definition parse_param_turn ::
    "span param action \<Rightarrow> token_kind list \<Rightarrow> span params \<times> bool \<Rightarrow>
     (span params \<times> bool + span params) action" where
  "parse_param_turn one stops s =
     pbind (parse_param_item one s) (\<lambda>(params, after_star).
     pbind (eat (TOp Comma)) (\<lambda>comma.
     if \<not> comma then break_with params
     else look peek_kind (\<lambda>k.
       if k \<in> set stops then break_with params else again (params, after_star))))"

definition parse_params_no_paren :: "entry \<Rightarrow> span params action" where
  "parse_params_no_paren E =
     loop (parse_param_turn (parse_one_param E) [TOp RParen, TOp Colon]) (params_default, False)"

definition parse_params :: "entry \<Rightarrow> span params action" where
  "parse_params E =
     look (at (TOp RParen)) (\<lambda>empty. if empty then pret params_default else parse_params_no_paren E)"

definition parse_lambda_params :: "span params action" where
  "parse_lambda_params =
     loop (parse_param_turn parse_one_lambda_param [TOp Colon]) (params_default, False)"

end
