(* ===== verification/Parser_Pattern.thy ===== *)
theory Parser_Pattern
  imports Parser_Type
begin

text \<open>Patterns, and the targets of loops (the pattern section of \<open>parser.rs\<close>).\<close>

text \<open>\<open>parse_pattern_seq\<close>; either closing bracket ends it, whichever opened it.\<close>

definition parse_pattern_seq ::
    "entry \<Rightarrow> token_kind \<Rightarrow> (span pattern list \<times> span pattern option) action" where
  "parse_pattern_seq E terminator =
     loop (\<lambda>(items, rest).
       look peek_kind (\<lambda>k.
       if k = TOp RParen \<or> k = TOp RBracket \<or> discriminant k = discriminant terminator
       then break_with (items, rest)
       else pbind (eat (TOp Star)) (\<lambda>star.
         if star then
           pbind (e_pattern E) (\<lambda>inner.
           pbind (eat (TOp Comma)) (\<lambda>comma.
           if comma then again (items, Some inner) else break_with (items, Some inner)))
         else
           pbind (e_pattern E) (\<lambda>item.
           pbind (eat (TOp Comma)) (\<lambda>comma.
           if comma then again (items @ [item], rest) else break_with (items @ [item], rest))))))
       ([], None)"

definition parse_sequence_pattern :: "entry \<Rightarrow> token_kind \<Rightarrow> span \<Rightarrow> span pattern action" where
  "parse_sequence_pattern E close start =
     pseq bump (
     pbind (parse_pattern_seq E close) (\<lambda>(items, rest).
     look current_span (\<lambda>end.
     pseq (expect close) (
     pret (MkPattern (PSequence items rest) (span_merge start end))))))"

definition is_keyword_ahead :: "parser \<Rightarrow> bool" where
  "is_keyword_ahead p \<longleftrightarrow> at (TIdent []) p \<and> peek_at 1 p = TOp Eq"

definition parse_class_args ::
    "entry \<Rightarrow> (span pattern list \<times> (string \<times> span pattern) list) action" where
  "parse_class_args E =
     loop (\<lambda>(positional, keyword).
       look is_keyword_ahead (\<lambda>is_kw.
       pbind
         (if is_kw then
            pbind expect_ident (\<lambda>kn.
            pseq bump (
            pmap (\<lambda>p. (positional, keyword @ [(kn, p)])) (e_pattern E)))
          else pmap (\<lambda>p. (positional @ [p], keyword)) (e_pattern E))
         (\<lambda>args.
       pbind (eat (TOp Comma)) (\<lambda>comma.
       if \<not> comma then break_with args
       else look (at (TOp RParen)) (\<lambda>stop. if stop then break_with args else again args)))))
       ([], [])"

definition parse_class_pattern :: "entry \<Rightarrow> span \<Rightarrow> string list \<Rightarrow> span pattern action" where
  "parse_class_pattern E start path =
     pseq bump (
     look (at (TOp RParen)) (\<lambda>empty.
     pbind (if empty then pret ([], []) else parse_class_args E) (\<lambda>(positional, keyword).
     look current_span (\<lambda>end.
     pseq (expect (TOp RParen)) (
     pret (MkPattern (PClass path positional keyword) (span_merge start end)))))))"

definition parse_name_pattern :: "entry \<Rightarrow> span \<Rightarrow> string \<Rightarrow> span pattern action" where
  "parse_name_pattern E start name =
     pseq bump (
     pbind (loop (\<lambda>path.
       pbind (eat (TOp Dot)) (\<lambda>dot.
         if dot then pbind expect_ident (\<lambda>n. again (path @ [n])) else break_with path)) [name]) (\<lambda>path.
     look (at (TOp LParen)) (\<lambda>class.
     if class then parse_class_pattern E start path
     else if length path = 1 then pret (MkPattern (PBinding (hd path)) start)
     else pret (MkPattern (PClass path [] []) start))))"

definition parse_mapping_pattern :: "entry \<Rightarrow> span \<Rightarrow> span pattern action" where
  "parse_mapping_pattern E start =
     pseq bump (
     pbind (loop (\<lambda>(entries, rest).
       look (at (TOp RBrace)) (\<lambda>close.
       if close then break_with (entries, rest)
       else pbind (eat (TOp StarStar)) (\<lambda>starstar.
         if starstar then pbind expect_ident (\<lambda>name. break_with (entries, Some name))
         else
           pbind (e_expr E) (\<lambda>key.
           pseq (expect (TOp Colon)) (
           pbind (e_pattern E) (\<lambda>pat.
           pbind (eat (TOp Comma)) (\<lambda>comma.
           if comma then again (entries @ [(key, pat)], rest)
           else break_with (entries @ [(key, pat)], rest)))))))) ([], None)) (\<lambda>(entries, rest).
     look current_span (\<lambda>end.
     pseq (expect (TOp RBrace)) (
     pret (MkPattern (PMapping entries rest) (span_merge start end))))))"

definition literal_start :: "token_kind \<Rightarrow> bool" where
  "literal_start k \<longleftrightarrow>
     (case k of TInt _ \<Rightarrow> True | TFloat _ \<Rightarrow> True | TImag _ \<Rightarrow> True | TStr _ _ \<Rightarrow> True
      | TBytes _ _ \<Rightarrow> True
      | _ \<Rightarrow> k = TKw KwTrue \<or> k = TKw KwFalse \<or> k = TKw KwNone)"

definition parse_pattern_simple :: "entry \<Rightarrow> span pattern action" where
  "parse_pattern_simple E =
     look peek (\<lambda>tok.
       let k = kind tok; span = tspan tok in
       case k of
         TIdent name \<Rightarrow> parse_name_pattern E span name
       | _ \<Rightarrow>
         if k = TUnderscore then pseq bump (pret (MkPattern PWildcard span))
         else if k = TOp LParen then parse_sequence_pattern E (TOp RParen) span
         else if k = TOp LBracket then parse_sequence_pattern E (TOp RBracket) span
         else if k = TOp LBrace then parse_mapping_pattern E span
         else if literal_start k \<or> k = TOp Minus then
           pbind parse_literal_default (\<lambda>lit. pret (MkPattern (PLiteral lit) span))
         else pfail (Syntax (''invalid pattern start: '' @ classify k) span None))"

text \<open>The separated tails of or-patterns and of bare tuple targets, after their first member.\<close>

definition merge_ends :: "span pattern list \<Rightarrow> span" where
  "merge_ends ps = span_merge (pattern_span (hd ps)) (pattern_span (last ps))"

definition parse_pattern_or :: "entry \<Rightarrow> span pattern action" where
  "parse_pattern_or E =
     pbind (e_pattern E) (\<lambda>first.
     look (at (TOp Pipe)) (\<lambda>pipe.
     if \<not> pipe then pret first
     else
       pbind (loop (\<lambda>alts.
         pbind (eat (TOp Pipe)) (\<lambda>more.
           if more then pbind (e_pattern E) (\<lambda>alt. again (alts @ [alt]))
           else break_with alts)) [first]) (\<lambda>alts.
       pret (MkPattern (POr alts) (merge_ends alts)))))"

definition parse_for_target :: "entry \<Rightarrow> span pattern action" where
  "parse_for_target E =
     pbind (e_pattern E) (\<lambda>first.
     look (at (TOp Comma)) (\<lambda>comma.
     if \<not> comma then pret first
     else
       pbind (loop (\<lambda>items.
         pbind (eat (TOp Comma)) (\<lambda>more.
           if \<not> more then break_with items
           else look (at (TKw KwIn)) (\<lambda>stop.
             if stop then break_with items
             else pbind (e_pattern E) (\<lambda>item. again (items @ [item]))))) [first]) (\<lambda>items.
       pret (MkPattern (PSequence items None) (merge_ends items)))))"

end
