(* ===== verification/Parser_Expr.thy ===== *)
theory Parser_Expr
  imports Parser_Pattern
begin

text \<open>Expressions: the Pratt loop, unary and postfix forms, atoms (\<open>parser.rs\<close>).\<close>

section \<open>Operators\<close>

definition prec_or :: nat where "prec_or = 40"
definition prec_and :: nat where "prec_and = 45"
definition prec_not :: nat where "prec_not = 50"
definition prec_cmp :: nat where "prec_cmp = 60"
definition prec_bitor :: nat where "prec_bitor = 65"
definition prec_bitxor :: nat where "prec_bitxor = 70"
definition prec_bitand :: nat where "prec_bitand = 75"
definition prec_shift :: nat where "prec_shift = 80"
definition prec_add :: nat where "prec_add = 85"
definition prec_cast :: nat where "prec_cast = 88"
definition prec_mul :: nat where "prec_mul = 90"
definition prec_pow :: nat where "prec_pow = 95"

text \<open>\<open>peek_binop\<close>: operator, precedence, and whether it associates to the right.\<close>

definition op_binop :: "op \<Rightarrow> (bin_op \<times> nat \<times> bool) option" where
  "op_binop k =
     (case k of
        EqEq \<Rightarrow> Some (OpEq, prec_cmp, False)
      | NotEq \<Rightarrow> Some (OpNotEq, prec_cmp, False)
      | Lt \<Rightarrow> Some (OpLt, prec_cmp, False)
      | LtEq \<Rightarrow> Some (OpLtEq, prec_cmp, False)
      | Gt \<Rightarrow> Some (OpGt, prec_cmp, False)
      | GtEq \<Rightarrow> Some (OpGtEq, prec_cmp, False)
      | Pipe \<Rightarrow> Some (BitOr, prec_bitor, False)
      | Caret \<Rightarrow> Some (BitXor, prec_bitxor, False)
      | Amp \<Rightarrow> Some (BitAnd, prec_bitand, False)
      | Shl \<Rightarrow> Some (OpShl, prec_shift, False)
      | Shr \<Rightarrow> Some (OpShr, prec_shift, False)
      | Plus \<Rightarrow> Some (Add, prec_add, False)
      | Minus \<Rightarrow> Some (Sub, prec_add, False)
      | Star \<Rightarrow> Some (Mul, prec_mul, False)
      | At \<Rightarrow> Some (MatMul, prec_mul, False)
      | Slash \<Rightarrow> Some (Div, prec_mul, False)
      | SlashSlash \<Rightarrow> Some (FloorDiv, prec_mul, False)
      | Percent \<Rightarrow> Some (Mod, prec_mul, False)
      | StarStar \<Rightarrow> Some (Pow, prec_pow, True)
      | _ \<Rightarrow> None)"

definition peek_binop :: "parser \<Rightarrow> (bin_op \<times> nat \<times> bool) option" where
  "peek_binop p =
     (case peek_kind p of
        TOp k \<Rightarrow> op_binop k
      | TKw k \<Rightarrow>
          if k = KwOr then Some (OpOr, prec_or, False)
          else if k = KwAnd then Some (OpAnd, prec_and, False)
          else if k = KwIn then Some (OpIn, prec_cmp, False)
          else if k = KwNot then
            (if peek_at 1 p = TKw KwIn then Some (NotIn, prec_cmp, False) else None)
          else None
      | _ \<Rightarrow> None)"

text \<open>The names \<open>as\<close> is followed by in a cast.\<close>

definition cast_type_names :: "string list" where
  "cast_type_names =
     [''i64'', ''f64'', ''int'', ''float'', ''str'', ''bool'', ''bytes'', ''None'', ''Never'',
      ''list'', ''dict'', ''set'']"

definition is_cast_type_token :: "token_kind \<Rightarrow> bool" where
  "is_cast_type_token k = (case k of TIdent name \<Rightarrow> name \<in> set cast_type_names | _ \<Rightarrow> False)"

section \<open>The Pratt loop\<close>

definition cast_ahead :: "nat \<Rightarrow> parser \<Rightarrow> bool" where
  "cast_ahead lo p \<longleftrightarrow>
     peek_kind p = TKw KwAs \<and> lo \<le> prec_cast \<and> is_cast_type_token (peek_at 1 p)"

definition pratt_turn :: "entry \<Rightarrow> nat \<Rightarrow> span expr \<Rightarrow> (span expr + span expr) action" where
  "pratt_turn E lo lhs =
     look (cast_ahead lo) (\<lambda>cast.
     if cast then
       pseq bump (
       pbind (e_type E) (\<lambda>target.
       again (MkExpr (ECast lhs target) (span_merge (expr_span lhs) (type_span target)))))
     else look peek_binop (\<lambda>next. case next of
         None \<Rightarrow> break_with lhs
       | Some (op, prec, right_assoc) \<Rightarrow>
           if prec < lo then break_with lhs
           else
             pseq bump (
             pbind (e_pratt E (if right_assoc then prec else prec + 1)) (\<lambda>rhs.
             again (MkExpr (EBinary op lhs rhs) (span_merge (expr_span lhs) (expr_span rhs)))))))"

section \<open>Unary forms\<close>

definition section_8 :: string where
  "section_8 = [CHR 0xC2, CHR 0xA7] @ ''8''"

definition borrow_error :: "'s expr_kind \<Rightarrow> span \<Rightarrow> parse_error" where
  "borrow_error k span =
     (case k of
        EBorrow e \<Rightarrow>
          Syntax (''nested borrow `&&` is not supported in Wave-1 (ADR-0052a '' @ section_8 @ '')'') span
            (Some (''use a single `&` borrow (ADR-0052a '' @ section_8 @ '')''))
      | ELiteral l \<Rightarrow>
          Syntax (''borrow of a literal is not supported in Wave-1 (ADR-0052a '' @ section_8 @
              '' cap: borrow operand must be `Name`, `Name.field`, or `Name[idx]`)'') span
            (Some (''bind the literal to a name first: `let x = '' @ ellipsis @ ''; &x`''))
      | EFString ps \<Rightarrow>
          Syntax (''borrow of an f-string is not supported in Wave-1 (ADR-0052a '' @ section_8 @ '' cap)'') span
            (Some (''bind the f-string to a name first: `let s = f'' @
              [CHR 0x22] @ ellipsis @ [CHR 0x22] @ ''; &s`''))
      | ECall callee args \<Rightarrow>
          Syntax (''borrow of a free-function call-result is not supported '' @
              ''(ADR-0052f only relaxes method-form `&recv.method(...)`; '' @
              ''borrow operand must be `Name`, `Name.field`, `Name[idx]`, or `Name.method(...)`)'') span
            (Some ''bind the call result to a name first: `let v = f(...); &v`'')
      | _ \<Rightarrow>
          if (case k of ECollection c \<Rightarrow> True | EComprehension c \<Rightarrow> True | _ \<Rightarrow> False) then
            Syntax (''borrow of a collection / comprehension literal is not supported in Wave-1 (ADR-0052a '' @
                section_8 @ '' cap)'') span
              (Some ''bind the collection to a name first: `let xs = [...]; &xs`'')
          else
            Syntax (''borrow operand must be `Name`, `Name.field`, or `Name[idx]` in Wave-1 (ADR-0052a '' @
                section_8 @ '' cap)'') span
              (Some ''borrow a place: `Name`, `Name.field`, or `Name[idx]`''))"

text \<open>The base the validator goes on with: of an attribute, an index, or the callee of a method call.\<close>

definition borrow_base :: "'s expr_kind \<Rightarrow> 's expr option" where
  "borrow_base k =
     (case k of
        EAttribute base name \<Rightarrow> Some base
      | EIndex base index \<Rightarrow> Some base
      | ECall callee args \<Rightarrow>
          (case expr_kind_of callee of EAttribute base name \<Rightarrow> Some base | _ \<Rightarrow> None)
      | _ \<Rightarrow> None)"

lemma borrow_base_size:
  assumes "borrow_base k = Some base"
  shows "size base < size k"
proof (cases k)
  case (ECall callee args)
  show ?thesis
  proof (cases callee)
    case (MkExpr k' s)
    with assms ECall show ?thesis
      by (auto simp: borrow_base_def split: expr_kind.split_asm)
  qed
qed (use assms in \<open>auto simp: borrow_base_def\<close>)

function validate_borrow_operand :: "span expr \<Rightarrow> unit action" where
  "validate_borrow_operand (MkExpr k span) =
     (case borrow_base k of
        Some base \<Rightarrow> validate_borrow_operand base
      | None \<Rightarrow> (case k of EName n \<Rightarrow> pret () | _ \<Rightarrow> pfail (borrow_error k span)))"
  by pat_completeness auto

termination
  by (relation "measure size") (auto dest!: borrow_base_size)

definition parse_lambda :: "entry \<Rightarrow> span expr action" where
  "parse_lambda E =
     look current_span (\<lambda>start.
     pseq (expect (TKw KwLambda)) (
     look (at (TOp Colon)) (\<lambda>bare.
     pbind (if bare then pret params_default else parse_lambda_params) (\<lambda>params.
     pseq (expect (TOp Colon)) (
     pbind (e_expr E) (\<lambda>body.
     pret (MkExpr (ELambda params body) (span_merge start (expr_span body)))))))))"

text \<open>The arms of \<open>parse_unary\<close> that read an operand after the operator token.\<close>

definition prefix_form ::
    "(span expr \<Rightarrow> span expr_kind) \<Rightarrow> span expr action \<Rightarrow> span expr action" where
  "prefix_form form operand =
     look current_span (\<lambda>start.
     pseq bump (
     pbind operand (\<lambda>e. pret (MkExpr (form e) (span_merge start (expr_span e))))))"

definition yield_ends :: "token_kind list" where
  "yield_ends =
     [TNewline, TEof, TOp RParen, TOp RBracket, TOp RBrace, TOp Semicolon, TOp Comma]"

definition parse_yield :: "entry \<Rightarrow> span expr action" where
  "parse_yield E =
     look current_span (\<lambda>start.
     pseq bump (
     pbind (eat (TKw KwFrom)) (\<lambda>delegated.
     if delegated then
       pbind (e_expr E) (\<lambda>inner. pret (MkExpr (EYieldFrom inner) (span_merge start (expr_span inner))))
     else look peek_kind (\<lambda>k.
       if k \<in> set yield_ends then pret (MkExpr (EYield None) start)
       else pbind (e_expr E) (\<lambda>inner.
         pret (MkExpr (EYield (Some inner)) (span_merge start (expr_span inner))))))))"

definition borrowed :: "entry \<Rightarrow> span expr action" where
  "borrowed E =
     pbind (e_pratt E 100) (\<lambda>operand. pseq (validate_borrow_operand operand) (pret operand))"

section \<open>Calls and indices\<close>

definition parse_call_arg :: "entry \<Rightarrow> span expr call_arg action" where
  "parse_call_arg E =
     pbind (eat (TOp StarStar)) (\<lambda>starstar.
     if starstar then pmap StarStarKwargs (e_expr E)
     else pbind (eat (TOp Star)) (\<lambda>star.
     if star then pmap StarArgs (e_expr E)
     else look is_keyword_ahead (\<lambda>is_keyword.
     if is_keyword then
       pbind expect_ident (\<lambda>name.
       pseq (expect (TOp Eq)) (pmap (Keyword name) (e_expr E)))
     else pmap Positional (e_expr E))))"

definition parse_call_args :: "entry \<Rightarrow> span expr call_arg list action" where
  "parse_call_args E =
     loop (\<lambda>args.
       look (at (TOp RParen)) (\<lambda>close.
       if close then break_with args
       else pbind (parse_call_arg E) (\<lambda>arg.
         pbind (eat (TOp Comma)) (\<lambda>comma.
         if comma then again (args @ [arg]) else break_with (args @ [arg]))))) []"

definition parse_index_one :: "entry \<Rightarrow> span expr index_kind action" where
  "parse_index_one E =
     look (at (TOp Colon)) (\<lambda>open.
     pbind (optionally (\<not> open) (e_expr E)) (\<lambda>start_expr.
     look (at (TOp Colon)) (\<lambda>is_slice.
     if is_slice then
       pseq bump (
       look peek_kind (\<lambda>k.
       pbind (optionally (k \<notin> {TOp Colon, TOp RBracket, TOp Comma}) (e_expr E)) (\<lambda>stop_expr.
       look (at (TOp Colon)) (\<lambda>stepped.
       if stepped then
         pseq bump (
         look peek_kind (\<lambda>k.
         pbind (optionally (k \<notin> {TOp RBracket, TOp Comma}) (e_expr E)) (\<lambda>step_expr.
         pret (Slice start_expr stop_expr step_expr))))
       else pret (Slice start_expr stop_expr None)))))
     else case start_expr of
         Some e \<Rightarrow> pret (IndexExpr e)
       | None \<Rightarrow> look current_span (\<lambda>span. pfail (Syntax ''empty index'' span
           (Some ''index with at least one bound: `x[i]`, `x[i:j]`, or `x[:j]`''))))))"

definition parse_index :: "entry \<Rightarrow> span expr index_kind action" where
  "parse_index E =
     pbind (parse_index_one E) (\<lambda>first.
     look (at (TOp Comma)) (\<lambda>comma.
     if \<not> comma then pret first
     else
       pmap IndexTuple (loop (\<lambda>items.
         pbind (eat (TOp Comma)) (\<lambda>more.
           if \<not> more then break_with items
           else look (at (TOp RBracket)) (\<lambda>stop.
             if stop then break_with items
             else pbind (parse_index_one E) (\<lambda>item. again (items @ [item]))))) [first])))"

definition parse_attribute_name :: "string action" where
  "parse_attribute_name =
     look peek_kind (\<lambda>k. case k of TInt s \<Rightarrow> pseq bump (pret s) | _ \<Rightarrow> expect_ident)"

definition postfix_turn :: "entry \<Rightarrow> span expr \<Rightarrow> (span expr + span expr) action" where
  "postfix_turn E e =
     look peek_kind (\<lambda>k.
     if k = TOp LParen then
       pseq bump (
       pbind (parse_call_args E) (\<lambda>args.
       look current_span (\<lambda>end.
       pseq (expect (TOp RParen)) (
       again (MkExpr (ECall e args) (span_merge (expr_span e) end))))))
     else if k = TOp Dot then
       pseq bump (
       pbind parse_attribute_name (\<lambda>name.
       look current_span (\<lambda>end.
       again (MkExpr (EAttribute e name) (span_merge (expr_span e) end)))))
     else if k = TOp LBracket then
       pseq bump (
       pbind (parse_index E) (\<lambda>idx.
       look current_span (\<lambda>end.
       pseq (expect (TOp RBracket)) (
       again (MkExpr (EIndex e idx) (span_merge (expr_span e) end))))))
     else break_with e)"

end
