(* ===== verification/Parser_Atom.thy ===== *)
theory Parser_Atom
  imports Parser_Expr
begin

text \<open>Atoms, comprehensions, f-strings, and the expression entry points (\<open>parser.rs\<close>).\<close>

section \<open>Comprehensions and brackets\<close>

definition parse_guards :: "entry \<Rightarrow> span expr list action" where
  "parse_guards E =
     loop (\<lambda>guards.
       pbind (eat (TKw KwIf)) (\<lambda>more.
         if more then pbind (e_pratt E 0) (\<lambda>g. again (guards @ [g])) else break_with guards)) []"

definition parse_comprehension_clauses ::
    "entry \<Rightarrow> (span expr, span pattern) comprehension_clause list action" where
  "parse_comprehension_clauses E =
     loop (\<lambda>clauses.
       pbind (eat (TKw KwFor)) (\<lambda>more.
       if \<not> more then break_with clauses
       else
         pbind (parse_for_target E) (\<lambda>target.
         pseq (expect (TKw KwIn)) (
         pbind (e_pratt E 0) (\<lambda>iter.
         pbind (parse_guards E) (\<lambda>guards.
         again (clauses @ [Clause target iter guards]))))))) []"

text \<open>The ends shared by the bracketed forms.\<close>

definition close_with :: "token_kind \<Rightarrow> span \<Rightarrow> span expr_kind \<Rightarrow> span expr action" where
  "close_with close start e =
     look current_span (\<lambda>end. pseq (expect close) (pret (MkExpr e (span_merge start end))))"

definition close_empty :: "span \<Rightarrow> span expr_kind \<Rightarrow> span expr action" where
  "close_empty start e =
     look current_span (\<lambda>end. pseq bump (pret (MkExpr e (span_merge start end))))"

definition parse_comprehension_rest ::
    "entry \<Rightarrow> token_kind \<Rightarrow> span \<Rightarrow> comprehension_kind \<Rightarrow> span expr comprehension_elem \<Rightarrow>
     span expr action" where
  "parse_comprehension_rest E close start kd element =
     pbind (parse_comprehension_clauses E) (\<lambda>clauses.
     close_with close start (EComprehension (Comprehension kd element clauses)))"

definition parse_paren_expr :: "entry \<Rightarrow> span expr action" where
  "parse_paren_expr E =
     look current_span (\<lambda>start.
     pseq (expect (TOp LParen)) (
     look (at (TOp RParen)) (\<lambda>empty.
     if empty then close_empty start (ECollection (CTuple []))
     else pbind (e_expr E) (\<lambda>first.
     look (at (TKw KwFor)) (\<lambda>generator.
     if generator then parse_comprehension_rest E (TOp RParen) start CompGenerator (Single first)
     else pbind (eat (TOp Comma)) (\<lambda>tuple.
     if tuple then
       pbind (loop (\<lambda>items.
         look (at (TOp RParen)) (\<lambda>stop.
         if stop then break_with items
         else pbind (e_expr E) (\<lambda>e.
           pbind (eat (TOp Comma)) (\<lambda>comma.
           if comma then again (items @ [e]) else break_with (items @ [e]))))) [first]) (\<lambda>items.
       close_with (TOp RParen) start (ECollection (CTuple items)))
     else close_with (TOp RParen) start (expr_kind_of first)))))))"

text \<open>The comma loop of list and set displays: a trailing comma is allowed before \<open>close\<close>.\<close>

definition parse_display_items :: "entry \<Rightarrow> token_kind \<Rightarrow> span expr \<Rightarrow> span expr list action" where
  "parse_display_items E close first =
     loop (\<lambda>items.
       pbind (eat (TOp Comma)) (\<lambda>comma.
       if \<not> comma then break_with items
       else look (at close) (\<lambda>stop.
         if stop then break_with items
         else pbind (e_expr E) (\<lambda>e. again (items @ [e]))))) [first]"

definition parse_bracket_expr :: "entry \<Rightarrow> span expr action" where
  "parse_bracket_expr E =
     look current_span (\<lambda>start.
     pseq (expect (TOp LBracket)) (
     look (at (TOp RBracket)) (\<lambda>empty.
     if empty then close_empty start (ECollection (CList []))
     else pbind (e_expr E) (\<lambda>first.
     look (at (TKw KwFor)) (\<lambda>comp.
     if comp then parse_comprehension_rest E (TOp RBracket) start CompList (Single first)
     else pbind (parse_display_items E (TOp RBracket) first) (\<lambda>items.
       close_with (TOp RBracket) start (ECollection (CList items))))))))"

definition parse_dict_after_first ::
    "entry \<Rightarrow> span \<Rightarrow> span expr dict_entry option \<Rightarrow> span expr action" where
  "parse_dict_after_first E start first =
     look (at (TOp RBrace)) (\<lambda>close.
     pseq (if first \<noteq> None \<and> \<not> close then pmap (\<lambda>_. ()) (expect (TOp Comma)) else pret ()) (
     pbind (loop (\<lambda>entries.
       look (at (TOp RBrace)) (\<lambda>stop.
       if stop then break_with entries
       else pbind
         (pbind (eat (TOp StarStar)) (\<lambda>starstar.
          if starstar then pmap DSpread (e_expr E)
          else
            pbind (e_expr E) (\<lambda>k.
            pseq (expect (TOp Colon)) (pmap (DPair k) (e_expr E)))))
         (\<lambda>entry.
         pbind (eat (TOp Comma)) (\<lambda>comma.
         if comma then again (entries @ [entry]) else break_with (entries @ [entry])))))
       (case first of None \<Rightarrow> [] | Some e \<Rightarrow> [e])) (\<lambda>entries.
     close_with (TOp RBrace) start (ECollection (CDict entries)))))"

definition parse_brace_expr :: "entry \<Rightarrow> span expr action" where
  "parse_brace_expr E =
     look current_span (\<lambda>start.
     pseq (expect (TOp LBrace)) (
     look (at (TOp RBrace)) (\<lambda>empty.
     if empty then close_empty start (ECollection (CDict []))
     else look (at (TOp StarStar)) (\<lambda>spread.
     if spread then parse_dict_after_first E start None
     else pbind (e_expr E) (\<lambda>first.
     pbind (eat (TOp Colon)) (\<lambda>pair.
     if pair then
       pbind (e_expr E) (\<lambda>v.
       look (at (TKw KwFor)) (\<lambda>comp.
       if comp then parse_comprehension_rest E (TOp RBrace) start CompDict (KeyValue first v)
       else parse_dict_after_first E start (Some (DPair first v))))
     else look (at (TKw KwFor)) (\<lambda>comp.
     if comp then parse_comprehension_rest E (TOp RBrace) start CompSet (Single first)
     else pbind (parse_display_items E (TOp RBrace) first) (\<lambda>items.
       close_with (TOp RBrace) start (ECollection (CSet items)))))))))) "

section \<open>F-strings\<close>

text \<open>\<open>Display\<close> of spans and of lexer errors.\<close>

definition show_u32 :: "u32 \<Rightarrow> string" where
  "show_u32 w = dec_digits (unat w)"

definition span_display :: "span \<Rightarrow> string" where
  "span_display s =
     ''file#'' @ show_u32 (sp_file s) @ ''@'' @ show_u32 (sp_start s) @ ''..'' @ show_u32 (sp_end s)"

fun lex_error_display :: "(nat \<Rightarrow> string) \<Rightarrow> lex_error \<Rightarrow> string" where
  "lex_error_display dbg (InvalidUtf8 n) = ''invalid UTF-8 at byte '' @ show_u32 n"
| "lex_error_display dbg (UnexpectedChar c s) =
     ''unexpected character '' @ dbg c @ '' at '' @ span_display s"
| "lex_error_display dbg (UnterminatedString s) = ''unterminated string literal at '' @ span_display s"
| "lex_error_display dbg (UnterminatedFString s) =
     ''unterminated f-string interpolation at '' @ span_display s"
| "lex_error_display dbg (MalformedNumber s) = ''malformed numeric literal at '' @ span_display s"
| "lex_error_display dbg (InconsistentIndent s) = ''inconsistent indentation at '' @ span_display s"
| "lex_error_display dbg (InvalidEscape s) = ''invalid escape sequence at '' @ span_display s"

definition fstring_lex_error :: "host \<Rightarrow> span \<Rightarrow> lex_error \<Rightarrow> parse_error" where
  "fstring_lex_error h span e =
     (case e of
        InvalidUtf8 n \<Rightarrow> Syntax (''invalid UTF-8 in f-string at byte '' @ show_u32 n) span
          (Some ''ensure the f-string body is valid UTF-8'')
      | _ \<Rightarrow> Syntax (lex_error_display (debug_char h) e) span None)"

text \<open>Re-lex the source of an interpolation, and parse one expression from a fresh parser.\<close>

definition parse_interpolation :: "entry \<Rightarrow> span \<Rightarrow> string \<Rightarrow> span expr action" where
  "parse_interpolation E span src p =
     (case lex (host_unicode (e_host E)) src (sp_file span) of
        Inl LexPanic \<Rightarrow> Some (Inl PPanic)
      | Inl (LexErr e) \<Rightarrow> Some (Inl (PErr (fstring_lex_error (e_host E) span e)))
      | Inr ts \<Rightarrow>
          if ts = [] then Some (Inl PPanic)
          else bind_o (e_expr E (parser_new ts)) (\<lambda>(e, _). Some (Inr (e, p))))"

primrec fstring_pieces_to_parts ::
    "entry \<Rightarrow> span \<Rightarrow> fstring_piece list \<Rightarrow> span expr fstr_part list action" where
  "fstring_pieces_to_parts E span [] = pret []"
| "fstring_pieces_to_parts E span (pc # pcs) =
     pbind
       (case pc of
          Lit s \<Rightarrow> pret (FLit s)
        | Expr src dbg spec \<Rightarrow> pmap (\<lambda>e. FExpr e dbg spec) (parse_interpolation E span src))
       (\<lambda>part. pmap (\<lambda>parts. part # parts) (fstring_pieces_to_parts E span pcs))"

section \<open>Atoms\<close>

definition literal_atom :: "literal \<Rightarrow> span \<Rightarrow> span expr action" where
  "literal_atom l span = pseq bump (pret (MkExpr (ELiteral l) span))"

definition parse_name :: "string \<Rightarrow> span \<Rightarrow> span expr action" where
  "parse_name name span =
     pseq bump (
     look (at (TOp Walrus)) (\<lambda>walrus.
     if walrus then
       look current_span (\<lambda>walrus_span.
         pfail (DroppedByConstitution ''walrus :='' (span_merge span walrus_span)
           (Some (''split into separate `let` and use: `let x = '' @ ellipsis @ ''; if x: '' @ ellipsis @ ''`''))))
     else pret (MkExpr (EName name) span)))"

definition parse_atom :: "entry \<Rightarrow> span expr action" where
  "parse_atom E =
     look peek (\<lambda>tok.
     let k = kind tok; span = tspan tok in
     case k of
       TInt s \<Rightarrow> literal_atom (LitInt s) span
     | TFloat s \<Rightarrow> literal_atom (LitFloat s) span
     | TImag s \<Rightarrow> literal_atom (LitImag s) span
     | TStr v _ \<Rightarrow> literal_atom (LitStr v) span
     | TBytes v _ \<Rightarrow> literal_atom (LitBytes v) span
     | TFString pieces \<Rightarrow>
         pseq bump (
         pbind (fstring_pieces_to_parts E span pieces) (\<lambda>parts. pret (MkExpr (EFString parts) span)))
     | TIdent name \<Rightarrow> parse_name name span
     | _ \<Rightarrow>
       if k = TKw KwTrue then literal_atom (LitBool True) span
       else if k = TKw KwFalse then literal_atom (LitBool False) span
       else if k = TKw KwNone then literal_atom LitNone span
       else if k = TOp LParen then guarded (parse_paren_expr E)
       else if k = TOp LBracket then parse_bracket_expr E
       else if k = TOp LBrace then parse_brace_expr E
       else pfail (Syntax (''unexpected token '' @ classify k @ '' in expression'') span None))"

section \<open>The expression entry points\<close>

definition parse_postfix :: "entry \<Rightarrow> span expr action" where
  "parse_postfix E = pbind (parse_atom E) (loop (postfix_turn E))"

definition parse_unary :: "entry \<Rightarrow> span expr action" where
  "parse_unary E =
     look peek_kind (\<lambda>k.
     if k = TKw KwNot then prefix_form (EUnary UNot) (e_pratt E prec_not)
     else if k = TOp Plus then prefix_form (EUnary UPlus) (e_pratt E 100)
     else if k = TOp Minus then prefix_form (EUnary Neg) (e_pratt E 100)
     else if k = TOp Tilde then prefix_form (EUnary BitNot) (e_pratt E 100)
     else if k = TOp Amp then prefix_form EBorrow (borrowed E)
     else if k = TKw KwAwait then prefix_form EAwait (e_pratt E 100)
     else if k = TKw KwYield then parse_yield E
     else if k = TKw KwLambda then parse_lambda E
     else parse_postfix E)"

definition parse_pratt_inner :: "entry \<Rightarrow> nat \<Rightarrow> span expr action" where
  "parse_pratt_inner E lo = pbind (parse_unary E) (loop (pratt_turn E lo))"

definition parse_pratt :: "entry \<Rightarrow> nat \<Rightarrow> span expr action" where
  "parse_pratt E lo = guarded (parse_pratt_inner E lo)"

definition parse_expr :: "entry \<Rightarrow> span expr action" where
  "parse_expr E =
     pbind (e_pratt E 0) (\<lambda>then_branch.
     look (at (TKw KwIf)) (\<lambda>ternary.
     if \<not> ternary then pret then_branch
     else
       pseq bump (
       pbind (e_pratt E 0) (\<lambda>cond.
       pseq (expect (TKw KwElse)) (
       pbind (e_expr E) (\<lambda>else_branch.
       pret (MkExpr (EIfExpr cond then_branch else_branch)
         (span_merge (expr_span then_branch) (expr_span else_branch)))))))))"

end
