(* ===== verification/Parser_Stmt.thy ===== *)
theory Parser_Stmt
  imports Parser_Atom
begin

text \<open>Statements, blocks and definitions (\<open>parser.rs\<close>).\<close>

section \<open>Blocks and simple statements\<close>

definition parse_block :: "entry \<Rightarrow> span block action" where
  "parse_block E =
     look current_span (\<lambda>start.
     pseq (expect TNewline) (
     pseq skip_newlines (
     pseq (expect TIndent) (
     pbind (loop (\<lambda>stmts.
       pseq skip_newlines (
       look peek_kind (\<lambda>k.
       if k = TDedent \<or> k = TEof then break_with stmts
       else pbind (e_stmt E) (\<lambda>s. again (stmts @ [s]))))) []) (\<lambda>stmts.
     pseq (eat TDedent) (
     let end = (if stmts = [] then start else stmt_span (last stmts)) in
     pret (Block stmts (span_merge start end))))))))"

text \<open>An optional \<open>else: block\<close>, and the end of the statement with it.\<close>

definition parse_colon_block :: "entry \<Rightarrow> span block action" where
  "parse_colon_block E = pseq (expect (TOp Colon)) (parse_block E)"

definition block_end :: "span \<Rightarrow> span block option \<Rightarrow> span" where
  "block_end s b = (case b of None \<Rightarrow> s | Some b \<Rightarrow> block_span b)"

definition simple_statement :: "span stmt_kind \<Rightarrow> span stmt action" where
  "simple_statement k = pbind bump (\<lambda>t. pseq expect_eos (pret (MkStmt k (tspan t))))"

definition statement_ends :: "token_kind list" where
  "statement_ends = [TNewline, TEof, TOp Semicolon]"

definition parse_import :: "span stmt action" where
  "parse_import =
     look current_span (\<lambda>start.
     look (at (TKw KwImport)) (\<lambda>import.
     if import then
       pseq bump (
       pbind parse_dotted_name (\<lambda>path.
       pbind (eat (TKw KwAs)) (\<lambda>as.
       pbind (optionally as expect_ident) (\<lambda>alias.
       pseq expect_eos (
       pret (MkStmt (SImport (Import path alias)) start))))))
     else
       pseq bump (
       pbind parse_dotted_name (\<lambda>path.
       pseq (expect (TKw KwImport)) (
       look (at (TOp Star)) (\<lambda>star.
       if star then
         look current_span (\<lambda>span.
           pfail (Syntax (''`from '' @ ellipsis @ '' import *` is not supported'') span
             (Some ''list specific names: `from <module> import name1, name2`'')))
       else
         pbind (loop (\<lambda>targets.
           pbind expect_ident (\<lambda>name.
           pbind (eat (TKw KwAs)) (\<lambda>as.
           pbind (optionally as expect_ident) (\<lambda>alias.
           pbind (eat (TOp Comma)) (\<lambda>comma.
           if comma then again (targets @ [ImportTarget name alias])
           else break_with (targets @ [ImportTarget name alias])))))) []) (\<lambda>targets.
         pseq expect_eos (
         pret (MkStmt (SImport (From path targets)) start)))))))))"

definition parse_type_alias :: "entry \<Rightarrow> span stmt action" where
  "parse_type_alias E =
     look current_span (\<lambda>start.
     pseq (expect (TKw KwType)) (
     pbind expect_ident (\<lambda>name.
     pbind (eat (TOp LBracket)) (\<lambda>generic.
     pbind
       (if generic then
          look (at (TOp RBracket)) (\<lambda>empty.
          pbind
            (if empty then pret []
             else pbind expect_ident (\<lambda>first.
               loop (\<lambda>ps.
                 pbind (eat (TOp Comma)) (\<lambda>comma.
                   if comma then pbind expect_ident (\<lambda>n. again (ps @ [n])) else break_with ps))
                 [first]))
            (\<lambda>ps. pseq (expect (TOp RBracket)) (pret ps)))
        else pret [])
       (\<lambda>type_params.
     pseq (expect (TOp Eq)) (
     pbind (e_type E) (\<lambda>value.
     pseq expect_eos (
     pret (MkStmt (STypeAlias (TypeAlias name type_params value))
       (span_merge start (type_span value)))))))))))"

definition parse_let :: "entry \<Rightarrow> span stmt action" where
  "parse_let E =
     look current_span (\<lambda>start.
     pseq (expect (TKw KwLet)) (
     pbind (e_pattern E) (\<lambda>target.
     pbind (eat (TOp Colon)) (\<lambda>typed.
     pbind (optionally typed (e_type E)) (\<lambda>annot.
     pseq (expect (TOp Eq)) (
     pbind (e_expr E) (\<lambda>value.
     pseq expect_eos (
     pret (MkStmt (SLet target annot value) (span_merge start (expr_span value)))))))))))"

definition parse_return :: "entry \<Rightarrow> span stmt action" where
  "parse_return E =
     look current_span (\<lambda>start.
     pseq (expect (TKw KwReturn)) (
     look peek_kind (\<lambda>k.
     pbind (optionally (k \<notin> set statement_ends) (e_expr E)) (\<lambda>v.
     pseq expect_eos (
     let end = (case v of None \<Rightarrow> start | Some e \<Rightarrow> expr_span e) in
     pret (MkStmt (SReturn v) (span_merge start end)))))))"

definition parse_raise :: "entry \<Rightarrow> span stmt action" where
  "parse_raise E =
     look current_span (\<lambda>start.
     pseq (expect (TKw KwRaise)) (
     look peek_kind (\<lambda>k.
     pbind (optionally (k \<notin> set (TKw KwFrom # statement_ends)) (e_expr E)) (\<lambda>exc.
     pbind (eat (TKw KwFrom)) (\<lambda>chained.
     pbind (optionally chained (e_expr E)) (\<lambda>cause.
     pseq expect_eos (
     let end = (case cause of Some e \<Rightarrow> expr_span e
                | None \<Rightarrow> (case exc of Some e \<Rightarrow> expr_span e | None \<Rightarrow> start)) in
     pret (MkStmt (SRaise exc cause) (span_merge start end)))))))))"

section \<open>Compound statements\<close>

definition parse_else :: "entry \<Rightarrow> span block option action" where
  "parse_else E =
     pseq skip_newlines (
     pbind (eat (TKw KwElse)) (\<lambda>yes. optionally yes (parse_colon_block E)))"

definition parse_if :: "entry \<Rightarrow> span stmt action" where
  "parse_if E =
     look current_span (\<lambda>start.
     pseq (expect (TKw KwIf)) (
     pbind (e_expr E) (\<lambda>cond.
     pbind (parse_colon_block E) (\<lambda>then_block.
     pbind (loop (\<lambda>elifs.
       pseq skip_newlines (
       pbind (eat (TKw KwElif)) (\<lambda>more.
       if more then
         pbind (e_expr E) (\<lambda>c.
         pbind (parse_colon_block E) (\<lambda>b. again (elifs @ [(c, b)])))
       else look (at (TKw KwElse)) (\<lambda>other.
         if other then
           pseq bump (pbind (parse_colon_block E) (\<lambda>b. break_with (elifs, Some b)))
         else break_with (elifs, None))))) []) (\<lambda>(elifs, else_block).
     pret (MkStmt (SIf cond then_block elifs else_block)
       (span_merge start (block_end (block_span then_block) else_block))))))))"

definition parse_while :: "entry \<Rightarrow> span stmt action" where
  "parse_while E =
     look current_span (\<lambda>start.
     pseq (expect (TKw KwWhile)) (
     pbind (e_expr E) (\<lambda>cond.
     pbind (parse_colon_block E) (\<lambda>body.
     pbind (parse_else E) (\<lambda>else_block.
     pret (MkStmt (SWhile cond body else_block)
       (span_merge start (block_end (block_span body) else_block))))))))"

definition parse_for :: "entry \<Rightarrow> span stmt action" where
  "parse_for E =
     look current_span (\<lambda>start.
     pseq (expect (TKw KwFor)) (
     pbind (parse_for_target E) (\<lambda>target.
     pseq (expect (TKw KwIn)) (
     pbind (e_expr E) (\<lambda>iter.
     pbind (parse_colon_block E) (\<lambda>body.
     pbind (parse_else E) (\<lambda>else_block.
     pret (MkStmt (SFor target iter body else_block)
       (span_merge start (block_end (block_span body) else_block))))))))))"

definition parse_match_arm :: "entry \<Rightarrow> (span, span block) match_arm action" where
  "parse_match_arm E =
     pseq (expect (TKw KwCase)) (
     pbind (parse_pattern_or E) (\<lambda>pattern.
     pbind (eat (TKw KwIf)) (\<lambda>guarded.
     pbind (optionally guarded (e_expr E)) (\<lambda>guard.
     pbind (parse_colon_block E) (\<lambda>body.
     pret (MatchArm pattern guard body))))))"

definition parse_match :: "entry \<Rightarrow> span stmt action" where
  "parse_match E =
     look current_span (\<lambda>start.
     pseq (expect (TKw KwMatch)) (
     pbind (e_expr E) (\<lambda>scrutinee.
     pseq (expect (TOp Colon)) (
     pseq (expect TNewline) (
     pseq (expect TIndent) (
     pbind (loop (\<lambda>arms.
       pseq skip_newlines (
       look (at TDedent) (\<lambda>stop.
       if stop then break_with arms
       else pbind (parse_match_arm E) (\<lambda>arm. again (arms @ [arm]))))) []) (\<lambda>arms.
     pseq (expect TDedent) (
     let end = (if arms = [] then start else block_span (arm_body (last arms))) in
     pret (MkStmt (SMatch scrutinee arms) (span_merge start end))))))))))"

definition parse_with :: "entry \<Rightarrow> span stmt action" where
  "parse_with E =
     look current_span (\<lambda>start.
     pseq (expect (TKw KwWith)) (
     pbind (loop (\<lambda>items.
       pbind (e_expr E) (\<lambda>context.
       pbind (eat (TKw KwAs)) (\<lambda>as.
       pbind (optionally as (e_pattern E)) (\<lambda>target.
       pbind (eat (TOp Comma)) (\<lambda>comma.
       if comma then again (items @ [WithItem context target])
       else break_with (items @ [WithItem context target])))))) []) (\<lambda>items.
     pbind (parse_colon_block E) (\<lambda>body.
     pret (MkStmt (SWith items body) (span_merge start (block_span body)))))))"

text \<open>
  The clauses after \<open>try\<close>: the handlers, the \<open>else\<close> and \<open>finally\<close> blocks so far. A second \<open>else\<close>
  replaces the first, and handlers may follow it.
\<close>

type_synonym clauses =
  "(span, span block) except_handler list \<times> span block option \<times> span block option"

definition parse_try_clause :: "entry \<Rightarrow> clauses \<Rightarrow> (clauses + clauses) action" where
  "parse_try_clause E = (\<lambda>(handlers, else_block, finally_block).
     pseq skip_newlines (
     pbind (eat (TKw KwExcept)) (\<lambda>except.
     if except then
       pbind (e_type E) (\<lambda>exc_type.
       pbind (eat (TKw KwAs)) (\<lambda>as.
       pbind (optionally as expect_ident) (\<lambda>binding.
       pbind (parse_colon_block E) (\<lambda>body.
       again (handlers @ [ExceptHandler exc_type binding body], else_block, finally_block)))))
     else pbind (eat (TKw KwElse)) (\<lambda>other.
       if other then pbind (parse_colon_block E) (\<lambda>b. again (handlers, Some b, finally_block))
       else pbind (eat (TKw KwFinally)) (\<lambda>final.
         if final then
           pbind (parse_colon_block E) (\<lambda>b. break_with (handlers, else_block, Some b))
         else break_with (handlers, else_block, finally_block))))))"

definition try_end :: "span block \<Rightarrow> clauses \<Rightarrow> span" where
  "try_end body = (\<lambda>(handlers, else_block, finally_block).
     block_end
       (block_end (if handlers = [] then block_span body
                   else block_span (handler_body (last handlers))) else_block)
       finally_block)"

definition parse_try :: "entry \<Rightarrow> span stmt action" where
  "parse_try E =
     look current_span (\<lambda>start.
     pseq (expect (TKw KwTry)) (
     pbind (parse_colon_block E) (\<lambda>body.
     pbind (loop (parse_try_clause E) ([], None, None)) (\<lambda>(handlers, else_block, finally_block).
     pret (MkStmt (STry body handlers else_block finally_block)
       (span_merge start (try_end body (handlers, else_block, finally_block))))))))"

section \<open>Assignments and class fields\<close>

definition peek_assign_op :: "parser \<Rightarrow> assign_op option" where
  "peek_assign_op p =
     (case peek_kind p of
        TOp k \<Rightarrow>
          map_of [(PlusEq, APlusEq), (MinusEq, AMinusEq), (StarEq, AStarEq),
            (StarStarEq, AStarStarEq), (SlashEq, ASlashEq), (SlashSlashEq, ASlashSlashEq),
            (PercentEq, APercentEq), (AmpEq, AAmpEq), (PipeEq, APipeEq), (CaretEq, ACaretEq),
            (ShlEq, AShlEq), (ShrEq, AShrEq)] k
      | _ \<Rightarrow> None)"

definition default_literal :: "string \<Rightarrow> literal" where
  "default_literal name =
     (if name = ''str'' then LitStr []
      else if name \<in> {''i64'', ''int'', ''i8'', ''i16'', ''i32''} then LitInt ''0''
      else if name \<in> {''f64'', ''float''} then LitFloat ''0.0''
      else if name = ''bool'' then LitBool False
      else LitNone)"

definition default_init_for_type :: "'s type_ann \<Rightarrow> 's \<Rightarrow> 's expr" where
  "default_init_for_type annot span =
     MkExpr (ELiteral (case type_kind_of annot of
         TyName segs \<Rightarrow> if length segs = 1 then default_literal (hd segs) else LitNone
       | _ \<Rightarrow> LitNone)) span"

definition push_refinement :: "string \<Rightarrow> span expr \<Rightarrow> unit action" where
  "push_refinement name pred =
     modify (\<lambda>p. p\<lparr>pending_field_refinements := pending_field_refinements p @ [(name, pred)]\<rparr>)"

definition parse_class_field :: "entry \<Rightarrow> span expr \<Rightarrow> span stmt action" where
  "parse_class_field E name_expr =
     (case expr_kind_of name_expr of
        EName field_name \<Rightarrow>
          pseq (expect (TOp Colon)) (
          pbind (e_type E) (\<lambda>annot.
          look (\<lambda>p. peek_kind p = TIdent ''where'') (\<lambda>refined.
          pseq
            (if refined then
               pseq bump (pbind (e_expr E) (push_refinement field_name))
             else pret ()) (
          pseq expect_eos (
          pret (MkStmt
            (SLet (MkPattern (PBinding field_name) (expr_span name_expr)) (Some annot)
              (default_init_for_type annot (type_span annot)))
            (span_merge (expr_span name_expr) (type_span annot))))))))
      | _ \<Rightarrow>
          pfail (Syntax ''class field declaration expects a bare field name'' (expr_span name_expr)
            (Some ''write `field_name: type` at class-body scope'')))"

definition is_name :: "'s expr \<Rightarrow> bool" where
  "is_name e \<longleftrightarrow> (case expr_kind_of e of EName n \<Rightarrow> True | _ \<Rightarrow> False)"

definition finish_assign :: "entry \<Rightarrow> span expr \<Rightarrow> assign_op \<Rightarrow> span stmt action" where
  "finish_assign E lhs op =
     pseq bump (
     pbind (e_expr E) (\<lambda>rhs.
     pseq expect_eos (
     pret (MkStmt (SAssign lhs op rhs) (span_merge (expr_span lhs) (expr_span rhs))))))"

definition parse_expr_or_assign_stmt :: "entry \<Rightarrow> span stmt action" where
  "parse_expr_or_assign_stmt E =
     pbind (e_expr E) (\<lambda>lhs.
     look (\<lambda>p. 0 < in_class_body p \<and> is_name lhs \<and> at (TOp Colon) p) (\<lambda>field.
     if field then parse_class_field E lhs
     else look peek_assign_op (\<lambda>aug. case aug of
         Some op \<Rightarrow> finish_assign E lhs op
       | None \<Rightarrow>
           look (at (TOp Eq)) (\<lambda>plain.
           if plain then finish_assign E lhs AEq
           else pseq expect_eos (pret (MkStmt (SExpr lhs) (expr_span lhs)))))))"

section \<open>Definitions\<close>

definition parse_fn_def :: "entry \<Rightarrow> (span, span block) fn_def action" where
  "parse_fn_def E =
     pseq (expect (TKw KwFn)) (
     pbind expect_ident (\<lambda>name.
     pseq (expect (TOp LParen)) (
     pbind (parse_params E) (\<lambda>params.
     pseq (expect (TOp RParen)) (
     pbind (eat (TOp Arrow)) (\<lambda>arrow.
     pbind (optionally arrow (e_type E)) (\<lambda>return_type.
     pbind (parse_colon_block E) (\<lambda>body.
     pret (FnDef name params return_type body)))))))))"

definition multi_base :: "span \<Rightarrow> 'a action" where
  "multi_base span =
     pfail (Syntax (''multi-base class is forbidden (constitution '' @ [CHR 0xC2, CHR 0xA7] @
         ''2.2: composition + traits, no MRO; ADR-0041 '' @ [CHR 0xC2, CHR 0xA7] @ ''H7)'') span
       (Some (''use composition + traits instead of multi-inheritance (constitution '' @
         [CHR 0xC2, CHR 0xA7] @ ''2.2)'')))"

definition is_tuple :: "'s expr \<Rightarrow> bool" where
  "is_tuple e \<longleftrightarrow> (case expr_kind_of e of ECollection (CTuple es) \<Rightarrow> True | _ \<Rightarrow> False)"

definition parse_class_base :: "entry \<Rightarrow> span expr option action" where
  "parse_class_base E =
     look (at (TOp RParen)) (\<lambda>empty.
     pbind
       (if empty then pret None
        else pbind (e_expr E) (\<lambda>parsed_base.
          look (at (TOp Comma)) (\<lambda>comma.
          if comma then
            look current_span (\<lambda>span. multi_base (span_merge (expr_span parsed_base) span))
          else if is_tuple parsed_base then multi_base (expr_span parsed_base)
          else pret (Some parsed_base))))
       (\<lambda>base. pseq (expect (TOp RParen)) (pret base)))"

definition is_block_start :: "parser \<Rightarrow> bool" where
  "is_block_start p \<longleftrightarrow> peek_kind p = TNewline \<or> peek_kind p = TIndent"

definition parse_traits :: "entry \<Rightarrow> span type_ann list action" where
  "parse_traits E =
     pbind (eat (TOp Colon)) (\<lambda>colon.
     look is_block_start (\<lambda>body.
     pbind
       (if colon \<and> \<not> body then
          pbind (e_type E) (\<lambda>first.
          pbind (loop (\<lambda>ts.
            pbind (eat (TOp Comma)) (\<lambda>comma.
              if comma then pbind (e_type E) (\<lambda>t. again (ts @ [t])) else break_with ts)) [first])
            (\<lambda>traits. pseq (expect (TOp Colon)) (pret traits)))
        else pret []) (\<lambda>traits.
     look is_block_start (\<lambda>body.
     pseq (if traits = [] \<and> \<not> body then pmap (\<lambda>_. ()) (expect (TOp Colon)) else pret ()) (
     pret traits)))))"

text \<open>
  The body of a class is parsed with an empty buffer of refinements of its own, and the buffer
  of the enclosing class is put back after it.
\<close>

definition parse_class_body ::
    "entry \<Rightarrow> (span block \<times> (string \<times> span expr) list) action" where
  "parse_class_body E =
     look pending_field_refinements (\<lambda>saved.
     pseq (modify (\<lambda>p. p\<lparr>in_class_body := in_class_body p + 1, pending_field_refinements := []\<rparr>)) (
     pbind (parse_block E) (\<lambda>body.
     look pending_field_refinements (\<lambda>refinements.
     pseq (modify (\<lambda>p. p\<lparr>in_class_body := in_class_body p - 1, pending_field_refinements := saved\<rparr>)) (
     pret (body, refinements))))))"

definition parse_class_def :: "entry \<Rightarrow> (span, span block) class_def action" where
  "parse_class_def E =
     pseq (expect (TKw KwClass)) (
     pbind expect_ident (\<lambda>name.
     pbind (eat (TOp LParen)) (\<lambda>paren.
     pbind (if paren then parse_class_base E else pret None) (\<lambda>base.
     pbind (parse_traits E) (\<lambda>traits.
     pbind (parse_class_body E) (\<lambda>(body, refinements).
     pret (ClassDef name base traits body refinements)))))))"

definition fn_statement :: "entry \<Rightarrow> span stmt action" where
  "fn_statement E = pmap (\<lambda>fd. MkStmt (SFn fd) (block_span (fn_body fd))) (parse_fn_def E)"

definition class_statement :: "entry \<Rightarrow> span stmt action" where
  "class_statement E = pmap (\<lambda>cd. MkStmt (SClass cd) (block_span (class_body cd))) (parse_class_def E)"

definition parse_decorated :: "entry \<Rightarrow> span stmt action" where
  "parse_decorated E =
     look current_span (\<lambda>start.
     pbind (loop (\<lambda>decorators.
       look (at (TOp At)) (\<lambda>more.
       if more then
         pseq bump (
         pbind (e_expr E) (\<lambda>e.
         pseq (expect TNewline) (
         pseq skip_newlines (again (decorators @ [e])))))
       else break_with decorators)) []) (\<lambda>decorators.
     look peek_kind (\<lambda>k.
     pbind
       (if k = TKw KwFn then fn_statement E
        else if k = TKw KwClass then class_statement E
        else look current_span (\<lambda>span.
          pfail (Syntax (''decorators must precede `fn` or `class`, got '' @ classify k) span
            (Some ''move the decorator immediately above an `fn` or `class` definition''))))
       (\<lambda>inner. pret (MkStmt (SDecorated decorators inner) (span_merge start (stmt_span inner)))))))"

section \<open>Statements\<close>

definition dropped_names :: "string list" where
  "dropped_names = [''is'', ''global'', ''nonlocal'', ''del'']"

definition dropped_statement :: "string \<Rightarrow> 'a action" where
  "dropped_statement name =
     look current_span (\<lambda>span.
       pfail (DroppedByConstitution name span
         (Some (''remove this construct; see CLAUDE.md '' @ [CHR 0xC2, CHR 0xA7] @
           ''2.2 for the supported alternative''))))"

definition parse_stmt :: "entry \<Rightarrow> span stmt action" where
  "parse_stmt E =
     look peek_kind (\<lambda>k.
     if k = TOp At then parse_decorated E
     else if k = TKw KwImport \<or> k = TKw KwFrom then parse_import
     else if k = TKw KwFn then fn_statement E
     else if k = TKw KwClass then class_statement E
     else if k = TKw KwType then parse_type_alias E
     else if k = TKw KwLet then parse_let E
     else if k = TKw KwIf then parse_if E
     else if k = TKw KwWhile then parse_while E
     else if k = TKw KwFor then parse_for E
     else if k = TKw KwMatch then parse_match E
     else if k = TKw KwWith then parse_with E
     else if k = TKw KwTry then parse_try E
     else if k = TKw KwReturn then parse_return E
     else if k = TKw KwBreak then simple_statement (SBreakContinue Break)
     else if k = TKw KwContinue then simple_statement (SBreakContinue Continue)
     else if k = TKw KwRaise then parse_raise E
     else if k = TKw KwPass then simple_statement SPass
     else case k of
       TIdent name \<Rightarrow>
         if name \<in> set dropped_names then dropped_statement name else parse_expr_or_assign_stmt E
     | _ \<Rightarrow> parse_expr_or_assign_stmt E)"

section \<open>Modules\<close>

definition peek_module_docstring :: "string option action" where
  "peek_module_docstring =
     look peek_kind (\<lambda>k. look (peek_at 1) (\<lambda>next. case k of
         TStr v _ \<Rightarrow>
           if next = TNewline \<or> next = TEof then pseq bump (pseq skip_newlines (pret (Some v)))
           else pret None
       | _ \<Rightarrow> pret None))"

definition parse_module :: "entry \<Rightarrow> span module action" where
  "parse_module E =
     look current_span (\<lambda>start.
     pseq skip_newlines (
     pbind peek_module_docstring (\<lambda>docstring.
     pbind (loop (\<lambda>items.
       look (at TEof) (\<lambda>stop.
       if stop then break_with items
       else pseq skip_newlines (
         look (at TEof) (\<lambda>stop.
         if stop then break_with items
         else pbind (e_stmt E) (\<lambda>s. again (items @ [s])))))) []) (\<lambda>items.
     look current_span (\<lambda>end_span.
     pret (Module docstring items (span_merge start end_span)))))))"

end
