(* ===== verification/Parser.thy ===== *)
theory Parser
  imports Parser_Stmt
begin

text \<open>
  The parser itself: the entry points tied together, and the functions the crate exports
  (\<open>parser.rs\<close> and \<open>lib.rs\<close>).
\<close>

definition no_entry :: "host \<Rightarrow> entry" where
  "no_entry h =
     \<lparr>e_host = h, e_stmt = (\<lambda>p. None), e_expr = (\<lambda>p. None), e_pratt = (\<lambda>lo p. None),
      e_pattern = (\<lambda>p. None), e_type = (\<lambda>p. None), e_type_atom = (\<lambda>p. None)\<rparr>"

definition next_entry :: "entry \<Rightarrow> entry" where
  "next_entry E =
     \<lparr>e_host = e_host E, e_stmt = parse_stmt E, e_expr = parse_expr E, e_pratt = parse_pratt E,
      e_pattern = parse_pattern_simple E, e_type = parse_type E, e_type_atom = parse_type_atom E\<rparr>"

primrec entries :: "host \<Rightarrow> nat \<Rightarrow> entry" where
  "entries h 0 = no_entry h"
| "entries h (Suc n) = next_entry (entries h n)"

lemma entry_hosts [simp]:
  "e_host (no_entry h) = h" "e_host (next_entry E) = e_host E" "e_host (entries h n) = h"
  by (simp_all add: no_entry_def next_entry_def)
    (induction n; simp add: no_entry_def next_entry_def)

definition parse :: "host \<Rightarrow> nat \<Rightarrow> token list \<Rightarrow> (parse_fault, span module) outcome" where
  "parse h n ts =
     (if ts = [] then Some (Inl PPanic)
      else bind_o (parse_module (entries h n) (parser_new ts)) (\<lambda>(m, _). Some (Inr m)))"

datatype frontend_fault = FPanic | FErr frontend_error

definition parse_str :: "host \<Rightarrow> nat \<Rightarrow> string \<Rightarrow> u32 \<Rightarrow> (frontend_fault, span module) outcome" where
  "parse_str h n src f =
     (case lex (host_unicode h) src f of
        Inl LexPanic \<Rightarrow> Some (Inl FPanic)
      | Inl (LexErr e) \<Rightarrow> Some (Inl (FErr (Lex e)))
      | Inr ts \<Rightarrow> (case parse h n ts of
            None \<Rightarrow> None
          | Some (Inl PPanic) \<Rightarrow> Some (Inl FPanic)
          | Some (Inl (PErr e)) \<Rightarrow> Some (Inl (FErr (Parse e)))
          | Some (Inr m) \<Rightarrow> Some (Inr m)))"

end
