(* ===== verification/Parser_Mono.thy ===== *)
theory Parser_Mono
  imports Parser
begin

text \<open>
  The fuel of \<open>Parser.entries\<close> bounds only how far the recursion is followed: a result it
  suffices for stays the result with more of it. An action is below another if it returns the
  same wherever it returns.
\<close>

named_theorems below_intros \<open>monotonicity of the combinators and of the parsing functions\<close>

lemmas below_splits = token_kind.split option.split expr_kind.split sum.split prod.split

definition below :: "'a action \<Rightarrow> 'a action \<Rightarrow> bool" where
  "below f g \<longleftrightarrow> (\<forall>p r. f p = Some r \<longrightarrow> g p = Some r)"

definition below_entry :: "entry \<Rightarrow> entry \<Rightarrow> bool" where
  "below_entry E F \<longleftrightarrow>
     e_host E = e_host F \<and> below (e_stmt E) (e_stmt F) \<and> below (e_expr E) (e_expr F) \<and>
     (\<forall>lo. below (e_pratt E lo) (e_pratt F lo)) \<and> below (e_pattern E) (e_pattern F) \<and>
     below (e_type E) (e_type F) \<and> below (e_type_atom E) (e_type_atom F)"

lemma below_refl [below_intros]: "below f f"
  by (simp add: below_def)

lemma below_pbind [below_intros]:
  "below f f' \<Longrightarrow> (\<And>a. below (g a) (g' a)) \<Longrightarrow> below (pbind f g) (pbind f' g')"
  unfolding below_def pbind_def bind_o_def
  by (auto split: option.split_asm sum.split_asm)

lemma below_look [below_intros]: "(\<And>v. below (f v) (f' v)) \<Longrightarrow> below (look get f) (look get f')"
  by (simp add: below_def look_def)

lemma below_pseq [below_intros]: "below f f' \<Longrightarrow> below g g' \<Longrightarrow> below (pseq f g) (pseq f' g')"
  unfolding pseq_def by (intro below_intros)

lemma below_pmap [below_intros]: "below f f' \<Longrightarrow> below (pmap h f) (pmap h f')"
  unfolding pmap_def by (intro below_intros)

lemma below_optionally [below_intros]: "below f f' \<Longrightarrow> below (optionally c f) (optionally c f')"
  unfolding optionally_def by (simp add: below_intros)

lemma below_if [below_intros]:
  "(c \<Longrightarrow> below f f') \<Longrightarrow> (\<not> c \<Longrightarrow> below g g') \<Longrightarrow> below (if c then f else g) (if c then f' else g')"
  by simp

lemma below_prod [below_intros]:
  "(\<And>a b. below (f a b) (f' a b)) \<Longrightarrow> below (case x of (a, b) \<Rightarrow> f a b) (case x of (a, b) \<Rightarrow> f' a b)"
  by (simp split: prod.split)

lemma below_option [below_intros]:
  "below f f' \<Longrightarrow> (\<And>a. below (g a) (g' a)) \<Longrightarrow>
     below (case x of None \<Rightarrow> f | Some a \<Rightarrow> g a) (case x of None \<Rightarrow> f' | Some a \<Rightarrow> g' a)"
  by (simp split: option.split)

lemma below_let [below_intros]: "below (f x) (f' x) \<Longrightarrow> below (Let x f) (Let x f')"
  by simp

lemma below_turns: "(\<And>a. below (f a) (f' a)) \<Longrightarrow> below (turns n f a) (turns n f' a)"
  by (induction n arbitrary: a) (auto intro!: below_intros split: sum.split)

lemma below_loop [below_intros]:
  assumes "\<And>a. below (f a) (f' a)"
  shows "below (loop f a) (loop f' a)"
proof -
  have "below (turns n f a) (turns n f' a)" for n by (rule below_turns) (rule assms)
  then show ?thesis by (simp add: below_def loop_def del: turns.simps)
qed

lemma below_guarded [below_intros]: "below f f' \<Longrightarrow> below (guarded f) (guarded f')"
  unfolding guarded_def by (intro below_intros)

lemma below_entries [below_intros]:
  "below_entry E F \<Longrightarrow> below (e_stmt E) (e_stmt F)"
  "below_entry E F \<Longrightarrow> below (e_expr E) (e_expr F)"
  "below_entry E F \<Longrightarrow> below (e_pratt E lo) (e_pratt F lo)"
  "below_entry E F \<Longrightarrow> below (e_pattern E) (e_pattern F)"
  "below_entry E F \<Longrightarrow> below (e_type E) (e_type F)"
  "below_entry E F \<Longrightarrow> below (e_type_atom E) (e_type_atom F)"
  by (simp_all add: below_entry_def)

section \<open>Types and parameters\<close>

lemma below_parse_union [below_intros]:
  "below_entry E F \<Longrightarrow> below (parse_union E first) (parse_union F first)"
  unfolding parse_union_def
  by (auto intro!: below_intros split: below_splits)

lemma below_parse_type [below_intros]:
  "below_entry E F \<Longrightarrow> below (parse_type E) (parse_type F)"
  "below_entry E F \<Longrightarrow> below (parse_type_list E close) (parse_type_list F close)"
  "below_entry E F \<Longrightarrow> below (parse_array_type E start) (parse_array_type F start)"
  unfolding parse_type_def parse_type_list_def parse_array_type_def
  by (auto intro!: below_intros split: below_splits)

lemma below_parse_paren_type [below_intros]:
  "below_entry E F \<Longrightarrow> below (parse_paren_type E start) (parse_paren_type F start)"
  "below_entry E F \<Longrightarrow> below (parse_named_type E start) (parse_named_type F start)"
  unfolding parse_paren_type_def parse_named_type_def
  by (auto intro!: below_intros split: below_splits)

lemma below_parse_type_atom [below_intros]:
  "below_entry E F \<Longrightarrow> below (parse_type_atom E) (parse_type_atom F)"
  "below_entry E F \<Longrightarrow> below (parse_one_param E) (parse_one_param F)"
  unfolding parse_type_atom_def parse_one_param_def
  by (auto intro!: below_intros split: below_splits)

lemma below_param_turn [below_intros]:
  "below one one' \<Longrightarrow> below (parse_param_turn one ends a) (parse_param_turn one' ends a)"
  unfolding parse_param_turn_def parse_param_item_def
  by (auto intro!: below_intros split: below_splits)

lemma below_parse_params_no_paren [below_intros]:
  "below_entry E F \<Longrightarrow> below (parse_params_no_paren E) (parse_params_no_paren F)"
  unfolding parse_params_no_paren_def
  by (auto intro!: below_intros split: below_splits)

lemma below_parse_params [below_intros]:
  "below_entry E F \<Longrightarrow> below (parse_params E) (parse_params F)"
  unfolding parse_params_def
  by (auto intro!: below_intros split: below_splits)

section \<open>Patterns\<close>

lemma below_parse_pattern_seq [below_intros]:
  "below_entry E F \<Longrightarrow> below (parse_pattern_seq E terminator) (parse_pattern_seq F terminator)"
  unfolding parse_pattern_seq_def
  by (auto intro!: below_intros split: below_splits)

lemma below_parse_sequence_pattern [below_intros]:
  "below_entry E F \<Longrightarrow> below (parse_sequence_pattern E close start) (parse_sequence_pattern F close start)"
  "below_entry E F \<Longrightarrow> below (parse_class_args E) (parse_class_args F)"
  unfolding parse_sequence_pattern_def parse_class_args_def
  by (auto intro!: below_intros split: below_splits)

lemma below_parse_class_pattern [below_intros]:
  "below_entry E F \<Longrightarrow> below (parse_class_pattern E start path) (parse_class_pattern F start path)"
  unfolding parse_class_pattern_def
  by (auto intro!: below_intros split: below_splits)

lemma below_parse_name_pattern [below_intros]:
  "below_entry E F \<Longrightarrow> below (parse_name_pattern E start name) (parse_name_pattern F start name)"
  "below_entry E F \<Longrightarrow> below (parse_mapping_pattern E start) (parse_mapping_pattern F start)"
  unfolding parse_name_pattern_def parse_mapping_pattern_def
  by (auto intro!: below_intros split: below_splits)

lemma below_parse_pattern_simple [below_intros]:
  "below_entry E F \<Longrightarrow> below (parse_pattern_simple E) (parse_pattern_simple F)"
  "below_entry E F \<Longrightarrow> below (parse_pattern_or E) (parse_pattern_or F)"
  "below_entry E F \<Longrightarrow> below (parse_for_target E) (parse_for_target F)"
  unfolding parse_pattern_simple_def parse_pattern_or_def parse_for_target_def
  by (auto intro!: below_intros split: below_splits)

section \<open>Operators, calls and indices\<close>

lemma below_pratt_turn [below_intros]:
  "below_entry E F \<Longrightarrow> below (pratt_turn E lo lhs) (pratt_turn F lo lhs)"
  "below_entry E F \<Longrightarrow> below (parse_lambda E) (parse_lambda F)"
  "below_entry E F \<Longrightarrow> below (parse_yield E) (parse_yield F)"
  "below_entry E F \<Longrightarrow> below (borrowed E) (borrowed F)"
  "below_entry E F \<Longrightarrow> below (parse_call_arg E) (parse_call_arg F)"
  unfolding pratt_turn_def parse_lambda_def parse_yield_def borrowed_def parse_call_arg_def
  by (auto intro!: below_intros split: below_splits)

lemma below_parse_call_args [below_intros]:
  "below_entry E F \<Longrightarrow> below (parse_call_args E) (parse_call_args F)"
  "below_entry E F \<Longrightarrow> below (parse_index_one E) (parse_index_one F)"
  unfolding parse_call_args_def parse_index_one_def
  by (auto intro!: below_intros split: below_splits)

lemma below_parse_index [below_intros]:
  "below_entry E F \<Longrightarrow> below (parse_index E) (parse_index F)"
  unfolding parse_index_def
  by (auto intro!: below_intros split: below_splits)

lemma below_postfix_turn [below_intros]:
  "below_entry E F \<Longrightarrow> below (postfix_turn E e) (postfix_turn F e)"
  unfolding postfix_turn_def
  by (auto intro!: below_intros split: below_splits)

section \<open>Atoms and expressions\<close>

lemma below_parse_guards [below_intros]:
  "below_entry E F \<Longrightarrow> below (parse_guards E) (parse_guards F)"
  unfolding parse_guards_def
  by (auto intro!: below_intros split: below_splits)

lemma below_parse_comprehension_clauses [below_intros]:
  "below_entry E F \<Longrightarrow> below (parse_comprehension_clauses E) (parse_comprehension_clauses F)"
  unfolding parse_comprehension_clauses_def
  by (auto intro!: below_intros split: below_splits)

lemma below_parse_comprehension_rest [below_intros]:
  "below_entry E F \<Longrightarrow> below (parse_comprehension_rest E close start kd element) (parse_comprehension_rest F close start kd element)"
  unfolding parse_comprehension_rest_def
  by (auto intro!: below_intros split: below_splits)

lemma below_parse_paren_expr [below_intros]:
  "below_entry E F \<Longrightarrow> below (parse_paren_expr E) (parse_paren_expr F)"
  "below_entry E F \<Longrightarrow> below (parse_display_items E close first) (parse_display_items F close first)"
  unfolding parse_paren_expr_def parse_display_items_def
  by (auto intro!: below_intros split: below_splits)

lemma below_parse_bracket_expr [below_intros]:
  "below_entry E F \<Longrightarrow> below (parse_bracket_expr E) (parse_bracket_expr F)"
  "below_entry E F \<Longrightarrow> below (parse_dict_after_first E start first) (parse_dict_after_first F start first)"
  unfolding parse_bracket_expr_def parse_dict_after_first_def
  by (auto intro!: below_intros split: below_splits)

lemma below_parse_brace_expr [below_intros]:
  "below_entry E F \<Longrightarrow> below (parse_brace_expr E) (parse_brace_expr F)"
  unfolding parse_brace_expr_def
  by (auto intro!: below_intros split: below_splits)

lemma below_parse_interpolation [below_intros]:
  assumes "below_entry E F"
  shows "below (parse_interpolation E span src) (parse_interpolation F span src)"
proof -
  from assms have "e_host E = e_host F" "below (e_expr E) (e_expr F)" by (simp_all add: below_entry_def)
  then show ?thesis
    unfolding below_def parse_interpolation_def bind_o_def
    by (auto split: sum.splits lex_fault.splits option.splits if_splits)
qed

lemma below_fstring_pieces [below_intros]:
  "below_entry E F \<Longrightarrow> below (fstring_pieces_to_parts E span ps) (fstring_pieces_to_parts F span ps)"
  by (induction ps) (auto intro!: below_intros split: fstring_piece.split)

lemma below_parse_atom [below_intros]:
  "below_entry E F \<Longrightarrow> below (parse_atom E) (parse_atom F)"
  unfolding parse_atom_def
  by (auto intro!: below_intros split: below_splits)

lemma below_parse_postfix [below_intros]:
  "below_entry E F \<Longrightarrow> below (parse_postfix E) (parse_postfix F)"
  unfolding parse_postfix_def
  by (auto intro!: below_intros split: below_splits)

lemma below_prefix_form [below_intros]: "below f f' \<Longrightarrow> below (prefix_form h f) (prefix_form h f')"
  unfolding prefix_form_def by (auto intro!: below_intros)

lemma below_parse_unary [below_intros]:
  "below_entry E F \<Longrightarrow> below (parse_unary E) (parse_unary F)"
  unfolding parse_unary_def
  by (auto intro!: below_intros split: below_splits)

lemma below_parse_pratt_inner [below_intros]:
  "below_entry E F \<Longrightarrow> below (parse_pratt_inner E lo) (parse_pratt_inner F lo)"
  unfolding parse_pratt_inner_def
  by (auto intro!: below_intros split: below_splits)

lemma below_parse_pratt [below_intros]:
  "below_entry E F \<Longrightarrow> below (parse_pratt E lo) (parse_pratt F lo)"
  "below_entry E F \<Longrightarrow> below (parse_expr E) (parse_expr F)"
  unfolding parse_pratt_def parse_expr_def
  by (auto intro!: below_intros split: below_splits)

section \<open>Statements\<close>

lemma below_parse_block [below_intros]:
  "below_entry E F \<Longrightarrow> below (parse_block E) (parse_block F)"
  unfolding parse_block_def
  by (auto intro!: below_intros split: below_splits)

lemma below_parse_colon_block [below_intros]:
  "below_entry E F \<Longrightarrow> below (parse_colon_block E) (parse_colon_block F)"
  "below_entry E F \<Longrightarrow> below (parse_type_alias E) (parse_type_alias F)"
  "below_entry E F \<Longrightarrow> below (parse_let E) (parse_let F)"
  "below_entry E F \<Longrightarrow> below (parse_return E) (parse_return F)"
  "below_entry E F \<Longrightarrow> below (parse_raise E) (parse_raise F)"
  unfolding parse_colon_block_def parse_type_alias_def parse_let_def parse_return_def
    parse_raise_def
  by (auto intro!: below_intros split: below_splits)

lemma below_parse_else [below_intros]:
  "below_entry E F \<Longrightarrow> below (parse_else E) (parse_else F)"
  "below_entry E F \<Longrightarrow> below (parse_if E) (parse_if F)"
  unfolding parse_else_def parse_if_def
  by (auto intro!: below_intros split: below_splits)

lemma below_parse_while [below_intros]:
  "below_entry E F \<Longrightarrow> below (parse_while E) (parse_while F)"
  "below_entry E F \<Longrightarrow> below (parse_for E) (parse_for F)"
  "below_entry E F \<Longrightarrow> below (parse_match_arm E) (parse_match_arm F)"
  unfolding parse_while_def parse_for_def parse_match_arm_def
  by (auto intro!: below_intros split: below_splits)

lemma below_parse_match [below_intros]:
  "below_entry E F \<Longrightarrow> below (parse_match E) (parse_match F)"
  "below_entry E F \<Longrightarrow> below (parse_with E) (parse_with F)"
  "below_entry E F \<Longrightarrow> below (parse_try_clause E c) (parse_try_clause F c)"
  unfolding parse_match_def parse_with_def parse_try_clause_def
  by (auto intro!: below_intros split: below_splits)

lemma below_parse_try [below_intros]:
  "below_entry E F \<Longrightarrow> below (parse_try E) (parse_try F)"
  "below_entry E F \<Longrightarrow> below (parse_class_field E name_expr) (parse_class_field F name_expr)"
  "below_entry E F \<Longrightarrow> below (finish_assign E lhs op) (finish_assign F lhs op)"
  unfolding parse_try_def parse_class_field_def finish_assign_def
  by (auto intro!: below_intros split: below_splits)

lemma below_parse_expr_or_assign_stmt [below_intros]:
  "below_entry E F \<Longrightarrow> below (parse_expr_or_assign_stmt E) (parse_expr_or_assign_stmt F)"
  "below_entry E F \<Longrightarrow> below (parse_fn_def E) (parse_fn_def F)"
  "below_entry E F \<Longrightarrow> below (parse_class_base E) (parse_class_base F)"
  "below_entry E F \<Longrightarrow> below (parse_traits E) (parse_traits F)"
  "below_entry E F \<Longrightarrow> below (parse_class_body E) (parse_class_body F)"
  unfolding parse_expr_or_assign_stmt_def parse_fn_def_def parse_class_base_def
    parse_traits_def parse_class_body_def
  by (auto intro!: below_intros split: below_splits)

lemma below_parse_class_def [below_intros]:
  "below_entry E F \<Longrightarrow> below (parse_class_def E) (parse_class_def F)"
  "below_entry E F \<Longrightarrow> below (fn_statement E) (fn_statement F)"
  unfolding parse_class_def_def fn_statement_def
  by (auto intro!: below_intros split: below_splits)

lemma below_class_statement [below_intros]:
  "below_entry E F \<Longrightarrow> below (class_statement E) (class_statement F)"
  unfolding class_statement_def
  by (auto intro!: below_intros split: below_splits)

lemma below_parse_decorated [below_intros]:
  "below_entry E F \<Longrightarrow> below (parse_decorated E) (parse_decorated F)"
  unfolding parse_decorated_def
  by (auto intro!: below_intros split: below_splits)

lemma below_parse_stmt [below_intros]:
  "below_entry E F \<Longrightarrow> below (parse_stmt E) (parse_stmt F)"
  "below_entry E F \<Longrightarrow> below (parse_module E) (parse_module F)"
  unfolding parse_stmt_def parse_module_def
  by (auto intro!: below_intros split: below_splits)

section \<open>Fuel\<close>

lemma below_next: "below_entry E F \<Longrightarrow> below_entry (next_entry E) (next_entry F)"
  unfolding next_entry_def
  by (subst below_entry_def) (auto simp: below_entry_def [of E F] intro: below_intros)

lemma below_no_entry: "e_host E = h \<Longrightarrow> below_entry (no_entry h) E"
  by (simp add: no_entry_def below_entry_def below_def)

lemma below_Suc: "below_entry (entries h n) (entries h (Suc n))"
  by (induction n) (simp_all add: below_no_entry below_next)

lemma below_trans: "below_entry E F \<Longrightarrow> below_entry F H \<Longrightarrow> below_entry E H"
  by (simp add: below_entry_def below_def)

lemma below_fuel: "n \<le> m \<Longrightarrow> below_entry (entries h n) (entries h m)"
proof (induction m rule: dec_induct)
  case base
  then show ?case by (simp add: below_entry_def below_refl)
next
  case (step m)
  then show ?case using below_Suc below_trans by blast
qed

lemma parse_fuel: "n \<le> m \<Longrightarrow> parse h n ts = Some r \<Longrightarrow> parse h m ts = Some r"
  using below_parse_stmt(2) [OF below_fuel, of n m h]
  by (auto simp: parse_def below_def bind_o_def split: option.splits sum.splits if_splits)

lemma parse_str_more:
  assumes "n \<le> m" "parse_str h n src f = Some r"
  shows "parse_str h m src f = Some r"
proof (cases "lex (host_unicode h) src f")
  case (Inl e)
  with assms show ?thesis by (simp add: parse_str_def)
next
  case (Inr ts)
  with assms obtain x where "parse h n ts = Some x"
    by (auto simp: parse_str_def split: option.splits)
  with parse_fuel [OF assms(1) this] Inr assms(2) show ?thesis by (simp add: parse_str_def)
qed

end
