(* ===== verification/Parser_Logic.thy ===== *)
theory Parser_Logic
  imports Parser Lexer_Layout
begin

text \<open>
  Reasoning about parsing actions: weakest preconditions that exclude panics and exhausted
  fuel, and the conditions every action keeps. The laws are proved once in a locale over the
  set of admissible spans and over the recursive entry points.
\<close>

named_theorems wp_simps \<open>weakest preconditions of the combinators\<close>
named_theorems wp_intros \<open>rules for the actions that move the parser\<close>

section \<open>Weakest preconditions\<close>

primrec error_span :: "parse_error \<Rightarrow> span" where
  "error_span (Expected e f s h) = s"
| "error_span (Syntax m s h) = s"
| "error_span (UnexpectedEof s h) = s"
| "error_span (DroppedByConstitution n s h) = s"
| "error_span (NonLiteralDefault s h) = s"
| "error_span (IndentError m s h) = s"
| "error_span (ExpressionTooDeep d m s h) = s"

text \<open>The action returns, does not panic, reports errors at admissible spans, and ends in \<open>Q\<close>.\<close>

definition wp :: "(span \<Rightarrow> bool) \<Rightarrow> 'a action \<Rightarrow> ('a \<Rightarrow> parser \<Rightarrow> bool) \<Rightarrow> parser \<Rightarrow> bool" where
  "wp G f Q p =
     (case f p of
        None \<Rightarrow> False
      | Some (Inl PPanic) \<Rightarrow> False
      | Some (Inl (PErr e)) \<Rightarrow> G (error_span e)
      | Some (Inr (a, q)) \<Rightarrow> Q a q)"

lemma wp_mono:
  "wp G f Q p \<Longrightarrow> (\<And>a q. f p = Some (Inr (a, q)) \<Longrightarrow> Q a q \<Longrightarrow> R a q) \<Longrightarrow> wp G f R p"
  by (auto simp: wp_def split: option.splits sum.splits parse_fault.splits)

lemma wp_basic [wp_simps]:
  "wp G (pret a) Q = Q a"
  "wp G (pfail e) R = (\<lambda>p. G (error_span e))"
  "wp G (look get h) S = (\<lambda>p. wp G (h (get p)) S p)"
  "wp G (modify m) T = (\<lambda>p. T () (m p))"
  by (simp_all add: fun_eq_iff wp_def pret_def pfail_def look_def modify_def)

lemma wp_pbind [wp_simps]: "wp G (pbind f g) Q = wp G f (\<lambda>a. wp G (g a) Q)"
  by (auto simp: fun_eq_iff wp_def pbind_def bind_o_def
      split: option.splits sum.splits parse_fault.splits)

lemma wp_cases [wp_simps]:
  "wp G (if c then f else g) Q = (\<lambda>p. if c then wp G f Q p else wp G g Q p)"
  "wp G (case x of (a, b) \<Rightarrow> h a b) Q = (\<lambda>p. case x of (a, b) \<Rightarrow> wp G (h a b) Q p)"
  "wp G (case y of None \<Rightarrow> f | Some z \<Rightarrow> k z) Q =
     (\<lambda>p. case y of None \<Rightarrow> wp G f Q p | Some z \<Rightarrow> wp G (k z) Q p)"
  by (simp_all split: prod.split option.split)

lemma wp_derived [wp_simps]:
  "wp G (pseq f g) Q = wp G f (\<lambda>a. wp G g Q)"
  "wp G (pmap h f) R = wp G f (\<lambda>a. R (h a))"
  "wp G (optionally c f) T = (\<lambda>p. if c then wp G f (\<lambda>a. T (Some a)) p else T None p)"
  "wp G (again a) S = S (Inl a)"
  "wp G (break_with b) S = S (Inr b)"
  by (simp_all add: fun_eq_iff pseq_def pmap_def optionally_def again_def break_with_def
      wp_pbind wp_basic wp_cases)

section \<open>The state between tokens\<close>

text \<open>
  The stream ends with \<open>Eof\<close> and the position is inside it; the spans, those of the collected
  refinements too, are admissible and the sources of interpolations well-formed.
\<close>

definition ready :: "(span \<Rightarrow> bool) \<Rightarrow> parser \<Rightarrow> bool" where
  "ready G p \<longleftrightarrow>
     toks p \<noteq> [] \<and> kind (last (toks p)) = TEof \<and> ppos p < length (toks p) \<and>
     (\<forall>t \<in> set (toks p). G (tspan t)) \<and>
     (\<forall>t \<in> set (toks p). \<forall>ps. kind t = TFString ps \<longrightarrow> list_all piece_ok ps) \<and>
     list_all (pred_prod top (pred_expr G)) (pending_field_refinements p)"

text \<open>What is still to be read, by weight.\<close>

definition left :: "parser \<Rightarrow> nat" where
  "left p = stream_weight (drop (ppos p) (toks p))"

definition same :: "parser \<Rightarrow> parser \<Rightarrow> bool" where
  "same p q \<longleftrightarrow> toks q = toks p \<and> depth q = depth p \<and> in_class_body q = in_class_body p"

lemma state_updates [simp]:
  "ready G (p\<lparr>depth := d\<rparr>) = ready G p" "left (p\<lparr>depth := d\<rparr>) = left p"
  "ready G (p\<lparr>in_class_body := d\<rparr>) = ready G p" "left (p\<lparr>in_class_body := d\<rparr>) = left p"
  "ready G p \<Longrightarrow> ready G (p\<lparr>pending_field_refinements := r\<rparr>) \<longleftrightarrow>
     list_all (pred_prod top (pred_expr G)) r"
  "left (p\<lparr>pending_field_refinements := r\<rparr>) = left p"
  by (simp_all add: ready_def left_def)

lemma ready_pending [simp]:
  "ready G p \<Longrightarrow> list_all (pred_prod top (pred_expr G)) (pending_field_refinements p)"
  by (simp add: ready_def)

lemma peek_ready:
  assumes "ready G p"
  shows "peek p = toks p ! ppos p" "peek p \<in> set (toks p)" "G (tspan (peek p))" "G (current_span p)"
proof -
  have "ppos p \<le> length (toks p) - 1" using assms by (auto simp: ready_def)
  then have "min (ppos p) (length (toks p) - 1) = ppos p" by simp
  then show *: "peek p = toks p ! ppos p" by (simp add: peek_def)
  then show "peek p \<in> set (toks p)" using assms by (simp add: ready_def)
  then show "G (tspan (peek p))" using assms by (simp add: ready_def)
  then show "G (current_span p)" by (simp add: current_span_def)
qed

lemma token_weight_pos: "1 \<le> token_weight t"
  by (simp add: token_weight_def)

lemma bump_ready:
  assumes "ready G p" "peek_kind p \<noteq> TEof"
  obtains q where "bump p = Some (Inr (peek p, q))" "ready G q" "same p q"
    "left q + token_weight (peek p) = left p" "peek_kind q = peek_at 1 p"
proof -
  let ?q = "p\<lparr>ppos := ppos p + 1\<rparr>"
  have "ppos p \<noteq> length (toks p) - 1"
  proof
    assume "ppos p = length (toks p) - 1"
    then have "peek p = last (toks p)"
      using assms(1) peek_ready(1) [OF assms(1)] by (simp add: last_conv_nth ready_def)
    then show False using assms by (simp add: ready_def peek_kind_def)
  qed
  moreover have "ppos p < length (toks p)" using assms(1) by (simp add: ready_def)
  ultimately have lt: "Suc (ppos p) < length (toks p)" by simp
  then have "ready G ?q" using assms(1) by (simp add: ready_def)
  moreover have "drop (ppos p) (toks p) = peek p # drop (ppos ?q) (toks ?q)"
    using lt assms(1) by (simp add: peek_ready(1) Cons_nth_drop_Suc)
  then have "left ?q + token_weight (peek p) = left p" by (simp add: left_def)
  moreover have "peek_kind ?q = peek_at 1 p" by (simp add: peek_kind_def peek_def peek_at_def)
  ultimately show ?thesis using that [of ?q] lt by (simp add: bump_def same_def)
qed

section \<open>Tokens\<close>

lemma wp_bump [wp_intros]:
  assumes "ready G p" "peek_kind p \<noteq> TEof"
    and "\<And>q. ready G q \<Longrightarrow> same p q \<Longrightarrow> left q < left p \<Longrightarrow>
      left q + token_weight (peek p) = left p \<Longrightarrow> peek_kind q = peek_at 1 p \<Longrightarrow> Q (peek p) q"
  shows "wp G bump Q p"
proof -
  from assms(1,2) obtain q where q: "bump p = Some (Inr (peek p, q))" "ready G q" "same p q"
    "left q + token_weight (peek p) = left p" "peek_kind q = peek_at 1 p"
    by (rule bump_ready)
  with token_weight_pos [of "peek p"] have "left q < left p" by linarith
  with q assms(3) show ?thesis by (simp add: wp_def)
qed

lemma at_iff [simp]:
  "at (TKw w) p \<longleftrightarrow> peek_kind p = TKw w" "at (TOp k) p \<longleftrightarrow> peek_kind p = TOp k"
  "at TNewline p \<longleftrightarrow> peek_kind p = TNewline" "at TIndent p \<longleftrightarrow> peek_kind p = TIndent"
  "at TDedent p \<longleftrightarrow> peek_kind p = TDedent" "at TEof p \<longleftrightarrow> peek_kind p = TEof"
  "at (TIdent []) p \<longleftrightarrow> (\<exists>s. peek_kind p = TIdent s)"
  by (cases "peek_kind p"; simp add: at_def)+

lemma wp_eat [wp_simps]:
  "wp G (eat k) Q = (\<lambda>p. if at k p then wp G bump (\<lambda>_. Q True) p else Q False p)"
  by (simp add: eat_def wp_simps)

lemma wp_expect [wp_simps]:
  "wp G (expect k) Q = (\<lambda>p. if at k p then wp G bump Q p else G (tspan (peek p)))"
  by (simp add: expect_def wp_simps)

lemma wp_expect_ident [wp_intros]:
  assumes "ready G p"
    and "\<And>s q. ready G q \<Longrightarrow> same p q \<Longrightarrow> left q < left p \<Longrightarrow> peek_kind q = peek_at 1 p \<Longrightarrow> Q s q"
  shows "wp G expect_ident Q p"
  using assms peek_ready(4) [OF assms(1)]
  by (auto simp: expect_ident_def wp_simps split: token_kind.split intro!: wp_bump)

lemma wp_expect_eos [wp_intros]:
  assumes "ready G p"
    and "\<And>q. ready G q \<Longrightarrow> same p q \<Longrightarrow> left q \<le> left p \<Longrightarrow> Q () q"
  shows "wp G expect_eos Q p"
  using assms peek_ready(4) [OF assms(1)]
  by (auto simp: expect_eos_def wp_simps same_def intro!: wp_bump)

lemma wp_skip_newlines [wp_intros]:
  assumes p: "ready G p"
    and Q: "\<And>q. ready G q \<Longrightarrow> same p q \<Longrightarrow> left q \<le> left p \<Longrightarrow> peek_kind q \<noteq> TNewline \<Longrightarrow> Q () q"
  shows "wp G skip_newlines Q p"
proof (cases "peek_kind p = TNewline")
  case True
  let ?r = "drop (ppos p) (toks p)" and ?n = "newlines_ahead p"
  have len: "ppos p < length (toks p)" and eof: "kind (last (toks p)) = TEof" "toks p \<noteq> []"
    using p by (simp_all add: ready_def)
  have n: "?n < length ?r"
  proof -
    have "last ?r = last (toks p)" using len by simp
    moreover have "last ?r \<in> set ?r" using len by (intro last_in_set) simp
    ultimately have "\<exists>t \<in> set ?r. kind t \<noteq> TNewline" using eof(1) by force
    then have "takeWhile (\<lambda>t. kind t = TNewline) ?r \<noteq> ?r" by (auto simp: takeWhile_eq_all_conv)
    then show ?thesis
      unfolding newlines_ahead_def by (metis length_takeWhile_le nat_less_le takeWhile_eq_take take_all_iff)
  qed
  let ?q = "p\<lparr>ppos := ppos p + ?n\<rparr>"
  have q: "ready G ?q" using p n by (simp add: ready_def)
  have "kind (?r ! ?n) \<noteq> TNewline"
    using n nth_length_takeWhile [of "\<lambda>t. kind t = TNewline" ?r] by (simp add: newlines_ahead_def)
  then have "peek_kind ?q \<noteq> TNewline"
    using n peek_ready(1) [OF q] by (simp add: peek_kind_def add.commute)
  moreover have "left ?q \<le> left p"
  proof -
    have "?r = take ?n ?r @ drop (ppos ?q) (toks ?q)"
      by (simp add: add.commute flip: drop_drop)
    then have "stream_weight ?r = stream_weight (take ?n ?r) + left ?q"
      unfolding left_def by (metis map_append sum_list_append)
    then show ?thesis by (simp add: left_def)
  qed
  ultimately show ?thesis
    using Q [OF q] True n by (simp add: wp_def skip_newlines_def same_def)
next
  case False
  then show ?thesis using Q [OF p] by (simp add: wp_def skip_newlines_def same_def)
qed

section \<open>Loops\<close>

lemma left_less:
  assumes "left r < left q" "toks r = toks q"
  shows "ppos q < ppos r"
proof (rule ccontr)
  assume "\<not> ppos q < ppos r"
  then have "drop (ppos r) (toks q) = take (ppos q - ppos r) (drop (ppos r) (toks q)) @ drop (ppos q) (toks q)"
    by (metis append_take_drop_id drop_drop le_add_diff_inverse2 not_less)
  then have "left q \<le> left r" using assms(2) unfolding left_def by (metis le_add2 map_append sum_list_append)
  with assms(1) show False by simp
qed

lemma wp_turns:
  assumes "length (toks p) - ppos p < n" "ready G p" "I a"
    and body: "\<And>a q. I a \<Longrightarrow> ready G q \<Longrightarrow> same p q \<Longrightarrow> left q \<le> left p \<Longrightarrow>
      wp G (body a) (\<lambda>x r. ready G r \<and> same q r \<and>
        (case x of Inl a' \<Rightarrow> left r < left q \<and> I a' | Inr b \<Rightarrow> left r \<le> left q \<and> R b r)) q"
    and Q: "\<And>b q. R b q \<Longrightarrow> ready G q \<Longrightarrow> same p q \<Longrightarrow> left q \<le> left p \<Longrightarrow> Q b q"
  shows "wp G (turns n body a) Q p"
  using assms
proof (induction n arbitrary: a p)
  case (Suc n)
  have "wp G (body a) (\<lambda>x. wp G (case x of Inl a' \<Rightarrow> turns n body a' | Inr b \<Rightarrow> pret b) Q) p"
  proof (rule wp_mono [OF Suc.prems(4) [OF Suc.prems(3,2)]])
    fix x r
    assume r: "ready G r \<and> same p r \<and>
      (case x of Inl a' \<Rightarrow> left r < left p \<and> I a' | Inr b \<Rightarrow> left r \<le> left p \<and> R b r)"
    show "wp G (case x of Inl a' \<Rightarrow> turns n body a' | Inr b \<Rightarrow> pret b) Q r"
    proof (cases x)
      case (Inl a')
      have "wp G (turns n body a') Q r"
      proof (rule Suc.IH)
        have "ppos p < ppos r" "toks r = toks p" using r Inl left_less by (auto simp: same_def)
        moreover have "ppos p < length (toks p)" using Suc.prems(2) by (simp add: ready_def)
        ultimately show "length (toks r) - ppos r < n" using Suc.prems(1) by simp
      qed (use r Inl Suc.prems in \<open>auto simp: same_def\<close>)
      with Inl show ?thesis by simp
    next
      case (Inr b)
      with r Suc.prems(5) show ?thesis by (simp add: wp_simps)
    qed
  qed (simp_all add: same_def)
  then show ?case by (simp add: wp_simps)
qed simp

lemma wp_loop_state:
  assumes "ready G p" "I a"
    and "\<And>a q. I a \<Longrightarrow> ready G q \<Longrightarrow> same p q \<Longrightarrow> left q \<le> left p \<Longrightarrow>
      wp G (body a) (\<lambda>x r. ready G r \<and> same q r \<and>
        (case x of Inl a' \<Rightarrow> left r < left q \<and> I a' | Inr b \<Rightarrow> left r \<le> left q \<and> R b r)) q"
    and "\<And>b q. R b q \<Longrightarrow> ready G q \<Longrightarrow> same p q \<Longrightarrow> left q \<le> left p \<Longrightarrow> Q b q"
  shows "wp G (loop body a) Q p"
proof -
  have "wp G (turns (Suc (length (toks p))) body a) Q p"
    by (rule wp_turns [of p _ G I a body R Q]) (use assms in auto)
  then show ?thesis by (simp add: wp_def loop_def)
qed

lemma wp_loop:
  assumes "ready G p" "I a"
    and "\<And>a q. I a \<Longrightarrow> ready G q \<Longrightarrow> same p q \<Longrightarrow> left q \<le> left p \<Longrightarrow>
      wp G (body a) (\<lambda>x r. ready G r \<and> same q r \<and>
        (case x of Inl a' \<Rightarrow> left r < left q \<and> I a' | Inr b \<Rightarrow> left r \<le> left q \<and> R b)) q"
    and "\<And>b q. R b \<Longrightarrow> ready G q \<Longrightarrow> same p q \<Longrightarrow> left q \<le> left p \<Longrightarrow> Q b q"
  shows "wp G (loop body a) Q p"
  by (rule wp_loop_state [where I = I and R = "\<lambda>b q. R b"]) (use assms in auto)

section \<open>Entry points\<close>

text \<open>
  The contract of the recursive calls: with fuel for what is left to read they return, take at
  least one token, put the counters back, and build a tree whose spans are admissible. A
  statement may start with an expression, and that with a Pratt call or a type with an atom,
  before a token is taken, hence the constants.
\<close>

definition reach :: "(span \<Rightarrow> bool) \<Rightarrow> parser \<Rightarrow> parser \<Rightarrow> bool" where
  "reach G p q \<longleftrightarrow> ready G q \<and> same p q \<and> left q < left p"

definition valid :: "(span \<Rightarrow> bool) \<Rightarrow> nat \<Rightarrow> entry \<Rightarrow> bool" where
  "valid G w E \<longleftrightarrow>
     (\<forall>p. ready G p \<longrightarrow>
        (3 * left p + 3 \<le> w \<longrightarrow> wp G (e_stmt E) (\<lambda>s q. reach G p q \<and> pred_stmt G s) p) \<and>
        (3 * left p + 2 \<le> w \<longrightarrow>
           wp G (e_expr E) (\<lambda>e q. reach G p q \<and> pred_expr G e) p \<and>
           wp G (e_type E) (\<lambda>t q. reach G p q \<and> pred_type_ann G t) p) \<and>
        (3 * left p + 1 \<le> w \<longrightarrow>
           (\<forall>lo. wp G (e_pratt E lo) (\<lambda>e q. reach G p q \<and> pred_expr G e) p) \<and>
           wp G (e_pattern E) (\<lambda>x q. reach G p q \<and> pred_pattern G x) p \<and>
           wp G (e_type_atom E) (\<lambda>t q. reach G p q \<and> pred_type_ann G t) p))"

text \<open>What the parser relies on when it lexes the source of an interpolation again.\<close>

definition relexes :: "(span \<Rightarrow> bool) \<Rightarrow> host \<Rightarrow> bool" where
  "relexes G h \<longleftrightarrow>
     (\<forall>src s. utf8 src \<longrightarrow> G s \<longrightarrow>
        ok_res (\<lambda>ts. ts \<noteq> [] \<and> ready G (parser_new ts) \<and> stream_weight ts \<le> 4 * length src + 1)
          (lex (host_unicode h) src (sp_file s)))"

locale span_set =
  fixes G :: "span \<Rightarrow> bool"
  assumes merge: "G a \<Longrightarrow> G b \<Longrightarrow> G (span_merge a b)"

locale parser_calls = span_set +
  fixes w :: nat and E :: entry
  assumes calls: "valid G w E"
    and lexes: "relexes G (e_host E)"
begin

lemma wp_call:
  assumes "wp G f (\<lambda>a q. reach G p q \<and> P a) p"
    and "\<And>a q. ready G q \<Longrightarrow> same p q \<Longrightarrow> left q < left p \<Longrightarrow> P a \<Longrightarrow> Q a q"
  shows "wp G f Q p"
  by (rule wp_mono [OF assms(1)]) (use assms(2) in \<open>auto simp: reach_def\<close>)

lemma calls_post:
  "ready G p \<Longrightarrow> 3 * left p + 3 \<le> w \<Longrightarrow> wp G (e_stmt E) (\<lambda>s q. reach G p q \<and> pred_stmt G s) p"
  "ready G p \<Longrightarrow> 3 * left p + 2 \<le> w \<Longrightarrow> wp G (e_expr E) (\<lambda>e q. reach G p q \<and> pred_expr G e) p"
  "ready G p \<Longrightarrow> 3 * left p + 2 \<le> w \<Longrightarrow> wp G (e_type E) (\<lambda>t q. reach G p q \<and> pred_type_ann G t) p"
  "ready G p \<Longrightarrow> 3 * left p + 1 \<le> w \<Longrightarrow>
     wp G (e_pratt E lo) (\<lambda>e q. reach G p q \<and> pred_expr G e) p"
  "ready G p \<Longrightarrow> 3 * left p + 1 \<le> w \<Longrightarrow>
     wp G (e_pattern E) (\<lambda>x q. reach G p q \<and> pred_pattern G x) p"
  "ready G p \<Longrightarrow> 3 * left p + 1 \<le> w \<Longrightarrow>
     wp G (e_type_atom E) (\<lambda>t q. reach G p q \<and> pred_type_ann G t) p"
  using calls by (simp_all add: valid_def)

lemma wp_calls [wp_intros]:
  "ready G p \<Longrightarrow> 3 * left p + 3 \<le> w \<Longrightarrow>
     (\<And>s q. ready G q \<Longrightarrow> same p q \<Longrightarrow> left q < left p \<Longrightarrow> pred_stmt G s \<Longrightarrow> S s q) \<Longrightarrow>
     wp G (e_stmt E) S p"
  "ready G p \<Longrightarrow> 3 * left p + 2 \<le> w \<Longrightarrow>
     (\<And>e q. ready G q \<Longrightarrow> same p q \<Longrightarrow> left q < left p \<Longrightarrow> pred_expr G e \<Longrightarrow> Q e q) \<Longrightarrow>
     wp G (e_expr E) Q p"
  "ready G p \<Longrightarrow> 3 * left p + 2 \<le> w \<Longrightarrow>
     (\<And>t q. ready G q \<Longrightarrow> same p q \<Longrightarrow> left q < left p \<Longrightarrow> pred_type_ann G t \<Longrightarrow> T t q) \<Longrightarrow>
     wp G (e_type E) T p"
  "ready G p \<Longrightarrow> 3 * left p + 1 \<le> w \<Longrightarrow>
     (\<And>e q. ready G q \<Longrightarrow> same p q \<Longrightarrow> left q < left p \<Longrightarrow> pred_expr G e \<Longrightarrow> Q e q) \<Longrightarrow>
     wp G (e_pratt E lo) Q p"
  "ready G p \<Longrightarrow> 3 * left p + 1 \<le> w \<Longrightarrow>
     (\<And>x q. ready G q \<Longrightarrow> same p q \<Longrightarrow> left q < left p \<Longrightarrow> pred_pattern G x \<Longrightarrow> X x q) \<Longrightarrow>
     wp G (e_pattern E) X p"
  "ready G p \<Longrightarrow> 3 * left p + 1 \<le> w \<Longrightarrow>
     (\<And>t q. ready G q \<Longrightarrow> same p q \<Longrightarrow> left q < left p \<Longrightarrow> pred_type_ann G t \<Longrightarrow> T t q) \<Longrightarrow>
     wp G (e_type_atom E) T p"
  by (rule wp_call, rule calls_post, assumption, assumption, blast)+

end

end
