(* ===== verification/Parser_Safe.thy ===== *)
theory Parser_Safe
  imports Parser_Logic
begin

text \<open>
  Every parsing function keeps the contract of the entry points: it returns without a panic,
  takes a token where it must, puts the counters back, and builds its tree from admissible spans.
\<close>

context parser_calls begin

lemma merges [simp]: "G a \<Longrightarrow> G b \<Longrightarrow> G (span_merge a b)"
  by (rule merge)

lemma ready_spans [simp]: "ready G p \<Longrightarrow> G (tspan (peek p))" "ready G p \<Longrightarrow> G (current_span p)"
  by (auto dest: peek_ready)

lemma pred_spans [simp]:
  "pred_type_ann G t \<Longrightarrow> G (type_span t)" "pred_expr G e \<Longrightarrow> G (expr_span e)"
  "pred_pattern G x \<Longrightarrow> G (pattern_span x)"
proof -
  show "pred_type_ann G t \<Longrightarrow> G (type_span t)" by (cases t) simp
  show "pred_expr G e \<Longrightarrow> G (expr_span e)" by (cases e) simp
  show "pred_pattern G x \<Longrightarrow> G (pattern_span x)" by (cases x) simp
qed

lemma wp_union [wp_intros]:
  assumes "ready G p" "3 * left p \<le> w" "pred_type_ann G t"
    and "\<And>t q. ready G q \<Longrightarrow> same p q \<Longrightarrow> left q \<le> left p \<Longrightarrow> pred_type_ann G t \<Longrightarrow> Q t q"
  shows "wp G (parse_union E t) Q p"
  unfolding parse_union_def
proof (rule wp_loop [where R = "pred_type_ann G" and
      I = "\<lambda>(u, t). (\<forall>ts. u = Some ts \<longrightarrow> ts \<noteq> [] \<and> list_all (pred_type_ann G) ts) \<and> pred_type_ann G t"])
qed (use assms in \<open>auto simp: wp_simps same_def Let_def list_all_iff split: option.split intro!: wp_intros\<close>)

lemma wp_type_list [wp_intros]:
  assumes "ready G p" "3 * left p + 2 \<le> w"
    and "\<And>ts q. ready G q \<Longrightarrow> same p q \<Longrightarrow> left q \<le> left p \<Longrightarrow> list_all (pred_type_ann G) ts \<Longrightarrow> Q ts q"
  shows "wp G (parse_type_list E close) Q p"
  unfolding parse_type_list_def
  using assms
  by (auto simp: wp_simps same_def intro!: wp_intros
    wp_loop [where I = "list_all (pred_type_ann G)" and R = "list_all (pred_type_ann G)"])

lemma wp_dotted_name [wp_intros]:
  assumes "ready G p"
    and "\<And>ns q. ready G q \<Longrightarrow> same p q \<Longrightarrow> left q < left p \<Longrightarrow> Q ns q"
  shows "wp G parse_dotted_name Q p"
  unfolding parse_dotted_name_def
  using assms
  by (auto simp: wp_simps same_def intro!: wp_intros wp_loop [where I = "\<lambda>_. True" and R = "\<lambda>_. True"])

lemma wp_array_type [wp_intros]:
  assumes "ready G p" "3 * left p + 2 \<le> w" "G s"
    and "\<And>t q. ready G q \<Longrightarrow> same p q \<Longrightarrow> left q < left p \<Longrightarrow> pred_type_ann G t \<Longrightarrow> Q t q"
  shows "wp G (parse_array_type E s) Q p"
  unfolding parse_array_type_def
  using assms
  by (auto simp: wp_simps same_def Let_def peek_kind_def [symmetric]
      split: token_kind.split option.split intro!: wp_intros)

lemma wp_paren_type [wp_intros]:
  assumes "ready G p" "3 * left p + 2 \<le> w" "G s"
    and "\<And>t q. ready G q \<Longrightarrow> same p q \<Longrightarrow> left q \<le> left p \<Longrightarrow> pred_type_ann G t \<Longrightarrow> Q t q"
  shows "wp G (parse_paren_type E s) Q p"
  unfolding parse_paren_type_def
  using assms by (auto simp: wp_simps same_def intro!: wp_intros)

lemma wp_named_type [wp_intros]:
  assumes "ready G p" "3 * left p \<le> w" "G s"
    and "\<And>t q. ready G q \<Longrightarrow> same p q \<Longrightarrow> left q < left p \<Longrightarrow> pred_type_ann G t \<Longrightarrow> Q t q"
  shows "wp G (parse_named_type E s) Q p"
  unfolding parse_named_type_def
  using assms by (auto simp: wp_simps same_def intro!: wp_intros)

lemma wp_type_atom:
  assumes "ready G p" "3 * left p \<le> w"
  shows "wp G (parse_type_atom E) (\<lambda>t q. reach G p q \<and> pred_type_ann G t) p"
  unfolding parse_type_atom_def reach_def
  using assms by (auto simp: wp_simps same_def intro!: wp_intros)

lemma wp_type:
  assumes "ready G p" "3 * left p + 1 \<le> w"
  shows "wp G (parse_type E) (\<lambda>t q. reach G p q \<and> pred_type_ann G t) p"
  unfolding parse_type_def reach_def
  using assms by (auto simp: wp_simps same_def intro!: wp_intros)

section \<open>Parameters\<close>

lemma wp_literal_default [wp_intros]:
  assumes "ready G p"
    and "\<And>l q. ready G q \<Longrightarrow> same p q \<Longrightarrow> left q < left p \<Longrightarrow> Q l q"
  shows "wp G parse_literal_default Q p"
  unfolding parse_literal_default_def non_literal_default_def
  using assms by (auto simp: wp_simps same_def split: token_kind.split intro!: wp_intros)

lemma wp_one_param [wp_intros]:
  assumes "ready G p" "3 * left p \<le> w"
    and "\<And>x q. ready G q \<Longrightarrow> same p q \<Longrightarrow> left q < left p \<Longrightarrow> pred_param G x \<Longrightarrow> Q x q"
  shows "wp G (parse_one_param E) Q p"
  unfolding parse_one_param_def
  using assms by (auto simp: wp_simps same_def intro!: wp_intros)

lemma wp_one_lambda_param [wp_intros]:
  assumes "ready G p"
    and "\<And>x q. ready G q \<Longrightarrow> same p q \<Longrightarrow> left q < left p \<Longrightarrow> pred_param G x \<Longrightarrow> Q x q"
  shows "wp G parse_one_lambda_param Q p"
  unfolding parse_one_lambda_param_def
  using assms by (auto simp: wp_simps same_def intro!: wp_intros)

lemma pred_params_updates [simp]:
  "pred_param G x \<Longrightarrow> pred_params G ps \<Longrightarrow> pred_params G (set_var_positional x ps)"
  "pred_param G x \<Longrightarrow> pred_params G ps \<Longrightarrow> pred_params G (set_var_keyword x ps)"
  "pred_param G x \<Longrightarrow> pred_params G ps \<Longrightarrow> pred_params G (push_param b x ps)"
  "pred_params G params_default"
  by (cases ps; simp add: params_default_def)+

lemma wp_param_turn:
  assumes one: "\<And>T q. ready G q \<Longrightarrow> left q \<le> left p \<Longrightarrow>
      (\<And>x r. ready G r \<Longrightarrow> same q r \<Longrightarrow> left r < left q \<Longrightarrow> pred_param G x \<Longrightarrow> T x r) \<Longrightarrow> wp G one T q"
    and p: "ready G p" "pred_params G (fst s)"
    and Q: "\<And>x q. ready G q \<Longrightarrow> same p q \<Longrightarrow> left q < left p \<Longrightarrow>
      (case x of Inl (ps, b) \<Rightarrow> pred_params G ps | Inr ps \<Rightarrow> pred_params G ps) \<Longrightarrow> Q x q"
  shows "wp G (parse_param_turn one stops s) Q p"
  unfolding parse_param_turn_def parse_param_item_def
  using p Q
  by (auto simp: wp_simps same_def split: prod.split intro!: one wp_intros)

lemma wp_param_loop:
  assumes one: "\<And>T q. ready G q \<Longrightarrow> left q \<le> left p \<Longrightarrow>
      (\<And>x r. ready G r \<Longrightarrow> same q r \<Longrightarrow> left r < left q \<Longrightarrow> pred_param G x \<Longrightarrow> T x r) \<Longrightarrow> wp G one T q"
    and "ready G p"
    and "\<And>ps q. ready G q \<Longrightarrow> same p q \<Longrightarrow> left q \<le> left p \<Longrightarrow> pred_params G ps \<Longrightarrow> Q ps q"
  shows "wp G (loop (parse_param_turn one stops) (params_default, False)) Q p"
proof (rule wp_loop [where I = "\<lambda>s. pred_params G (fst s)" and R = "pred_params G"])
qed (use assms in \<open>auto simp: same_def split: sum.splits intro!: wp_param_turn\<close>)

lemma wp_params [wp_intros]:
  assumes "ready G p" "3 * left p \<le> w"
    and "\<And>ps q. ready G q \<Longrightarrow> same p q \<Longrightarrow> left q \<le> left p \<Longrightarrow> pred_params G ps \<Longrightarrow> Q ps q"
  shows "wp G (parse_params E) Q p"
  unfolding parse_params_def parse_params_no_paren_def
  using assms by (auto simp: wp_simps same_def intro!: wp_param_loop wp_one_param)

lemma wp_lambda_params [wp_intros]:
  assumes "ready G p"
    and "\<And>ps q. ready G q \<Longrightarrow> same p q \<Longrightarrow> left q \<le> left p \<Longrightarrow> pred_params G ps \<Longrightarrow> Q ps q"
  shows "wp G parse_lambda_params Q p"
  unfolding parse_lambda_params_def
  using assms by (auto simp: same_def intro!: wp_param_loop wp_one_lambda_param)

end

end
