(* ===== verification/Parser_Safe_Pat.thy ===== *)
theory Parser_Safe_Pat
  imports Parser_Safe
begin

text \<open>
  The contract of the parser for patterns, and for the operands of an expression: every wp rule says
  that the action returns, with less input left and spans within the set.
\<close>

context parser_calls begin

section \<open>Patterns\<close>

abbreviation (input) good_rest :: "span pattern list \<times> span pattern option \<Rightarrow> bool" where
  "good_rest s \<equiv> list_all (pred_pattern G) (fst s) \<and> pred_option (pred_pattern G) (snd s)"

lemma wp_pattern_seq [wp_intros]:
  assumes "ready G p" "3 * left p + 1 \<le> w" "discriminant close \<noteq> TEof"
    and "\<And>s q. ready G q \<Longrightarrow> same p q \<Longrightarrow> left q \<le> left p \<Longrightarrow> good_rest s \<Longrightarrow> Q s q"
  shows "wp G (parse_pattern_seq E close) Q p"
  unfolding parse_pattern_seq_def
proof (rule wp_loop [where I = good_rest and R = good_rest])
qed (use assms in \<open>auto simp: wp_simps same_def intro!: wp_intros\<close>)

lemma wp_sequence_pattern [wp_intros]:
  assumes "ready G p" "3 * left p \<le> w" "G s" "peek_kind p \<noteq> TEof" "close \<in> {TOp RParen, TOp RBracket}"
    and "\<And>x q. ready G q \<Longrightarrow> same p q \<Longrightarrow> left q < left p \<Longrightarrow> pred_pattern G x \<Longrightarrow> Q x q"
  shows "wp G (parse_sequence_pattern E close s) Q p"
  unfolding parse_sequence_pattern_def
  using assms by (auto simp: wp_simps same_def intro!: wp_intros)

lemma wp_class_args [wp_intros]:
  assumes "ready G p" "3 * left p + 1 \<le> w"
    and "\<And>ps ks q. ready G q \<Longrightarrow> same p q \<Longrightarrow> left q \<le> left p \<Longrightarrow> list_all (pred_pattern G) ps \<Longrightarrow>
      list_all (pred_prod top (pred_pattern G)) ks \<Longrightarrow> Q (ps, ks) q"
  shows "wp G (parse_class_args E) Q p"
  unfolding parse_class_args_def
proof (rule wp_loop [where
      I = "\<lambda>(ps, ks). list_all (pred_pattern G) ps \<and> list_all (pred_prod top (pred_pattern G)) ks" and
      R = "\<lambda>(ps, ks). list_all (pred_pattern G) ps \<and> list_all (pred_prod top (pred_pattern G)) ks"])
qed (use assms in \<open>auto simp: wp_simps same_def is_keyword_ahead_def pred_prod_beta intro!: wp_intros\<close>)

lemma wp_class_pattern [wp_intros]:
  assumes "ready G p" "3 * left p \<le> w" "G s" "peek_kind p \<noteq> TEof"
    and "\<And>x q. ready G q \<Longrightarrow> same p q \<Longrightarrow> left q < left p \<Longrightarrow> pred_pattern G x \<Longrightarrow> Q x q"
  shows "wp G (parse_class_pattern E s path) Q p"
  unfolding parse_class_pattern_def
  using assms by (auto simp: wp_simps same_def intro!: wp_intros)

lemma wp_name_pattern [wp_intros]:
  assumes "ready G p" "3 * left p \<le> w" "G s" "peek_kind p \<noteq> TEof"
    and "\<And>x q. ready G q \<Longrightarrow> same p q \<Longrightarrow> left q < left p \<Longrightarrow> pred_pattern G x \<Longrightarrow> Q x q"
  shows "wp G (parse_name_pattern E s n) Q p"
  unfolding parse_name_pattern_def
  using assms
  by (auto simp: wp_simps same_def intro!: wp_intros wp_loop [where I = "\<lambda>_. True" and R = "\<lambda>_. True"])

lemma wp_mapping_pattern [wp_intros]:
  assumes "ready G p" "3 * left p \<le> w" "G s" "peek_kind p \<noteq> TEof"
    and "\<And>x q. ready G q \<Longrightarrow> same p q \<Longrightarrow> left q < left p \<Longrightarrow> pred_pattern G x \<Longrightarrow> Q x q"
  shows "wp G (parse_mapping_pattern E s) Q p"
  unfolding parse_mapping_pattern_def
  using assms
  by (auto simp: wp_simps same_def pred_prod_beta intro!: wp_intros
      wp_loop [where I = "\<lambda>(es, r). list_all (pred_prod (pred_expr G) (pred_pattern G)) es" and
        R = "\<lambda>(es, r). list_all (pred_prod (pred_expr G) (pred_pattern G)) es"])

lemma wp_pattern_simple:
  assumes "ready G p" "3 * left p \<le> w"
  shows "wp G (parse_pattern_simple E) (\<lambda>x q. reach G p q \<and> pred_pattern G x) p"
proof (cases "peek_kind p")
  case (TIdent n)
  then show ?thesis
    unfolding parse_pattern_simple_def reach_def
    using assms by (auto simp: wp_simps same_def Let_def peek_kind_def [symmetric] intro!: wp_intros)
qed (use assms in \<open>auto simp: parse_pattern_simple_def reach_def wp_simps same_def Let_def
       peek_kind_def [symmetric] intro!: wp_intros\<close>)

lemma merge_ends_good [simp]:
  "list_all (pred_pattern G) xs \<Longrightarrow> xs \<noteq> [] \<Longrightarrow> G (merge_ends xs)"
  by (auto simp: merge_ends_def list_all_iff)

lemma wp_pattern_or [wp_intros]:
  assumes "ready G p" "3 * left p + 1 \<le> w"
    and "\<And>x q. ready G q \<Longrightarrow> same p q \<Longrightarrow> left q < left p \<Longrightarrow> pred_pattern G x \<Longrightarrow> Q x q"
  shows "wp G (parse_pattern_or E) Q p"
  unfolding parse_pattern_or_def
  using assms
  by (auto simp: wp_simps same_def intro!: wp_intros
      wp_loop [where I = "\<lambda>xs. xs \<noteq> [] \<and> list_all (pred_pattern G) xs" and
        R = "\<lambda>xs. xs \<noteq> [] \<and> list_all (pred_pattern G) xs"])

lemma wp_for_target [wp_intros]:
  assumes "ready G p" "3 * left p + 1 \<le> w"
    and "\<And>x q. ready G q \<Longrightarrow> same p q \<Longrightarrow> left q < left p \<Longrightarrow> pred_pattern G x \<Longrightarrow> Q x q"
  shows "wp G (parse_for_target E) Q p"
  unfolding parse_for_target_def
  using assms
  by (auto simp: wp_simps same_def intro!: wp_intros
      wp_loop [where I = "\<lambda>xs. xs \<noteq> [] \<and> list_all (pred_pattern G) xs" and
        R = "\<lambda>xs. xs \<noteq> [] \<and> list_all (pred_pattern G) xs"])

end

end
