(* ===== verification/Parser_Safe_Expr.thy ===== *)
theory Parser_Safe_Expr
  imports Parser_Safe_Pat
begin

text \<open>
  The contract of the parser for displays, comprehensions, literals and the other atoms.
\<close>

context parser_calls begin

section \<open>Brackets and comprehensions\<close>

lemma wp_close_with [wp_intros]:
  assumes "ready G p" "G s" "pred_expr_kind G e" "close \<in> {TOp RParen, TOp RBracket, TOp RBrace}"
    and "\<And>e q. ready G q \<Longrightarrow> same p q \<Longrightarrow> left q < left p \<Longrightarrow> pred_expr G e \<Longrightarrow> Q e q"
  shows "wp G (close_with close s e) Q p"
  unfolding close_with_def
  using assms by (auto simp: wp_simps same_def intro!: wp_intros)

lemma wp_close_empty [wp_intros]:
  assumes "ready G p" "G s" "pred_expr_kind G e" "peek_kind p \<noteq> TEof"
    and "\<And>e q. ready G q \<Longrightarrow> same p q \<Longrightarrow> left q < left p \<Longrightarrow> pred_expr G e \<Longrightarrow> Q e q"
  shows "wp G (close_empty s e) Q p"
  unfolding close_empty_def
  using assms by (auto simp: wp_simps same_def intro!: wp_intros)

lemma wp_guards [wp_intros]:
  assumes "ready G p" "3 * left p \<le> w"
    and "\<And>es q. ready G q \<Longrightarrow> same p q \<Longrightarrow> left q \<le> left p \<Longrightarrow> list_all (pred_expr G) es \<Longrightarrow> Q es q"
  shows "wp G (parse_guards E) Q p"
  unfolding parse_guards_def
  using assms by (auto simp: wp_simps same_def intro!: wp_intros
      wp_loop [where I = "list_all (pred_expr G)" and R = "list_all (pred_expr G)"])

lemma wp_comprehension_clauses [wp_intros]:
  assumes "ready G p" "3 * left p \<le> w"
    and "\<And>cs q. ready G q \<Longrightarrow> same p q \<Longrightarrow> left q \<le> left p \<Longrightarrow>
      list_all (pred_comprehension_clause (pred_expr G) (pred_pattern G)) cs \<Longrightarrow> Q cs q"
  shows "wp G (parse_comprehension_clauses E) Q p"
  unfolding parse_comprehension_clauses_def
  using assms by (auto simp: wp_simps same_def intro!: wp_intros
      wp_loop [where I = "list_all (pred_comprehension_clause (pred_expr G) (pred_pattern G))" and
        R = "list_all (pred_comprehension_clause (pred_expr G) (pred_pattern G))"])

lemma wp_comprehension_rest [wp_intros]:
  assumes "ready G p" "3 * left p \<le> w" "G s" "close \<in> {TOp RParen, TOp RBracket, TOp RBrace}"
    "pred_comprehension_elem (pred_expr G) el"
    and "\<And>e q. ready G q \<Longrightarrow> same p q \<Longrightarrow> left q < left p \<Longrightarrow> pred_expr G e \<Longrightarrow> Q e q"
  shows "wp G (parse_comprehension_rest E close s kd el) Q p"
  unfolding parse_comprehension_rest_def
  using assms by (auto simp: wp_simps same_def intro!: wp_intros)

lemma pred_expr_kind_of [simp]: "pred_expr G e \<Longrightarrow> pred_expr_kind G (expr_kind_of e)"
  by (cases e) simp

lemma wp_paren_expr [wp_intros]:
  assumes "ready G p" "3 * left p \<le> w"
    and "\<And>e q. ready G q \<Longrightarrow> same p q \<Longrightarrow> left q < left p \<Longrightarrow> pred_expr G e \<Longrightarrow> Q e q"
  shows "wp G (parse_paren_expr E) Q p"
  unfolding parse_paren_expr_def
  using assms by (auto simp: wp_simps same_def intro!: wp_intros
      wp_loop [where I = "list_all (pred_expr G)" and R = "list_all (pred_expr G)"])

lemma wp_display_items [wp_intros]:
  assumes "ready G p" "3 * left p \<le> w" "pred_expr G e"
    and "\<And>es q. ready G q \<Longrightarrow> same p q \<Longrightarrow> left q \<le> left p \<Longrightarrow> list_all (pred_expr G) es \<Longrightarrow> Q es q"
  shows "wp G (parse_display_items E close e) Q p"
  unfolding parse_display_items_def
  using assms by (auto simp: wp_simps same_def intro!: wp_intros
      wp_loop [where I = "list_all (pred_expr G)" and R = "list_all (pred_expr G)"])

lemma wp_bracket_expr [wp_intros]:
  assumes "ready G p" "3 * left p \<le> w"
    and "\<And>e q. ready G q \<Longrightarrow> same p q \<Longrightarrow> left q < left p \<Longrightarrow> pred_expr G e \<Longrightarrow> Q e q"
  shows "wp G (parse_bracket_expr E) Q p"
  unfolding parse_bracket_expr_def
  using assms by (auto simp: wp_simps same_def intro!: wp_intros)

lemma wp_dict_after_first [wp_intros]:
  assumes "ready G p" "3 * left p + 2 \<le> w" "G s" "pred_option (pred_dict_entry (pred_expr G)) d"
    and "\<And>e q. ready G q \<Longrightarrow> same p q \<Longrightarrow> left q < left p \<Longrightarrow> pred_expr G e \<Longrightarrow> Q e q"
  shows "wp G (parse_dict_after_first E s d) Q p"
  unfolding parse_dict_after_first_def
  using assms by (auto simp: wp_simps same_def split: option.splits intro!: wp_intros
      wp_loop [where I = "list_all (pred_dict_entry (pred_expr G))" and
        R = "list_all (pred_dict_entry (pred_expr G))"])

lemma wp_brace_expr [wp_intros]:
  assumes "ready G p" "3 * left p \<le> w"
    and "\<And>e q. ready G q \<Longrightarrow> same p q \<Longrightarrow> left q < left p \<Longrightarrow> pred_expr G e \<Longrightarrow> Q e q"
  shows "wp G (parse_brace_expr E) Q p"
  unfolding parse_brace_expr_def
  using assms by (auto simp: wp_simps same_def intro!: wp_intros)

section \<open>F-strings\<close>

lemma wp_interpolation [wp_intros]:
  assumes p: "ready G p" and src: "utf8 src" "G s" "12 * length src + 5 \<le> w"
    and Q: "\<And>e. pred_expr G e \<Longrightarrow> Q e p"
  shows "wp G (parse_interpolation E s src) Q p"
proof (cases "lex (host_unicode (e_host E)) src (sp_file s)")
  case (Inl e)
  then have "e \<noteq> LexPanic" using lexes src by (force simp: relexes_def)
  then obtain e' where "e = LexErr e'" by (cases e) simp_all
  with Inl src show ?thesis
    by (cases e') (simp_all add: wp_def parse_interpolation_def fstring_lex_error_def)
next
  case (Inr ts)
  then have ts: "ts \<noteq> []" "ready G (parser_new ts)" "stream_weight ts \<le> 4 * length src + 1"
    using lexes src by (force simp: relexes_def)+
  then have "left (parser_new ts) \<le> 4 * length src + 1" by (simp add: left_def parser_new_def)
  then have "wp G (e_expr E) (\<lambda>e q. pred_expr G e) (parser_new ts)"
    using ts(2) src(3) by (intro wp_intros) auto
  with Inr ts(1) Q show ?thesis
    by (auto simp: wp_def parse_interpolation_def bind_o_def split: option.splits sum.splits parse_fault.splits)
qed

lemma wp_pieces [wp_intros]:
  assumes p: "ready G p" and src: "list_all piece_ok ps" "G s" "3 * sum_list (map piece_weight ps) \<le> w"
    and Q: "\<And>es. list_all (pred_fstr_part (pred_expr G)) es \<Longrightarrow> Q es p"
  shows "wp G (fstring_pieces_to_parts E s ps) Q p"
  using src Q
proof (induction ps arbitrary: Q)
  case Nil
  then show ?case by (simp add: wp_simps)
next
  case (Cons x ps)
  show ?case
  proof (cases x)
    case (Lit l)
    with Cons p show ?thesis by (auto simp: wp_simps)
  next
    case (Expr src dbg spec)
    with Cons.prems(1,3) have "utf8 src" "12 * length src + 5 \<le> w" by (auto simp: piece_ok_def)
    with Expr Cons p show ?thesis by (auto simp: wp_simps intro!: wp_interpolation)
  qed
qed

lemma ready_pieces: "ready G p \<Longrightarrow> peek_kind p = TFString ps \<Longrightarrow> list_all piece_ok ps"
  using peek_ready(2) [of G p] by (auto simp: ready_def peek_kind_def)

section \<open>Atoms\<close>

lemma wp_guarded:
  assumes "ready G p"
    and "\<And>T q. ready G q \<Longrightarrow> left q = left p \<Longrightarrow>
      (\<And>e r. ready G r \<Longrightarrow> same q r \<Longrightarrow> left r < left q \<Longrightarrow> pred_expr G e \<Longrightarrow> T e r) \<Longrightarrow> wp G f T q"
    and "\<And>e q. ready G q \<Longrightarrow> same p q \<Longrightarrow> left q < left p \<Longrightarrow> pred_expr G e \<Longrightarrow> Q e q"
  shows "wp G (guarded f) Q p"
  using assms by (auto simp: guarded_def check_expr_depth_def wp_simps same_def intro!: assms(2))

lemma wp_literal_atom [wp_intros]:
  assumes "ready G p" "G s" "peek_kind p \<noteq> TEof"
    and "\<And>e q. ready G q \<Longrightarrow> same p q \<Longrightarrow> left q < left p \<Longrightarrow> pred_expr G e \<Longrightarrow> Q e q"
  shows "wp G (literal_atom l s) Q p"
  unfolding literal_atom_def
  using assms by (auto simp: wp_simps intro!: wp_intros)

lemma wp_name [wp_intros]:
  assumes "ready G p" "G s" "peek_kind p \<noteq> TEof"
    and "\<And>e q. ready G q \<Longrightarrow> same p q \<Longrightarrow> left q < left p \<Longrightarrow> pred_expr G e \<Longrightarrow> Q e q"
  shows "wp G (parse_name n s) Q p"
  unfolding parse_name_def
  using assms by (auto simp: wp_simps intro!: wp_intros)

lemma wp_atom [wp_intros]:
  assumes p: "ready G p" "3 * left p \<le> w"
    and Q: "\<And>e q. ready G q \<Longrightarrow> same p q \<Longrightarrow> left q < left p \<Longrightarrow> pred_expr G e \<Longrightarrow> Q e q"
  shows "wp G (parse_atom E) Q p"
proof (cases "\<exists>ps. peek_kind p = TFString ps")
  case True
  then obtain ps where ps: "peek_kind p = TFString ps" ..
  then have "token_weight (peek p) = 1 + sum_list (map piece_weight ps)"
    by (simp add: token_weight_def peek_kind_def)
  with ps p ready_pieces [OF p(1) ps] Q show ?thesis
    by (auto simp: parse_atom_def wp_simps Let_def peek_kind_def [symmetric] intro!: wp_intros)
next
  case False
  then show ?thesis
    using p Q
    by (cases "peek_kind p")
      (auto simp: parse_atom_def wp_simps Let_def peek_kind_def [symmetric] intro!: wp_intros wp_guarded)
qed

end

end
