(* ===== verification/Parser_Safe_Pratt.thy ===== *)
theory Parser_Safe_Pratt
  imports Parser_Safe_Expr
begin

text \<open>
  The contract of the parser for calls, indices, prefix forms and the operator loop.
\<close>

context parser_calls begin

section \<open>Calls and indices\<close>

lemma wp_call_arg [wp_intros]:
  assumes "ready G p" "3 * left p + 2 \<le> w"
    and "\<And>a q. ready G q \<Longrightarrow> same p q \<Longrightarrow> left q < left p \<Longrightarrow> pred_call_arg (pred_expr G) a \<Longrightarrow> Q a q"
  shows "wp G (parse_call_arg E) Q p"
  unfolding parse_call_arg_def
  using assms by (auto simp: wp_simps same_def is_keyword_ahead_def intro!: wp_intros)

lemma wp_call_args [wp_intros]:
  assumes "ready G p" "3 * left p + 2 \<le> w"
    and "\<And>as q. ready G q \<Longrightarrow> same p q \<Longrightarrow> left q \<le> left p \<Longrightarrow>
      list_all (pred_call_arg (pred_expr G)) as \<Longrightarrow> Q as q"
  shows "wp G (parse_call_args E) Q p"
  unfolding parse_call_args_def
  using assms by (auto simp: wp_simps same_def intro!: wp_intros
      wp_loop [where I = "list_all (pred_call_arg (pred_expr G))" and
        R = "list_all (pred_call_arg (pred_expr G))"])

lemma wp_index_one [wp_intros]:
  assumes "ready G p" "3 * left p + 2 \<le> w"
    and "\<And>i q. ready G q \<Longrightarrow> same p q \<Longrightarrow> left q < left p \<Longrightarrow> pred_index_kind (pred_expr G) i \<Longrightarrow> Q i q"
  shows "wp G (parse_index_one E) Q p"
  unfolding parse_index_one_def
  using assms by (auto simp: wp_simps same_def intro!: wp_intros)

lemma wp_index [wp_intros]:
  assumes "ready G p" "3 * left p + 2 \<le> w"
    and "\<And>i q. ready G q \<Longrightarrow> same p q \<Longrightarrow> left q < left p \<Longrightarrow> pred_index_kind (pred_expr G) i \<Longrightarrow> Q i q"
  shows "wp G (parse_index E) Q p"
  unfolding parse_index_def
  using assms by (auto simp: wp_simps same_def intro!: wp_intros
      wp_loop [where I = "list_all (pred_index_kind (pred_expr G))" and
        R = "list_all (pred_index_kind (pred_expr G))"])

lemma wp_attribute_name [wp_intros]:
  assumes "ready G p"
    and "\<And>n q. ready G q \<Longrightarrow> same p q \<Longrightarrow> left q < left p \<Longrightarrow> Q n q"
  shows "wp G parse_attribute_name Q p"
  unfolding parse_attribute_name_def
  using assms by (cases "peek_kind p") (auto simp: wp_simps same_def intro!: wp_intros)

lemma wp_postfix_turn [wp_intros]:
  assumes "ready G p" "3 * left p \<le> w" "pred_expr G e"
    and "\<And>e q. ready G q \<Longrightarrow> same p q \<Longrightarrow> left q < left p \<Longrightarrow> pred_expr G e \<Longrightarrow> Q (Inl e) q"
    and "Q (Inr e) p"
  shows "wp G (postfix_turn E e) Q p"
  unfolding postfix_turn_def
  using assms by (auto simp: wp_simps same_def intro!: wp_intros)

lemma wp_postfix [wp_intros]:
  assumes "ready G p" "3 * left p \<le> w"
    and "\<And>e q. ready G q \<Longrightarrow> same p q \<Longrightarrow> left q < left p \<Longrightarrow> pred_expr G e \<Longrightarrow> Q e q"
  shows "wp G (parse_postfix E) Q p"
  unfolding parse_postfix_def
  using assms by (auto simp: wp_simps same_def intro!: wp_intros
      wp_loop [where I = "pred_expr G" and R = "pred_expr G"])

section \<open>Unary forms\<close>

lemma validate_borrow [wp_intros]:
  assumes "pred_expr G e" "Q () p"
  shows "wp G (validate_borrow_operand e) Q p"
  using assms
proof (induction e rule: validate_borrow_operand.induct)
  case (1 k s)
  have "pred_expr G base" if "borrow_base k = Some base" for base
  proof (cases k)
    case (ECall callee args)
    then show ?thesis using 1(2) that by (cases callee) (auto simp: borrow_base_def split: expr_kind.split_asm)
  qed (use 1(2) that in \<open>auto simp: borrow_base_def\<close>)
  moreover have "error_span (borrow_error k s) = s" by (cases k) (simp_all add: borrow_error_def)
  ultimately show ?case
    using 1 by (auto simp: wp_simps split: option.split expr_kind.split)
qed

lemma wp_lambda [wp_intros]:
  assumes "ready G p" "3 * left p \<le> w"
    and "\<And>e q. ready G q \<Longrightarrow> same p q \<Longrightarrow> left q < left p \<Longrightarrow> pred_expr G e \<Longrightarrow> Q e q"
  shows "wp G (parse_lambda E) Q p"
  unfolding parse_lambda_def
  using assms by (auto simp: wp_simps same_def intro!: wp_intros)

lemma wp_yield [wp_intros]:
  assumes "ready G p" "3 * left p \<le> w" "peek_kind p \<noteq> TEof"
    and "\<And>e q. ready G q \<Longrightarrow> same p q \<Longrightarrow> left q < left p \<Longrightarrow> pred_expr G e \<Longrightarrow> Q e q"
  shows "wp G (parse_yield E) Q p"
  unfolding parse_yield_def
  using assms by (auto simp: wp_simps same_def intro!: wp_intros)

lemma wp_borrowed:
  assumes "ready G p" "3 * left p + 1 \<le> w"
    and "\<And>e q. ready G q \<Longrightarrow> same p q \<Longrightarrow> left q < left p \<Longrightarrow> pred_expr G e \<Longrightarrow> Q e q"
  shows "wp G (borrowed E) Q p"
  unfolding borrowed_def
  using assms by (auto simp: wp_simps same_def intro!: wp_intros)

lemma wp_prefix_form:
  assumes "ready G p" "3 * left p \<le> w" "peek_kind p \<noteq> TEof"
    and "\<And>T q. ready G q \<Longrightarrow> 3 * left q + 1 \<le> w \<Longrightarrow>
      (\<And>e r. ready G r \<Longrightarrow> same q r \<Longrightarrow> left r < left q \<Longrightarrow> pred_expr G e \<Longrightarrow> T e r) \<Longrightarrow> wp G f T q"
    and "\<And>e. pred_expr G e \<Longrightarrow> pred_expr_kind G (form e)"
    and "\<And>e q. ready G q \<Longrightarrow> same p q \<Longrightarrow> left q < left p \<Longrightarrow> pred_expr G e \<Longrightarrow> Q e q"
  shows "wp G (prefix_form form f) Q p"
  unfolding prefix_form_def
  using assms by (auto simp: wp_simps same_def intro!: wp_bump assms(4))

lemma wp_unary [wp_intros]:
  assumes p: "ready G p" "3 * left p \<le> w"
    and Q: "\<And>e q. ready G q \<Longrightarrow> same p q \<Longrightarrow> left q < left p \<Longrightarrow> pred_expr G e \<Longrightarrow> Q e q"
  shows "wp G (parse_unary E) Q p"
proof -
  note pratt = wp_prefix_form [OF p _ wp_calls(4)]
  note borrow = wp_prefix_form [OF p _ wp_borrowed]
  show ?thesis
    using p Q unfolding parse_unary_def
    by (auto simp: wp_simps intro!: pratt borrow wp_yield wp_lambda wp_postfix)
qed

section \<open>Pratt and expressions\<close>

lemma wp_pratt_turn [wp_intros]:
  assumes "ready G p" "3 * left p \<le> w" "pred_expr G e"
    and "\<And>e q. ready G q \<Longrightarrow> same p q \<Longrightarrow> left q < left p \<Longrightarrow> pred_expr G e \<Longrightarrow> Q (Inl e) q"
    and "Q (Inr e) p"
  shows "wp G (pratt_turn E lo e) Q p"
proof -
  have "peek_kind p \<noteq> TEof" if "peek_binop p = Some b" for b
    using that by (auto simp: peek_binop_def)
  then show ?thesis
    unfolding pratt_turn_def
    using assms by (auto simp: wp_simps same_def cast_ahead_def split: option.split intro!: wp_intros)
qed

lemma wp_pratt:
  assumes "ready G p" "3 * left p \<le> w"
  shows "wp G (parse_pratt E lo) (\<lambda>e q. reach G p q \<and> pred_expr G e) p"
  unfolding parse_pratt_def reach_def
proof (rule wp_guarded [OF assms(1)])
  fix T q
  assume q: "ready G q" "left q = left p"
    and T: "\<And>e r. ready G r \<Longrightarrow> same q r \<Longrightarrow> left r < left q \<Longrightarrow> pred_expr G e \<Longrightarrow> T e r"
  show "wp G (parse_pratt_inner E lo) T q"
    unfolding parse_pratt_inner_def
    using q T assms(2) by (auto simp: wp_simps same_def intro!: wp_intros
        wp_loop [where I = "pred_expr G" and R = "pred_expr G"])
qed simp

lemma wp_expr:
  assumes "ready G p" "3 * left p + 1 \<le> w"
  shows "wp G (parse_expr E) (\<lambda>e q. reach G p q \<and> pred_expr G e) p"
  unfolding parse_expr_def reach_def
  using assms by (auto simp: wp_simps same_def intro!: wp_intros)

end

end
