(* ===== verification/Parser_Safe_Stmt.thy ===== *)
theory Parser_Safe_Stmt
  imports Parser_Safe_Pratt
begin

text \<open>
  The contract of the parser for blocks, compound statements, imports and assignments.
\<close>

context parser_calls begin

section \<open>Blocks and simple statements\<close>

lemma pred_spans' [simp]:
  "pred_stmt G s \<Longrightarrow> G (stmt_span s)" "pred_block G b \<Longrightarrow> G (block_span b)"
  "G a \<Longrightarrow> pred_option (pred_block G) c \<Longrightarrow> G (block_end a c)"
proof -
  show "pred_stmt G s \<Longrightarrow> G (stmt_span s)" by (cases s) simp
  show b: "pred_block G b \<Longrightarrow> G (block_span b)" for b by (cases b) simp
  show "G a \<Longrightarrow> pred_option (pred_block G) c \<Longrightarrow> G (block_end a c)"
    using b by (cases c) (simp_all add: block_end_def)
qed

lemma list_all_last: "list_all P xs \<Longrightarrow> xs \<noteq> [] \<Longrightarrow> P (last xs)"
  by (simp add: list_all_iff)

lemma wp_block [wp_intros]:
  assumes "ready G p" "3 * left p \<le> w"
    and "\<And>b q. ready G q \<Longrightarrow> same p q \<Longrightarrow> left q < left p \<Longrightarrow> pred_block G b \<Longrightarrow> Q b q"
  shows "wp G (parse_block E) Q p"
  unfolding parse_block_def
  using assms by (auto simp: wp_simps same_def Let_def list_all_last intro!: wp_intros
      wp_loop [where I = "list_all (pred_stmt G)" and R = "list_all (pred_stmt G)"])

lemma wp_colon_block [wp_intros]:
  assumes "ready G p" "3 * left p \<le> w"
    and "\<And>b q. ready G q \<Longrightarrow> same p q \<Longrightarrow> left q < left p \<Longrightarrow> pred_block G b \<Longrightarrow> Q b q"
  shows "wp G (parse_colon_block E) Q p"
  unfolding parse_colon_block_def
  using assms by (auto simp: wp_simps same_def intro!: wp_intros)

lemma wp_simple_statement [wp_intros]:
  assumes "ready G p" "pred_stmt_kind G k" "peek_kind p \<noteq> TEof"
    and "\<And>s q. ready G q \<Longrightarrow> same p q \<Longrightarrow> left q < left p \<Longrightarrow> pred_stmt G s \<Longrightarrow> Q s q"
  shows "wp G (simple_statement k) Q p"
  unfolding simple_statement_def
  using assms by (auto simp: wp_simps same_def intro!: wp_intros)

lemma wp_import [wp_intros]:
  assumes "ready G p" "peek_kind p \<noteq> TEof"
    and "\<And>s q. ready G q \<Longrightarrow> same p q \<Longrightarrow> left q < left p \<Longrightarrow> pred_stmt G s \<Longrightarrow> Q s q"
  shows "wp G parse_import Q p"
  unfolding parse_import_def
  using assms by (auto simp: wp_simps same_def intro!: wp_intros
      wp_loop [where I = "\<lambda>_. True" and R = "\<lambda>_. True"])

lemma wp_type_alias [wp_intros]:
  assumes "ready G p" "3 * left p \<le> w"
    and "\<And>s q. ready G q \<Longrightarrow> same p q \<Longrightarrow> left q < left p \<Longrightarrow> pred_stmt G s \<Longrightarrow> Q s q"
  shows "wp G (parse_type_alias E) Q p"
  unfolding parse_type_alias_def
  using assms by (auto simp: wp_simps same_def intro!: wp_intros
      wp_loop [where I = "\<lambda>_. True" and R = "\<lambda>_. True"])

lemma wp_let [wp_intros]:
  assumes "ready G p" "3 * left p \<le> w"
    and "\<And>s q. ready G q \<Longrightarrow> same p q \<Longrightarrow> left q < left p \<Longrightarrow> pred_stmt G s \<Longrightarrow> Q s q"
  shows "wp G (parse_let E) Q p"
  unfolding parse_let_def
  using assms by (auto simp: wp_simps same_def intro!: wp_intros)

lemma wp_return [wp_intros]:
  assumes "ready G p" "3 * left p \<le> w"
    and "\<And>s q. ready G q \<Longrightarrow> same p q \<Longrightarrow> left q < left p \<Longrightarrow> pred_stmt G s \<Longrightarrow> Q s q"
  shows "wp G (parse_return E) Q p"
  unfolding parse_return_def
  using assms by (auto simp: wp_simps same_def Let_def intro!: wp_intros)

lemma wp_raise [wp_intros]:
  assumes "ready G p" "3 * left p \<le> w"
    and "\<And>s q. ready G q \<Longrightarrow> same p q \<Longrightarrow> left q < left p \<Longrightarrow> pred_stmt G s \<Longrightarrow> Q s q"
  shows "wp G (parse_raise E) Q p"
  unfolding parse_raise_def
  using assms by (auto simp: wp_simps same_def Let_def intro!: wp_intros)

section \<open>Compound statements\<close>

lemma wp_else [wp_intros]:
  assumes "ready G p" "3 * left p \<le> w"
    and "\<And>b q. ready G q \<Longrightarrow> same p q \<Longrightarrow> left q \<le> left p \<Longrightarrow> pred_option (pred_block G) b \<Longrightarrow> Q b q"
  shows "wp G (parse_else E) Q p"
  unfolding parse_else_def
  using assms by (auto simp: wp_simps same_def intro!: wp_intros)

lemma wp_if [wp_intros]:
  assumes "ready G p" "3 * left p \<le> w"
    and "\<And>s q. ready G q \<Longrightarrow> same p q \<Longrightarrow> left q < left p \<Longrightarrow> pred_stmt G s \<Longrightarrow> Q s q"
  shows "wp G (parse_if E) Q p"
  unfolding parse_if_def
  using assms by (auto simp: wp_simps same_def intro!: wp_intros
      wp_loop [where I = "list_all (pred_prod (pred_expr G) (pred_block G))" and
        R = "\<lambda>(es, b). list_all (pred_prod (pred_expr G) (pred_block G)) es \<and> pred_option (pred_block G) b"])

lemma wp_while [wp_intros]:
  assumes "ready G p" "3 * left p \<le> w"
    and "\<And>s q. ready G q \<Longrightarrow> same p q \<Longrightarrow> left q < left p \<Longrightarrow> pred_stmt G s \<Longrightarrow> Q s q"
  shows "wp G (parse_while E) Q p"
  unfolding parse_while_def
  using assms by (auto simp: wp_simps same_def intro!: wp_intros)

lemma wp_for [wp_intros]:
  assumes "ready G p" "3 * left p \<le> w"
    and "\<And>s q. ready G q \<Longrightarrow> same p q \<Longrightarrow> left q < left p \<Longrightarrow> pred_stmt G s \<Longrightarrow> Q s q"
  shows "wp G (parse_for E) Q p"
  unfolding parse_for_def
  using assms by (auto simp: wp_simps same_def intro!: wp_intros)

lemma wp_match_arm [wp_intros]:
  assumes "ready G p" "3 * left p \<le> w"
    and "\<And>a q. ready G q \<Longrightarrow> same p q \<Longrightarrow> left q < left p \<Longrightarrow> pred_match_arm G (pred_block G) a \<Longrightarrow> Q a q"
  shows "wp G (parse_match_arm E) Q p"
  unfolding parse_match_arm_def
  using assms by (auto simp: wp_simps same_def intro!: wp_intros)

lemma pred_arm [simp]: "pred_match_arm G (pred_block G) a \<Longrightarrow> G (block_span (arm_body a))"
  by (cases a) simp

lemma wp_match [wp_intros]:
  assumes "ready G p" "3 * left p \<le> w"
    and "\<And>s q. ready G q \<Longrightarrow> same p q \<Longrightarrow> left q < left p \<Longrightarrow> pred_stmt G s \<Longrightarrow> Q s q"
  shows "wp G (parse_match E) Q p"
  unfolding parse_match_def
  using assms by (auto simp: wp_simps same_def Let_def list_all_last intro!: wp_intros
      wp_loop [where I = "list_all (pred_match_arm G (pred_block G))" and
        R = "list_all (pred_match_arm G (pred_block G))"])

lemma wp_with [wp_intros]:
  assumes "ready G p" "3 * left p \<le> w"
    and "\<And>s q. ready G q \<Longrightarrow> same p q \<Longrightarrow> left q < left p \<Longrightarrow> pred_stmt G s \<Longrightarrow> Q s q"
  shows "wp G (parse_with E) Q p"
  unfolding parse_with_def
  using assms by (auto simp: wp_simps same_def intro!: wp_intros
      wp_loop [where I = "list_all (pred_with_item G)" and R = "list_all (pred_with_item G)"])

abbreviation (input) good_clauses :: "clauses \<Rightarrow> bool" where
  "good_clauses c \<equiv> list_all (pred_except_handler G (pred_block G)) (fst c) \<and>
     pred_option (pred_block G) (fst (snd c)) \<and> pred_option (pred_block G) (snd (snd c))"

lemma wp_try_clause [wp_intros]:
  assumes "ready G p" "3 * left p \<le> w" "good_clauses c"
    and "\<And>d q. ready G q \<Longrightarrow> same p q \<Longrightarrow> left q < left p \<Longrightarrow> good_clauses d \<Longrightarrow> Q (Inl d) q"
    and "\<And>d q. ready G q \<Longrightarrow> same p q \<Longrightarrow> left q \<le> left p \<Longrightarrow> good_clauses d \<Longrightarrow> Q (Inr d) q"
  shows "wp G (parse_try_clause E c) Q p"
  unfolding parse_try_clause_def
  using assms by (cases c) (auto simp: wp_simps same_def intro!: wp_intros)

lemma pred_handler [simp]:
  "pred_except_handler G (pred_block G) a \<Longrightarrow> G (block_span (handler_body a))"
  by (cases a) simp

lemma try_end_good [simp]: "pred_block G b \<Longrightarrow> good_clauses c \<Longrightarrow> G (try_end b c)"
  by (cases c) (auto simp: try_end_def list_all_last)

lemma wp_try [wp_intros]:
  assumes "ready G p" "3 * left p \<le> w"
    and "\<And>s q. ready G q \<Longrightarrow> same p q \<Longrightarrow> left q < left p \<Longrightarrow> pred_stmt G s \<Longrightarrow> Q s q"
  shows "wp G (parse_try E) Q p"
  unfolding parse_try_def
  using assms by (auto simp: wp_simps same_def intro!: wp_intros
      wp_loop [where I = good_clauses and R = good_clauses])

section \<open>Assignments and class fields\<close>

lemma wp_finish_assign [wp_intros]:
  assumes "ready G p" "3 * left p \<le> w" "pred_expr G e" "peek_kind p \<noteq> TEof"
    and "\<And>s q. ready G q \<Longrightarrow> same p q \<Longrightarrow> left q < left p \<Longrightarrow> pred_stmt G s \<Longrightarrow> Q s q"
  shows "wp G (finish_assign E e op) Q p"
  unfolding finish_assign_def
  using assms by (auto simp: wp_simps same_def intro!: wp_intros)

lemma default_init_good [simp]: "G s \<Longrightarrow> pred_expr G (default_init_for_type t s)"
  by (simp add: default_init_for_type_def)

lemma wp_class_field [wp_intros]:
  assumes "ready G p" "3 * left p \<le> w" "pred_expr G e"
    and "\<And>s q. ready G q \<Longrightarrow> same p q \<Longrightarrow> left q < left p \<Longrightarrow> pred_stmt G s \<Longrightarrow> Q s q"
  shows "wp G (parse_class_field E e) Q p"
proof (cases "expr_kind_of e")
  case (EName n)
  then show ?thesis
    unfolding parse_class_field_def
    using assms by (auto simp: wp_simps same_def push_refinement_def intro!: wp_intros)
qed (use assms in \<open>auto simp: parse_class_field_def wp_simps\<close>)

lemma wp_expr_or_assign [wp_intros]:
  assumes "ready G p" "3 * left p + 2 \<le> w"
    and "\<And>s q. ready G q \<Longrightarrow> same p q \<Longrightarrow> left q < left p \<Longrightarrow> pred_stmt G s \<Longrightarrow> Q s q"
  shows "wp G (parse_expr_or_assign_stmt E) Q p"
proof -
  have "peek_kind q \<noteq> TEof" if "peek_assign_op q = Some b" for q b
    using that by (auto simp: peek_assign_op_def)
  then show ?thesis
    unfolding parse_expr_or_assign_stmt_def
    using assms by (auto simp: wp_simps same_def split: option.split intro!: wp_intros)
qed

end

end
