(* ===== verification/Parser_Total.thy ===== *)
theory Parser_Total
  imports Parser_Safe_Stmt
begin

text \<open>
  The contract of the parser for definitions, whole statements and modules; the entry points with
  one more unit of fuel keep the contract.
\<close>

context parser_calls begin

section \<open>Definitions\<close>

lemma wp_fn_def [wp_intros]:
  assumes "ready G p" "3 * left p \<le> w"
    and "\<And>d q. ready G q \<Longrightarrow> same p q \<Longrightarrow> left q < left p \<Longrightarrow> pred_fn_def G (pred_block G) d \<Longrightarrow> Q d q"
  shows "wp G (parse_fn_def E) Q p"
  unfolding parse_fn_def_def
  using assms by (auto simp: wp_simps same_def intro!: wp_intros)

lemma wp_class_base [wp_intros]:
  assumes "ready G p" "3 * left p + 2 \<le> w"
    and "\<And>b q. ready G q \<Longrightarrow> same p q \<Longrightarrow> left q < left p \<Longrightarrow> pred_option (pred_expr G) b \<Longrightarrow> Q b q"
  shows "wp G (parse_class_base E) Q p"
  unfolding parse_class_base_def
  using assms by (auto simp: wp_simps same_def multi_base_def intro!: wp_intros)

lemma wp_traits [wp_intros]:
  assumes "ready G p" "3 * left p \<le> w"
    and "\<And>ts q. ready G q \<Longrightarrow> same p q \<Longrightarrow> left q \<le> left p \<Longrightarrow> list_all (pred_type_ann G) ts \<Longrightarrow> Q ts q"
  shows "wp G (parse_traits E) Q p"
  unfolding parse_traits_def
  using assms by (auto simp: wp_simps same_def is_block_start_def intro!: wp_intros
      wp_loop [where I = "list_all (pred_type_ann G)" and R = "list_all (pred_type_ann G)"])

lemma wp_class_body [wp_intros]:
  assumes "ready G p" "3 * left p \<le> w"
    and "\<And>b rs q. ready G q \<Longrightarrow> same p q \<Longrightarrow> left q < left p \<Longrightarrow> pred_block G b \<Longrightarrow>
      list_all (pred_prod top (pred_expr G)) rs \<Longrightarrow> Q (b, rs) q"
  shows "wp G (parse_class_body E) Q p"
  unfolding parse_class_body_def
  using assms by (auto simp: wp_simps same_def intro!: wp_block)

lemma wp_class_def [wp_intros]:
  assumes "ready G p" "3 * left p \<le> w"
    and "\<And>d q. ready G q \<Longrightarrow> same p q \<Longrightarrow> left q < left p \<Longrightarrow> pred_class_def G (pred_block G) d \<Longrightarrow> Q d q"
  shows "wp G (parse_class_def E) Q p"
  unfolding parse_class_def_def
  using assms by (auto simp: wp_simps same_def intro!: wp_intros)

lemma pred_bodies [simp]:
  "pred_fn_def G (pred_block G) d \<Longrightarrow> G (block_span (fn_body d))"
  "pred_class_def G (pred_block G) c \<Longrightarrow> G (block_span (class_body c))"
  by (cases d; simp) (cases c; simp)

lemma wp_fn_statement [wp_intros]:
  assumes "ready G p" "3 * left p \<le> w"
    and "\<And>s q. ready G q \<Longrightarrow> same p q \<Longrightarrow> left q < left p \<Longrightarrow> pred_stmt G s \<Longrightarrow> Q s q"
  shows "wp G (fn_statement E) Q p"
  unfolding fn_statement_def
  using assms by (auto simp: wp_simps same_def intro!: wp_intros)

lemma wp_class_statement [wp_intros]:
  assumes "ready G p" "3 * left p \<le> w"
    and "\<And>s q. ready G q \<Longrightarrow> same p q \<Longrightarrow> left q < left p \<Longrightarrow> pred_stmt G s \<Longrightarrow> Q s q"
  shows "wp G (class_statement E) Q p"
  unfolding class_statement_def
  using assms by (auto simp: wp_simps same_def intro!: wp_intros)

lemma wp_decorated [wp_intros]:
  assumes "ready G p" "3 * left p \<le> w"
    and "\<And>s q. ready G q \<Longrightarrow> same p q \<Longrightarrow> left q < left p \<Longrightarrow> pred_stmt G s \<Longrightarrow> Q s q"
  shows "wp G (parse_decorated E) Q p"
  unfolding parse_decorated_def
  using assms by (auto simp: wp_simps same_def intro!: wp_intros
      wp_loop [where I = "list_all (pred_expr G)" and R = "list_all (pred_expr G)"])

section \<open>Statements and modules\<close>

lemma wp_stmt:
  assumes "ready G p" "3 * left p + 2 \<le> w"
  shows "wp G (parse_stmt E) (\<lambda>s q. reach G p q \<and> pred_stmt G s) p"
proof (cases "peek_kind p")
  case (TIdent n)
  then show ?thesis
    using assms unfolding parse_stmt_def reach_def
    by (auto simp: wp_simps dropped_statement_def intro!: wp_intros)
qed (use assms in \<open>auto simp: parse_stmt_def reach_def wp_simps intro!: wp_intros\<close>)

lemma wp_docstring [wp_intros]:
  assumes "ready G p"
    and "\<And>d q. ready G q \<Longrightarrow> same p q \<Longrightarrow> left q \<le> left p \<Longrightarrow> Q d q"
  shows "wp G peek_module_docstring Q p"
  unfolding peek_module_docstring_def
  using assms by (cases "peek_kind p") (auto simp: wp_simps same_def intro!: wp_intros)

lemma wp_module:
  assumes "ready G p" "3 * left p + 3 \<le> w"
  shows "wp G (parse_module E) (\<lambda>m q. peek_kind q = TEof \<and> pred_module G m) p"
  unfolding parse_module_def
  using assms by (auto simp: wp_simps same_def intro!: wp_intros
      wp_loop_state [where I = "list_all (pred_stmt G)" and
        R = "\<lambda>ss q. list_all (pred_stmt G) ss \<and> peek_kind q = TEof"])

lemma next_valid: "valid G (Suc w) (next_entry E)"
  by (auto simp: valid_def next_entry_def intro: wp_stmt wp_expr wp_type wp_pratt wp_pattern_simple
      wp_type_atom)

end

lemma no_entry_valid: "valid G 0 (no_entry h)"
  by (simp add: valid_def)

end
