(* ===== verification/Parser_Reads.thy ===== *)
theory Parser_Reads
  imports Parser_Mono Parser_Total Unparse
begin

text \<open>
  Reading known tokens: weakest preconditions that exclude errors too, for an action that meets
  a given sequence of token kinds, takes it and leaves the rest.
\<close>

named_theorems read_intros \<open>actions on known tokens\<close>

abbreviation never :: "span \<Rightarrow> bool" where
  "never \<equiv> \<lambda>_. False"

definition ahead :: "parser \<Rightarrow> token_kind list" where
  "ahead p = map kind (drop (ppos p) (toks p))"

definition frame :: "parser \<Rightarrow> parser \<Rightarrow> bool" where
  "frame p q \<longleftrightarrow>
     toks q = toks p \<and> depth q = depth p \<and> in_class_body q = in_class_body p \<and>
     pending_field_refinements q = pending_field_refinements p"

lemma frame_refl [simp]: "frame p p"
  by (simp add: frame_def)

lemma frame_depth: "frame p q \<Longrightarrow> depth q = depth p"
  by (simp add: frame_def)

lemma frame_trans [trans]: "frame p q \<Longrightarrow> frame q r \<Longrightarrow> frame p r"
  by (simp add: frame_def)

lemma ahead_depth [simp]: "ahead (p\<lparr>depth := d\<rparr>) = ahead p"
  by (simp add: ahead_def)

lemma ahead_Cons:
  assumes "ahead p = k # ks"
  shows "peek_kind p = k" "ppos p < length (toks p)" "ks \<noteq> [] \<Longrightarrow> peek_at 1 p = hd ks"
    "ks \<noteq> [] \<Longrightarrow> ppos p < length (toks p) - 1"
proof -
  show lt: "ppos p < length (toks p)"
    using assms by (metis ahead_def drop_eq_Nil2 list.distinct(1) list.map(1) not_le)
  have k: "k = kind (toks p ! ppos p)" "ks = map kind (drop (Suc (ppos p)) (toks p))"
    using assms lt by (simp_all add: ahead_def Cons_nth_drop_Suc [symmetric])
  have "min (ppos p) (length (toks p) - 1) = ppos p" using lt by simp
  with k(1) show "peek_kind p = k" by (simp add: peek_kind_def peek_def)
  assume "ks \<noteq> []"
  with k(2) have lt': "Suc (ppos p) < length (toks p)"
    by (metis drop_eq_Nil2 list.map_disc_iff not_le)
  then show "ppos p < length (toks p) - 1" by simp
  from lt' have "min (ppos p + 1) (length (toks p) - 1) = Suc (ppos p)" by simp
  then show "peek_at 1 p = hd ks" using lt' by (simp add: peek_at_def k(2) hd_map hd_drop_conv_nth)
qed

lemma ahead_peek [simp]:
  "ahead p = k # ks \<Longrightarrow> peek_kind p = k"
  "ahead p = k # k' # ks \<Longrightarrow> peek_at (Suc 0) p = k'"
  "ahead p = k # ks \<Longrightarrow> kind (peek p) = k"
  using ahead_Cons [of p k] by (auto simp: peek_kind_def)

lemma read_bump [read_intros]:
  assumes "ahead p = k # ks" "ks \<noteq> []"
    and "\<And>q. frame p q \<Longrightarrow> ahead q = ks \<Longrightarrow> Q (peek p) q"
  shows "wp never bump Q p"
proof -
  let ?q = "p\<lparr>ppos := ppos p + 1\<rparr>"
  have "ahead ?q = ks"
    using assms(1) ahead_Cons(2) [OF assms(1)] by (simp add: ahead_def Cons_nth_drop_Suc [symmetric])
  then have "Q (peek p) ?q" using assms(3) by (simp add: frame_def)
  then show ?thesis using ahead_Cons(4) [OF assms(1,2)] by (simp add: wp_def bump_def)
qed

lemma bump_to:
  assumes "ahead p = k # ks" "ks \<noteq> []"
  obtains q where "frame p q" "ahead q = ks" "\<And>Q :: token \<Rightarrow> parser \<Rightarrow> bool. wp never bump Q p = Q (peek p) q"
proof -
  have "wp never bump (\<lambda>a q. a = peek p \<and> frame p q \<and> ahead q = ks) p"
    by (rule read_bump [OF assms]) simp
  then obtain q where "bump p = Some (Inr (peek p, q))" "frame p q" "ahead q = ks"
    by (auto simp: wp_def bump_def)
  with that [of q] show ?thesis by (simp add: wp_def)
qed

text \<open>One combinator at a time.\<close>

lemma wp_stepI:
  "wp G (h (get p)) S p \<Longrightarrow> wp G (look get h) S p"
  "wp G f (\<lambda>a. wp G (g a) Q) p \<Longrightarrow> wp G (pbind f g) Q p"
  "wp G f (\<lambda>a. wp G g' R) p \<Longrightarrow> wp G (pseq f g') R p"
  by (simp_all add: wp_simps)

text \<open>\<open>f\<close> takes \<open>ks\<close> when a token in \<open>F\<close> follows, with \<open>n\<close> levels of depth to spare.\<close>

definition reads ::
    "'a action \<Rightarrow> nat \<Rightarrow> token_kind list \<Rightarrow> (token_kind \<Rightarrow> bool) \<Rightarrow> ('a \<Rightarrow> bool) \<Rightarrow> bool" where
  "reads f n ks F P \<longleftrightarrow>
     (\<forall>p rest. ahead p = ks @ rest \<longrightarrow> rest \<noteq> [] \<longrightarrow> F (hd rest) \<longrightarrow> depth p + n \<le> max_parser_depth \<longrightarrow>
        wp never f (\<lambda>a q. frame p q \<and> ahead q = rest \<and> P a) p)"

lemma readsI:
  "(\<And>p rest. ahead p = ks @ rest \<Longrightarrow> rest \<noteq> [] \<Longrightarrow> F (hd rest) \<Longrightarrow> depth p + n \<le> max_parser_depth \<Longrightarrow>
     wp never f (\<lambda>a q. frame p q \<and> ahead q = rest \<and> P a) p) \<Longrightarrow> reads f n ks F P"
  by (simp add: reads_def)

lemma read:
  assumes "reads f n ks F P" "ahead p = ks @ rest" "rest \<noteq> []" "F (hd rest)"
    "depth p + n \<le> max_parser_depth"
    and "\<And>a q. frame p q \<Longrightarrow> ahead q = rest \<Longrightarrow> P a \<Longrightarrow> Q a q"
  shows "wp never f Q p"
  by (rule wp_mono [where Q = "\<lambda>a q. frame p q \<and> ahead q = rest \<and> P a"])
    (use assms in \<open>simp_all add: reads_def\<close>)

section \<open>Loops\<close>

definition looped :: "('a \<Rightarrow> ('a + 'b) action) \<Rightarrow> 'a \<Rightarrow> ('b \<Rightarrow> parser \<Rightarrow> bool) \<Rightarrow> parser \<Rightarrow> bool" where
  "looped body a Q p \<longleftrightarrow> (\<forall>n > length (ahead p). wp never (turns n body a) Q p)"

lemma looped_step:
  assumes "wp never (body a) (\<lambda>x q. case x of
      Inl a' \<Rightarrow> length (ahead q) < length (ahead p) \<and> looped body a' Q q
    | Inr b \<Rightarrow> Q b q) p"
  shows "looped body a Q p"
  unfolding looped_def
proof (intro allI impI)
  fix n assume n: "length (ahead p) < n"
  then obtain m where m: "n = Suc m" "length (ahead p) \<le> m" by (cases n) auto
  have "wp never (body a) (\<lambda>x. wp never (case x of Inl a' \<Rightarrow> turns m body a' | Inr b \<Rightarrow> pret b) Q) p"
    using assms m(2) by (rule_tac wp_mono [OF assms])
      (auto simp: looped_def wp_simps split: sum.splits)
  then show "wp never (turns n body a) Q p" by (simp add: m(1) wp_simps)
qed

lemma read_loop:
  assumes "looped body a Q p"
  shows "wp never (loop body a) Q p"
proof -
  have "length (ahead p) < Suc (length (toks p))" by (simp add: ahead_def)
  with assms show ?thesis by (simp add: looped_def loop_def wp_def del: turns.simps)
qed

section \<open>Separated lists\<close>

text \<open>What follows the first element of a separated list.\<close>

primrec trailed :: "'b list \<Rightarrow> ('a \<Rightarrow> 'b list) \<Rightarrow> 'a list \<Rightarrow> 'b list" where
  "trailed sep f [] = []"
| "trailed sep f (x # xs) = sep @ f x @ trailed sep f xs"

lemma join_with_trailed [simp]: "join_with sep (s # map f xs) = s @ trailed sep f xs"
proof (induction xs arbitrary: s)
  case (Cons x xs)
  then show ?case by simp
qed simp

text \<open>Loops that take a comma before each element, and those that take it after.\<close>

lemma after_trailed:
  "after (TOp Comma) \<Longrightarrow> after k \<Longrightarrow> tail = [] \<or> tail = [TOp Comma] \<Longrightarrow>
     after (hd (trailed [TOp Comma] tok xs @ tail @ k # rest))"
  by (cases xs) auto

lemma looped_commas:
  assumes "ahead p = trailed [TOp Comma] tok xs @ tail @ TOp close # rest" "rest \<noteq> []"
    "tail = [] \<or> tail = [TOp Comma]" "close \<noteq> Comma" "after (TOp close)" "after (TOp Comma)"
    "depth p + n \<le> max_parser_depth"
    "\<And>x. x \<in> set xs \<Longrightarrow> reads item n (tok x) after (\<lambda>a. erase a = x)"
    "\<And>x. x \<in> set xs \<Longrightarrow> tok x \<noteq> [] \<and> hd (tok x) \<noteq> TOp close"
    and "\<And>as q. frame p q \<Longrightarrow> ahead q = TOp close # rest \<Longrightarrow> map erase as = map erase as0 @ xs \<Longrightarrow> Q as q"
  shows "looped (\<lambda>as. pbind (eat (TOp Comma)) (\<lambda>comma.
      if \<not> comma then break_with as
      else look (at (TOp close)) (\<lambda>stop.
        if stop then break_with as else pbind item (\<lambda>a. again (as @ [a]))))) as0 Q p"
  using assms
proof (induction xs arbitrary: p as0)
  case Nil
  then show ?case by (intro looped_step) (auto simp: wp_simps frame_def intro!: read_intros)
next
  case (Cons x xs)
  from Cons.prems(9) [of x] obtain k ks where tok: "tok x = k # ks" "k \<noteq> TOp close"
    by (cases "tok x") auto
  show ?case
    using Cons.prems tok after_trailed [OF Cons.prems(6,5,3), of tok xs rest]
    by (intro looped_step)
      (auto simp: wp_simps frame_def intro!: read_intros Cons.IH read [OF Cons.prems(8), of x])
qed

lemma looped_items:
  assumes "ahead p = join_with [TOp Comma] (map tok xs) @ tail @ TOp close # rest" "rest \<noteq> []"
    "tail = [] \<or> xs \<noteq> [] \<and> tail = [TOp Comma]" "close \<noteq> Comma" "after (TOp close)" "after (TOp Comma)"
    "depth p + n \<le> max_parser_depth"
    "\<And>x. x \<in> set xs \<Longrightarrow> reads item n (tok x) after (\<lambda>a. erase a = x)"
    "\<And>x. x \<in> set xs \<Longrightarrow> tok x \<noteq> [] \<and> hd (tok x) \<noteq> TOp close"
    and "\<And>as q. frame p q \<Longrightarrow> ahead q = TOp close # rest \<Longrightarrow> map erase as = map erase as0 @ xs \<Longrightarrow> Q as q"
  shows "looped (\<lambda>as. look (at (TOp close)) (\<lambda>stop.
      if stop then break_with as
      else pbind item (\<lambda>a. pbind (eat (TOp Comma)) (\<lambda>comma.
        if comma then again (as @ [a]) else break_with (as @ [a]))))) as0 Q p"
  using assms
proof (induction xs arbitrary: p as0 tail)
  case Nil
  then show ?case by (intro looped_step) (auto simp: wp_simps frame_def intro!: read_intros)
next
  case (Cons x xs)
  from Cons.prems(9) [of x] obtain k ks where tok: "tok x = k # ks" "k \<noteq> TOp close"
    by (cases "tok x") auto
  define more where "more = trailed [TOp Comma] tok xs @ tail @ TOp close # rest"
  let ?body = "\<lambda>as. look (at (TOp close)) (\<lambda>stop.
      if stop then break_with as
      else pbind item (\<lambda>a. pbind (eat (TOp Comma)) (\<lambda>comma.
        if comma then again (as @ [a]) else break_with (as @ [a]))))"
  have IH: "looped ?body (as0 @ [a]) Q q"
    if "frame p q" "erase a = x" "more = TOp Comma # join_with [TOp Comma] (map tok xs) @ tail' @ TOp close # rest"
      "ahead q = tl more" "tail' = [] \<or> xs \<noteq> [] \<and> tail' = [TOp Comma]" for a q tail'
    by (rule Cons.IH [OF _ Cons.prems(2) that(5) Cons.prems(4-6)]) (use that Cons.prems(7-10) in \<open>auto simp: frame_def\<close>)
  have "wp never item (\<lambda>a. wp never (pbind (eat (TOp Comma)) (\<lambda>comma.
      if comma then again (as0 @ [a]) else break_with (as0 @ [a]))) (\<lambda>r q. case r of
        Inl a' \<Rightarrow> length (ahead q) < length (ahead p) \<and> looped ?body a' Q q | Inr b \<Rightarrow> Q b q)) p"
  proof (rule read [OF Cons.prems(8), of x])
    show "ahead p = tok x @ more" using Cons.prems(1) by (simp add: more_def)
    show "after (hd more)" unfolding more_def using Cons.prems(3,5,6) by (rule_tac after_trailed) auto
    fix a q assume q: "frame p q" "ahead q = more" "erase a = x"
    show "wp never (pbind (eat (TOp Comma)) (\<lambda>comma.
      if comma then again (as0 @ [a]) else break_with (as0 @ [a]))) (\<lambda>r q. case r of
        Inl a' \<Rightarrow> length (ahead q) < length (ahead p) \<and> looped ?body a' Q q | Inr b \<Rightarrow> Q b q) q"
    proof (cases "xs = [] \<and> tail = []")
      case True
      then show ?thesis using q Cons.prems(4,10) by (simp add: wp_simps more_def)
    next
      case False
      then obtain tail' where m: "more = TOp Comma # join_with [TOp Comma] (map tok xs) @ tail' @ TOp close # rest"
        "tail' = [] \<or> xs \<noteq> [] \<and> tail' = [TOp Comma]"
        using Cons.prems(3) by (cases xs) (auto simp: more_def)
      have len: "length more < length (ahead p)" using Cons.prems(1) tok by (simp add: more_def)
      show ?thesis
        using q m(1) len IH [OF _ q(3) m(1) _ m(2)] Cons.prems(2)
        by (auto simp: wp_simps frame_def intro!: read_intros)
    qed
  qed (use Cons.prems in \<open>auto simp: more_def\<close>)
  then show ?case
    using Cons.prems(1) tok by (intro looped_step) (simp add: wp_simps)
qed

end
