(* ===== verification/Parser_Reads_Type.thy ===== *)
theory Parser_Reads_Type
  imports Parser_Reads
begin

text \<open>
  Types as the unparser writes them, token by token, and that the parser reads them back. A type
  is plain if its writing is unambiguous: the parser builds no other.
\<close>

section \<open>Tokens of written types\<close>

definition name_token :: "string \<Rightarrow> token_kind" where
  "name_token n = (if n = ''match'' then TKw KwMatch else TIdent n)"

definition dotted :: "string list \<Rightarrow> token_kind list" where
  "dotted path = join_with [TOp Dot] (map (\<lambda>n. [name_token n]) path)"

definition commas :: "token_kind list list \<Rightarrow> token_kind list" where
  "commas = join_with [TOp Comma]"

primrec type_tokens :: "'s type_ann \<Rightarrow> token_kind list"
  and type_kind_tokens :: "'s type_kind \<Rightarrow> token_kind list" where
  "type_tokens (MkType k s) = type_kind_tokens k"
| "type_kind_tokens (TyName path) = (if path = [''None''] then [TKw KwNone] else dotted path)"
| "type_kind_tokens (TyGeneric base args) =
     dotted base @ [TOp LBracket] @ commas (map type_tokens args) @ [TOp RBracket]"
| "type_kind_tokens (TyUnion parts) = join_with [TOp Pipe] (map type_tokens parts)"
| "type_kind_tokens (TyFn params ret) =
     TOp LParen # commas (map type_tokens params) @ [TOp RParen, TOp Arrow] @ type_tokens ret"
| "type_kind_tokens (TyTuple parts) =
     TOp LParen # commas (map type_tokens parts) @ (if length parts = 1 then [TOp Comma] else []) @
     [TOp RParen]"
| "type_kind_tokens (TyRef inner) = TOp Amp # type_tokens inner"
| "type_kind_tokens (TyArray elem len) =
     TOp LBracket # type_tokens elem @ [TOp Semicolon, TInt (dec_digits len), TOp RBracket]"

section \<open>Plain types\<close>

definition is_union :: "'s type_ann \<Rightarrow> bool" where
  "is_union t \<longleftrightarrow> (case type_kind_of t of TyUnion ts \<Rightarrow> True | _ \<Rightarrow> False)"

text \<open>A type that ends in the result of a function, which takes all members of a union that follow.\<close>

primrec ends_in_result :: "'s type_ann \<Rightarrow> bool"
  and kind_ends_in_result :: "'s type_kind \<Rightarrow> bool" where
  "ends_in_result (MkType k s) = kind_ends_in_result k"
| "kind_ends_in_result (TyName path) = False"
| "kind_ends_in_result (TyGeneric base args) = False"
| "kind_ends_in_result (TyUnion parts) = False"
| "kind_ends_in_result (TyFn params ret) = True"
| "kind_ends_in_result (TyTuple parts) = False"
| "kind_ends_in_result (TyRef inner) = ends_in_result inner"
| "kind_ends_in_result (TyArray elem len) = False"

primrec plain_type :: "'s type_ann \<Rightarrow> bool"
  and plain_type_kind :: "'s type_kind \<Rightarrow> bool" where
  "plain_type (MkType k s) = plain_type_kind k"
| "plain_type_kind (TyName path) = (path \<noteq> [])"
| "plain_type_kind (TyGeneric base args) = (base \<noteq> [] \<and> list_all plain_type args)"
| "plain_type_kind (TyUnion parts) =
     (2 \<le> length parts \<and> list_all plain_type parts \<and> list_all (\<lambda>t. \<not> is_union t) parts \<and>
      list_all (\<lambda>t. \<not> ends_in_result t) (butlast parts))"
| "plain_type_kind (TyFn params ret) = (list_all plain_type params \<and> plain_type ret)"
| "plain_type_kind (TyTuple parts) = list_all plain_type parts"
| "plain_type_kind (TyRef inner) = (plain_type inner \<and> \<not> is_union inner)"
| "plain_type_kind (TyArray elem len) = (plain_type elem \<and> len < 2 ^ 64)"

abbreviation bare_type :: "'s type_ann \<Rightarrow> unit type_ann" where
  "bare_type \<equiv> map_type_ann (\<lambda>_. ())"

definition after_type :: "token_kind \<Rightarrow> bool" where
  "after_type k \<longleftrightarrow> k \<notin> {TOp Pipe, TOp Dot, TOp LBracket, TOp Arrow}"

definition after_atom :: "unit type_ann \<Rightarrow> token_kind \<Rightarrow> bool" where
  "after_atom t k \<longleftrightarrow>
     k \<notin> {TOp Dot, TOp LBracket, TOp Arrow} \<and> (ends_in_result t \<longrightarrow> k \<noteq> TOp Pipe)"

text \<open>What the entry points read, with fuel for the tokens of the type.\<close>

locale type_reads =
  fixes w :: nat and E :: entry
  assumes reads_type: "plain_type t \<Longrightarrow> 3 * length (type_tokens t) + 2 \<le> w \<Longrightarrow>
      reads (e_type E) 0 (type_tokens t) after_type (\<lambda>t'. bare_type t' = t)"
    and reads_type_atom: "plain_type t \<Longrightarrow> \<not> is_union t \<Longrightarrow> 3 * length (type_tokens t) + 1 \<le> w \<Longrightarrow>
      reads (e_type_atom E) 0 (type_tokens t) (after_atom t) (\<lambda>t'. bare_type t' = t)"

section \<open>Names\<close>

lemma read_expect_ident [read_intros]:
  assumes "ahead p = name_token n # ks" "ks \<noteq> []"
    and "\<And>q. frame p q \<Longrightarrow> ahead q = ks \<Longrightarrow> Q n q"
  shows "wp never expect_ident Q p"
  using assms unfolding expect_ident_def name_token_def
  by (auto simp: wp_simps intro!: read_intros split: if_split_asm)

lemma looped_names:
  assumes "ahead p = trailed [TOp sep] (\<lambda>n. [name_token n]) ns @ rest" "rest \<noteq> []" "hd rest \<noteq> TOp sep"
    and "\<And>q. frame p q \<Longrightarrow> ahead q = rest \<Longrightarrow> Q (parts @ ns) q"
  shows "looped (\<lambda>parts. pbind (eat (TOp sep)) (\<lambda>more.
    if more then pbind expect_ident (\<lambda>name. again (parts @ [name])) else break_with parts)) parts Q p"
  using assms
proof (induction ns arbitrary: p parts)
  case Nil
  then show ?case by (cases rest) (auto simp: wp_simps intro!: looped_step)
next
  case (Cons n ns)
  then show ?case
    by (intro looped_step) (auto simp: wp_simps frame_def intro!: read_intros Cons.IH)
qed

lemma read_dotted_name [read_intros]:
  assumes "ahead p = dotted path @ rest" "path \<noteq> []" "rest \<noteq> []" "hd rest \<noteq> TOp Dot"
    and "\<And>q. frame p q \<Longrightarrow> ahead q = rest \<Longrightarrow> Q path q"
  shows "wp never parse_dotted_name Q p"
proof (cases path)
  case (Cons n ns)
  with assms show ?thesis
    unfolding parse_dotted_name_def
    by (auto simp: wp_simps frame_def dotted_def intro!: read_intros read_loop looped_names)
qed (use assms in simp)

section \<open>The parsing functions\<close>

lemma digits_value:
  "foldl (\<lambda>n c. 10 * n + (byte c - 48)) 0 (dec_digits n) = n \<and> list_all is_ascii_digit (dec_digits n)"
proof (induction n rule: less_induct)
  case (less n)
  have digit: "is_ascii_digit (char_of (48 + d))" if "d < 10" for d :: nat
    using that by (simp add: is_ascii_digit_def)
  from less digit show ?case
    by (subst (1 2) dec_digits.simps) auto
qed

lemma parse_usize_dec: "n < 2 ^ 64 \<Longrightarrow> parse_usize (dec_digits n) = Some n"
proof -
  assume n: "n < 2 ^ 64"
  have "hd (dec_digits n) \<noteq> CHR ''+''"
    using digits_value [of n] dec_digits_nonempty [of n]
    by (cases "dec_digits n") (auto simp: is_ascii_digit_def)
  then show ?thesis
    using n digits_value [of n] dec_digits_nonempty [of n] by (simp add: parse_usize_def)
qed

lemma type_tokens_start:
  "plain_type (t :: 's type_ann) \<Longrightarrow> type_tokens t \<noteq> [] \<and>
     hd (type_tokens t) \<notin> {TOp RParen, TOp RBracket, TOp Comma, TOp Colon, TOp Pipe, TNewline, TIndent}"
  "plain_type_kind (k :: 's type_kind) \<Longrightarrow> type_kind_tokens k \<noteq> [] \<and>
     hd (type_kind_tokens k) \<notin> {TOp RParen, TOp RBracket, TOp Comma, TOp Colon, TOp Pipe, TNewline, TIndent}"
proof (induction t and k rule: type_ann.induct type_kind.induct)
  case (TyName path)
  then show ?case by (cases path) (auto simp: dotted_def name_token_def)
next
  case (TyGeneric base args)
  then show ?case by (cases base) (auto simp: dotted_def name_token_def)
next
  case (TyUnion parts)
  then show ?case by (cases parts) auto
qed auto

lemma sum_list_member: "x \<in> set xs \<Longrightarrow> f x \<le> sum_list (map f (xs :: 'a list) :: nat list)"
  by (induction xs) auto

lemma length_join_with: "x \<in> set xs \<Longrightarrow> length (f x) \<le> length (join_with sep (map f xs))"
proof (induction xs)
  case (Cons y ys)
  have "length (f x) \<le> length (trailed sep f ys)" if "x \<in> set ys" for x ys
    using that by (induction ys) auto
  from this [of x ys] Cons show ?case by auto
qed simp

context type_reads begin

lemma read_type:
  assumes "ahead p = type_tokens t @ rest" "plain_type t" "3 * length (type_tokens t) + 2 \<le> w"
    "rest \<noteq> []" "after_type (hd rest)" "depth p \<le> max_parser_depth"
    and "\<And>t' q. frame p q \<Longrightarrow> ahead q = rest \<Longrightarrow> bare_type t' = t \<Longrightarrow> Q t' q"
  shows "wp never (e_type E) Q p"
  by (rule read [OF reads_type]) (use assms in auto)

lemma read_type_atom:
  assumes "ahead p = type_tokens t @ rest" "plain_type t" "\<not> is_union t"
    "3 * length (type_tokens t) + 1 \<le> w" "rest \<noteq> []" "after_atom t (hd rest)"
    "depth p \<le> max_parser_depth"
    and "\<And>t' q. frame p q \<Longrightarrow> ahead q = rest \<Longrightarrow> bare_type t' = t \<Longrightarrow> Q t' q"
  shows "wp never (e_type_atom E) Q p"
  by (rule read [OF reads_type_atom]) (use assms in auto)

lemma read_type_list:
  assumes "ahead p = commas (map type_tokens ts) @ tail @ TOp close # rest" "rest \<noteq> []"
    "tail = [] \<or> ts \<noteq> [] \<and> tail = [TOp Comma]" "close = RParen \<or> close = RBracket"
    "list_all plain_type ts" "3 * length (commas (map type_tokens ts)) + 2 \<le> w"
    "depth p \<le> max_parser_depth"
    and "\<And>ts' q. frame p q \<Longrightarrow> ahead q = TOp close # rest \<Longrightarrow> map bare_type ts' = ts \<Longrightarrow> Q ts' q"
  shows "wp never (parse_type_list E (TOp close)) Q p"
proof (cases ts)
  case Nil
  with assms show ?thesis by (auto simp: parse_type_list_def wp_simps commas_def)
next
  case (Cons t us)
  have reads: "reads (e_type E) 0 (type_tokens u) after_type (\<lambda>t'. bare_type t' = u)"
    if "u \<in> set ts" for u
    using assms(5,6) length_join_with [OF that, of type_tokens "[TOp Comma]"] that
    by (intro reads_type) (auto simp: list_all_iff commas_def)
  have start: "type_tokens u \<noteq> [] \<and> hd (type_tokens u) \<noteq> TOp close" if "u \<in> set ts" for u
    using type_tokens_start(1) [of u] that assms(4,5) by (auto simp: list_all_iff)
  have after: "after_type (hd (trailed [TOp Comma] type_tokens us @ tail @ TOp close # rest))"
    using assms(3,4) by (rule_tac after_trailed) (auto simp: after_type_def)
  have "\<not> at (TOp close) p"
    using assms(1) start [of t] Cons by (cases "type_tokens t") (auto simp: commas_def)
  moreover have "wp never (e_type E) (\<lambda>first. wp never (loop (\<lambda>ts.
      pbind (eat (TOp Comma)) (\<lambda>comma.
        if \<not> comma then break_with ts
        else look (at (TOp close)) (\<lambda>stop.
          if stop then break_with ts else pbind (e_type E) (\<lambda>t. again (ts @ [t]))))) [first]) Q) p"
  proof (rule read [OF reads [of t] _ _ after])
    fix t' :: "span type_ann" and q
    assume q: "frame p q" "ahead q = trailed [TOp Comma] type_tokens us @ tail @ TOp close # rest"
      "bare_type t' = t"
    show "wp never (loop (\<lambda>ts. pbind (eat (TOp Comma)) (\<lambda>comma.
        if \<not> comma then break_with ts
        else look (at (TOp close)) (\<lambda>stop.
          if stop then break_with ts else pbind (e_type E) (\<lambda>t. again (ts @ [t]))))) [t']) Q q"
      by (rule read_loop, rule looped_commas [where n = 0 and after = after_type and erase = bare_type, OF q(2) assms(2)])
        (use assms q Cons reads start in \<open>auto simp: frame_def after_type_def\<close>)
  qed (use assms(1,7) Cons in \<open>auto simp: commas_def\<close>)
  ultimately show ?thesis by (simp add: parse_type_list_def wp_simps)
qed

lemma after_atom_members:
  assumes "after_type (hd rest)" "list_all (\<lambda>t. \<not> ends_in_result t) (butlast (t # ts))"
  shows "after_atom t (hd (trailed [TOp Pipe] type_tokens ts @ rest))"
  using assms by (cases ts) (auto simp: after_atom_def after_type_def)

lemma looped_union:
  assumes "ahead p = trailed [TOp Pipe] type_tokens ts @ rest" "rest \<noteq> []" "after_type (hd rest)"
    "list_all plain_type ts" "list_all (\<lambda>t. \<not> is_union t) ts"
    "list_all (\<lambda>t. \<not> ends_in_result t) (butlast ts)"
    "3 * length (trailed [TOp Pipe] type_tokens ts) + 1 \<le> w" "depth p \<le> max_parser_depth"
    "bare_type t0 = MkType (TyUnion (map bare_type parts)) ()" "parts \<noteq> []"
    and "\<And>t' q. frame p q \<Longrightarrow> ahead q = rest \<Longrightarrow>
      bare_type t' = MkType (TyUnion (map bare_type parts @ ts)) () \<Longrightarrow> Q t' q"
  shows "looped (\<lambda>(union_parts, t). look (at (TOp Pipe)) (\<lambda>pipe.
      if pipe then pseq bump (pbind (e_type_atom E) (\<lambda>next.
        case union_parts of
          Some parts \<Rightarrow>
            let span = span_merge (type_span (last parts)) (type_span next) in
            again (Some (parts @ [next]), MkType (TyUnion (parts @ [next])) span)
        | None \<Rightarrow>
            let span = span_merge (type_span t) (type_span next) in
            again (Some [t, next], MkType (TyUnion [t, next]) span)))
      else break_with t)) (Some parts, t0) Q p"
  using assms
proof (induction ts arbitrary: p parts t0)
  case Nil
  then show ?case
    by (cases rest) (auto simp: wp_simps after_type_def intro!: looped_step)
next
  case (Cons t ts)
  note atom = read_type_atom [of _ t "trailed [TOp Pipe] type_tokens ts @ rest"]
  have after: "after_atom t (hd (trailed [TOp Pipe] type_tokens ts @ rest))"
    using Cons.prems(3,6) by (rule after_atom_members)
  show ?case
    using Cons.prems after
    by (intro looped_step)
      (auto simp: wp_simps frame_def Let_def intro!: read_intros atom Cons.IH split: if_split_asm)
qed

lemma read_parse_union:
  assumes "ahead p = TOp Pipe # type_tokens t @ trailed [TOp Pipe] type_tokens ts @ rest" "rest \<noteq> []"
    "after_type (hd rest)" "list_all plain_type (t # ts)" "list_all (\<lambda>t. \<not> is_union t) (t # ts)"
    "list_all (\<lambda>t. \<not> ends_in_result t) (butlast (t # ts))"
    "3 * length (type_tokens t @ trailed [TOp Pipe] type_tokens ts) + 1 \<le> w"
    "depth p \<le> max_parser_depth"
    and "\<And>t' q. frame p q \<Longrightarrow> ahead q = rest \<Longrightarrow>
      bare_type t' = MkType (TyUnion (bare_type first # t # ts)) () \<Longrightarrow> Q t' q"
  shows "wp never (parse_union E first) Q p"
proof -
  note atom = read_type_atom [of _ t "trailed [TOp Pipe] type_tokens ts @ rest"]
  have after: "after_atom t (hd (trailed [TOp Pipe] type_tokens ts @ rest))"
    using assms(3,6) by (rule after_atom_members)
  show ?thesis
    unfolding parse_union_def
    by (rule read_loop, rule looped_step)
      (use assms after in \<open>auto simp: wp_simps frame_def Let_def intro!: read_intros atom looped_union split: if_split_asm\<close>)
qed

lemma read_parse_type:
  assumes "plain_type t" "3 * length (type_tokens t) + 1 \<le> w"
  shows "reads (parse_type E) 0 (type_tokens t) after_type (\<lambda>t'. bare_type t' = t)"
proof (rule readsI)
  fix p rest
  assume p: "ahead p = type_tokens t @ rest" "rest \<noteq> []" "after_type (hd rest)"
    "depth p + 0 \<le> max_parser_depth"
  show "wp never (parse_type E) (\<lambda>t' q. frame p q \<and> ahead q = rest \<and> bare_type t' = t) p"
  proof (cases "is_union t")
    case False
    have "after_atom t (hd rest)" using p(3) by (simp add: after_atom_def after_type_def)
    with False p assms show ?thesis
      unfolding parse_type_def parse_union_def
      by (cases rest) (auto simp: wp_simps frame_def after_type_def
          intro!: read_type_atom [of _ t rest] read_loop looped_step)
  next
    case True
    then obtain a b ts where t: "t = MkType (TyUnion (a # b # ts)) ()"
      using assms(1) by (cases t; cases "type_kind_of t"; simp add: is_union_def)
        (metis One_nat_def Suc_1 Suc_le_length_iff)
    have "after_atom a (TOp Pipe)" using assms(1) by (auto simp: t after_atom_def)
    with p assms show ?thesis
      unfolding parse_type_def
      by (auto simp: wp_simps frame_def t intro!: read_type_atom [of _ a] read_parse_union [of _ b ts])
  qed
qed

lemma read_array_type:
  assumes "ahead p = type_tokens elem @ [TOp Semicolon, TInt (dec_digits len), TOp RBracket] @ rest"
    "plain_type elem" "len < 2 ^ 64" "3 * length (type_tokens elem) + 2 \<le> w"
    "rest \<noteq> []" "depth p \<le> max_parser_depth"
    and "\<And>t' q. frame p q \<Longrightarrow> ahead q = rest \<Longrightarrow> bare_type t' = MkType (TyArray elem len) () \<Longrightarrow> Q t' q"
  shows "wp never (parse_array_type E start) Q p"
  unfolding parse_array_type_def
  using assms
  by (auto simp: wp_simps frame_def Let_def after_type_def parse_usize_dec
      intro!: read_intros read_type [of _ elem])

lemma read_paren_type:
  assumes "ahead p = commas (map type_tokens ts) @ tail @ TOp RParen # rest"
    "tail = [] \<or> ts \<noteq> [] \<and> tail = [TOp Comma]" "list_all plain_type ts"
    "3 * length (commas (map type_tokens ts)) + 2 \<le> w" "rest \<noteq> []" "hd rest \<noteq> TOp Arrow"
    "depth p \<le> max_parser_depth"
    and "\<And>t' q. frame p q \<Longrightarrow> ahead q = rest \<Longrightarrow> bare_type t' = MkType (TyTuple ts) () \<Longrightarrow> Q t' q"
  shows "wp never (parse_paren_type E start) Q p"
  unfolding parse_paren_type_def
  using assms
  by (cases rest) (auto simp: wp_simps frame_def intro!: read_intros read_type_list [of _ ts tail])

lemma read_fn_type:
  assumes "ahead p = commas (map type_tokens ts) @ TOp RParen # TOp Arrow # type_tokens ret @ rest"
    "list_all plain_type ts" "plain_type ret"
    "3 * length (commas (map type_tokens ts)) + 2 \<le> w" "3 * length (type_tokens ret) + 2 \<le> w"
    "rest \<noteq> []" "after_type (hd rest)" "depth p \<le> max_parser_depth"
    and "\<And>t' q. frame p q \<Longrightarrow> ahead q = rest \<Longrightarrow> bare_type t' = MkType (TyFn ts ret) () \<Longrightarrow> Q t' q"
  shows "wp never (parse_paren_type E start) Q p"
  unfolding parse_paren_type_def
  using assms type_tokens_start(1) [of ret]
  by (auto simp: wp_simps frame_def intro!: read_intros read_type_list [of _ ts "[]"] read_type [of _ ret])

lemma read_named_type:
  assumes "ahead p = dotted path @ rest" "path \<noteq> []" "rest \<noteq> []" "hd rest \<notin> {TOp Dot, TOp LBracket}"
    and "\<And>t' q. frame p q \<Longrightarrow> ahead q = rest \<Longrightarrow> bare_type t' = MkType (TyName path) () \<Longrightarrow> Q t' q"
  shows "wp never (parse_named_type E start) Q p"
  unfolding parse_named_type_def
  using assms by (cases rest) (auto simp: wp_simps frame_def intro!: read_intros)

lemma read_generic_type:
  assumes "ahead p = dotted base @ TOp LBracket # commas (map type_tokens ts) @ TOp RBracket # rest"
    "base \<noteq> []" "list_all plain_type ts" "3 * length (commas (map type_tokens ts)) + 2 \<le> w"
    "rest \<noteq> []" "depth p \<le> max_parser_depth"
    and "\<And>t' q. frame p q \<Longrightarrow> ahead q = rest \<Longrightarrow> bare_type t' = MkType (TyGeneric base ts) () \<Longrightarrow> Q t' q"
  shows "wp never (parse_named_type E start) Q p"
  unfolding parse_named_type_def
  using assms
  by (auto simp: wp_simps frame_def intro!: read_intros read_type_list [of _ ts "[]"])

lemma read_parse_type_atom:
  assumes "plain_type t" "\<not> is_union t" "3 * length (type_tokens t) \<le> w"
  shows "reads (parse_type_atom E) 0 (type_tokens t) (after_atom t) (\<lambda>t'. bare_type t' = t)"
proof (rule readsI)
  fix p rest
  assume p: "ahead p = type_tokens t @ rest" "rest \<noteq> []" "after_atom t (hd rest)"
    "depth p + 0 \<le> max_parser_depth"
  obtain k where t: "t = MkType k ()" by (cases t) auto
  have name: "\<exists>ks. dotted path = name_token (hd path) # ks" if "path \<noteq> []" for path
    using that by (cases path) (simp_all add: dotted_def)
  show "wp never (parse_type_atom E) (\<lambda>t' q. frame p q \<and> ahead q = rest \<and> bare_type t' = t) p"
  proof (cases k)
    case (TyName path)
    show ?thesis
    proof (cases "path = [''None'']")
      case True
      with p TyName show ?thesis
        unfolding parse_type_atom_def by (auto simp: t wp_simps frame_def intro!: read_intros)
    next
      case False
      with TyName p assms(1) name [of path] show ?thesis
        unfolding parse_type_atom_def
        by (auto simp: t wp_simps frame_def after_atom_def name_token_def split: if_split_asm
            intro!: read_named_type [of _ path rest])
    qed
  next
    case (TyGeneric base args)
    with p assms name [of base] show ?thesis
      unfolding parse_type_atom_def
      by (auto simp: t wp_simps frame_def name_token_def split: if_split_asm
          intro!: read_generic_type [of _ base args rest])
  next
    case (TyFn args ret)
    with p assms show ?thesis
      unfolding parse_type_atom_def
      by (auto simp: t wp_simps frame_def after_atom_def after_type_def
          intro!: read_intros read_fn_type [of _ args ret rest])
  next
    case (TyTuple ts)
    with p assms show ?thesis
      unfolding parse_type_atom_def
      by (auto simp: t wp_simps frame_def after_atom_def split: if_split_asm intro!: read_intros
          read_paren_type [of _ ts "if length ts = 1 then [TOp Comma] else []" rest])
  next
    case (TyRef inner)
    with p assms show ?thesis
      unfolding parse_type_atom_def
      by (auto simp: t wp_simps frame_def after_atom_def intro!: read_intros
          read_type_atom [of _ inner rest])
  next
    case (TyArray elem len)
    with p assms show ?thesis
      unfolding parse_type_atom_def
      by (auto simp: t wp_simps frame_def intro!: read_intros read_array_type [of _ elem len rest])
  qed (use assms in \<open>simp add: t is_union_def\<close>)
qed

lemma next_type_reads: "type_reads (Suc w) (next_entry E)"
  by unfold_locales (simp_all add: next_entry_def read_parse_type read_parse_type_atom)

end

lemma entries_type_reads: "type_reads n (entries h n)"
  by (induction n) (simp_all add: type_reads.next_type_reads, unfold_locales, simp_all)

interpretation entry_types: type_reads n "entries h n" for n h
  by (rule entries_type_reads)

end
