(* ===== verification/Unparse_Tokens.thy ===== *)
theory Unparse_Tokens
  imports Parser_Reads_Type
begin

text \<open>
  Expressions as the unparser writes them, token by token; which expressions are written without
  ambiguity, and how deep the parser nests when it reads them.
\<close>

section \<open>Tokens of written expressions\<close>

primrec literal_token :: "literal \<Rightarrow> token_kind" where
  "literal_token (LitInt s) = TInt s"
| "literal_token (LitFloat s) = TFloat s"
| "literal_token (LitImag s) = TImag s"
| "literal_token (LitStr s) = TStr s \<lparr>raw = False, is_bytes = False\<rparr>"
| "literal_token (LitBytes bs) = TBytes bs bytes_prefix"
| "literal_token (LitBool b) = TKw (if b then KwTrue else KwFalse)"
| "literal_token LitNone = TKw KwNone"

definition binop_token :: "bin_op \<Rightarrow> token_kind" where
  "binop_token op =
     (case op of
        Add \<Rightarrow> TOp Plus | Sub \<Rightarrow> TOp Minus | Mul \<Rightarrow> TOp Star | MatMul \<Rightarrow> TOp At | Div \<Rightarrow> TOp Slash
      | FloorDiv \<Rightarrow> TOp SlashSlash | Mod \<Rightarrow> TOp Percent | Pow \<Rightarrow> TOp StarStar | OpShl \<Rightarrow> TOp Shl
      | OpShr \<Rightarrow> TOp Shr | BitAnd \<Rightarrow> TOp Amp | BitOr \<Rightarrow> TOp Pipe | BitXor \<Rightarrow> TOp Caret
      | OpEq \<Rightarrow> TOp EqEq | OpNotEq \<Rightarrow> TOp NotEq | OpLt \<Rightarrow> TOp Lt | OpLtEq \<Rightarrow> TOp LtEq
      | OpGt \<Rightarrow> TOp Gt | OpGtEq \<Rightarrow> TOp GtEq | OpAnd \<Rightarrow> TKw KwAnd | OpOr \<Rightarrow> TKw KwOr
      | OpIn \<Rightarrow> TKw KwIn | NotIn \<Rightarrow> TKw KwNot)"

definition unaryop_token :: "unary_op \<Rightarrow> token_kind" where
  "unaryop_token op =
     (case op of UPlus \<Rightarrow> TOp Plus | Neg \<Rightarrow> TOp Minus | BitNot \<Rightarrow> TOp Tilde | UNot \<Rightarrow> TKw KwNot)"

text \<open>The forms below are over the tokens of their subexpressions.\<close>

type_synonym kinds = "token_kind list"

definition enclosed :: "op \<Rightarrow> kinds \<Rightarrow> op \<Rightarrow> kinds" where
  "enclosed open ks close = TOp open # ks @ [TOp close]"

primrec dict_entry_tokens :: "kinds dict_entry \<Rightarrow> kinds" where
  "dict_entry_tokens (DPair k v) = k @ TOp Colon # v"
| "dict_entry_tokens (DSpread e) = TOp StarStar # e"

primrec collection_tokens :: "kinds collection_lit \<Rightarrow> kinds" where
  "collection_tokens (CTuple es) =
     enclosed LParen (commas es @ (if length es = 1 then [TOp Comma] else [])) RParen"
| "collection_tokens (CList es) = enclosed LBracket (commas es) RBracket"
| "collection_tokens (CSet es) = enclosed LBrace (commas es) RBrace"
| "collection_tokens (CDict pairs) = enclosed LBrace (commas (map dict_entry_tokens pairs)) RBrace"

primrec call_arg_tokens :: "kinds call_arg \<Rightarrow> kinds" where
  "call_arg_tokens (Positional e) = e"
| "call_arg_tokens (Keyword n e) = TIdent n # TOp Eq # e"
| "call_arg_tokens (StarArgs e) = TOp Star # e"
| "call_arg_tokens (StarStarKwargs e) = TOp StarStar # e"

definition optional :: "kinds \<Rightarrow> kinds option \<Rightarrow> kinds" where
  "optional sep ks = (case ks of None \<Rightarrow> [] | Some ks' \<Rightarrow> sep @ ks')"

primrec index_tokens :: "kinds index_kind \<Rightarrow> kinds" where
  "index_tokens (IndexExpr e) = e"
| "index_tokens (Slice start stop step) =
     optional [] start @ TOp Colon # optional [] stop @ optional [TOp Colon] step"
| "index_tokens (IndexTuple is) = commas (map index_tokens is)"

primrec expr_tokens :: "'s expr \<Rightarrow> kinds"
  and expr_kind_tokens :: "'s expr_kind \<Rightarrow> kinds" where
  "expr_tokens (MkExpr k s) = expr_kind_tokens k"
| "expr_kind_tokens (ELiteral l) = [literal_token l]"
| "expr_kind_tokens (EName n) = [TIdent n]"
| "expr_kind_tokens (ECollection c) = collection_tokens (map_collection_lit expr_tokens c)"
| "expr_kind_tokens (ECall callee args) =
     expr_tokens callee @
     enclosed LParen (commas (map call_arg_tokens (map (map_call_arg expr_tokens) args))) RParen"
| "expr_kind_tokens (EAttribute base name) = expr_tokens base @ [TOp Dot, name_token name]"
| "expr_kind_tokens (EIndex base index) =
     expr_tokens base @ enclosed LBracket (index_tokens (map_index_kind expr_tokens index)) RBracket"
| "expr_kind_tokens (EBinary op lhs rhs) =
     enclosed LParen (expr_tokens lhs @ binop_token op # expr_tokens rhs) RParen"
| "expr_kind_tokens (EUnary op operand) =
     enclosed LParen (unaryop_token op # expr_tokens operand) RParen"
| "expr_kind_tokens (EBorrow operand) = enclosed LParen (TOp Amp # expr_tokens operand) RParen"
| "expr_kind_tokens (EAwait e) = enclosed LParen (TKw KwAwait # expr_tokens e) RParen"
| "expr_kind_tokens (EYield e) =
     enclosed LParen (TKw KwYield # optional [] (map_option expr_tokens e)) RParen"
| "expr_kind_tokens (EYieldFrom e) =
     enclosed LParen (TKw KwYield # TKw KwFrom # expr_tokens e) RParen"
| "expr_kind_tokens (ECast e target) =
     enclosed LParen (expr_tokens e @ TKw KwAs # type_tokens target) RParen"
| "expr_kind_tokens (EIfExpr cond then_branch else_branch) =
     enclosed LParen (expr_tokens then_branch @ TKw KwIf # expr_tokens cond @
       TKw KwElse # expr_tokens else_branch) RParen"
| "expr_kind_tokens (EFString parts) = []"
| "expr_kind_tokens (EComprehension c) = []"
| "expr_kind_tokens (ELambda params body) = []"

section \<open>Plain expressions\<close>

function borrowable :: "'s expr \<Rightarrow> bool" where
  "borrowable (MkExpr k s) =
     (case borrow_base k of
        Some base \<Rightarrow> borrowable base
      | None \<Rightarrow> (case k of EName n \<Rightarrow> True | _ \<Rightarrow> False))"
  by pat_completeness auto

termination
  by (relation "measure size") (auto dest!: borrow_base_size)

definition is_index_tuple :: "'e index_kind \<Rightarrow> bool" where
  "is_index_tuple i \<longleftrightarrow> (case i of IndexTuple is \<Rightarrow> True | _ \<Rightarrow> False)"

primrec plain_index :: "bool index_kind \<Rightarrow> bool" where
  "plain_index (IndexExpr b) = b"
| "plain_index (Slice start stop step) =
     (pred_option id start \<and> pred_option id stop \<and> pred_option id step)"
| "plain_index (IndexTuple is) =
     (2 \<le> length is \<and> list_all plain_index is \<and> list_all (\<lambda>i. \<not> is_index_tuple i) is)"

primrec plain_expr :: "'s expr \<Rightarrow> bool"
  and plain_expr_kind :: "'s expr_kind \<Rightarrow> bool" where
  "plain_expr (MkExpr k s) = plain_expr_kind k"
| "plain_expr_kind (ELiteral l) = True"
| "plain_expr_kind (EName n) = True"
| "plain_expr_kind (ECollection c) =
     (c \<noteq> CSet [] \<and> pred_collection_lit id (map_collection_lit plain_expr c))"
| "plain_expr_kind (ECall callee args) =
     (plain_expr callee \<and> list_all (pred_call_arg id) (map (map_call_arg plain_expr) args))"
| "plain_expr_kind (EAttribute base name) = plain_expr base"
| "plain_expr_kind (EIndex base index) =
     (plain_expr base \<and> plain_index (map_index_kind plain_expr index))"
| "plain_expr_kind (EBinary op lhs rhs) = (op \<noteq> NotIn \<and> plain_expr lhs \<and> plain_expr rhs)"
| "plain_expr_kind (EUnary op operand) = plain_expr operand"
| "plain_expr_kind (EBorrow operand) = (plain_expr operand \<and> borrowable operand)"
| "plain_expr_kind (EAwait e) = plain_expr e"
| "plain_expr_kind (EYield e) = pred_option id (map_option plain_expr e)"
| "plain_expr_kind (EYieldFrom e) = plain_expr e"
| "plain_expr_kind (ECast e target) =
     (plain_expr e \<and> plain_type target \<and> is_cast_type_token (hd (type_tokens target)))"
| "plain_expr_kind (EIfExpr cond then_branch else_branch) =
     (plain_expr cond \<and> plain_expr then_branch \<and> plain_expr else_branch)"
| "plain_expr_kind (EFString parts) = False"
| "plain_expr_kind (EComprehension c) = False"
| "plain_expr_kind (ELambda params body) = False"

section \<open>Nesting\<close>

text \<open>
  The depth the parser reaches inside the guard of an expression: one for each parenthesis and
  one for each operand.
\<close>

primrec max_list :: "nat list \<Rightarrow> nat" where
  "max_list [] = 0"
| "max_list (n # ns) = max n (max_list ns)"

primrec dict_entry_levels :: "nat dict_entry \<Rightarrow> nat" where
  "dict_entry_levels (DPair k v) = max k v"
| "dict_entry_levels (DSpread e) = e"

primrec collection_levels :: "nat collection_lit \<Rightarrow> nat" where
  "collection_levels (CTuple ns) = 2 + max_list ns"
| "collection_levels (CList ns) = 1 + max_list ns"
| "collection_levels (CSet ns) = 1 + max_list ns"
| "collection_levels (CDict ns) = 1 + max_list (map dict_entry_levels ns)"

primrec call_arg_levels :: "nat call_arg \<Rightarrow> nat" where
  "call_arg_levels (Positional n) = n"
| "call_arg_levels (Keyword name n) = n"
| "call_arg_levels (StarArgs n) = n"
| "call_arg_levels (StarStarKwargs n) = n"

definition option_levels :: "nat option \<Rightarrow> nat" where
  "option_levels n = (case n of None \<Rightarrow> 0 | Some m \<Rightarrow> m)"

primrec index_levels :: "nat index_kind \<Rightarrow> nat" where
  "index_levels (IndexExpr n) = n"
| "index_levels (Slice start stop step) =
     max (option_levels start) (max (option_levels stop) (option_levels step))"
| "index_levels (IndexTuple is) = max_list (map index_levels is)"

primrec levels :: "'s expr \<Rightarrow> nat"
  and kind_levels :: "'s expr_kind \<Rightarrow> nat" where
  "levels (MkExpr k s) = kind_levels k"
| "kind_levels (ELiteral l) = 0"
| "kind_levels (EName n) = 0"
| "kind_levels (ECollection c) = collection_levels (map_collection_lit levels c)"
| "kind_levels (ECall callee args) =
     max (levels callee) (1 + max_list (map call_arg_levels (map (map_call_arg levels) args)))"
| "kind_levels (EAttribute base name) = levels base"
| "kind_levels (EIndex base index) = max (levels base) (1 + index_levels (map_index_kind levels index))"
| "kind_levels (EBinary op lhs rhs) = 2 + max (levels lhs) (1 + levels rhs)"
| "kind_levels (EUnary op operand) = 3 + levels operand"
| "kind_levels (EBorrow operand) = 3 + levels operand"
| "kind_levels (EAwait e) = 3 + levels e"
| "kind_levels (EYield e) = 2 + option_levels (map_option (\<lambda>n. 1 + n) (map_option levels e))"
| "kind_levels (EYieldFrom e) = 3 + levels e"
| "kind_levels (ECast e target) = 2 + levels e"
| "kind_levels (EIfExpr cond then_branch else_branch) =
     2 + max (levels cond) (max (levels then_branch) (levels else_branch))"
| "kind_levels (EFString parts) = 0"
| "kind_levels (EComprehension c) = 0"
| "kind_levels (ELambda params body) = 0"

abbreviation bare_expr :: "'s expr \<Rightarrow> unit expr" where
  "bare_expr \<equiv> map_expr (\<lambda>_. ())"

abbreviation bare_expr_kind :: "'s expr_kind \<Rightarrow> unit expr_kind" where
  "bare_expr_kind \<equiv> map_expr_kind (\<lambda>_. ())"

end
