(* ===== verification/Parser_Reads_Expr.thy ===== *)
theory Parser_Reads_Expr
  imports Unparse_Tokens
begin

text \<open>
  That the parser reads plain expressions back from their tokens, as long as its depth allows.
\<close>

section \<open>What follows and what starts an expression\<close>

definition after_operand :: "token_kind \<Rightarrow> bool" where
  "after_operand k \<longleftrightarrow>
     k \<in> {TOp Comma, TOp RParen, TOp RBracket, TOp RBrace, TOp Colon, TOp Eq, TOp Semicolon,
          TNewline, TEof, TKw KwIf, TKw KwElse, TKw KwFrom, TOp PlusEq, TOp MinusEq, TOp StarEq,
          TOp StarStarEq, TOp SlashEq, TOp SlashSlashEq, TOp PercentEq, TOp AmpEq, TOp PipeEq,
          TOp CaretEq, TOp ShlEq, TOp ShrEq}"

definition after_expr :: "token_kind \<Rightarrow> bool" where
  "after_expr k \<longleftrightarrow> after_operand k \<and> k \<noteq> TKw KwIf"

lemma after_expr_simps [simp]:
  "after_expr (TOp Comma)" "after_expr (TOp RParen)" "after_expr (TOp RBracket)"
  "after_expr (TOp RBrace)" "after_expr (TOp Colon)" "after_expr (TKw KwElse)"
  "after_expr (TOp Eq)" "after_expr TNewline" "after_expr (TKw KwFrom)"
  "after_operand (TKw KwIf)" "after_operand (TKw KwElse)" "after_operand (TOp RParen)"
  by (simp_all add: after_expr_def after_operand_def)

definition starts_atom :: "token_kind \<Rightarrow> bool" where
  "starts_atom k \<longleftrightarrow>
     (case k of
        TIdent _ \<Rightarrow> True | TInt _ \<Rightarrow> True | TFloat _ \<Rightarrow> True | TImag _ \<Rightarrow> True
      | TStr _ _ \<Rightarrow> True | TBytes _ _ \<Rightarrow> True
      | TKw w \<Rightarrow> w \<in> {KwTrue, KwFalse, KwNone}
      | TOp k \<Rightarrow> k \<in> {LParen, LBracket, LBrace}
      | _ \<Rightarrow> False)"

lemma literal_starts: "starts_atom (literal_token l)"
  by (cases l) (simp_all add: starts_atom_def)

lemma enclosed_starts:
  "k \<in> {LParen, LBracket, LBrace} \<Longrightarrow> starts_atom (TOp k)"
  by (auto simp: starts_atom_def)

lemma collection_starts: "\<exists>k ks. collection_tokens c = TOp k # ks \<and> k \<in> {LParen, LBracket, LBrace}"
  by (cases c) (simp_all add: enclosed_def)

text \<open>Induction along the chain of calls, attributes and indices.\<close>

lemma chain_induct [case_names Chain]:
  assumes "\<And>k s. (\<And>callee args. k = ECall callee args \<Longrightarrow> P callee) \<Longrightarrow>
      (\<And>base name. k = EAttribute base name \<Longrightarrow> P base) \<Longrightarrow>
      (\<And>base index. k = EIndex base index \<Longrightarrow> P base) \<Longrightarrow> P (MkExpr k s)"
  shows "P e"
proof (induction e rule: measure_induct_rule [where f = size])
  case (less e)
  then show ?case by (cases e) (auto intro!: assms)
qed

lemma tokens_start: "plain_expr e \<Longrightarrow> \<exists>k ks. expr_tokens e = k # ks \<and> starts_atom k"
proof (induction e rule: chain_induct)
  case (Chain x s)
  then show ?case
  proof (cases x)
    case (ECollection c)
    then show ?thesis
      using collection_starts [of "map_collection_lit expr_tokens c"] enclosed_starts by fastforce
  next
    case (ELiteral l)
    then show ?thesis by (simp add: literal_starts)
  qed (auto simp: enclosed_def starts_atom_def)
qed

text \<open>The second token of an expression is not an equals sign, so no argument looks like a keyword.\<close>

lemma tokens_second:
  "plain_expr e \<Longrightarrow> expr_tokens e = j # k # ks \<Longrightarrow> j \<notin> {TOp LParen, TOp LBracket, TOp LBrace} \<Longrightarrow>
     k \<in> {TOp LParen, TOp Dot, TOp LBracket}"
proof (induction e arbitrary: k ks rule: chain_induct)
  case (Chain x s)
  have *: "k \<in> {TOp LParen, TOp Dot, TOp LBracket}"
    if e: "plain_expr b" "expr_tokens b @ k' # r = j # k # ks" "k' \<in> {TOp LParen, TOp Dot, TOp LBracket}"
      and IH: "\<And>k ks. expr_tokens b = j # k # ks \<Longrightarrow> k \<in> {TOp LParen, TOp Dot, TOp LBracket}" for b k' r
  proof -
    obtain i js where b: "expr_tokens b = i # js" using tokens_start [OF e(1)] by blast
    then show ?thesis using e(2,3) IH by (cases js) auto
  qed
  show ?case
  proof (cases x)
    case (ELiteral l)
    with Chain.prems show ?thesis by simp
  next
    case (ECollection c)
    with Chain.prems show ?thesis
      using collection_starts [of "map_collection_lit expr_tokens c"] by auto
  next
    case (ECall callee args)
    with Chain.prems Chain.IH(1) show ?thesis
      by (intro * [of callee "TOp LParen"]) (auto simp: enclosed_def)
  next
    case (EAttribute base name)
    with Chain.prems Chain.IH(2) show ?thesis by (intro * [of base "TOp Dot"]) auto
  next
    case (EIndex base index)
    with Chain.prems Chain.IH(3) show ?thesis
      by (intro * [of base "TOp LBracket"]) (auto simp: enclosed_def)
  qed (use Chain.prems in \<open>auto simp: enclosed_def\<close>)
qed

lemma operand_at [simp]:
  "plain_expr e \<Longrightarrow> expr_tokens e \<noteq> []"
  "plain_expr e \<Longrightarrow> starts_atom (hd (expr_tokens e))"
  using tokens_start by fastforce+

lemma starts_atomD:
  "starts_atom k \<Longrightarrow> k \<notin> {TOp StarStar, TOp Star, TOp RParen, TOp RBracket, TOp RBrace, TOp Colon,
     TOp Comma, TKw KwNot, TOp Plus, TOp Minus, TOp Tilde, TOp Amp, TKw KwAwait, TKw KwYield,
     TKw KwLambda, TKw KwFrom, TNewline, TEof, TOp Semicolon}"
  by (auto simp: starts_atom_def)

lemma not_keyword_ahead:
  assumes "plain_expr e" "ahead p = expr_tokens e @ rest" "rest \<noteq> []" "hd rest \<noteq> TOp Eq"
  shows "\<not> is_keyword_ahead p"
proof (rule notI)
  assume "is_keyword_ahead p"
  then obtain n where k: "peek_kind p = TIdent n" "peek_at (Suc 0) p = TOp Eq"
    by (auto simp: is_keyword_ahead_def)
  obtain k' ks where e: "expr_tokens e = k' # ks" using tokens_start [OF assms(1)] by blast
  obtain r rs where r: "rest = r # rs" using assms(3) by (cases rest) auto
  show False
  proof (cases ks)
    case Nil
    with assms(2,4) k(2) e r show False by simp
  next
    case (Cons j js)
    with assms(2) k e have "expr_tokens e = TIdent n # TOp Eq # js" by simp
    with tokens_second [OF assms(1)] show False by blast
  qed
qed

section \<open>The contract\<close>

text \<open>The forms that are written in parentheses, as the parser sees them inside these.\<close>

definition is_enclosed :: "'s expr_kind \<Rightarrow> bool" where
  "is_enclosed k \<longleftrightarrow>
     (case k of
        EBinary _ _ _ \<Rightarrow> True | EUnary _ _ \<Rightarrow> True | EBorrow _ \<Rightarrow> True | EAwait _ \<Rightarrow> True
      | EYield _ \<Rightarrow> True | EYieldFrom _ \<Rightarrow> True | ECast _ _ \<Rightarrow> True | EIfExpr _ _ _ \<Rightarrow> True
      | _ \<Rightarrow> False)"

definition is_ternary :: "'s expr_kind \<Rightarrow> bool" where
  "is_ternary k \<longleftrightarrow> (case k of EIfExpr _ _ _ \<Rightarrow> True | _ \<Rightarrow> False)"

abbreviation bare_kind_is :: "unit expr_kind \<Rightarrow> 's expr \<Rightarrow> bool" where
  "bare_kind_is k e \<equiv> bare_expr_kind (expr_kind_of e) = k"

locale expr_reads = type_reads +
  assumes reads_expr: "plain_expr e \<Longrightarrow> 3 * length (expr_tokens e) + 2 \<le> w \<Longrightarrow>
      reads (e_expr E) (1 + levels e) (expr_tokens e) after_expr (\<lambda>e'. bare_expr e' = e)"
    and reads_pratt: "plain_expr e \<Longrightarrow> 3 * length (expr_tokens e) + 1 \<le> w \<Longrightarrow>
      reads (e_pratt E lo) (1 + levels e) (expr_tokens e) after_operand (\<lambda>e'. bare_expr e' = e)"
    and reads_inner: "plain_expr_kind k \<Longrightarrow> is_enclosed k \<Longrightarrow>
      expr_kind_tokens k = enclosed LParen ks RParen \<Longrightarrow> 3 * length ks + 2 \<le> w \<Longrightarrow>
      reads (e_expr E) (kind_levels k - 1) ks (\<lambda>k. k = TOp RParen) (bare_kind_is k)"
    and reads_inner_pratt: "plain_expr_kind k \<Longrightarrow> is_enclosed k \<Longrightarrow> \<not> is_ternary k \<Longrightarrow>
      expr_kind_tokens k = enclosed LParen ks RParen \<Longrightarrow> 3 * length ks + 1 \<le> w \<Longrightarrow>
      reads (e_pratt E 0) (kind_levels k - 1) ks (\<lambda>k. k = TOp RParen) (bare_kind_is k)"

lemma reads_mono:
  "reads f n ks F P \<Longrightarrow> n \<le> m \<Longrightarrow> (\<And>k. G k \<Longrightarrow> F k) \<Longrightarrow> reads f m ks G P"
  unfolding reads_def by (meson add_left_mono le_trans)

lemma max_list_member: "n \<in> set ns \<Longrightarrow> n \<le> max_list ns"
  by (induction ns) auto

context expr_reads begin

lemma read_expr:
  assumes "ahead p = expr_tokens e @ rest" "plain_expr e" "3 * length (expr_tokens e) + 2 \<le> w"
    "rest \<noteq> []" "after_expr (hd rest)" "depth p + 1 + levels e \<le> max_parser_depth"
    and "\<And>e' q. frame p q \<Longrightarrow> ahead q = rest \<Longrightarrow> bare_expr e' = e \<Longrightarrow> Q e' q"
  shows "wp never (e_expr E) Q p"
  by (rule read [OF reads_expr]) (use assms in auto)

lemma read_pratt:
  assumes "ahead p = expr_tokens e @ rest" "plain_expr e" "3 * length (expr_tokens e) + 1 \<le> w"
    "rest \<noteq> []" "after_operand (hd rest)" "depth p + 1 + levels e \<le> max_parser_depth"
    and "\<And>e' q. frame p q \<Longrightarrow> ahead q = rest \<Longrightarrow> bare_expr e' = e \<Longrightarrow> Q e' q"
  shows "wp never (e_pratt E lo) Q p"
  by (rule read [OF reads_pratt]) (use assms in auto)

section \<open>Calls\<close>

abbreviation bare_call_arg :: "'s expr call_arg \<Rightarrow> unit expr call_arg" where
  "bare_call_arg \<equiv> map_call_arg bare_expr"

lemma reads_call_arg:
  assumes "pred_call_arg plain_expr a" "3 * length (call_arg_tokens (map_call_arg expr_tokens a)) + 2 \<le> w"
  shows "reads (parse_call_arg E) (1 + call_arg_levels (map_call_arg levels a))
    (call_arg_tokens (map_call_arg expr_tokens a)) (\<lambda>k. k \<in> {TOp Comma, TOp RParen})
    (\<lambda>a'. bare_call_arg a' = a)"
proof (rule readsI)
  fix p rest
  assume p: "ahead p = call_arg_tokens (map_call_arg expr_tokens a) @ rest" "rest \<noteq> []"
    "hd rest \<in> {TOp Comma, TOp RParen}"
    "depth p + (1 + call_arg_levels (map_call_arg levels a)) \<le> max_parser_depth"
  then have after: "after_expr (hd rest)" by auto
  show "wp never (parse_call_arg E) (\<lambda>a' q. frame p q \<and> ahead q = rest \<and> bare_call_arg a' = a) p"
  proof (cases a)
    case (Positional e)
    with assms(1) have e: "plain_expr e" by simp
    then obtain k ks where k: "expr_tokens e = k # ks" "starts_atom k" using tokens_start by blast
    have "\<not> is_keyword_ahead p" using not_keyword_ahead [OF e _ p(2)] p(1,3) Positional by auto
    with Positional k e p after assms(2) starts_atomD [OF k(2)] show ?thesis
      unfolding parse_call_arg_def
      by (auto simp: wp_simps frame_def intro!: read_expr [of _ e rest])
  next
    case (Keyword n e)
    with p after assms show ?thesis
      unfolding parse_call_arg_def
      by (auto simp: wp_simps frame_def is_keyword_ahead_def expect_ident_def
          intro!: read_intros read_expr [of _ e rest])
  next
    case (StarArgs e)
    with p after assms show ?thesis
      unfolding parse_call_arg_def
      by (auto simp: wp_simps frame_def intro!: read_intros read_expr [of _ e rest])
  next
    case (StarStarKwargs e)
    with p after assms show ?thesis
      unfolding parse_call_arg_def
      by (auto simp: wp_simps frame_def intro!: read_intros read_expr [of _ e rest])
  qed
qed

lemma call_arg_start:
  "pred_call_arg plain_expr a \<Longrightarrow> call_arg_tokens (map_call_arg expr_tokens a) \<noteq> [] \<and>
     hd (call_arg_tokens (map_call_arg expr_tokens a)) \<noteq> TOp RParen"
  using starts_atomD [OF operand_at(2)] by (cases a) auto

lemma read_call_args:
  assumes "ahead p = commas (map (call_arg_tokens \<circ> map_call_arg expr_tokens) args) @ TOp RParen # rest"
    "rest \<noteq> []" "list_all (pred_call_arg plain_expr) args"
    "3 * length (commas (map (call_arg_tokens \<circ> map_call_arg expr_tokens) args)) + 2 \<le> w"
    "depth p + 1 + max_list (map (call_arg_levels \<circ> map_call_arg levels) args) \<le> max_parser_depth"
    and "\<And>as q. frame p q \<Longrightarrow> ahead q = TOp RParen # rest \<Longrightarrow> map bare_call_arg as = args \<Longrightarrow> Q as q"
  shows "wp never (parse_call_args E) Q p"
  unfolding parse_call_args_def
proof (rule read_loop, rule looped_items [where tail = "[]" and erase = bare_call_arg and
      n = "1 + max_list (map (call_arg_levels \<circ> map_call_arg levels) args)" and
      tok = "call_arg_tokens \<circ> map_call_arg expr_tokens" and after = "\<lambda>k. k \<in> {TOp Comma, TOp RParen}"])
  fix a assume a: "a \<in> set args"
  then have pa: "pred_call_arg plain_expr a" using assms(3) by (simp add: list_all_iff)
  have "length ((call_arg_tokens \<circ> map_call_arg expr_tokens) a) \<le>
      length (commas (map (call_arg_tokens \<circ> map_call_arg expr_tokens) args))"
    unfolding commas_def by (rule length_join_with [OF a])
  then have "reads (parse_call_arg E) (1 + call_arg_levels (map_call_arg levels a))
      (call_arg_tokens (map_call_arg expr_tokens a)) (\<lambda>k. k \<in> {TOp Comma, TOp RParen})
      (\<lambda>a'. bare_call_arg a' = a)"
    using assms(4) by (intro reads_call_arg pa) simp
  then show "reads (parse_call_arg E) (1 + max_list (map (call_arg_levels \<circ> map_call_arg levels) args))
      ((call_arg_tokens \<circ> map_call_arg expr_tokens) a) (\<lambda>k. k \<in> {TOp Comma, TOp RParen})
      (\<lambda>a'. bare_call_arg a' = a)"
    unfolding o_def by (rule reads_mono) (use a in \<open>auto intro!: max_list_member\<close>)
  show "(call_arg_tokens \<circ> map_call_arg expr_tokens) a \<noteq> [] \<and>
      hd ((call_arg_tokens \<circ> map_call_arg expr_tokens) a) \<noteq> TOp RParen"
    using call_arg_start [OF pa] by simp
qed (use assms in \<open>simp_all add: commas_def\<close>)

section \<open>Indices\<close>

abbreviation bare_index :: "'s expr index_kind \<Rightarrow> unit expr index_kind" where
  "bare_index \<equiv> map_index_kind bare_expr"

lemma read_optionally:
  assumes "ahead p = optional [] (map_option expr_tokens oe) @ rest" "rest \<noteq> []" "after_expr (hd rest)"
    "pred_option plain_expr oe" "3 * length (optional [] (map_option expr_tokens oe)) + 2 \<le> w"
    "depth p + 1 + option_levels (map_option levels oe) \<le> max_parser_depth" "c \<longleftrightarrow> oe \<noteq> None"
    and "\<And>oe' q. frame p q \<Longrightarrow> ahead q = rest \<Longrightarrow> map_option bare_expr oe' = oe \<Longrightarrow> Q oe' q"
  shows "wp never (optionally c (e_expr E)) Q p"
proof (cases oe)
  case None
  with assms show ?thesis by (simp add: wp_simps optional_def)
next
  case (Some e)
  with assms show ?thesis
    by (auto simp: wp_simps optional_def option_levels_def intro!: read_expr [of _ e rest])
qed

lemma optional_peek:
  assumes "ahead p = optional [] (map_option expr_tokens oe) @ r # rest" "pred_option plain_expr oe"
    "\<not> starts_atom k"
  shows "peek_kind p = k \<longleftrightarrow> oe = None \<and> r = k"
proof (cases oe)
  case (Some e)
  with assms tokens_start [of e] show ?thesis by (auto simp: optional_def)
qed (use assms in \<open>auto simp: optional_def\<close>)

definition after_index :: "token_kind \<Rightarrow> bool" where
  "after_index k \<longleftrightarrow> k \<in> {TOp Comma, TOp RBracket}"

lemma reads_index_one:
  assumes "plain_index (map_index_kind plain_expr i)" "\<not> is_index_tuple i"
    "3 * length (index_tokens (map_index_kind expr_tokens i)) + 2 \<le> w"
  shows "reads (parse_index_one E) (1 + index_levels (map_index_kind levels i))
    (index_tokens (map_index_kind expr_tokens i)) after_index (\<lambda>i'. bare_index i' = i)"
proof (rule readsI)
  fix p rest
  assume p: "ahead p = index_tokens (map_index_kind expr_tokens i) @ rest" "rest \<noteq> []"
    "after_index (hd rest)"
    "depth p + (1 + index_levels (map_index_kind levels i)) \<le> max_parser_depth"
  then obtain r rs where r: "rest = r # rs" "r = TOp Comma \<or> r = TOp RBracket"
    by (cases rest) (auto simp: after_index_def)
  have start: "\<exists>k ks. expr_tokens e = k # ks \<and> k \<noteq> TOp Colon \<and> k \<noteq> TOp RBracket \<and> k \<noteq> TOp Comma"
    if "plain_expr e" for e :: "unit expr"
    using tokens_start [OF that] by (auto simp: starts_atom_def)
  show "wp never (parse_index_one E) (\<lambda>i' q. frame p q \<and> ahead q = rest \<and> bare_index i' = i) p"
  proof (cases i)
    case (IndexExpr e)
    with assms start [of e] p r show ?thesis
      unfolding parse_index_one_def
      by (auto simp: wp_simps frame_def intro!: read_expr [of _ e rest])
  next
    case (Slice lower upper step)
    let ?o = "\<lambda>oe. optional [] (map_option expr_tokens oe)"
    have plain: "pred_option plain_expr lower" "pred_option plain_expr upper" "pred_option plain_expr step"
      using assms(1) Slice by (simp_all add: option.pred_map)
    define step_tokens where "step_tokens = optional [TOp Colon] (map_option expr_tokens step)"
    have w: "3 * length (?o lower) + 2 \<le> w" "3 * length (?o upper) + 2 \<le> w" "3 * length (?o step) + 2 \<le> w"
      using assms(3) Slice by (auto simp: optional_def split: option.splits)
    have d: "depth p + 1 + option_levels (map_option levels lower) \<le> max_parser_depth"
      "depth p + 1 + option_levels (map_option levels upper) \<le> max_parser_depth"
      "depth p + 1 + option_levels (map_option levels step) \<le> max_parser_depth"
      using p(4) Slice by auto
    have ahead: "ahead p = ?o lower @ TOp Colon # ?o upper @ step_tokens @ rest"
      using p(1) Slice by (simp add: step_tokens_def)
    have no_colon: "\<not> starts_atom (TOp Colon)" "\<not> starts_atom (TOp RBracket)" "\<not> starts_atom (TOp Comma)"
      by (simp_all add: starts_atom_def)
    have after: "after_expr (hd (step_tokens @ rest))"
      using r by (auto simp: step_tokens_def optional_def split: option.split)
    have step: "step_tokens = (case step of None \<Rightarrow> [] | Some e \<Rightarrow> TOp Colon # expr_tokens e)"
      by (simp add: step_tokens_def optional_def split: option.split)
    have low: "peek_kind p = TOp Colon \<longleftrightarrow> lower = None"
      using optional_peek [OF ahead plain(1) no_colon(1)] by simp
    have up: "peek_kind q \<notin> {TOp Colon, TOp RBracket, TOp Comma} \<longleftrightarrow> upper \<noteq> None"
      if q: "ahead q = ?o upper @ step_tokens @ rest" for q
    proof -
      obtain c cs where c: "step_tokens @ rest = c # cs" "c \<in> {TOp Colon, TOp RBracket, TOp Comma}"
        using r step by (cases step) auto
      show ?thesis
        using optional_peek [of q upper c cs, OF _ plain(2)] no_colon q c by auto
    qed
    have last: "wp never (look (at (TOp Colon)) (\<lambda>stepped.
        if stepped then pseq bump (look peek_kind (\<lambda>k.
          pbind (optionally (k \<notin> {TOp RBracket, TOp Comma}) (e_expr E)) (\<lambda>e. pret (Slice a b e))))
        else pret (Slice a b None))) (\<lambda>i' q. frame p q \<and> ahead q = rest \<and> bare_index i' = i) q"
      if q: "frame p q" "ahead q = step_tokens @ rest" "map_option bare_expr a = lower"
        "map_option bare_expr b = upper" for a b q
    proof (cases step)
      case None
      with q r show ?thesis by (auto simp: wp_simps Slice local.step)
    next
      case (Some e)
      with q r d(3) w(3) plain(3) tokens_start [of e] show ?thesis
        by (auto simp: wp_simps frame_def Slice local.step option_levels_def optional_def
            starts_atom_def intro!: read_intros read_expr [of _ e rest])
    qed
    have middle: "wp never (look peek_kind (\<lambda>k.
        pbind (optionally (k \<notin> {TOp Colon, TOp RBracket, TOp Comma}) (e_expr E)) (\<lambda>b.
        look (at (TOp Colon)) (\<lambda>stepped.
        if stepped then pseq bump (look peek_kind (\<lambda>k.
          pbind (optionally (k \<notin> {TOp RBracket, TOp Comma}) (e_expr E)) (\<lambda>e. pret (Slice a b e))))
        else pret (Slice a b None))))) (\<lambda>i' q. frame p q \<and> ahead q = rest \<and> bare_index i' = i) q"
      if q: "frame p q" "ahead q = ?o upper @ step_tokens @ rest" "map_option bare_expr a = lower" for a q
      by (rule wp_stepI, rule wp_stepI, rule read_optionally [OF q(2) _ after plain(2) w(2)],
        use r in \<open>simp\<close>, use q d(2) in \<open>simp add: frame_def\<close>, use up [OF q(2)] in \<open>simp\<close>,
        rule last, rule frame_trans [OF q(1)], assumption, assumption, rule q(3), assumption)
    show ?thesis
      unfolding parse_index_one_def
      by (rule wp_stepI, rule wp_stepI, rule read_optionally [OF ahead _ _ plain(1) w(1) d(1)],
        simp, simp, use low in \<open>simp\<close>, rule wp_stepI, subst if_P, simp, rule wp_stepI,
        rule read_bump, assumption, use r in \<open>simp\<close>, rule middle, erule (1) frame_trans, assumption+)
  qed (use assms in \<open>simp add: is_index_tuple_def\<close>)
qed

lemma index_tokens_start:
  assumes "plain_index (map_index_kind plain_expr i)" "\<not> is_index_tuple i"
  shows "index_tokens (map_index_kind expr_tokens i) \<noteq> [] \<and>
    hd (index_tokens (map_index_kind expr_tokens i)) \<noteq> TOp RBracket"
proof (cases i)
  case (IndexExpr e)
  with assms tokens_start [of e] show ?thesis by (auto simp: starts_atom_def)
next
  case (Slice lower upper step)
  then show ?thesis
    using assms tokens_start [of "the lower"]
    by (cases lower) (auto simp: optional_def starts_atom_def)
qed (use assms in \<open>simp add: is_index_tuple_def\<close>)

lemma read_index:
  assumes "ahead p = index_tokens (map_index_kind expr_tokens i) @ TOp RBracket # rest" "rest \<noteq> []"
    "plain_index (map_index_kind plain_expr i)"
    "3 * length (index_tokens (map_index_kind expr_tokens i)) + 2 \<le> w"
    "depth p + 1 + index_levels (map_index_kind levels i) \<le> max_parser_depth"
    and "\<And>i' q. frame p q \<Longrightarrow> ahead q = TOp RBracket # rest \<Longrightarrow> bare_index i' = i \<Longrightarrow> Q i' q"
  shows "wp never (parse_index E) Q p"
proof (cases i)
  case (IndexTuple js)
  let ?tok = "\<lambda>j. index_tokens (map_index_kind expr_tokens j)"
  let ?n = "1 + max_list (map (\<lambda>j. index_levels (map_index_kind levels j)) js)"
  obtain j ks where js: "js = j # ks" "ks \<noteq> []"
    using assms(3) IndexTuple by (cases js; cases "tl js") auto
  have plain: "plain_index (map_index_kind plain_expr x)" "\<not> is_index_tuple x" if "x \<in> set js" for x
    using assms(3) IndexTuple that
    by (auto simp: list_all_iff is_index_tuple_def split: index_kind.splits)
  have reads: "reads (parse_index_one E) ?n (?tok x) after_index (\<lambda>i'. bare_index i' = x)"
    if x: "x \<in> set js" for x
  proof (rule reads_mono)
    have "length (?tok x) \<le> length (commas (map ?tok js))"
      unfolding commas_def by (rule length_join_with [OF x])
    then show "reads (parse_index_one E) (1 + index_levels (map_index_kind levels x)) (?tok x)
        after_index (\<lambda>i'. bare_index i' = x)"
      using assms(4) IndexTuple plain [OF x] by (intro reads_index_one) (simp_all add: o_def)
    show "1 + index_levels (map_index_kind levels x) \<le> ?n"
      using x by (auto intro!: max_list_member)
  qed
  have start: "?tok x \<noteq> [] \<and> hd (?tok x) \<noteq> TOp RBracket" if "x \<in> set js" for x
    by (rule index_tokens_start [OF plain [OF that]])
  have ahead: "ahead p = ?tok j @ trailed [TOp Comma] ?tok ks @ TOp RBracket # rest"
    using assms(1) IndexTuple js(1) by (simp add: commas_def o_def)
  have depth: "depth p + ?n \<le> max_parser_depth" using assms(5) IndexTuple by (simp add: o_def)
  show ?thesis
    unfolding parse_index_def
  proof (rule wp_stepI, rule read [OF reads [of j] ahead])
    fix i' :: "span expr index_kind" and q
    assume q: "frame p q" "ahead q = trailed [TOp Comma] ?tok ks @ TOp RBracket # rest" "bare_index i' = j"
    have "looped (\<lambda>as. pbind (eat (TOp Comma)) (\<lambda>comma.
        if \<not> comma then break_with as
        else look (at (TOp RBracket)) (\<lambda>stop.
          if stop then break_with as else pbind (parse_index_one E) (\<lambda>a. again (as @ [a])))))
        [i'] (\<lambda>as q. Q (IndexTuple as) q) q"
      by (rule looped_commas [where tail = "[]" and n = ?n and after = after_index and
            erase = bare_index and tok = ?tok and xs = ks])
        (use q assms js start reads depth IndexTuple in \<open>auto simp: frame_def after_index_def\<close>)
    from read_loop [OF this]
    show "wp never (look (at (TOp Comma)) (\<lambda>comma. if \<not> comma then pret i' else
        pmap IndexTuple (loop (\<lambda>items. pbind (eat (TOp Comma)) (\<lambda>more.
          if \<not> more then break_with items
          else look (at (TOp RBracket)) (\<lambda>stop. if stop then break_with items
            else pbind (parse_index_one E) (\<lambda>item. again (items @ [item]))))) [i']))) Q q"
      using q(2) js(2) by (cases ks) (simp_all add: wp_simps)
  qed (use js depth in \<open>cases ks; simp add: after_index_def\<close>)+
qed (use assms in \<open>auto simp: parse_index_def wp_simps frame_def is_index_tuple_def after_index_def
    intro!: read [OF reads_index_one [of i]]\<close>)

end

end
