(* ===== verification/Parser_Reads_Display.thy ===== *)
theory Parser_Reads_Display
  imports Parser_Reads_Expr
begin

text \<open>
  Reading displays: lists, sets, tuples, dictionaries and parenthesised forms.
\<close>

context expr_reads begin

text \<open>A list of expressions with fuel and depth for each.\<close>

definition fits :: "parser \<Rightarrow> unit expr list \<Rightarrow> bool" where
  "fits p es \<longleftrightarrow>
     (\<forall>e \<in> set es. plain_expr e \<and> 3 * length (expr_tokens e) + 2 \<le> w \<and>
        depth p + 1 + levels e \<le> max_parser_depth)"

lemma fits_frame: "frame p q \<Longrightarrow> fits q es \<longleftrightarrow> fits p es"
  by (simp add: fits_def frame_def)

lemma fits_tail: "fits p (e # es) \<Longrightarrow> fits p es"
  by (simp add: fits_def)

lemma fitsI:
  assumes "list_all plain_expr es" "3 * length (commas (map expr_tokens es)) + 2 \<le> w"
    "depth p + 1 + max_list (map levels es) \<le> max_parser_depth"
  shows "fits p es"
  unfolding fits_def
proof (intro ballI conjI)
  fix e assume e: "e \<in> set es"
  then show "plain_expr e" using assms(1) by (simp add: list_all_iff)
  show "3 * length (expr_tokens e) + 2 \<le> w"
    using assms(2) length_join_with [OF e, of expr_tokens "[TOp Comma]"] by (simp add: commas_def)
  have "levels e \<le> max_list (map levels es)" using e by (auto intro!: max_list_member)
  with assms(3) show "depth p + 1 + levels e \<le> max_parser_depth" by simp
qed

lemma fits_reads:
  assumes "fits p es" "e \<in> set es"
  shows "reads (e_expr E) (max_parser_depth - depth p) (expr_tokens e) after_expr (\<lambda>e'. bare_expr e' = e)"
  by (rule reads_mono [OF reads_expr]) (use assms in \<open>auto simp: fits_def\<close>)

lemma fits_start: "fits p es \<Longrightarrow> e \<in> set es \<Longrightarrow> \<not> starts_atom k \<Longrightarrow> expr_tokens e \<noteq> [] \<and> hd (expr_tokens e) \<noteq> k"
  using tokens_start [of e] by (auto simp: fits_def)

lemma read_display_items:
  assumes "ahead p = trailed [TOp Comma] expr_tokens es @ TOp close # rest" "rest \<noteq> []" "fits p es"
    "close \<in> {RParen, RBracket, RBrace}" "depth p \<le> max_parser_depth"
    and "\<And>as q. frame p q \<Longrightarrow> ahead q = TOp close # rest \<Longrightarrow> map bare_expr as = bare_expr e # es \<Longrightarrow> Q as q"
  shows "wp never (parse_display_items E (TOp close) e) Q p"
  unfolding parse_display_items_def
  by (rule read_loop, rule looped_commas [where tail = "[]" and after = after_expr and
        erase = bare_expr and n = "max_parser_depth - depth p", OF _ _ _ _ _ _ _ fits_reads [OF assms(3)]
        fits_start [OF assms(3)]])
    (use assms in \<open>auto simp: starts_atom_def\<close>)

lemma read_close_with:
  assumes "ahead p = TOp close # rest" "rest \<noteq> []"
    and "\<And>e q. frame p q \<Longrightarrow> ahead q = rest \<Longrightarrow> bare_expr e = MkExpr (bare_expr_kind k) () \<Longrightarrow> Q e q"
  shows "wp never (close_with (TOp close) start k) Q p" "wp never (close_empty start k) Q p"
  using assms by (auto simp: close_with_def close_empty_def wp_simps intro!: read_intros)

text \<open>The first element of a display, the test for a comprehension, and the rest up to the bracket.\<close>

lemma read_display:
  assumes "ahead p = commas (map expr_tokens (e # es)) @ TOp close # rest" "rest \<noteq> []" "fits p (e # es)"
    "close \<in> {RParen, RBracket, RBrace}" "depth p \<le> max_parser_depth"
    and "\<And>as q. frame p q \<Longrightarrow> ahead q = TOp close # rest \<Longrightarrow> map bare_expr as = e # es \<Longrightarrow> Q as q"
  shows "wp never (e_expr E) (\<lambda>first q. peek_kind q \<noteq> TKw KwFor \<and> peek_kind q \<noteq> TOp Colon \<and>
    wp never (parse_display_items E (TOp close) first) Q q) p"
proof (rule read_expr [of _ e "trailed [TOp Comma] expr_tokens es @ TOp close # rest"])
  show "ahead p = expr_tokens e @ trailed [TOp Comma] expr_tokens es @ TOp close # rest"
    using assms(1) by (simp add: commas_def)
  show "after_expr (hd (trailed [TOp Comma] expr_tokens es @ TOp close # rest))"
    using assms(4) by (cases es) auto
  fix e' :: "span expr" and q
  assume q: "frame p q" "ahead q = trailed [TOp Comma] expr_tokens es @ TOp close # rest" "bare_expr e' = e"
  have "peek_kind q \<noteq> TKw KwFor \<and> peek_kind q \<noteq> TOp Colon" using q(2) assms(4) by (cases es) auto
  moreover have "wp never (parse_display_items E (TOp close) e') Q q"
  proof (rule read_display_items [OF q(2)])
    fix as :: "span expr list" and r assume "frame q r" "ahead r = TOp close # rest" "map bare_expr as = bare_expr e' # es"
    then show "Q as r" using q by (intro assms(6) frame_trans [OF q(1)]) simp_all
  qed (use q assms(2-5) fits_tail fits_frame [OF q(1)] in \<open>simp_all add: frame_depth [OF q(1)]\<close>)
  ultimately show "peek_kind q \<noteq> TKw KwFor \<and> peek_kind q \<noteq> TOp Colon \<and>
    wp never (parse_display_items E (TOp close) e') Q q" by simp
qed (use assms in \<open>simp_all add: fits_def\<close>)

lemma display_start:
  assumes "fits p (e # es)" "\<not> starts_atom k" "ahead q = commas (map expr_tokens (e # es)) @ rest"
  shows "peek_kind q \<noteq> k"
  using fits_start [OF assms(1) _ assms(2), of e] assms(3)
  by (cases "expr_tokens e") (auto simp: commas_def)

lemma read_bracket_expr:
  assumes "ahead p = TOp LBracket # commas (map expr_tokens es) @ TOp RBracket # rest" "rest \<noteq> []"
    "fits p es" "depth p \<le> max_parser_depth"
    and "\<And>e q. frame p q \<Longrightarrow> ahead q = rest \<Longrightarrow> bare_expr e = MkExpr (ECollection (CList es)) () \<Longrightarrow> Q e q"
  shows "wp never (parse_bracket_expr E) Q p"
proof (cases es)
  case Nil
  with assms show ?thesis
    unfolding parse_bracket_expr_def
    by (auto simp: wp_simps commas_def frame_def intro!: read_intros read_close_with)
next
  case (Cons e fs)
  obtain q where q: "frame p q" "ahead q = commas (map expr_tokens (e # fs)) @ TOp RBracket # rest"
    and bump: "\<And>Q. wp never bump Q p = Q (peek p) q"
    using bump_to [OF assms(1)] Cons by auto
  have no: "peek_kind q \<noteq> TOp RBracket"
    using display_start [OF _ _ q(2)] assms(3) Cons by (simp add: starts_atom_def)
  have "wp never (e_expr E) (\<lambda>first r. peek_kind r \<noteq> TKw KwFor \<and> peek_kind r \<noteq> TOp Colon \<and>
      wp never (parse_display_items E (TOp RBracket) first)
        (\<lambda>as. wp never (close_with (TOp RBracket) (current_span p) (ECollection (CList as))) Q) r) q"
  proof (rule read_display [OF q(2) assms(2)])
    show "fits q (e # fs)" using fits_frame [OF q(1)] assms(3) Cons by simp
    fix as :: "span expr list" and r
    assume r: "frame q r" "ahead r = TOp RBracket # rest" "map bare_expr as = e # fs"
    show "wp never (close_with (TOp RBracket) (current_span p) (ECollection (CList as))) Q r"
      by (rule read_close_with [OF r(2) assms(2)], rule assms(5))
        (use frame_trans [OF frame_trans [OF q(1) r(1)]] r(3) Cons in simp_all)
  qed (use assms(4) frame_depth [OF q(1)] in simp_all)
  then show ?thesis
    unfolding parse_bracket_expr_def
    using no assms(1) by (auto simp: wp_simps bump elim: wp_mono)
qed

lemma read_set_expr:
  assumes "ahead p = TOp LBrace # commas (map expr_tokens es) @ TOp RBrace # rest" "rest \<noteq> []"
    "fits p es" "depth p \<le> max_parser_depth" "es \<noteq> []"
    and "\<And>e q. frame p q \<Longrightarrow> ahead q = rest \<Longrightarrow> bare_expr e = MkExpr (ECollection (CSet es)) () \<Longrightarrow> Q e q"
  shows "wp never (parse_brace_expr E) Q p"
proof -
  obtain e fs where es: "es = e # fs" using assms(5) by (cases es) auto
  obtain q where q: "frame p q" "ahead q = commas (map expr_tokens (e # fs)) @ TOp RBrace # rest"
    and bump: "\<And>Q. wp never bump Q p = Q (peek p) q"
    using bump_to [OF assms(1)] es by auto
  have no: "peek_kind q \<notin> {TOp RBrace, TOp StarStar}"
    using display_start [OF _ _ q(2)] assms(3) es by (simp add: starts_atom_def)
  have "wp never (e_expr E) (\<lambda>first r. peek_kind r \<noteq> TKw KwFor \<and> peek_kind r \<noteq> TOp Colon \<and>
      wp never (parse_display_items E (TOp RBrace) first)
        (\<lambda>as. wp never (close_with (TOp RBrace) (current_span p) (ECollection (CSet as))) Q) r) q"
  proof (rule read_display [OF q(2) assms(2)])
    show "fits q (e # fs)" using fits_frame [OF q(1)] assms(3) es by simp
    fix as :: "span expr list" and r
    assume r: "frame q r" "ahead r = TOp RBrace # rest" "map bare_expr as = e # fs"
    show "wp never (close_with (TOp RBrace) (current_span p) (ECollection (CSet as))) Q r"
      by (rule read_close_with [OF r(2) assms(2)], rule assms(6))
        (use frame_trans [OF frame_trans [OF q(1) r(1)]] r(3) es in simp_all)
  qed (use assms(4) frame_depth [OF q(1)] in simp_all)
  then show ?thesis
    unfolding parse_brace_expr_def
    using no assms(1) by (auto simp: wp_simps bump elim: wp_mono)
qed

lemma read_tuple_rest:
  assumes "ahead p = commas (map expr_tokens es) @ TOp RParen # rest" "rest \<noteq> []" "fits p es"
    "depth p \<le> max_parser_depth"
    and "\<And>as q. frame p q \<Longrightarrow> ahead q = TOp RParen # rest \<Longrightarrow> map bare_expr as = bare_expr e # es \<Longrightarrow> Q as q"
  shows "wp never (loop (\<lambda>elems. look (at (TOp RParen)) (\<lambda>stop.
      if stop then break_with elems
      else pbind (e_expr E) (\<lambda>e. pbind (eat (TOp Comma)) (\<lambda>comma.
        if comma then again (elems @ [e]) else break_with (elems @ [e]))))) [e]) Q p"
  by (rule read_loop, rule looped_items [where tail = "[]" and after = after_expr and tok = expr_tokens and
        erase = bare_expr and n = "max_parser_depth - depth p" and xs = es, OF _ _ _ _ _ _ _
        fits_reads [OF assms(3)] fits_start [OF assms(3)]])
    (use assms in \<open>auto simp: starts_atom_def commas_def\<close>)

lemma read_tuple_expr:
  assumes "ahead p = TOp LParen # commas (map expr_tokens es) @ (if length es = 1 then [TOp Comma] else []) @
      TOp RParen # rest" "rest \<noteq> []"
    "fits p es" "depth p \<le> max_parser_depth"
    and "\<And>e q. frame p q \<Longrightarrow> ahead q = rest \<Longrightarrow> bare_expr e = MkExpr (ECollection (CTuple es)) () \<Longrightarrow> Q e q"
  shows "wp never (parse_paren_expr E) Q p"
proof (cases es)
  case Nil
  with assms show ?thesis
    unfolding parse_paren_expr_def
    by (auto simp: wp_simps commas_def frame_def intro!: read_intros read_close_with)
next
  case (Cons e fs)
  define more where "more = TOp Comma # commas (map expr_tokens fs) @ TOp RParen # rest"
  have p: "ahead p = TOp LParen # expr_tokens e @ more"
    using assms(1) Cons by (cases fs) (simp_all add: more_def commas_def)
  then obtain q where q: "frame p q" "ahead q = expr_tokens e @ more"
    and bump: "\<And>Q. wp never bump Q p = Q (peek p) q"
    using bump_to [OF p] by (auto simp: more_def)
  have e: "plain_expr e" "3 * length (expr_tokens e) + 2 \<le> w" "depth q + 1 + levels e \<le> max_parser_depth"
    using assms(3) Cons frame_depth [OF q(1)] by (simp_all add: fits_def)
  have no: "peek_kind q \<noteq> TOp RParen"
    using tokens_start [OF e(1)] q(2) by (auto simp: starts_atom_def)
  have "wp never (e_expr E) (\<lambda>first r. ahead r = more \<and> wp never (eat (TOp Comma)) (\<lambda>_.
      wp never (loop (\<lambda>elems. look (at (TOp RParen)) (\<lambda>stop.
        if stop then break_with elems
        else pbind (e_expr E) (\<lambda>e. pbind (eat (TOp Comma)) (\<lambda>comma.
          if comma then again (elems @ [e]) else break_with (elems @ [e]))))) [first])
        (\<lambda>as. wp never (close_with (TOp RParen) (current_span p) (ECollection (CTuple as))) Q)) r) q"
  proof (rule read_expr [OF q(2) e(1,2) _ _ e(3)])
    fix e' :: "span expr" and r assume r: "frame q r" "ahead r = more" "bare_expr e' = e"
    obtain s where s: "frame r s" "ahead s = commas (map expr_tokens fs) @ TOp RParen # rest"
      and bump: "\<And>Q. wp never bump Q r = Q (peek r) s"
      using bump_to [OF r(2) [unfolded more_def]] by auto
    note ps = frame_trans [OF frame_trans [OF q(1) r(1)] s(1)]
    have "wp never (loop (\<lambda>elems. look (at (TOp RParen)) (\<lambda>stop.
        if stop then break_with elems
        else pbind (e_expr E) (\<lambda>e. pbind (eat (TOp Comma)) (\<lambda>comma.
          if comma then again (elems @ [e]) else break_with (elems @ [e]))))) [e'])
        (\<lambda>as. wp never (close_with (TOp RParen) (current_span p) (ECollection (CTuple as))) Q) s"
    proof (rule read_tuple_rest [OF s(2) assms(2)])
      show "fits s fs" using fits_frame [OF ps] fits_tail assms(3) Cons by blast
      show "depth s \<le> max_parser_depth" using frame_depth [OF ps] assms(4) by simp
      fix as :: "span expr list" and x
      assume x: "frame s x" "ahead x = TOp RParen # rest" "map bare_expr as = bare_expr e' # fs"
      show "wp never (close_with (TOp RParen) (current_span p) (ECollection (CTuple as))) Q x"
        by (rule read_close_with [OF x(2) assms(2)], rule assms(5))
          (use frame_trans [OF frame_trans [OF ps x(1)]] r(3) x(3) Cons in simp_all)
    qed
    with r(2) bump show "ahead r = more \<and> wp never (eat (TOp Comma)) (\<lambda>_.
      wp never (loop (\<lambda>elems. look (at (TOp RParen)) (\<lambda>stop.
        if stop then break_with elems
        else pbind (e_expr E) (\<lambda>e. pbind (eat (TOp Comma)) (\<lambda>comma.
          if comma then again (elems @ [e]) else break_with (elems @ [e]))))) [e'])
        (\<lambda>as. wp never (close_with (TOp RParen) (current_span p) (ECollection (CTuple as))) Q)) r"
      by (simp add: wp_simps more_def)
  qed (simp_all add: more_def)
  then show ?thesis
    unfolding parse_paren_expr_def
    using no assms(1) by (auto simp: wp_simps bump more_def elim: wp_mono)
qed

section \<open>Dictionaries\<close>

abbreviation entry_tokens :: "unit expr dict_entry \<Rightarrow> kinds" where
  "entry_tokens d \<equiv> dict_entry_tokens (map_dict_entry expr_tokens d)"

abbreviation bare_entry :: "'s expr dict_entry \<Rightarrow> unit expr dict_entry" where
  "bare_entry \<equiv> map_dict_entry bare_expr"

definition entry_fits :: "parser \<Rightarrow> unit expr dict_entry \<Rightarrow> bool" where
  "entry_fits p d \<longleftrightarrow> fits p (case d of DPair k v \<Rightarrow> [k, v] | DSpread e \<Rightarrow> [e])"

lemma fits_mono: "fits p es \<Longrightarrow> depth q \<le> depth p \<Longrightarrow> fits q es"
  by (fastforce simp: fits_def)

lemma entry_start:
  "entry_fits p d \<Longrightarrow> entry_tokens d \<noteq> [] \<and> hd (entry_tokens d) \<noteq> TOp RBrace"
  using fits_start [of p _ _ "TOp RBrace"]
  by (cases d) (auto simp: entry_fits_def starts_atom_def)

lemma reads_entry:
  assumes "entry_fits p d" "depth p \<le> max_parser_depth"
  shows "reads (pbind (eat (TOp StarStar)) (\<lambda>starstar.
      if starstar then pmap DSpread (e_expr E)
      else pbind (e_expr E) (\<lambda>k. pseq (expect (TOp Colon)) (pmap (DPair k) (e_expr E)))))
    (max_parser_depth - depth p) (entry_tokens d) after_expr (\<lambda>d'. bare_entry d' = d)"
proof (rule readsI)
  fix q rest assume q: "ahead q = entry_tokens d @ rest" "rest \<noteq> []" "after_expr (hd rest)"
    "depth q + (max_parser_depth - depth p) \<le> max_parser_depth"
  from q(4) assms(2) have d: "depth q \<le> depth p" by simp
  show "wp never (pbind (eat (TOp StarStar)) (\<lambda>starstar.
      if starstar then pmap DSpread (e_expr E)
      else pbind (e_expr E) (\<lambda>k. pseq (expect (TOp Colon)) (pmap (DPair k) (e_expr E)))))
    (\<lambda>d' r. frame q r \<and> ahead r = rest \<and> bare_entry d' = d) q"
  proof (cases d)
    case (DSpread e)
    with assms(1) have "fits q [e]" using d by (auto simp: entry_fits_def intro: fits_mono)
    with q DSpread show ?thesis
      by (auto simp: wp_simps frame_def fits_def intro!: read_intros read_expr [of _ e rest])
  next
    case (DPair k v)
    with assms(1) have fits: "fits q [k, v]" using d by (auto simp: entry_fits_def intro: fits_mono)
    then obtain j js where "expr_tokens k = j # js" "starts_atom j"
      using tokens_start [of k] by (auto simp: fits_def)
    with starts_atomD have no: "peek_kind q \<noteq> TOp StarStar" using q(1) DPair by auto
    have "wp never (e_expr E) (\<lambda>k. wp never (pseq (expect (TOp Colon)) (pmap (DPair k) (e_expr E)))
      (\<lambda>d' r. frame q r \<and> ahead r = rest \<and> bare_entry d' = d)) q"
      by (rule read_expr [of _ k "TOp Colon # expr_tokens v @ rest"])
        (use q fits DPair in \<open>auto simp: wp_simps frame_def fits_def
           intro!: read_intros read_expr [of _ v rest]\<close>)
    with no show ?thesis by (simp add: wp_simps)
  qed
qed

lemma read_dict_rest:
  assumes "ahead p = commas (map entry_tokens ds) @ TOp RBrace # rest" "rest \<noteq> []"
    "\<And>d. d \<in> set ds \<Longrightarrow> entry_fits p d" "depth p \<le> max_parser_depth"
    and "\<And>e q. frame p q \<Longrightarrow> ahead q = rest \<Longrightarrow>
      bare_expr e = MkExpr (ECollection (CDict (map bare_entry as0 @ ds))) () \<Longrightarrow> Q e q"
  shows "wp never (pbind (loop (\<lambda>as. look (at (TOp RBrace)) (\<lambda>stop.
      if stop then break_with as
      else pbind (pbind (eat (TOp StarStar)) (\<lambda>starstar.
          if starstar then pmap DSpread (e_expr E)
          else pbind (e_expr E) (\<lambda>k. pseq (expect (TOp Colon)) (pmap (DPair k) (e_expr E))))) (\<lambda>a.
        pbind (eat (TOp Comma)) (\<lambda>comma.
          if comma then again (as @ [a]) else break_with (as @ [a]))))) as0)
      (\<lambda>as. close_with (TOp RBrace) start (ECollection (CDict as)))) Q p"
proof (rule wp_stepI, rule read_loop, rule looped_items [where tail = "[]" and after = after_expr and
      tok = entry_tokens and erase = bare_entry and n = "max_parser_depth - depth p" and xs = ds])
  fix as :: "span expr dict_entry list" and q
  assume q: "frame p q" "ahead q = TOp RBrace # rest" "map bare_entry as = map bare_entry as0 @ ds"
  show "wp never (close_with (TOp RBrace) start (ECollection (CDict as))) Q q"
    by (rule read_close_with [OF q(2) assms(2)], rule assms(5))
      (use frame_trans [OF q(1)] q(3) in simp_all)
qed (use assms(1,2,4) entry_start [OF assms(3)] reads_entry [OF assms(3,4)] in
    \<open>auto simp: commas_def\<close>)

lemma read_dict_after_first:
  assumes "ahead p = (case first of None \<Rightarrow> commas (map entry_tokens ds)
      | Some d \<Rightarrow> trailed [TOp Comma] entry_tokens ds) @ TOp RBrace # rest" "rest \<noteq> []"
    "\<And>d. d \<in> set ds \<Longrightarrow> entry_fits p d" "depth p \<le> max_parser_depth"
    and "\<And>e q. frame p q \<Longrightarrow> ahead q = rest \<Longrightarrow> bare_expr e = MkExpr (ECollection (CDict
      ((case first of None \<Rightarrow> [] | Some d \<Rightarrow> [bare_entry d]) @ ds))) () \<Longrightarrow> Q e q"
  shows "wp never (parse_dict_after_first E start first) Q p"
proof (cases "first = None \<or> ds = []")
  case True
  with assms(1) have "ahead p = commas (map entry_tokens ds) @ TOp RBrace # rest"
    by (auto simp: commas_def split: option.split)
  from read_dict_rest [OF this assms(2-4), of "case first of None \<Rightarrow> [] | Some d \<Rightarrow> [d]" Q start] assms(1,5) True
  show ?thesis
    unfolding parse_dict_after_first_def
    by (cases first) (auto simp: wp_simps commas_def)
next
  case False
  then obtain d where d: "first = Some d" by auto
  with False assms(1) have "ahead p = TOp Comma # commas (map entry_tokens ds) @ TOp RBrace # rest"
    by (cases ds) (simp_all add: commas_def)
  then obtain q where p: "peek_kind p = TOp Comma"
    and q: "frame p q" "ahead q = commas (map entry_tokens ds) @ TOp RBrace # rest"
    and bump: "\<And>Q. wp never bump Q p = Q (peek p) q"
    using bump_to [of p "TOp Comma"] by auto
  have "\<And>d. d \<in> set ds \<Longrightarrow> entry_fits q d" "depth q \<le> max_parser_depth"
    using assms(3,4) frame_depth [OF q(1)] fits_frame [OF q(1)] by (simp_all add: entry_fits_def)
  from read_dict_rest [OF q(2) assms(2) this, of "[d]" Q start] assms(5) frame_trans [OF q(1)] d p
  show ?thesis
    unfolding parse_dict_after_first_def
    by (simp add: wp_simps bump)
qed

lemma read_dict_value:
  assumes "ahead p = expr_tokens v @ trailed [TOp Comma] entry_tokens ds @ TOp RBrace # rest" "rest \<noteq> []"
    "fits p [v]" "\<And>d. d \<in> set ds \<Longrightarrow> entry_fits p d" "depth p \<le> max_parser_depth"
    and "\<And>e q. frame p q \<Longrightarrow> ahead q = rest \<Longrightarrow>
      bare_expr e = MkExpr (ECollection (CDict (DPair (bare_expr k) v # ds))) () \<Longrightarrow> Q e q"
  shows "wp never (e_expr E) (\<lambda>v'. wp never (look (at (TKw KwFor)) (\<lambda>comp.
      if comp then parse_comprehension_rest E (TOp RBrace) start CompDict (KeyValue k v')
      else parse_dict_after_first E start (Some (DPair k v')))) Q) p"
proof (rule read_expr [OF assms(1)])
  let ?more = "trailed [TOp Comma] entry_tokens ds @ TOp RBrace # rest"
  show "?more \<noteq> []" "after_expr (hd ?more)" by (cases ds; simp)+
  fix v' :: "span expr" and q assume q: "frame p q" "ahead q = ?more" "bare_expr v' = v"
  have "peek_kind q \<noteq> TKw KwFor" using q(2) by (cases ds) auto
  moreover have "wp never (parse_dict_after_first E start (Some (DPair k v'))) Q q"
    by (rule read_dict_after_first [where ds = ds and rest = rest])
      (use q assms(2,4,5) fits_frame [OF q(1)] frame_depth [OF q(1)] in
        \<open>auto simp: entry_fits_def intro!: assms(6) frame_trans [OF q(1)]\<close>)
  ultimately show "wp never (look (at (TKw KwFor)) (\<lambda>comp.
      if comp then parse_comprehension_rest E (TOp RBrace) start CompDict (KeyValue k v')
      else parse_dict_after_first E start (Some (DPair k v')))) Q q"
    by (simp add: wp_simps)
qed (use assms(3) in \<open>simp_all add: fits_def\<close>)

lemma read_dict_expr:
  assumes "ahead p = TOp LBrace # commas (map entry_tokens ds) @ TOp RBrace # rest" "rest \<noteq> []"
    "\<And>d. d \<in> set ds \<Longrightarrow> entry_fits p d" "depth p \<le> max_parser_depth"
    and "\<And>e q. frame p q \<Longrightarrow> ahead q = rest \<Longrightarrow> bare_expr e = MkExpr (ECollection (CDict ds)) () \<Longrightarrow> Q e q"
  shows "wp never (parse_brace_expr E) Q p"
proof (cases ds)
  case Nil
  with assms show ?thesis
    unfolding parse_brace_expr_def
    by (auto simp: wp_simps commas_def frame_def intro!: read_intros read_close_with)
next
  case (Cons d fs)
  obtain q where q: "frame p q" "ahead q = commas (map entry_tokens ds) @ TOp RBrace # rest"
    and bump: "\<And>Q. wp never bump Q p = Q (peek p) q"
    using bump_to [OF assms(1)] by auto
  have fits: "\<And>d. d \<in> set ds \<Longrightarrow> entry_fits q d" "depth q \<le> max_parser_depth"
    using assms(3,4) frame_depth [OF q(1)] fits_frame [OF q(1)] by (simp_all add: entry_fits_def)
  have p: "peek_kind p = TOp LBrace" using assms(1) by simp
  have goal: "Q e r" if "frame q r" "ahead r = rest" "bare_expr e = MkExpr (ECollection (CDict ds)) ()" for e r
    using assms(5) frame_trans [OF q(1)] that by simp
  show ?thesis
  proof (cases d)
    case (DSpread e)
    have "peek_kind q = TOp StarStar" using q(2) Cons DSpread by (cases fs) (simp_all add: commas_def)
    with p bump read_dict_after_first [of q ds None rest Q "current_span p"] q(2) assms(2) fits goal show ?thesis
      unfolding parse_brace_expr_def by (simp add: wp_simps)
  next
    case (DPair k v)
    let ?more = "trailed [TOp Comma] entry_tokens fs @ TOp RBrace # rest"
    have q': "ahead q = expr_tokens k @ TOp Colon # expr_tokens v @ ?more"
      using q(2) Cons DPair by (simp add: commas_def)
    have kv: "fits q [k, v]" using fits(1) Cons DPair by (force simp: entry_fits_def)
    have no: "peek_kind q \<notin> {TOp RBrace, TOp StarStar}"
      using fits_start [OF kv, of k] q' by (cases "expr_tokens k") (auto simp: starts_atom_def)
    have "wp never (e_expr E) (\<lambda>k' r. peek_kind r = TOp Colon \<and> wp never bump (\<lambda>_.
        wp never (e_expr E) (\<lambda>v'. wp never (look (at (TKw KwFor)) (\<lambda>comp.
          if comp then parse_comprehension_rest E (TOp RBrace) (current_span p) CompDict (KeyValue k' v')
          else parse_dict_after_first E (current_span p) (Some (DPair k' v')))) Q)) r) q"
    proof (rule read_expr [OF q'])
      fix k' :: "span expr" and r
      assume r: "frame q r" "ahead r = TOp Colon # expr_tokens v @ ?more" "bare_expr k' = k"
      show "peek_kind r = TOp Colon \<and> wp never bump (\<lambda>_.
        wp never (e_expr E) (\<lambda>v'. wp never (look (at (TKw KwFor)) (\<lambda>comp.
          if comp then parse_comprehension_rest E (TOp RBrace) (current_span p) CompDict (KeyValue k' v')
          else parse_dict_after_first E (current_span p) (Some (DPair k' v')))) Q)) r"
      proof (intro conjI read_bump [OF r(2)])
        fix s assume s: "frame r s" "ahead s = expr_tokens v @ ?more"
        note qs = frame_trans [OF r(1) s(1)]
        show "wp never (e_expr E) (\<lambda>v'. wp never (look (at (TKw KwFor)) (\<lambda>comp.
          if comp then parse_comprehension_rest E (TOp RBrace) (current_span p) CompDict (KeyValue k' v')
          else parse_dict_after_first E (current_span p) (Some (DPair k' v')))) Q) s"
          by (rule read_dict_value [OF s(2) assms(2)])
            (use fits kv fits_frame [OF qs] frame_depth [OF qs] goal frame_trans [OF qs] r(3) Cons DPair in
              \<open>auto simp: entry_fits_def intro: fits_tail\<close>)
      qed (use r in simp_all)
    qed (use kv in \<open>simp_all add: fits_def\<close>)
    with no p show ?thesis
      unfolding parse_brace_expr_def by (auto simp: wp_simps bump elim!: wp_mono)
  qed
qed

section \<open>Parentheses\<close>

lemma enclosed_start:
  fixes k :: "unit expr_kind"
  assumes "plain_expr_kind k" "is_enclosed k" "expr_kind_tokens k = enclosed LParen ks RParen"
  shows "ks \<noteq> [] \<and> hd ks \<noteq> TOp RParen"
proof -
  have "expr_tokens e \<noteq> [] \<and> hd (expr_tokens e) \<noteq> TOp RParen" if "plain_expr e" for e :: "unit expr"
    using tokens_start [OF that] by (auto simp: starts_atom_def)
  with assms show ?thesis
    by (cases k) (auto simp: is_enclosed_def enclosed_def hd_append unaryop_token_def
        split: unary_op.splits)
qed

lemma read_enclosed:
  assumes "ahead p = TOp LParen # ks @ TOp RParen # rest" "rest \<noteq> []"
    "plain_expr_kind k" "is_enclosed k" "expr_kind_tokens k = enclosed LParen ks RParen"
    "3 * length ks + 2 \<le> w" "depth p + (kind_levels k - 1) \<le> max_parser_depth"
    and "\<And>e q. frame p q \<Longrightarrow> ahead q = rest \<Longrightarrow> bare_expr e = MkExpr k () \<Longrightarrow> Q e q"
  shows "wp never (parse_paren_expr E) Q p"
proof -
  obtain q where q: "frame p q" "ahead q = ks @ TOp RParen # rest"
    and bump: "\<And>Q. wp never bump Q p = Q (peek p) q"
    using bump_to [OF assms(1)] by auto
  have no: "peek_kind q \<noteq> TOp RParen"
    using enclosed_start [OF assms(3-5)] q(2) by (cases ks) auto
  have "wp never (e_expr E) (\<lambda>e r. ahead r = TOp RParen # rest \<and>
      wp never (close_with (TOp RParen) (current_span p) (expr_kind_of e)) Q r) q"
  proof (rule read [OF reads_inner [OF assms(3-6)] q(2)])
    fix e :: "span expr" and r assume r: "frame q r" "ahead r = TOp RParen # rest" "bare_kind_is k e"
    show "ahead r = TOp RParen # rest \<and>
        wp never (close_with (TOp RParen) (current_span p) (expr_kind_of e)) Q r"
      by (intro conjI r(2) read_close_with [OF r(2) assms(2)] assms(8))
        (use r(3) frame_trans [OF frame_trans [OF q(1) r(1)]] in simp_all)
  qed (use assms(7) frame_depth [OF q(1)] in simp_all)
  then show ?thesis
    unfolding parse_paren_expr_def
    using no assms(1) by (auto simp: wp_simps bump elim!: wp_mono)
qed

end

end
