(* ===== verification/Parser_Reads_Pratt.thy ===== *)
theory Parser_Reads_Pratt
  imports Parser_Reads_Display
begin

text \<open>
  Reading atoms, the chain of calls, attributes and indices after an atom, prefix forms and the
  Pratt loop; the contract for one more unit of fuel, and its interpretation on \<open>entries\<close>.
\<close>

section \<open>Atoms\<close>

definition is_chain :: "'s expr_kind \<Rightarrow> bool" where
  "is_chain k \<longleftrightarrow>
     (case k of ECall _ _ \<Rightarrow> True | EAttribute _ _ \<Rightarrow> True | EIndex _ _ \<Rightarrow> True | _ \<Rightarrow> False)"

lemma read_guarded:
  assumes "depth p < max_parser_depth"
    "wp never f (\<lambda>a q. Q a (q\<lparr>depth := depth q - 1\<rparr>)) (p\<lparr>depth := depth p + 1\<rparr>)"
  shows "wp never (guarded f) Q p"
  using assms by (simp add: guarded_def check_expr_depth_def wp_simps)

lemma frame_guarded [simp]:
  "frame (p\<lparr>depth := Suc (depth p)\<rparr>) q \<Longrightarrow> frame p (q\<lparr>depth := depth q - Suc 0\<rparr>)"
  by (simp add: frame_def)

context expr_reads begin

lemma read_literal_atom:
  assumes "ahead p = k # rest" "rest \<noteq> []"
    and "\<And>e' q. frame p q \<Longrightarrow> ahead q = rest \<Longrightarrow> bare_expr e' = MkExpr (ELiteral l) () \<Longrightarrow> Q e' q"
  shows "wp never (literal_atom l span) Q p"
  using assms unfolding literal_atom_def by (auto simp: wp_simps intro!: read_intros)

lemma read_literal:
  assumes "ahead p = literal_token l # rest" "rest \<noteq> []"
    and "\<And>e' q. frame p q \<Longrightarrow> ahead q = rest \<Longrightarrow> bare_expr e' = MkExpr (ELiteral l) () \<Longrightarrow> Q e' q"
  shows "wp never (parse_atom E) Q p"
  unfolding parse_atom_def
  using assms by (cases l) (auto simp: wp_simps Let_def intro!: read_literal_atom)

lemma read_name:
  assumes "ahead p = TIdent n # rest" "rest \<noteq> []" "hd rest \<noteq> TOp Walrus"
    and "\<And>e' q. frame p q \<Longrightarrow> ahead q = rest \<Longrightarrow> bare_expr e' = MkExpr (EName n) () \<Longrightarrow> Q e' q"
  shows "wp never (parse_atom E) Q p"
  unfolding parse_atom_def parse_name_def
  using assms by (cases rest) (auto simp: wp_simps Let_def intro!: read_intros)

lemma read_open_atom:
  assumes "ahead p = TOp k # rest"
    and "k = LParen \<Longrightarrow> depth p < max_parser_depth \<and>
      wp never (parse_paren_expr E) (\<lambda>a q. Q a (q\<lparr>depth := depth q - 1\<rparr>)) (p\<lparr>depth := depth p + 1\<rparr>)"
    "k = LBracket \<Longrightarrow> wp never (parse_bracket_expr E) Q p"
    "k = LBrace \<Longrightarrow> wp never (parse_brace_expr E) Q p"
    "k \<in> {LParen, LBracket, LBrace}"
  shows "wp never (parse_atom E) Q p"
  unfolding parse_atom_def
  using assms by (auto simp: wp_simps Let_def intro!: read_guarded)

lemma entry_fitsI:
  assumes "d \<in> set ds" "list_all (pred_dict_entry plain_expr) ds"
    "3 * length (commas (map entry_tokens ds)) + 2 \<le> w"
    "depth p + 1 + max_list (map (\<lambda>d. dict_entry_levels (map_dict_entry levels d)) ds) \<le> max_parser_depth"
  shows "entry_fits p d"
proof -
  have "length (entry_tokens d) \<le> length (commas (map entry_tokens ds))"
    unfolding commas_def by (rule length_join_with [OF assms(1)])
  moreover have "dict_entry_levels (map_dict_entry levels d) \<le>
      max_list (map (\<lambda>d. dict_entry_levels (map_dict_entry levels d)) ds)"
    using assms(1) by (auto intro!: max_list_member)
  ultimately show ?thesis
    using assms by (cases d) (auto simp: entry_fits_def fits_def list_all_iff)
qed

lemma read_collection:
  assumes "ahead p = collection_tokens (map_collection_lit expr_tokens c) @ rest" "rest \<noteq> []"
    "c \<noteq> CSet []" "pred_collection_lit plain_expr c"
    "3 * length (collection_tokens (map_collection_lit expr_tokens c)) \<le> w"
    "depth p + collection_levels (map_collection_lit levels c) \<le> max_parser_depth"
    and "\<And>e' q. frame p q \<Longrightarrow> ahead q = rest \<Longrightarrow> bare_expr e' = MkExpr (ECollection c) () \<Longrightarrow> Q e' q"
  shows "wp never (parse_atom E) Q p"
proof (cases c)
  case (CTuple es)
  let ?p = "p\<lparr>depth := depth p + 1\<rparr>"
  have "fits ?p es" using assms CTuple by (intro fitsI) (simp_all add: enclosed_def)
  with assms CTuple show ?thesis
    by (intro read_open_atom [of _ LParen] conjI read_tuple_expr [of ?p es rest])
      (auto simp: enclosed_def intro!: assms(7))
next
  case (CList es)
  have "fits p es" using assms CList by (intro fitsI) (simp_all add: enclosed_def)
  with assms CList show ?thesis
    by (intro read_open_atom [of _ LBracket] read_bracket_expr [of p es rest])
      (auto simp: enclosed_def)
next
  case (CSet es)
  have "fits p es" using assms CSet by (intro fitsI) (simp_all add: enclosed_def)
  with assms CSet show ?thesis
    by (intro read_open_atom [of _ LBrace] read_set_expr [of p es rest])
      (auto simp: enclosed_def)
next
  case (CDict ds)
  have "entry_fits p d" if "d \<in> set ds" for d
    by (rule entry_fitsI [OF that]) (use assms CDict in \<open>simp_all add: enclosed_def o_def\<close>)
  with assms CDict show ?thesis
    by (intro read_open_atom [of _ LBrace] read_dict_expr [of p ds rest])
      (auto simp: enclosed_def o_def)
qed

lemma is_enclosed_tokens:
  "is_enclosed k \<Longrightarrow> \<exists>ks. expr_kind_tokens k = enclosed LParen ks RParen"
  by (cases k) (auto simp: is_enclosed_def)

lemma read_atom:
  assumes "ahead p = expr_kind_tokens k @ rest" "rest \<noteq> []" "hd rest \<noteq> TOp Walrus"
    "plain_expr_kind k" "\<not> is_chain k" "3 * length (expr_kind_tokens k) \<le> w"
    "depth p + kind_levels k \<le> max_parser_depth"
    and "\<And>e' q. frame p q \<Longrightarrow> ahead q = rest \<Longrightarrow> bare_expr e' = MkExpr k () \<Longrightarrow> Q e' q"
  shows "wp never (parse_atom E) Q p"
proof (cases "is_enclosed k")
  case True
  then obtain ks where ks: "expr_kind_tokens k = enclosed LParen ks RParen" using is_enclosed_tokens by blast
  let ?p = "p\<lparr>depth := depth p + 1\<rparr>"
  have "1 \<le> kind_levels k" using True by (cases k) (auto simp: is_enclosed_def)
  then show ?thesis
    using assms True ks
    by (intro read_open_atom [of _ LParen] conjI read_enclosed [of ?p ks rest k])
      (auto simp: enclosed_def intro!: assms(8))
next
  case False
  show ?thesis
  proof (cases k)
    case (ECollection c)
    with assms show ?thesis
      by (intro read_collection [of p c rest]) (auto simp: collection_lit.pred_map)
  qed (use assms False in \<open>auto simp: is_enclosed_def is_chain_def intro: read_literal read_name\<close>)
qed

section \<open>Calls, attributes and indices after an atom\<close>

lemma read_attribute_name:
  assumes "ahead p = name_token n # rest" "rest \<noteq> []" "\<And>q. frame p q \<Longrightarrow> ahead q = rest \<Longrightarrow> Q n q"
  shows "wp never parse_attribute_name Q p"
  using assms unfolding parse_attribute_name_def expect_ident_def name_token_def
  by (auto simp: wp_simps split: if_split_asm intro!: read_intros)

lemma read_call_turn:
  assumes "ahead p = enclosed LParen (commas (map (call_arg_tokens \<circ> map_call_arg expr_tokens) args)) RParen @ rest"
    "rest \<noteq> []" "list_all (pred_call_arg plain_expr) args"
    "3 * length (commas (map (call_arg_tokens \<circ> map_call_arg expr_tokens) args)) + 2 \<le> w"
    "depth p + 1 + max_list (map (call_arg_levels \<circ> map_call_arg levels) args) \<le> max_parser_depth"
    and "\<And>e' q. frame p q \<Longrightarrow> ahead q = rest \<Longrightarrow> bare_expr e' = MkExpr (ECall (bare_expr e) args) () \<Longrightarrow>
      Q (Inl e') q"
  shows "wp never (postfix_turn E e) Q p"
  unfolding postfix_turn_def
  using assms
  by (auto simp: wp_simps enclosed_def frame_def intro!: read_intros
      read_call_args [of _ args rest])

lemma read_attribute_turn:
  assumes "ahead p = TOp Dot # name_token n # rest" "rest \<noteq> []"
    and "\<And>e' q. frame p q \<Longrightarrow> ahead q = rest \<Longrightarrow> bare_expr e' = MkExpr (EAttribute (bare_expr e) n) () \<Longrightarrow>
      Q (Inl e') q"
  shows "wp never (postfix_turn E e) Q p"
  unfolding postfix_turn_def
  using assms
  by (auto simp: wp_simps frame_def intro!: read_bump read_attribute_name [of _ n rest])

lemma read_index_turn:
  assumes "ahead p = enclosed LBracket (index_tokens (map_index_kind expr_tokens i)) RBracket @ rest"
    "rest \<noteq> []" "plain_index (map_index_kind plain_expr i)"
    "3 * length (index_tokens (map_index_kind expr_tokens i)) + 2 \<le> w"
    "depth p + 1 + index_levels (map_index_kind levels i) \<le> max_parser_depth"
    and "\<And>e' q. frame p q \<Longrightarrow> ahead q = rest \<Longrightarrow> bare_expr e' = MkExpr (EIndex (bare_expr e) i) () \<Longrightarrow>
      Q (Inl e') q"
  shows "wp never (postfix_turn E e) Q p"
  unfolding postfix_turn_def
  using assms
  by (auto simp: wp_simps enclosed_def frame_def intro!: read_intros read_index [of _ i rest])

lemma read_chain:
  assumes "plain_expr e" "ahead p = expr_tokens e @ rest" "rest \<noteq> []" "hd rest \<noteq> TOp Walrus"
    "3 * length (expr_tokens e) \<le> w" "depth p + levels e \<le> max_parser_depth"
    and "\<And>e' q. frame p q \<Longrightarrow> ahead q = rest \<Longrightarrow> bare_expr e' = e \<Longrightarrow> looped (postfix_turn E) e' Q q"
  shows "wp never (parse_atom E) (\<lambda>a. looped (postfix_turn E) a Q) p"
  using assms
proof (induction e arbitrary: rest rule: chain_induct)
  case (Chain k s)
  show ?case
  proof (cases "is_chain k")
    case False
    with Chain.prems show ?thesis by (intro read_atom [of p k rest]) simp_all
  next
    case True
    then show ?thesis
    proof (cases k)
      case (ECall callee args)
      have args: "list_all (pred_call_arg plain_expr) args"
        using Chain.prems(1) ECall by (simp add: list.pred_map call_arg.pred_map o_def)
      let ?args = "enclosed LParen (commas (map (call_arg_tokens \<circ> map_call_arg expr_tokens) args)) RParen"
      show ?thesis
      proof (rule Chain.IH(1) [OF ECall, where rest = "?args @ rest"])
        fix e' :: "span expr" and q
        assume q: "frame p q" "ahead q = ?args @ rest" "bare_expr e' = callee"
        show "looped (postfix_turn E) e' Q q"
          by (rule looped_step, rule read_call_turn [OF q(2) _ args])
            (use Chain.prems q ECall frame_depth [OF q(1)] frame_trans [OF q(1)] in
              \<open>auto simp: enclosed_def o_def\<close>)
      qed (use Chain.prems ECall in \<open>simp_all add: enclosed_def\<close>)
    next
      case (EAttribute base n)
      show ?thesis
      proof (rule Chain.IH(2) [OF EAttribute, where rest = "TOp Dot # name_token n # rest"])
        fix e' :: "span expr" and q
        assume q: "frame p q" "ahead q = TOp Dot # name_token n # rest" "bare_expr e' = base"
        show "looped (postfix_turn E) e' Q q"
          by (rule looped_step, rule read_attribute_turn [OF q(2)])
            (use Chain.prems q EAttribute frame_trans [OF q(1)] in auto)
      qed (use Chain.prems EAttribute in simp_all)
    next
      case (EIndex base i)
      let ?index = "enclosed LBracket (index_tokens (map_index_kind expr_tokens i)) RBracket"
      show ?thesis
      proof (rule Chain.IH(3) [OF EIndex, where rest = "?index @ rest"])
        fix e' :: "span expr" and q
        assume q: "frame p q" "ahead q = ?index @ rest" "bare_expr e' = base"
        show "looped (postfix_turn E) e' Q q"
          by (rule looped_step, rule read_index_turn [OF q(2)])
            (use Chain.prems q EIndex frame_depth [OF q(1)] frame_trans [OF q(1)] in
              \<open>auto simp: enclosed_def\<close>)
      qed (use Chain.prems EIndex in \<open>simp_all add: enclosed_def\<close>)
    qed (simp_all add: is_chain_def)
  qed
qed

definition after_postfix :: "token_kind \<Rightarrow> bool" where
  "after_postfix k \<longleftrightarrow> k \<notin> {TOp Walrus, TOp LParen, TOp Dot, TOp LBracket}"

lemma read_postfix:
  assumes "ahead p = expr_tokens e @ rest" "plain_expr e" "rest \<noteq> []" "after_postfix (hd rest)"
    "3 * length (expr_tokens e) \<le> w" "depth p + levels e \<le> max_parser_depth"
    and "\<And>e' q. frame p q \<Longrightarrow> ahead q = rest \<Longrightarrow> bare_expr e' = e \<Longrightarrow> Q e' q"
  shows "wp never (parse_postfix E) Q p"
  unfolding parse_postfix_def
proof (rule wp_stepI)
  have "wp never (parse_atom E) (\<lambda>a. looped (postfix_turn E) a Q) p"
  proof (rule read_chain [OF assms(2,1,3)])
    fix e' :: "span expr" and q assume q: "frame p q" "ahead q = rest" "bare_expr e' = e"
    obtain r rs where "rest = r # rs" using assms(3) by (cases rest) auto
    with q(2) assms(4) have "peek_kind q \<notin> {TOp LParen, TOp Dot, TOp LBracket}"
      by (auto simp: after_postfix_def)
    then show "looped (postfix_turn E) e' Q q"
      by (intro looped_step) (use assms(7) [OF q] in \<open>auto simp: postfix_turn_def wp_simps\<close>)
  qed (use assms in \<open>simp_all add: after_postfix_def\<close>)
  then show "wp never (parse_atom E) (\<lambda>a. wp never (loop (postfix_turn E) a) Q) p"
    by (rule wp_mono) (rule read_loop)
qed

section \<open>Prefix forms and operators\<close>

lemma read_operand:
  assumes "ahead p = expr_tokens e @ rest" "plain_expr e" "rest \<noteq> []" "after_postfix (hd rest)"
    "3 * length (expr_tokens e) \<le> w" "depth p + levels e \<le> max_parser_depth"
    and "\<And>e' q. frame p q \<Longrightarrow> ahead q = rest \<Longrightarrow> bare_expr e' = e \<Longrightarrow> Q e' q"
  shows "wp never (parse_unary E) Q p"
proof -
  obtain k ks where "expr_tokens e = k # ks" "starts_atom k" using tokens_start [OF assms(2)] by blast
  with assms(1) starts_atomD have "peek_kind p \<notin> {TKw KwNot, TOp Plus, TOp Minus, TOp Tilde,
      TOp Amp, TKw KwAwait, TKw KwYield, TKw KwLambda}" by auto
  with read_postfix [OF assms] show ?thesis by (simp add: parse_unary_def wp_simps)
qed

lemma read_prefix:
  assumes "ahead p = k # expr_tokens e @ TOp RParen # rest" "plain_expr e" "3 * length (expr_tokens e) + 1 \<le> w"
    "depth p + 1 + levels e \<le> max_parser_depth"
    and "\<And>e' q. frame p q \<Longrightarrow> ahead q = TOp RParen # rest \<Longrightarrow> bare_expr e' = e \<Longrightarrow>
      Q (MkExpr (form e') (span_merge (current_span p) (expr_span e'))) q"
  shows "wp never (prefix_form form (e_pratt E lo)) Q p"
  unfolding prefix_form_def
  using assms by (auto simp: wp_simps frame_def intro!: read_intros read_pratt [of _ e "TOp RParen # rest"])

lemma read_pratt_end:
  assumes "ahead p = k # rest" "after_operand k" "Q e p"
  shows "looped (pratt_turn E lo) e Q p"
  by (rule looped_step)
    (use assms in \<open>auto simp: pratt_turn_def cast_ahead_def peek_binop_def op_binop_def after_operand_def wp_simps\<close>)

lemma read_binary_turn:
  assumes "ahead p = binop_token op # expr_tokens e @ rest" "op \<noteq> NotIn" "plain_expr e"
    "3 * length (expr_tokens e) + 1 \<le> w" "rest \<noteq> []" "after_operand (hd rest)"
    "depth p + 1 + levels e \<le> max_parser_depth"
    and "\<And>e' q. frame p q \<Longrightarrow> ahead q = rest \<Longrightarrow> bare_expr e' = MkExpr (EBinary op (bare_expr a) e) () \<Longrightarrow>
      Q (Inl e') q"
  shows "wp never (pratt_turn E 0 a) Q p"
proof -
  have k: "peek_kind p = binop_token op" using assms(1) by simp
  then have "map_option fst (peek_binop p) = Some op"
    using assms(2) by (cases op) (simp_all add: binop_token_def peek_binop_def op_binop_def)
  then obtain prec right where "peek_binop p = Some (op, prec, right)" by auto
  moreover have "\<not> cast_ahead 0 p"
    using k by (simp add: cast_ahead_def binop_token_def split: bin_op.split)
  ultimately show ?thesis
    unfolding pratt_turn_def
    using assms
    by (auto simp: wp_simps frame_def intro!: read_intros read_pratt [of _ e rest])
qed

lemma read_cast_turn:
  assumes "ahead p = TKw KwAs # type_tokens t @ rest" "plain_type t" "is_cast_type_token (hd (type_tokens t))"
    "3 * length (type_tokens t) + 2 \<le> w" "rest \<noteq> []" "after_type (hd rest)" "depth p \<le> max_parser_depth"
    and "\<And>e' q. frame p q \<Longrightarrow> ahead q = rest \<Longrightarrow> bare_expr e' = MkExpr (ECast (bare_expr a) t) () \<Longrightarrow>
      Q (Inl e') q"
  shows "wp never (pratt_turn E 0 a) Q p"
proof -
  have "cast_ahead 0 p"
    using assms(1,3) type_tokens_start(1) [OF assms(2)]
    by (cases "type_tokens t") (auto simp: cast_ahead_def)
  then show ?thesis
    unfolding pratt_turn_def
    using assms
    by (auto simp: wp_simps frame_def intro!: read_intros read_type [of _ t rest])
qed

lemma read_parse_pratt:
  assumes "plain_expr e" "3 * length (expr_tokens e) \<le> w"
  shows "reads (parse_pratt E lo) (1 + levels e) (expr_tokens e) after_operand (\<lambda>e'. bare_expr e' = e)"
proof (rule readsI)
  fix p rest assume p: "ahead p = expr_tokens e @ rest" "rest \<noteq> []" "after_operand (hd rest)"
    "depth p + (1 + levels e) \<le> max_parser_depth"
  let ?p = "p\<lparr>depth := depth p + 1\<rparr>"
  obtain r rs where r: "rest = r # rs" using p(2) by (cases rest) auto
  have "wp never (parse_unary E) (\<lambda>a. wp never (loop (pratt_turn E lo) a)
    (\<lambda>e' q. frame p (q\<lparr>depth := depth q - 1\<rparr>) \<and> ahead q = rest \<and> bare_expr e' = e)) ?p"
  proof (rule read_operand [OF _ assms(1) p(2) _ assms(2)])
    show "after_postfix (hd rest)" using p(3) by (auto simp: after_postfix_def after_operand_def)
  qed (use p r in \<open>auto intro!: read_loop read_pratt_end\<close>)
  then show "wp never (parse_pratt E lo) (\<lambda>e' q. frame p q \<and> ahead q = rest \<and> bare_expr e' = e) p"
    unfolding parse_pratt_def parse_pratt_inner_def
    by (intro read_guarded) (use p(4) in \<open>simp_all add: wp_simps\<close>)
qed

lemma read_parse_expr:
  assumes "plain_expr e" "3 * length (expr_tokens e) + 1 \<le> w"
  shows "reads (parse_expr E) (1 + levels e) (expr_tokens e) after_expr (\<lambda>e'. bare_expr e' = e)"
proof (rule readsI)
  fix p rest assume p: "ahead p = expr_tokens e @ rest" "rest \<noteq> []" "after_expr (hd rest)"
    "depth p + (1 + levels e) \<le> max_parser_depth"
  then obtain r rs where r: "rest = r # rs" "r \<noteq> TKw KwIf" by (cases rest) (auto simp: after_expr_def)
  have "wp never (e_pratt E 0) (\<lambda>e' q. ahead q = rest \<and> frame p q \<and> bare_expr e' = e) p"
    by (rule read_pratt) (use p assms in \<open>auto simp: after_expr_def\<close>)
  then show "wp never (parse_expr E) (\<lambda>e' q. frame p q \<and> ahead q = rest \<and> bare_expr e' = e) p"
    unfolding parse_expr_def using r by (auto simp: wp_simps elim!: wp_mono)
qed

section \<open>Inside the parentheses\<close>

lemma map_borrow_base [simp]: "borrow_base (map_expr_kind f k) = map_option (map_expr f) (borrow_base k)"
proof (cases k)
  case (ECall callee args)
  then show ?thesis
    by (cases callee, rename_tac j s, case_tac j) (simp_all add: borrow_base_def)
qed (simp_all add: borrow_base_def)

lemma read_validate_borrow:
  "borrowable (bare_expr e) \<Longrightarrow> Q () p \<Longrightarrow> wp never (validate_borrow_operand e) Q p"
proof (induction e rule: validate_borrow_operand.induct)
  case (1 k s)
  show ?case
  proof (cases "borrow_base k")
    case None
    with "1.prems"(1) have "case bare_expr_kind k of EName n \<Rightarrow> True | _ \<Rightarrow> False" by simp
    with None "1.prems"(2) show ?thesis by (cases k) (simp_all add: wp_simps)
  next
    case (Some base)
    with 1 show ?thesis by simp
  qed
qed

lemma read_borrowed:
  assumes "ahead p = expr_tokens e @ TOp RParen # rest" "plain_expr e" "borrowable e"
    "3 * length (expr_tokens e) + 1 \<le> w" "depth p + 1 + levels e \<le> max_parser_depth"
    and "\<And>e' q. frame p q \<Longrightarrow> ahead q = TOp RParen # rest \<Longrightarrow> bare_expr e' = e \<Longrightarrow> Q e' q"
  shows "wp never (borrowed E) Q p"
  unfolding borrowed_def
  by (rule wp_stepI, rule read_pratt [OF assms(1,2,4) _ _ assms(5)])
    (use assms(3,6) in \<open>auto simp: wp_simps intro!: read_validate_borrow\<close>)

lemma read_yield:
  assumes "ahead p = TKw KwYield # optional [] (map_option expr_tokens oe) @ TOp RParen # rest"
    "pred_option plain_expr oe" "3 * length (optional [] (map_option expr_tokens oe)) + 2 \<le> w"
    "depth p + option_levels (map_option (\<lambda>e. 1 + levels e) oe) \<le> max_parser_depth"
    and "\<And>e' q. frame p q \<Longrightarrow> ahead q = TOp RParen # rest \<Longrightarrow> bare_kind_is (EYield oe) e' \<Longrightarrow> Q e' q"
  shows "wp never (parse_yield E) Q p"
proof (cases oe)
  case None
  with assms show ?thesis
    by (auto simp: parse_yield_def wp_simps optional_def yield_ends_def intro!: read_intros)
next
  case (Some e)
  then obtain k ks where k: "expr_tokens e = k # ks" "starts_atom k"
    using assms(2) tokens_start [of e] by auto
  have "k \<notin> set yield_ends" "k \<noteq> TKw KwFrom"
    using k(2) by (auto simp: yield_ends_def starts_atom_def)
  with assms Some k show ?thesis
    by (auto simp: parse_yield_def wp_simps optional_def option_levels_def frame_def
        intro!: read_intros read_expr [of _ e "TOp RParen # rest"])
qed

lemma read_yield_from:
  assumes "ahead p = TKw KwYield # TKw KwFrom # expr_tokens e @ TOp RParen # rest"
    "plain_expr e" "3 * length (expr_tokens e) + 2 \<le> w" "depth p + 1 + levels e \<le> max_parser_depth"
    and "\<And>e' q. frame p q \<Longrightarrow> ahead q = TOp RParen # rest \<Longrightarrow> bare_kind_is (EYieldFrom e) e' \<Longrightarrow> Q e' q"
  shows "wp never (parse_yield E) Q p"
  unfolding parse_yield_def
  using assms by (auto simp: wp_simps frame_def intro!: read_intros read_expr [of _ e "TOp RParen # rest"])

lemma bare_kindI: "bare_expr e = MkExpr k () \<Longrightarrow> bare_kind_is k e"
  by (cases e) simp

lemma read_inside:
  assumes "ahead p = ks @ TOp RParen # rest" "expr_kind_tokens k = enclosed LParen ks RParen"
    "plain_expr_kind k" "is_enclosed k" "\<not> is_ternary k" "3 * length ks \<le> w"
    "depth p + (kind_levels k - 2) \<le> max_parser_depth"
    and goal: "\<And>e' q. frame p q \<Longrightarrow> ahead q = TOp RParen # rest \<Longrightarrow> bare_kind_is k e' \<Longrightarrow> Q e' q"
  shows "wp never (parse_unary E) (\<lambda>a. looped (pratt_turn E 0) a Q) p"
proof -
  have ended: "looped (pratt_turn E 0) e Q q" if "frame p q" "ahead q = TOp RParen # rest" "bare_kind_is k e" for e q
    using goal [OF that] that(2) by (auto intro!: read_pratt_end)
  show ?thesis
  proof (cases k)
    case (EBinary op l r)
    show ?thesis
    proof (rule read_operand [of p l "binop_token op # expr_tokens r @ TOp RParen # rest"])
      show "after_postfix (hd (binop_token op # expr_tokens r @ TOp RParen # rest))"
        by (simp add: after_postfix_def binop_token_def split: bin_op.split)
      fix e' :: "span expr" and q
      assume q: "frame p q" "ahead q = binop_token op # expr_tokens r @ TOp RParen # rest" "bare_expr e' = l"
      show "looped (pratt_turn E 0) e' Q q"
        by (rule looped_step, rule read_binary_turn [OF q(2)])
          (use assms EBinary q in \<open>auto simp: enclosed_def frame_depth [OF q(1)] intro!: ended bare_kindI frame_trans [OF q(1)]\<close>)
    qed (use assms EBinary in \<open>auto simp: enclosed_def\<close>)
  next
    case (ECast l t)
    show ?thesis
    proof (rule read_operand [of p l "TKw KwAs # type_tokens t @ TOp RParen # rest"])
      show "after_postfix (hd (TKw KwAs # type_tokens t @ TOp RParen # rest))"
        by (simp add: after_postfix_def)
      fix e' :: "span expr" and q
      assume q: "frame p q" "ahead q = TKw KwAs # type_tokens t @ TOp RParen # rest" "bare_expr e' = l"
      show "looped (pratt_turn E 0) e' Q q"
        by (rule looped_step, rule read_cast_turn [OF q(2)])
          (use assms ECast q in \<open>auto simp: enclosed_def after_type_def frame_depth [OF q(1)] intro!: ended bare_kindI frame_trans [OF q(1)]\<close>)
    qed (use assms ECast in \<open>auto simp: enclosed_def\<close>)
  next
    case (EUnary op e)
    with assms show ?thesis
      by (cases op) (auto simp: parse_unary_def wp_simps unaryop_token_def enclosed_def
          intro!: read_prefix [of _ _ e rest] ended)
  next
    case (EAwait e)
    with assms show ?thesis
      by (auto simp: parse_unary_def wp_simps enclosed_def intro!: read_prefix [of _ _ e rest] ended)
  next
    case (EBorrow e)
    with assms show ?thesis
      by (auto simp: parse_unary_def wp_simps enclosed_def prefix_form_def frame_def
          intro!: read_intros read_borrowed [of _ e rest] ended)
  next
    case (EYield oe)
    with assms show ?thesis
      by (auto simp: parse_unary_def wp_simps enclosed_def option.pred_map option.map_comp o_def
          intro!: read_yield [of _ oe rest] ended)
  next
    case (EYieldFrom e)
    with assms show ?thesis
      by (auto simp: parse_unary_def wp_simps enclosed_def
          intro!: read_yield_from [of _ e rest] ended)
  qed (use assms in \<open>simp_all add: is_enclosed_def is_ternary_def\<close>)
qed

lemma read_parse_pratt_inside:
  assumes "plain_expr_kind k" "is_enclosed k" "\<not> is_ternary k"
    "expr_kind_tokens k = enclosed LParen ks RParen" "3 * length ks \<le> w"
  shows "reads (parse_pratt E 0) (kind_levels k - 1) ks (\<lambda>k. k = TOp RParen) (bare_kind_is k)"
proof (rule readsI)
  fix p rest assume p: "ahead p = ks @ rest" "rest \<noteq> []" "hd rest = TOp RParen"
    "depth p + (kind_levels k - 1) \<le> max_parser_depth"
  have two: "2 \<le> kind_levels k" using assms(2) by (cases k) (simp_all add: is_enclosed_def)
  obtain rs where r: "rest = TOp RParen # rs" using p(2,3) by (cases rest) auto
  have "wp never (parse_unary E) (\<lambda>a. looped (pratt_turn E 0) a
      (\<lambda>e q. frame p (q\<lparr>depth := depth q - 1\<rparr>) \<and> ahead q = rest \<and> bare_kind_is k e))
      (p\<lparr>depth := depth p + 1\<rparr>)"
    by (rule read_inside [OF _ assms(4,1-3,5), where rest = rs]) (use p two r in simp_all)
  then have "wp never (parse_unary E) (\<lambda>a. wp never (loop (pratt_turn E 0) a)
      (\<lambda>e q. frame p (q\<lparr>depth := depth q - 1\<rparr>) \<and> ahead q = rest \<and> bare_kind_is k e))
      (p\<lparr>depth := depth p + 1\<rparr>)"
    by (rule wp_mono) (rule read_loop)
  then show "wp never (parse_pratt E 0) (\<lambda>e q. frame p q \<and> ahead q = rest \<and> bare_kind_is k e) p"
    unfolding parse_pratt_def parse_pratt_inner_def
    by (intro read_guarded) (use p(4) two in \<open>simp_all add: wp_simps\<close>)
qed

lemma read_ternary:
  assumes "ahead p = expr_tokens a @ TKw KwIf # expr_tokens c @ TKw KwElse # expr_tokens b @ TOp RParen # rest"
    "plain_expr a" "plain_expr b" "plain_expr c"
    "3 * (length (expr_tokens a) + length (expr_tokens b) + length (expr_tokens c)) + 2 \<le> w"
    "depth p + 1 + max (levels c) (max (levels a) (levels b)) \<le> max_parser_depth"
    and "\<And>e' q. frame p q \<Longrightarrow> ahead q = TOp RParen # rest \<Longrightarrow> bare_kind_is (EIfExpr c a b) e' \<Longrightarrow> Q e' q"
  shows "wp never (parse_expr E) Q p"
  unfolding parse_expr_def
proof (rule wp_stepI, rule read_pratt [OF assms(1)])
  fix a' :: "span expr" and q
  assume q: "frame p q" "ahead q = TKw KwIf # expr_tokens c @ TKw KwElse # expr_tokens b @ TOp RParen # rest"
    "bare_expr a' = a"
  show "wp never (look (at (TKw KwIf)) (\<lambda>ternary. if \<not> ternary then pret a'
      else pseq bump (pbind (e_pratt E 0) (\<lambda>cond. pseq (expect (TKw KwElse)) (pbind (e_expr E)
        (\<lambda>else_branch. pret (MkExpr (EIfExpr cond a' else_branch)
          (span_merge (expr_span a') (expr_span else_branch))))))))) Q q"
    using assms q frame_depth [OF q(1)] frame_trans [OF q(1)]
    by (auto simp: wp_simps frame_def intro!: read_intros
        read_pratt [of _ c "TKw KwElse # expr_tokens b @ TOp RParen # rest"] read_expr [of _ b "TOp RParen # rest"])
qed (use assms in auto)

lemma read_parse_expr_inside:
  assumes "plain_expr_kind k" "is_enclosed k" "expr_kind_tokens k = enclosed LParen ks RParen"
    "3 * length ks + 1 \<le> w"
  shows "reads (parse_expr E) (kind_levels k - 1) ks (\<lambda>k. k = TOp RParen) (bare_kind_is k)"
proof (rule readsI)
  fix p rest assume p: "ahead p = ks @ rest" "rest \<noteq> []" "hd rest = TOp RParen"
    "depth p + (kind_levels k - 1) \<le> max_parser_depth"
  obtain rs where r: "rest = TOp RParen # rs" using p(2,3) by (cases rest) auto
  show "wp never (parse_expr E) (\<lambda>e q. frame p q \<and> ahead q = rest \<and> bare_kind_is k e) p"
  proof (cases "is_ternary k")
    case True
    then obtain c a b where "k = EIfExpr c a b" by (cases k) (simp_all add: is_ternary_def)
    with assms p r show ?thesis
      by (intro read_ternary [of p a c b rs]) (auto simp: enclosed_def)
  next
    case False
    have "wp never (e_pratt E 0) (\<lambda>e q. ahead q = rest \<and> frame p q \<and> bare_kind_is k e) p"
      by (rule read [OF reads_inner_pratt [OF assms(1,2) False assms(3,4)] p]) auto
    then show ?thesis
      unfolding parse_expr_def using r by (auto simp: wp_simps elim!: wp_mono)
  qed
qed

lemma next_expr_reads: "expr_reads (Suc w) (next_entry E)"
  by (intro expr_reads.intro next_type_reads expr_reads_axioms.intro)
    (simp_all add: next_entry_def read_parse_expr [simplified] read_parse_pratt [simplified]
      read_parse_expr_inside [simplified] read_parse_pratt_inside [simplified])

end

lemma entries_expr_reads: "expr_reads n (entries h n)"
proof (induction n)
  case 0
  then show ?case
    by (intro expr_reads.intro entries_type_reads expr_reads_axioms.intro) simp_all
next
  case (Suc n)
  then show ?case by (simp add: expr_reads.next_expr_reads)
qed

interpretation entry_exprs: expr_reads n "entries h n" for n h
  by (rule entries_expr_reads)

end
