(* ===== verification/Unparse_Stmt_Tokens.thy ===== *)
theory Unparse_Stmt_Tokens
  imports Parser_Reads_Pratt
begin

text \<open>
  Statements as the unparser writes them, token by token with the layout tokens of the lexer;
  which statements are covered, and how deep the parser nests when it reads them.
\<close>

section \<open>Tokens of written statements\<close>

definition word_tokens :: "string option \<Rightarrow> kinds option" where
  "word_tokens = map_option (\<lambda>n. [name_token n])"

primrec import_target_tokens :: "import_target \<Rightarrow> kinds" where
  "import_target_tokens (ImportTarget n alias) = name_token n # optional [TKw KwAs] (word_tokens alias)"

primrec import_tokens :: "import_stmt \<Rightarrow> kinds" where
  "import_tokens (Import path alias) =
     TKw KwImport # dotted path @ optional [TKw KwAs] (word_tokens alias)"
| "import_tokens (From path targets) =
     TKw KwFrom # dotted path @ TKw KwImport # commas (map import_target_tokens targets)"

primrec alias_tokens :: "'s alias_def \<Rightarrow> kinds" where
  "alias_tokens (TypeAlias n ps t) =
     TKw KwType # name_token n #
     (if ps = [] then [] else enclosed LBracket (commas (map (\<lambda>p. [name_token p]) ps)) RBracket) @
     TOp Eq # type_tokens t"

definition assign_token :: "assign_op \<Rightarrow> token_kind" where
  "assign_token op =
     TOp (case op of
        AEq \<Rightarrow> Eq | APlusEq \<Rightarrow> PlusEq | AMinusEq \<Rightarrow> MinusEq | AStarEq \<Rightarrow> StarEq
      | AStarStarEq \<Rightarrow> StarStarEq | ASlashEq \<Rightarrow> SlashEq | ASlashSlashEq \<Rightarrow> SlashSlashEq
      | APercentEq \<Rightarrow> PercentEq | AAmpEq \<Rightarrow> AmpEq | APipeEq \<Rightarrow> PipeEq | ACaretEq \<Rightarrow> CaretEq
      | AShlEq \<Rightarrow> ShlEq | AShrEq \<Rightarrow> ShrEq)"

primrec param_tokens :: "'s param \<Rightarrow> kinds" where
  "param_tokens (Param n annot dflt s) =
     name_token n # optional [TOp Colon] (map_option type_tokens annot) @
     optional [TOp Eq] (map_option (\<lambda>l. [literal_token l]) dflt)"

text \<open>The parameters in the order they are written; a bare star stands before keyword-only ones.\<close>

datatype 's param_item = RegularItem "'s param" | StarItem "'s param option" | DoubleStarItem "'s param"

primrec item_tokens :: "'s param_item \<Rightarrow> kinds" where
  "item_tokens (RegularItem p) = param_tokens p"
| "item_tokens (StarItem p) = TOp Star # (case p of None \<Rightarrow> [] | Some p' \<Rightarrow> param_tokens p')"
| "item_tokens (DoubleStarItem p) = TOp StarStar # param_tokens p"

primrec param_items :: "'s params \<Rightarrow> 's param_item list" where
  "param_items (Params ps v ks w) =
     map RegularItem ps @ (if v = None \<and> ks = [] then [] else [StarItem v]) @ map RegularItem ks @
     (case w of None \<Rightarrow> [] | Some p \<Rightarrow> [DoubleStarItem p])"

definition params_tokens :: "'s params \<Rightarrow> kinds" where
  "params_tokens ps = commas (map item_tokens (param_items ps))"

primrec pattern_tokens :: "'s pattern \<Rightarrow> kinds"
  and pattern_kind_tokens :: "'s pattern_kind \<Rightarrow> kinds" where
  "pattern_tokens (MkPattern k s) = pattern_kind_tokens k"
| "pattern_kind_tokens (PBinding n) = [TIdent n]"
| "pattern_kind_tokens PWildcard = []"
| "pattern_kind_tokens (PLiteral l) = []"
| "pattern_kind_tokens (PSequence ps r) = []"
| "pattern_kind_tokens (PMapping ps r) = []"
| "pattern_kind_tokens (PClass n ps ks) = []"
| "pattern_kind_tokens (POr ps) = []"

definition else_tokens :: "kinds option \<Rightarrow> kinds" where
  "else_tokens = optional [TKw KwElse, TOp Colon]"

primrec fn_tokens :: "('s, kinds) fn_def \<Rightarrow> kinds" where
  "fn_tokens (FnDef n ps ret body) =
     TKw KwFn # name_token n # enclosed LParen (params_tokens ps) RParen @
     optional [TOp Arrow] (map_option type_tokens ret) @ TOp Colon # body"

primrec block_tokens :: "'s block \<Rightarrow> kinds"
  and stmt_tokens :: "'s stmt \<Rightarrow> kinds"
  and stmt_kind_tokens :: "'s stmt_kind \<Rightarrow> kinds" where
  "block_tokens (Block ss s) = TNewline # TIndent # concat (map stmt_tokens ss) @ [TDedent]"
| "stmt_tokens (MkStmt k s) = stmt_kind_tokens k"
| "stmt_kind_tokens SPass = [TKw KwPass, TNewline]"
| "stmt_kind_tokens (SBreakContinue k) =
     [TKw (case k of Break \<Rightarrow> KwBreak | Continue \<Rightarrow> KwContinue), TNewline]"
| "stmt_kind_tokens (SReturn e) =
     TKw KwReturn # optional [] (map_option expr_tokens e) @ [TNewline]"
| "stmt_kind_tokens (SRaise exc cause) =
     TKw KwRaise # optional [] (map_option expr_tokens exc) @
     optional [TKw KwFrom] (map_option expr_tokens cause) @ [TNewline]"
| "stmt_kind_tokens (SExpr e) = expr_tokens e @ [TNewline]"
| "stmt_kind_tokens (SAssign target op v) =
     expr_tokens target @ assign_token op # expr_tokens v @ [TNewline]"
| "stmt_kind_tokens (SLet target annot v) =
     TKw KwLet # pattern_tokens target @ optional [TOp Colon] (map_option type_tokens annot) @
     TOp Eq # expr_tokens v @ [TNewline]"
| "stmt_kind_tokens (SIf cond b elifs els) =
     TKw KwIf # expr_tokens cond @ TOp Colon # block_tokens b @
     concat (map (\<lambda>(c, b). TKw KwElif # expr_tokens c @ TOp Colon # b)
       (map (map_prod id block_tokens) elifs)) @
     else_tokens (map_option block_tokens els)"
| "stmt_kind_tokens (SWhile cond body els) =
     TKw KwWhile # expr_tokens cond @ TOp Colon # block_tokens body @
     else_tokens (map_option block_tokens els)"
| "stmt_kind_tokens (SFor target iter body els) =
     TKw KwFor # pattern_tokens target @ TKw KwIn # expr_tokens iter @ TOp Colon # block_tokens body @
     else_tokens (map_option block_tokens els)"
| "stmt_kind_tokens (SImport imp) = import_tokens imp @ [TNewline]"
| "stmt_kind_tokens (SFn fd) = fn_tokens (map_fn_def id block_tokens fd)"
| "stmt_kind_tokens (STypeAlias ta) = alias_tokens ta @ [TNewline]"
| "stmt_kind_tokens (SDecorated es inner) =
     concat (map (\<lambda>e. TOp At # expr_tokens e @ [TNewline]) es) @ stmt_tokens inner"
| "stmt_kind_tokens (SClass cd) = []"
| "stmt_kind_tokens (SMatch e arms) = []"
| "stmt_kind_tokens (SWith ws b) = []"
| "stmt_kind_tokens (STry b hs e f) = []"

section \<open>Plain statements\<close>

primrec plain_import :: "import_stmt \<Rightarrow> bool" where
  "plain_import (Import path alias) = (path \<noteq> [])"
| "plain_import (From path targets) = (path \<noteq> [] \<and> targets \<noteq> [])"

primrec plain_alias :: "'s alias_def \<Rightarrow> bool" where
  "plain_alias (TypeAlias n ps t) = plain_type t"

primrec plain_param :: "'s param \<Rightarrow> bool" where
  "plain_param (Param n annot dflt s) = pred_option plain_type annot"

primrec plain_item :: "'s param_item \<Rightarrow> bool" where
  "plain_item (RegularItem p) = plain_param p"
| "plain_item (StarItem p) =
     (case p of None \<Rightarrow> True | Some p' \<Rightarrow> plain_param p' \<and> hd (param_tokens p') \<noteq> TKw KwMatch)"
| "plain_item (DoubleStarItem p) = plain_param p"

definition plain_params :: "'s params \<Rightarrow> bool" where
  "plain_params ps = list_all plain_item (param_items ps)"

primrec plain_pattern :: "'s pattern \<Rightarrow> bool"
  and plain_pattern_kind :: "'s pattern_kind \<Rightarrow> bool" where
  "plain_pattern (MkPattern k s) = plain_pattern_kind k"
| "plain_pattern_kind (PBinding n) = True"
| "plain_pattern_kind PWildcard = False"
| "plain_pattern_kind (PLiteral l) = False"
| "plain_pattern_kind (PSequence ps r) = False"
| "plain_pattern_kind (PMapping ps r) = False"
| "plain_pattern_kind (PClass n ps ks) = False"
| "plain_pattern_kind (POr ps) = False"

text \<open>An expression at the start of a statement must not begin with a dropped name.\<close>

definition opens_stmt :: "'s expr \<Rightarrow> bool" where
  "opens_stmt e \<longleftrightarrow> (\<forall>n \<in> set dropped_names. hd (expr_tokens e) \<noteq> TIdent n)"

primrec plain_fn :: "('s, bool) fn_def \<Rightarrow> bool" where
  "plain_fn (FnDef n ps ret body) = (plain_params ps \<and> pred_option plain_type ret \<and> body)"

definition is_fn :: "'s stmt_kind \<Rightarrow> bool" where
  "is_fn k \<longleftrightarrow> (case k of SFn fd \<Rightarrow> True | _ \<Rightarrow> False)"

primrec stmt_kind_of :: "'s stmt \<Rightarrow> 's stmt_kind" where
  "stmt_kind_of (MkStmt k s) = k"

primrec plain_block :: "'s block \<Rightarrow> bool"
  and plain_stmt :: "'s stmt \<Rightarrow> bool"
  and plain_stmt_kind :: "'s stmt_kind \<Rightarrow> bool" where
  "plain_block (Block ss s) = (ss \<noteq> [] \<and> list_all plain_stmt ss)"
| "plain_stmt (MkStmt k s) = plain_stmt_kind k"
| "plain_stmt_kind SPass = True"
| "plain_stmt_kind (SBreakContinue k) = True"
| "plain_stmt_kind (SReturn e) = pred_option plain_expr e"
| "plain_stmt_kind (SRaise exc cause) = (pred_option plain_expr exc \<and> pred_option plain_expr cause)"
| "plain_stmt_kind (SExpr e) = (plain_expr e \<and> opens_stmt e)"
| "plain_stmt_kind (SAssign target op v) = (plain_expr target \<and> opens_stmt target \<and> plain_expr v)"
| "plain_stmt_kind (SLet target annot v) =
     (plain_pattern target \<and> pred_option plain_type annot \<and> plain_expr v)"
| "plain_stmt_kind (SIf cond b elifs els) =
     (plain_expr cond \<and> plain_block b \<and>
      list_all (\<lambda>(c, b). plain_expr c \<and> b) (map (map_prod id plain_block) elifs) \<and>
      pred_option id (map_option plain_block els))"
| "plain_stmt_kind (SWhile cond body els) =
     (plain_expr cond \<and> plain_block body \<and> pred_option id (map_option plain_block els))"
| "plain_stmt_kind (SFor target iter body els) =
     (plain_pattern target \<and> plain_expr iter \<and> plain_block body \<and>
      pred_option id (map_option plain_block els))"
| "plain_stmt_kind (SImport imp) = plain_import imp"
| "plain_stmt_kind (SFn fd) = plain_fn (map_fn_def id plain_block fd)"
| "plain_stmt_kind (STypeAlias ta) = plain_alias ta"
| "plain_stmt_kind (SDecorated es inner) =
     (list_all plain_expr es \<and> es \<noteq> [] \<and> plain_stmt inner \<and> is_fn (stmt_kind_of inner))"
| "plain_stmt_kind (SClass cd) = False"
| "plain_stmt_kind (SMatch e arms) = False"
| "plain_stmt_kind (SWith ws b) = False"
| "plain_stmt_kind (STry b hs e f) = False"

section \<open>Nesting\<close>

primrec block_levels :: "'s block \<Rightarrow> nat"
  and stmt_levels :: "'s stmt \<Rightarrow> nat"
  and stmt_kind_levels :: "'s stmt_kind \<Rightarrow> nat" where
  "block_levels (Block ss s) = max_list (map stmt_levels ss)"
| "stmt_levels (MkStmt k s) = stmt_kind_levels k"
| "stmt_kind_levels SPass = 0"
| "stmt_kind_levels (SBreakContinue k) = 0"
| "stmt_kind_levels (SReturn e) = option_levels (map_option levels e)"
| "stmt_kind_levels (SRaise exc cause) =
     max (option_levels (map_option levels exc)) (option_levels (map_option levels cause))"
| "stmt_kind_levels (SExpr e) = levels e"
| "stmt_kind_levels (SAssign target op v) = max (levels target) (levels v)"
| "stmt_kind_levels (SLet target annot v) = levels v"
| "stmt_kind_levels (SIf cond b elifs els) =
     max (levels cond) (max (block_levels b)
       (max (max_list (map (\<lambda>(c, n). max (levels c) n) (map (map_prod id block_levels) elifs)))
         (option_levels (map_option block_levels els))))"
| "stmt_kind_levels (SWhile cond body els) =
     max (levels cond) (max (block_levels body) (option_levels (map_option block_levels els)))"
| "stmt_kind_levels (SFor target iter body els) =
     max (levels iter) (max (block_levels body) (option_levels (map_option block_levels els)))"
| "stmt_kind_levels (SImport imp) = 0"
| "stmt_kind_levels (SFn fd) = fn_body (map_fn_def id block_levels fd)"
| "stmt_kind_levels (STypeAlias ta) = 0"
| "stmt_kind_levels (SDecorated es inner) = max (max_list (map levels es)) (stmt_levels inner)"
| "stmt_kind_levels (SClass cd) = 0"
| "stmt_kind_levels (SMatch e arms) = 0"
| "stmt_kind_levels (SWith ws b) = 0"
| "stmt_kind_levels (STry b hs e f) = 0"

abbreviation bare_block :: "'s block \<Rightarrow> unit block" where
  "bare_block \<equiv> map_block (\<lambda>_. ())"

abbreviation bare_stmt :: "'s stmt \<Rightarrow> unit stmt" where
  "bare_stmt \<equiv> map_stmt (\<lambda>_. ())"

abbreviation bare_pattern :: "'s pattern \<Rightarrow> unit pattern" where
  "bare_pattern \<equiv> map_pattern (\<lambda>_. ())"

end
