(* ===== verification/Unparse_Spells.thy ===== *)
theory Unparse_Spells
  imports Lexer_Lines Unparse_Stmt_Tokens
begin

text \<open>
  That the lexer reads the text of written expressions, types and parameters as the tokens that
  specify them, when their names are identifiers and their literals are texts of one token.
\<close>

section \<open>What follows and what starts a text\<close>

definition closes :: "string \<Rightarrow> bool" where
  "closes r \<longleftrightarrow> r \<noteq> [] \<and> hd r \<in> set ('')]},:'' @ [CHR 0x0A])"

definition ends :: "string \<Rightarrow> bool" where
  "ends r \<longleftrightarrow> r \<noteq> [] \<and>
     (hd r \<in> set ('' )]},:;=(['' @ [CHR 0x0A]) \<or>
      hd r = CHR ''.'' \<and> tl r \<noteq> [] \<and> (hd (tl r) = CHR ''_'' \<or> ascii_alphabetic (byte (hd (tl r)))))"

definition starts :: "string \<Rightarrow> bool" where
  "starts s \<longleftrightarrow> s \<noteq> [] \<and> (word_char (hd s) \<or> hd s \<in> {CHR ''('', CHR ''['', CHR ''{'', CHR ''&'', CHR 0x22})"

lemma ends_Cons:
  "ends (c # r) \<longleftrightarrow> c \<in> set ('' )]},:;=(['' @ [CHR 0x0A]) \<or>
     c = CHR ''.'' \<and> r \<noteq> [] \<and> (hd r = CHR ''_'' \<or> ascii_alphabetic (byte (hd r)))"
  by (simp add: ends_def)

lemma ends_simps [simp]:
  "c \<in> set ('' )]},:;=(['' @ [CHR 0x0A]) \<Longrightarrow> ends (c # r)"
  "op_follow (c # r) \<longleftrightarrow> c \<notin> set ''=><*/.''"
  "starts (c # r) \<longleftrightarrow> word_char c \<or> c \<in> {CHR ''('', CHR ''['', CHR ''{'', CHR ''&'', CHR 0x22}"
  by (simp_all add: ends_def op_follow_def starts_def)

lemma closes_ends [simp]: "closes r \<Longrightarrow> ends r" "closes r \<Longrightarrow> op_follow r"
  by (auto simp: closes_def ends_def op_follow_def)

lemma starts_append [simp]: "starts s \<Longrightarrow> starts (s @ r)"
  by (simp add: starts_def)

lemma starts_follow [simp]:
  assumes "starts s"
  shows "op_follow s" "op_follow (s @ r)"
proof -
  from assms have "hd s \<notin> set ''=><*/.''"
    using word_char_not_punctuation [of "hd s"] by (auto simp: starts_def punctuation_def)
  with assms show "op_follow s" "op_follow (s @ r)" by (auto simp: starts_def op_follow_def)
qed

lemma starts_line:
  assumes "starts s"
  shows "s \<noteq> []" "hd s \<notin> {CHR '' '', CHR 0x09, CHR 0x0A, CHR 0x0D, CHR ''#'', CHR 0x5C}"
  using assms lex_one_token_word_char(2) [of "hd s"] by (auto simp: starts_def)

lemma ends_word:
  assumes "ends r"
  obtains c r' where "r = c # r'" "byte c < 128" "\<not> word_char c" "c \<noteq> CHR 0x22" "c \<noteq> CHR 0x27"
proof -
  obtain c r' where r: "r = c # r'" using assms by (cases r) (auto simp: ends_def)
  have "list_all (\<lambda>c. byte c < 128 \<and> \<not> word_char c \<and> c \<noteq> CHR 0x22 \<and> c \<noteq> CHR 0x27)
      ('' )]},:;=(['' @ [CHR 0x0A, CHR ''.''])"
    by code_simp
  moreover have "c \<in> set ('' )]},:;=(['' @ [CHR 0x0A, CHR ''.''])"
    using assms unfolding r ends_Cons by auto
  ultimately show ?thesis using that [OF r] by (auto simp: list_all_iff)
qed

lemma ends_number:
  assumes "ends r"
  shows "number_ends r"
proof -
  from assms obtain c r' where r: "r = c # r'" "byte c < 128" "\<not> word_char c" by (rule ends_word)
  moreover have "c = CHR ''.'' \<longrightarrow> r' \<noteq> [] \<and> (hd r' = CHR ''_'' \<or> ascii_alphabetic (byte (hd r')))"
    using assms unfolding r ends_Cons by auto
  ultimately show ?thesis by (simp add: number_ends_def)
qed

section \<open>Names and literals\<close>

definition ident_text :: "string \<Rightarrow> bool" where
  "ident_text n \<longleftrightarrow> word_text n \<and> n \<notin> {''inf'', ''nan''} \<and> match_keyword n = None"

definition name_text :: "string \<Rightarrow> bool" where
  "name_text n \<longleftrightarrow> ident_text n \<or> n = ''match''"

primrec literal_text :: "literal \<Rightarrow> bool" where
  "literal_text (LitInt s) = number_text s (TInt s)"
| "literal_text (LitFloat s) = (number_text s (TFloat s) \<or> s \<in> {''inf'', ''nan''})"
| "literal_text (LitImag s) = number_text s (TImag s)"
| "literal_text (LitStr s) = list_all plain_char s"
| "literal_text (LitBytes bs) = True"
| "literal_text (LitBool b) = True"
| "literal_text LitNone = True"

locale host_text =
  fixes u :: unicode and d :: "string \<Rightarrow> string"
  assumes ascii: "ascii_tables u" and debug: "debug_format d"
begin

lemma reads_word_ends:
  assumes "word_text w" "ends r"
  shows "reads_token u w (word_token u w) r"
  using assms(2) by (rule ends_word) (auto intro: reads_word [OF ascii assms(1)])

lemma word_token_ident: "ident_text n \<Longrightarrow> word_token u n = TIdent n"
  using ascii word_char_ascii
  by (auto simp: ident_text_def word_token_def ascii_tables_def word_text_def list_all_iff)

lemma reads_ident: "ident_text n \<Longrightarrow> ends r \<Longrightarrow> reads_token u n (TIdent n) r"
  using reads_word_ends [of n r] word_token_ident [of n] by (simp add: ident_text_def)

lemma keyword_words:
  assumes "match_keyword w = Some k"
  shows "word_text w \<and> word_token u w = k"
proof -
  have "list_all (\<lambda>(w, k). word_text w \<and> w \<notin> {''inf'', ''nan''}) keyword_table" by code_simp
  moreover obtain z where "map_of keyword_table w = Some z"
    using assms by (auto simp: match_keyword_def)
  ultimately have "word_text w" "w \<notin> {''inf'', ''nan''}"
    by (auto simp: list_all_iff dest!: map_of_SomeD)
  with assms show ?thesis by (simp add: word_token_def)
qed

lemma reads_kw: "match_keyword w = Some k \<Longrightarrow> ends r \<Longrightarrow> reads_token u w k r"
  using reads_word_ends [of w r] keyword_words [of w k] by simp

lemma reads_name: "name_text n \<Longrightarrow> ends r \<Longrightarrow> reads_token u n (name_token n) r"
  using reads_ident [of n r] reads_kw [of "''match''" "TKw KwMatch" r]
  by (auto simp: name_text_def name_token_def match_keyword_def keyword_table_def ident_text_def)

lemma reads_special_float:
  assumes "s \<in> {''inf'', ''nan''}" "ends r"
  shows "reads_token u s (TFloat s) r"
proof -
  have "word_text s" "word_token u s = TFloat s"
    using assms(1) by (auto simp: word_text_def word_token_def word_char_def ascii_alphanumeric_def
        ascii_alphabetic_def is_ascii_digit_def)
  with reads_word_ends [of s r] assms(2) show ?thesis by simp
qed

lemma reads_literal:
  assumes "literal_text v" "ends r"
  shows "reads_token u (write_literal d v) (literal_token v) r"
proof (cases v)
  case (LitFloat s)
  show ?thesis
  proof (cases "s \<in> {''inf'', ''nan''}")
    case True
    with LitFloat reads_special_float [OF True assms(2)] show ?thesis by simp
  next
    case False
    with LitFloat assms ends_number [OF assms(2)] show ?thesis
      by (simp add: reads_number layout_def bracket_effect_def)
  qed
next
  case (LitStr s)
  from assms(2) obtain c r' where "r = c # r'" "c \<noteq> CHR 0x22" by (rule ends_word)
  with LitStr assms(1) debug reads_string [of s c u r'] show ?thesis by (simp add: debug_format_def)
next
  case (LitBytes bs)
  from assms(2) obtain c r' where "r = c # r'" "c \<noteq> CHR 0x22" by (rule ends_word)
  with LitBytes reads_bytes [OF ascii, of c bs r'] show ?thesis by simp
next
  case (LitBool b)
  with assms(2) reads_kw [of "''True''" "TKw KwTrue" r] reads_kw [of "''False''" "TKw KwFalse" r]
  show ?thesis by (cases b) (simp_all add: match_keyword_def keyword_table_def)
next
  case LitNone
  with assms(2) reads_kw [of "''None''" "TKw KwNone" r] show ?thesis
    by (simp add: match_keyword_def keyword_table_def)
qed (use assms ends_number in \<open>auto simp: layout_def bracket_effect_def intro!: reads_number\<close>)

end

section \<open>Rules for spelling\<close>

named_theorems spelling \<open>texts and their tokens, from left to right\<close>

lemmas [spelling] = spells.nothing spells.space spells_append

lemma spells_op: "op_ends k (s @ r) \<Longrightarrow> spells u r s ks \<Longrightarrow> spells u r (op_text k @ s) (TOp k # ks)"
  by (intro spells.token reads_op)

lemmas spells_brackets [spelling] =
  spells_op [where k = LParen, unfolded op_text_def op_ends_def, simplified]
  spells_op [where k = RParen, unfolded op_text_def op_ends_def, simplified]
  spells_op [where k = LBracket, unfolded op_text_def op_ends_def, simplified]
  spells_op [where k = RBracket, unfolded op_text_def op_ends_def, simplified]
  spells_op [where k = LBrace, unfolded op_text_def op_ends_def, simplified]
  spells_op [where k = RBrace, unfolded op_text_def op_ends_def, simplified]
  spells_op [where k = Comma, unfolded op_text_def op_ends_def, simplified]
  spells_op [where k = Semicolon, unfolded op_text_def op_ends_def, simplified]
  spells_op [where k = At, unfolded op_text_def op_ends_def, simplified]
  spells_op [where k = Tilde, unfolded op_text_def op_ends_def, simplified]

lemmas spells_ops [spelling] =
  spells_op [where k = Colon, unfolded op_text_def op_ends_def, simplified]
  spells_op [where k = Arrow, unfolded op_text_def op_ends_def, simplified]
  spells_op [where k = Eq, unfolded op_text_def op_ends_def, simplified]
  spells_op [where k = Plus, unfolded op_text_def op_ends_def, simplified]
  spells_op [where k = Minus, unfolded op_text_def op_ends_def, simplified]
  spells_op [where k = Star, unfolded op_text_def op_ends_def, simplified]
  spells_op [where k = StarStar, unfolded op_text_def op_ends_def, simplified]
  spells_op [where k = Amp, unfolded op_text_def op_ends_def, simplified]
  spells_op [where k = Pipe, unfolded op_text_def op_ends_def, simplified]

lemma spells_operator: "k \<notin> {Dot, DotDotDot} \<Longrightarrow> spells u r (CHR '' '' # s) ks \<Longrightarrow>
    spells u r (op_text k @ CHR '' '' # s) (TOp k # ks)"
  by (intro spells_op) (auto simp: op_ends_def)

lemma name_start:
  assumes "name_text n"
  obtains c n' where "n = c # n'" "word_char c" "c = CHR ''_'' \<or> ascii_alphabetic (byte c)" "\<not> is_ascii_digit c"
proof -
  have "word_text n"
  proof (cases "n = ''match''")
    case True
    then show ?thesis by (simp, code_simp)
  qed (use assms in \<open>simp add: name_text_def ident_text_def\<close>)
  then show ?thesis
    using that by (cases n) (auto simp: word_text_def word_char_def ascii_alphanumeric_def is_ascii_digit_def)
qed

lemma spells_dot [spelling]:
  assumes "name_text n" "spells u r (n @ s) ks"
  shows "spells u r (CHR ''.'' # n @ s) (TOp Dot # ks)"
  using spells_op [where k = Dot and s = "n @ s", of r u ks] assms(2)
  by (rule_tac name_start [OF assms(1)])
    (auto simp: op_text_def op_ends_def op_follow_def dest: word_char_not_punctuation [unfolded punctuation_def])

lemmas spells_attribute = spells_dot [where s = "[]", simplified]

lemma ends_dot [simp]: "name_text n \<Longrightarrow> ends (CHR ''.'' # n @ s)"
  by (auto simp: ends_Cons elim!: name_start)

lemma starts_name [simp]: "name_text n \<Longrightarrow> starts n"
  by (auto elim!: name_start)

lemma comma_list_Cons: "comma_list (x # xs) = x @ concat (map (\<lambda>y. '', '' @ y) xs)"
  by (induction xs arbitrary: x) (auto simp: comma_list_def)

lemma commas_Cons: "commas (x # xs) = x @ concat (map (\<lambda>y. TOp Comma # y) xs)"
  by (induction xs arbitrary: x) (auto simp: commas_def)

lemma join_with_Cons: "join_with sep (x # xs) = x @ concat (map (\<lambda>y. sep @ y) xs)"
  by (induction xs arbitrary: x) auto

lemma spells_commas [spelling]:
  assumes "\<And>x r. x \<in> set xs \<Longrightarrow> closes r \<Longrightarrow> spells u r (f x) (g x)" "closes r"
  shows "spells u r (comma_list (map f xs)) (commas (map g xs))"
proof (cases xs)
  case (Cons x ys)
  have more: "spells u r (concat (map (\<lambda>y. '', '' @ f y) ys)) (concat (map (\<lambda>y. TOp Comma # g y) ys)) \<and>
      closes (concat (map (\<lambda>y. '', '' @ f y) ys) @ r)"
    if "set ys \<subseteq> set xs" for ys
    using that
  proof (induction ys)
    case (Cons y ys)
    then have "spells u (concat (map (\<lambda>y. '', '' @ f y) ys) @ r) (f y) (g y)"
      using assms(1) by auto
    with Cons show ?case by (auto intro!: spelling simp: closes_def)
  qed (use assms(2) in \<open>auto intro: spells.nothing\<close>)
  from more [of ys] assms(1) [of x] Cons show ?thesis
    by (auto simp: comma_list_Cons commas_Cons comp_def intro!: spells_append)
qed (simp add: comma_list_def commas_def spells.nothing)

lemma spells_list [spelling]:
  assumes "\<And>x r. x \<in> set xs \<Longrightarrow> closes r \<Longrightarrow> spells u r (f x) (g x)" "closes (s @ r)" "spells u r s ks"
  shows "spells u r (comma_list (map f xs) @ s) (commas (map g xs) @ ks)"
  using assms(2,3) by (intro spells_append spells_commas assms(1))

lemma closes_Cons [simp]: "closes (c # r) \<longleftrightarrow> c \<in> set ('')]},:'' @ [CHR 0x0A])"
  by (simp add: closes_def)

section \<open>Words and literals\<close>

context host_text begin

lemma spells_ident [spelling]:
  "ident_text n \<Longrightarrow> ends (s @ r) \<Longrightarrow> spells u r s ks \<Longrightarrow> spells u r (n @ s) (TIdent n # ks)"
  "ident_text n \<Longrightarrow> ends r \<Longrightarrow> spells u r n [TIdent n]"
  by (auto intro: spells.token spells_token reads_ident)

lemma spells_name [spelling]:
  "name_text n \<Longrightarrow> ends (s @ r) \<Longrightarrow> spells u r s ks \<Longrightarrow> spells u r (n @ s) (name_token n # ks)"
  "name_text n \<Longrightarrow> ends r \<Longrightarrow> spells u r n [name_token n]"
  by (auto intro: spells.token spells_token reads_name)

lemma spells_literal [spelling]:
  "literal_text v \<Longrightarrow> ends (s @ r) \<Longrightarrow> spells u r s ks \<Longrightarrow>
     spells u r (write_literal d v @ s) (literal_token v # ks)"
  "literal_text v \<Longrightarrow> ends r \<Longrightarrow> spells u r (write_literal d v) [literal_token v]"
  by (auto intro: spells.token spells_token reads_literal)

lemma spells_kw:
  "match_keyword w = Some (TKw k) \<Longrightarrow> ends (s @ r) \<Longrightarrow> spells u r s ks \<Longrightarrow> spells u r (w @ s) (TKw k # ks)"
  by (auto intro: spells.token reads_kw)

lemma spells_dotted:
  assumes "path \<noteq> []" "list_all name_text path" "ends r"
  shows "spells u r (join_with ''.'' path) (dotted path)"
proof (cases path)
  case (Cons n ns)
  have "spells u r (concat (map (\<lambda>y. ''.'' @ y) ns)) (concat (map (\<lambda>y. [TOp Dot, name_token y]) ns)) \<and>
      ends (concat (map (\<lambda>y. ''.'' @ y) ns) @ r)"
    using assms(2) unfolding Cons
    by (induction ns) (use assms(3) in \<open>auto intro!: spelling\<close>)
  with Cons assms(2) show ?thesis
    by (auto simp: dotted_def join_with_Cons comp_def intro!: spelling)
qed (use assms in simp)

lemma spells_joined:
  assumes "\<And>x r. x \<in> set xs \<Longrightarrow> ends r \<Longrightarrow> spells u r (f x) (g x)" "xs \<noteq> []" "ends r"
  shows "spells u r (join_with '' | '' (map f xs)) (join_with [TOp Pipe] (map g xs))"
proof (cases xs)
  case (Cons x ys)
  have more: "spells u r (concat (map (\<lambda>y. '' | '' @ f y) ys)) (concat (map (\<lambda>y. TOp Pipe # g y) ys)) \<and>
      ends (concat (map (\<lambda>y. '' | '' @ f y) ys) @ r)"
    if "set ys \<subseteq> set xs" for ys
    using that
  proof (induction ys)
    case (Cons y ys)
    then have "spells u (concat (map (\<lambda>y. '' | '' @ f y) ys) @ r) (f y) (g y)"
      using assms(1) by auto
    with Cons show ?case by (auto intro!: spelling)
  qed (use assms(3) in \<open>auto intro: spells.nothing\<close>)
  from more [of ys] assms(1) [of x] Cons show ?thesis
    by (auto simp: join_with_Cons comp_def intro!: spells_append)
qed (use assms in simp)

end

section \<open>Types\<close>

lemma digits_number:
  assumes "w \<noteq> []" "list_all is_ascii_digit w"
  shows "number_text w (TInt w)"
proof -
  let ?l = "lexer_new w 0"
  have all: "takeWhile (\<lambda>c. is_ascii_digit c \<or> c = CHR ''_'') w = w"
    using assms(2) by (auto simp: takeWhile_eq_all_conv list_all_iff)
  have digit: "is_ascii_digit (w ! i)" if "i < length w" for i
    using assms(2) that by (simp add: list_all_length)
  have no_radix: "radix_digits c = None" if "is_ascii_digit c" for c
    using that by (auto simp: radix_digits_def is_ascii_digit_def)
  have l: "pos ?l = 0" "bytes ?l = w" by (simp_all add: lexer_new_def)
  have "byte_at ?l 0 \<noteq> Some (CHR ''.'')"
    using digit [of 0] assms(1) by (auto simp: byte_at_alone is_ascii_digit_def)
  moreover have "digits_from ?l 0 = length w" "byte_at ?l (length w) = None"
    by (simp_all add: byte_at_alone digits_from_def skip_while_def l all)
  moreover have "slice ?l 0 (length w) = Inr w"
    by (simp add: slice_def str_range_def l boundary_0 boundary_le is_boundary_def)
  ultimately have "lex_decimal ?l = Inr (push_token ?l (TInt w) 0 (length w))"
    by (simp add: lex_decimal_def scan_whole_def scan_fraction_def scan_exponent_def number_token_def l)
  moreover have "Option.bind (byte_at ?l 1) radix_digits = None"
    using digit [of 1] no_radix by (auto simp: byte_at_alone bind_eq_None_conv)
  ultimately have "lex_number ?l = Inr (push_token ?l (TInt w) 0 (length w))"
    by (simp add: lex_number_def l)
  with digit [of 0] assms(1) show ?thesis by (simp add: number_text_def hd_conv_nth)
qed

primrec type_text :: "'s type_ann \<Rightarrow> bool"
  and type_kind_text :: "'s type_kind \<Rightarrow> bool" where
  "type_text (MkType k s) = type_kind_text k"
| "type_kind_text (TyName path) = (path = [''None''] \<or> list_all name_text path)"
| "type_kind_text (TyGeneric base args) = (list_all name_text base \<and> list_all type_text args)"
| "type_kind_text (TyUnion parts) = list_all type_text parts"
| "type_kind_text (TyFn params ret) = (list_all type_text params \<and> type_text ret)"
| "type_kind_text (TyTuple parts) = list_all type_text parts"
| "type_kind_text (TyRef inner) = type_text inner"
| "type_kind_text (TyArray elem len) = type_text elem"

context host_text begin

lemmas spells_keywords [spelling] =
  spells_kw [where w = "''and''", unfolded match_keyword_def keyword_table_def, simplified]
  spells_kw [where w = "''or''", unfolded match_keyword_def keyword_table_def, simplified]
  spells_kw [where w = "''in''", unfolded match_keyword_def keyword_table_def, simplified]
  spells_kw [where w = "''not''", unfolded match_keyword_def keyword_table_def, simplified]
  spells_kw [where w = "''await''", unfolded match_keyword_def keyword_table_def, simplified]
  spells_kw [where w = "''yield''", unfolded match_keyword_def keyword_table_def, simplified]
  spells_kw [where w = "''from''", unfolded match_keyword_def keyword_table_def, simplified]
  spells_kw [where w = "''as''", unfolded match_keyword_def keyword_table_def, simplified]
  spells_kw [where w = "''if''", unfolded match_keyword_def keyword_table_def, simplified]
  spells_kw [where w = "''else''", unfolded match_keyword_def keyword_table_def, simplified]
  spells_kw [where w = "''elif''", unfolded match_keyword_def keyword_table_def, simplified]
  spells_kw [where w = "''while''", unfolded match_keyword_def keyword_table_def, simplified]
  spells_kw [where w = "''for''", unfolded match_keyword_def keyword_table_def, simplified]
  spells_kw [where w = "''let''", unfolded match_keyword_def keyword_table_def, simplified]
  spells_kw [where w = "''return''", unfolded match_keyword_def keyword_table_def, simplified]
  spells_kw [where w = "''raise''", unfolded match_keyword_def keyword_table_def, simplified]
  spells_kw [where w = "''import''", unfolded match_keyword_def keyword_table_def, simplified]
  spells_kw [where w = "''pass''", unfolded match_keyword_def keyword_table_def, simplified]
  spells_kw [where w = "''break''", unfolded match_keyword_def keyword_table_def, simplified]
  spells_kw [where w = "''continue''", unfolded match_keyword_def keyword_table_def, simplified]
  spells_kw [where w = "''fn''", unfolded match_keyword_def keyword_table_def, simplified]
  spells_kw [where w = "''type''", unfolded match_keyword_def keyword_table_def, simplified]

lemma spells_none: "ends r \<Longrightarrow> spells u r ''None'' [TKw KwNone]"
  by (rule spells_token, rule reads_kw) (simp_all add: match_keyword_def keyword_table_def)

lemma starts_path: "path \<noteq> [] \<Longrightarrow> list_all name_text path \<Longrightarrow> starts (join_with ''.'' path)"
  by (cases path) (auto simp: join_with_Cons)

lemma starts_type:
  "type_text (t :: 's type_ann) \<Longrightarrow> plain_type t \<Longrightarrow> starts (write_type t)"
  "type_kind_text (k :: 's type_kind) \<Longrightarrow> plain_type_kind k \<Longrightarrow> starts (write_type_kind k)"
proof (induction t and k rule: type_ann.induct type_kind.induct)
  case (TyName path)
  have "word_char (CHR ''N'')" by code_simp
  with TyName show ?case by (auto intro: starts_path)
next
  case (TyUnion parts)
  then show ?case by (cases parts) (auto simp: join_with_Cons)
qed (auto intro!: starts_append starts_path)

lemma spells_type:
  "type_text (t :: 's type_ann) \<Longrightarrow> plain_type t \<Longrightarrow> ends r \<Longrightarrow> spells u r (write_type t) (type_tokens t)"
  "type_kind_text (k :: 's type_kind) \<Longrightarrow> plain_type_kind k \<Longrightarrow> ends r \<Longrightarrow>
     spells u r (write_type_kind k) (type_kind_tokens k)"
proof (induction t and k arbitrary: r and r rule: type_ann.induct type_kind.induct)
  case (TyName path)
  then show ?case by (auto intro: spells_dotted spells_none)
next
  case (TyGeneric base args)
  then show ?case by (auto simp: list_all_iff intro!: spelling spells_dotted)
next
  case (TyUnion parts)
  then show ?case by (auto simp: list_all_iff intro!: spells_joined)
next
  case (TyFn params ret)
  then show ?case by (auto simp: list_all_iff intro!: spelling)
next
  case (TyTuple parts)
  then show ?case by (auto simp: list_all_iff intro!: spelling)
next
  case (TyRef inner)
  then show ?case by (auto simp: starts_type intro!: spelling)
next
  case (TyArray elem len)
  have "reads_token u (dec_digits len) (TInt (dec_digits len)) (CHR '']'' # r)"
    using digits_value [of len] dec_digits_nonempty [of len]
    by (intro reads_number digits_number ends_number) (auto simp: layout_def bracket_effect_def)
  with TyArray show ?case by (auto intro!: spelling spells.token)
qed auto

end

section \<open>Expressions\<close>

primrec arg_text :: "bool call_arg \<Rightarrow> bool" where
  "arg_text (Positional b) = b"
| "arg_text (Keyword n b) = (ident_text n \<and> b)"
| "arg_text (StarArgs b) = b"
| "arg_text (StarStarKwargs b) = b"

primrec expr_text :: "'s expr \<Rightarrow> bool"
  and expr_kind_text :: "'s expr_kind \<Rightarrow> bool" where
  "expr_text (MkExpr k s) = expr_kind_text k"
| "expr_kind_text (ELiteral v) = literal_text v"
| "expr_kind_text (EName n) = ident_text n"
| "expr_kind_text (ECollection c) = pred_collection_lit id (map_collection_lit expr_text c)"
| "expr_kind_text (ECall callee args) =
     (expr_text callee \<and> list_all arg_text (map (map_call_arg expr_text) args))"
| "expr_kind_text (EAttribute base name) = (expr_text base \<and> name_text name)"
| "expr_kind_text (EIndex base index) =
     (expr_text base \<and> pred_index_kind id (map_index_kind expr_text index))"
| "expr_kind_text (EBinary op lhs rhs) = (expr_text lhs \<and> expr_text rhs)"
| "expr_kind_text (EUnary op operand) = expr_text operand"
| "expr_kind_text (EBorrow operand) = expr_text operand"
| "expr_kind_text (EAwait e) = expr_text e"
| "expr_kind_text (EYield e) = pred_option id (map_option expr_text e)"
| "expr_kind_text (EYieldFrom e) = expr_text e"
| "expr_kind_text (ECast e target) = (expr_text e \<and> type_text target)"
| "expr_kind_text (EIfExpr cond then_branch else_branch) =
     (expr_text cond \<and> expr_text then_branch \<and> expr_text else_branch)"
| "expr_kind_text (EFString parts) = False"
| "expr_kind_text (EComprehension c) = False"
| "expr_kind_text (ELambda params body) = False"

context host_text begin

lemma starts_literal:
  assumes "literal_text v"
  shows "starts (write_literal d v)"
proof -
  have number: "starts s" if "number_text s k" for s k
    using that by (auto simp: number_text_def starts_def word_char_def is_ascii_digit_def ascii_alphanumeric_def)
  have words: "list_all word_char ''inbTFN''" by code_simp
  have "starts (quoted s)" for s by (simp add: quoted_def)
  with assms words number debug show ?thesis
    by (cases v) (auto simp: debug_format_def)
qed

lemma starts_expr: "expr_text e \<Longrightarrow> plain_expr e \<Longrightarrow> starts (write_expr d e)"
proof (induction e rule: chain_induct)
  case (Chain x s)
  then show ?case
  proof (cases x)
    case (ECollection c)
    with Chain show ?thesis by (cases c) auto
  qed (auto simp: starts_literal name_text_def)
qed

lemma spells_binop [spelling]:
  assumes "op \<noteq> NotIn" "spells u r (CHR '' '' # s) ks"
  shows "spells u r (binop_str op @ CHR '' '' # s) (binop_token op # ks)"
proof (cases "binop_token op")
  case (TOp k)
  then have "binop_str op = op_text k" "k \<notin> {Dot, DotDotDot}"
    using assms(1) by (cases op; auto simp: binop_token_def binop_str_def op_text_def)+
  with TOp assms(2) show ?thesis by (simp add: spells_operator)
next
  case (TKw k)
  then have "match_keyword (binop_str op) = Some (TKw k)"
    using assms(1) by (cases op) (auto simp: binop_token_def binop_str_def match_keyword_def keyword_table_def)
  with TKw assms(2) show ?thesis by (simp add: spells_kw)
qed (cases op; simp add: binop_token_def)+

lemma spells_unary [spelling]:
  "spells u r s ks \<Longrightarrow> spells u r (unaryop_str UNot @ CHR '' '' # s) (unaryop_token UNot # ks)"
  "op \<noteq> UNot \<Longrightarrow> op_follow (s @ r) \<Longrightarrow> spells u r s ks \<Longrightarrow>
     spells u r (unaryop_str op @ s) (unaryop_token op # ks)"
  by (auto simp: unaryop_str_def unaryop_token_def intro!: spelling)
    (cases op; auto simp: unaryop_str_def unaryop_token_def intro!: spelling)

lemma spells_index:
  assumes "\<And>x r. x \<in> set_index_kind i \<Longrightarrow> closes r \<Longrightarrow> spells u r (write_expr d x) (expr_tokens x)"
    "\<And>x. x \<in> set_index_kind i \<Longrightarrow> starts (write_expr d x)"
    "plain_index (map_index_kind plain_expr i)" "closes r"
  shows "spells u r (write_index (map_index_kind (write_expr d) i)) (index_tokens (map_index_kind expr_tokens i))"
  using assms
proof (induction i arbitrary: r)
  case (Slice start stop step)
  then show ?case
    by (cases start; cases stop; cases step)
      (auto simp: prefixed_def optional_def intro!: spelling)
next
  case (IndexTuple "is")
  have "spells u r (comma_list (map (\<lambda>i. write_index (map_index_kind (write_expr d) i)) is))
      (commas (map (\<lambda>i. index_tokens (map_index_kind expr_tokens i)) is))"
    using IndexTuple.prems by (intro spells_commas IndexTuple.IH) (auto simp: list_all_iff)
  then show ?case by (simp add: comp_def)
qed simp

lemma spells_collection:
  assumes "\<And>x r. x \<in> set_collection_lit c \<Longrightarrow> ends r \<Longrightarrow> spells u r (write_expr d x) (expr_tokens x)"
    "\<And>x. x \<in> set_collection_lit c \<Longrightarrow> starts (write_expr d x)"
    "c \<noteq> CSet []"
  shows "spells u r (write_collection (map_collection_lit (write_expr d) c))
    (collection_tokens (map_collection_lit expr_tokens c))"
proof (cases c)
  case (CDict es)
  have "spells u r' (write_dict_entry (map_dict_entry (write_expr d) e)) (dict_entry_tokens (map_dict_entry expr_tokens e))"
    if e: "e \<in> set es" "closes r'" for e r'
  proof -
    have "\<And>x r. x \<in> set_dict_entry e \<Longrightarrow> ends r \<Longrightarrow> spells u r (write_expr d x) (expr_tokens x)"
      "\<And>x. x \<in> set_dict_entry e \<Longrightarrow> starts (write_expr d x)"
      using assms(1,2) e(1) CDict by auto
    with e(2) show ?thesis by (cases e) (auto intro!: spelling)
  qed
  with CDict show ?thesis by (auto simp: enclosed_def comp_def intro!: spelling)
qed (use assms in \<open>auto simp: enclosed_def intro!: spelling\<close>)

lemma spells_arg:
  assumes "\<And>x r. x \<in> set_call_arg a \<Longrightarrow> closes r \<Longrightarrow> spells u r (write_expr d x) (expr_tokens x)"
    "\<And>x. x \<in> set_call_arg a \<Longrightarrow> starts (write_expr d x)"
    "arg_text (map_call_arg expr_text a)" "closes r"
  shows "spells u r (write_call_arg (map_call_arg (write_expr d) a)) (call_arg_tokens (map_call_arg expr_tokens a))"
  using assms by (cases a) (auto intro!: spelling)

lemma spells_expr:
  fixes e :: "'s expr" and k :: "'s expr_kind" and p :: "'s pattern" and q :: "'s pattern_kind"
  shows "expr_text e \<Longrightarrow> plain_expr e \<Longrightarrow> ends r \<Longrightarrow> spells u r (write_expr d e) (expr_tokens e)"
    "expr_kind_text k \<Longrightarrow> plain_expr_kind k \<Longrightarrow> ends r \<Longrightarrow>
      spells u r (write_expr_kind d k) (expr_kind_tokens k)"
    "p = p" "q = q"
proof (induction e and k and p and q arbitrary: r and r
    rule: expr.induct expr_kind.induct pattern.induct pattern_kind.induct)
  case (ECollection c)
  then have "expr_text x \<and> plain_expr x" if "x \<in> set_collection_lit c" for x
    using that by (auto simp: collection_lit.pred_set collection_lit.set_map)
  with ECollection show ?case by (simp add: spells_collection starts_expr)
next
  case (ECall callee args)
  have "spells u r' (write_call_arg (map_call_arg (write_expr d) a)) (call_arg_tokens (map_call_arg expr_tokens a))"
    if a: "a \<in> set args" "closes r'" for a r'
  proof -
    have "expr_text x \<and> plain_expr x" if "x \<in> set_call_arg a" for x
    proof -
      have "arg_text (map_call_arg expr_text a)" "pred_call_arg id (map_call_arg plain_expr a)"
        using ECall.prems a(1) by (auto simp: list_all_iff)
      with that show ?thesis by (cases a) auto
    qed
    with ECall a show ?thesis by (intro spells_arg) (auto simp: starts_expr list_all_iff)
  qed
  with ECall show ?case by (auto simp: enclosed_def comp_def intro!: spelling)
next
  case (EAttribute base name)
  then show ?case by (auto intro!: spelling spells_attribute)
next
  case (EIndex base index)
  have "plain_index (map_index_kind f i) \<Longrightarrow> x \<in> set_index_kind i \<Longrightarrow> f x" for f :: "'s expr \<Rightarrow> bool" and i x
  proof (induction i)
    case (Slice a b c)
    then show ?case by (cases a; cases b; cases c) auto
  qed (auto simp: list_all_iff)
  then have "expr_text x \<and> plain_expr x" if "x \<in> set_index_kind index" for x
    using that EIndex.prems by (auto simp: index_kind.pred_set index_kind.set_map)
  with EIndex have "spells u r' (write_index (map_index_kind (write_expr d) index)) (index_tokens (map_index_kind expr_tokens index))"
    if "closes r'" for r'
    using that by (intro spells_index) (auto simp: starts_expr)
  with EIndex show ?case by (auto simp: enclosed_def intro!: spelling)
qed (auto simp: starts_expr enclosed_def optional_def prefixed_def intro!: spelling spells_type split: option.split)

end

end
