(* ===== verification/Parser_Reads_Stmt.thy ===== *)
theory Parser_Reads_Stmt
  imports Unparse_Stmt_Tokens
begin

text \<open>
  That the parser reads plain statements and blocks back from their tokens.
\<close>

section \<open>The contract\<close>

definition after_pattern :: "token_kind \<Rightarrow> bool" where
  "after_pattern k \<longleftrightarrow> k \<notin> {TOp Dot, TOp LParen}"

definition after_stmt :: "token_kind \<Rightarrow> bool" where
  "after_stmt k \<longleftrightarrow> k \<notin> {TNewline, TKw KwElif, TKw KwElse}"

locale stmt_reads = expr_reads +
  assumes reads_pattern: "plain_pattern t \<Longrightarrow> 1 \<le> w \<Longrightarrow>
      reads (e_pattern E) 0 (pattern_tokens t) after_pattern (\<lambda>t'. bare_pattern t' = t)"
    and reads_stmt: "plain_stmt s \<Longrightarrow> 3 * length (stmt_tokens s) + 2 \<le> w \<Longrightarrow>
      reads (e_stmt E) (1 + stmt_levels s) (stmt_tokens s) after_stmt (\<lambda>s'. bare_stmt s' = s)"

lemma read_expect_eos [read_intros]:
  assumes "ahead p = TNewline # rest" "rest \<noteq> []" "\<And>q. frame p q \<Longrightarrow> ahead q = rest \<Longrightarrow> Q () q"
  shows "wp never expect_eos Q p"
  unfolding expect_eos_def using assms by (auto simp: wp_simps intro!: read_intros)

lemma read_expect:
  assumes "ahead p = k # rest" "rest \<noteq> []" "\<And>q. frame p q \<Longrightarrow> ahead q = rest \<Longrightarrow> Q (peek p) q"
  shows "wp never (expect k) Q p"
  using assms by (auto simp: wp_simps at_def intro!: read_intros)

lemma read_no_newlines:
  "peek_kind p \<noteq> TNewline \<Longrightarrow> wp never skip_newlines Q p \<longleftrightarrow> Q () p"
  by (simp add: wp_def skip_newlines_def)

lemma read_alias:
  assumes "ahead p = optional [TKw KwAs] (word_tokens ali) @ rest" "rest \<noteq> []" "hd rest \<noteq> TKw KwAs"
    and "\<And>q. frame p q \<Longrightarrow> ahead q = rest \<Longrightarrow> wp never (f ali) Q q"
  shows "wp never (pbind (eat (TKw KwAs)) (\<lambda>as. pbind (optionally as expect_ident) f)) Q p"
proof (cases ali)
  case None
  with assms show ?thesis by (cases rest) (auto simp: wp_simps optional_def word_tokens_def)
next
  case (Some n)
  with assms show ?thesis
    by (auto simp: wp_simps optional_def word_tokens_def frame_def intro!: read_intros)
qed

abbreviation reads_stmt_kind :: "span stmt action \<Rightarrow> unit stmt_kind \<Rightarrow> bool" where
  "reads_stmt_kind f k \<equiv>
     reads f (1 + stmt_kind_levels k) (stmt_kind_tokens k) after_stmt (\<lambda>s. bare_stmt s = MkStmt k ())"

context stmt_reads begin

section \<open>Simple statements\<close>

lemma read_simple_statement:
  assumes "ahead p = [k', TNewline] @ rest" "rest \<noteq> []"
    and "\<And>s q. frame p q \<Longrightarrow> ahead q = rest \<Longrightarrow> bare_stmt s = MkStmt (map_stmt_kind (\<lambda>_. ()) k) () \<Longrightarrow> Q s q"
  shows "wp never (simple_statement k) Q p"
  unfolding simple_statement_def
  using assms by (auto simp: wp_simps frame_def intro!: read_intros)

lemma expr_start:
  assumes "plain_expr e" "ahead p = expr_tokens e @ rest"
  shows "starts_atom (peek_kind p)"
  using tokens_start [OF assms(1)] assms(2) by auto

lemma read_return:
  assumes "plain_stmt_kind (SReturn oe)" "3 * length (stmt_kind_tokens (SReturn oe)) + 1 \<le> w"
  shows "reads_stmt_kind (parse_return E) (SReturn oe)"
proof (rule readsI)
  fix p rest
  assume p: "ahead p = stmt_kind_tokens (SReturn oe) @ rest" "rest \<noteq> []"
    "depth p + (1 + stmt_kind_levels (SReturn oe)) \<le> max_parser_depth"
  show "wp never (parse_return E) (\<lambda>s q. frame p q \<and> ahead q = rest \<and> bare_stmt s = MkStmt (SReturn oe) ()) p"
  proof (cases oe)
    case None
    with p show ?thesis
      unfolding parse_return_def
      by (auto simp: wp_simps optional_def statement_ends_def frame_def intro!: read_intros)
  next
    case (Some e)
    then obtain k ks where k: "expr_tokens e = k # ks" "starts_atom k"
      using assms(1) tokens_start [of e] by auto
    have "k \<notin> set statement_ends" using starts_atomD [OF k(2)] by (simp add: statement_ends_def)
    with Some k p assms show ?thesis
      unfolding parse_return_def
      by (auto simp: wp_simps optional_def option_levels_def frame_def Let_def
          intro!: read_intros read_expr [of _ e "TNewline # rest"])
  qed
qed

lemma read_raise:
  assumes "plain_stmt_kind (SRaise exc cause)" "3 * length (stmt_kind_tokens (SRaise exc cause)) + 1 \<le> w"
  shows "reads_stmt_kind (parse_raise E) (SRaise exc cause)"
proof (rule readsI)
  let ?o = "\<lambda>sep oe. optional sep (map_option expr_tokens oe)"
  fix p rest
  assume p: "ahead p = stmt_kind_tokens (SRaise exc cause) @ rest" "rest \<noteq> []"
    "depth p + (1 + stmt_kind_levels (SRaise exc cause)) \<le> max_parser_depth"
  define more where "more = ?o [TKw KwFrom] cause @ TNewline # rest"
  have more: "more \<noteq> []" "after_expr (hd more)" "hd more \<in> set (TKw KwFrom # statement_ends)"
    by (auto simp: more_def optional_def statement_ends_def split: option.split)
  have last: "wp never (pbind (eat (TKw KwFrom)) (\<lambda>chained. pbind (optionally chained (e_expr E)) (\<lambda>c.
      pseq expect_eos (pret (MkStmt (SRaise e c) (f e c))))))
      (\<lambda>s q. frame p q \<and> ahead q = rest \<and> bare_stmt s = MkStmt (SRaise exc cause) ()) q"
    if q: "frame p q" "ahead q = more" "map_option bare_expr e = exc" for e q f
  proof (cases cause)
    case None
    with p q show ?thesis
      by (auto simp: wp_simps more_def optional_def frame_def intro!: read_intros)
  next
    case (Some c)
    with p q assms show ?thesis
      by (auto simp: wp_simps more_def optional_def option_levels_def frame_def
          intro!: read_intros read_expr [of _ c "TNewline # rest"])
  qed
  show "wp never (parse_raise E)
      (\<lambda>s q. frame p q \<and> ahead q = rest \<and> bare_stmt s = MkStmt (SRaise exc cause) ()) p"
  proof -
    have "ahead p = TKw KwRaise # ?o [] exc @ more" using p(1) by (simp add: more_def)
    then obtain q where q: "frame p q" "ahead q = ?o [] exc @ more"
      and bump: "\<And>Q. wp never bump Q p = Q (peek p) q"
      using bump_to [of p] more(1) by (metis append_is_Nil_conv)
    have "peek_kind q \<notin> set (TKw KwFrom # statement_ends) \<longleftrightarrow> exc \<noteq> None"
    proof (cases exc)
      case None
      with q(2) more show ?thesis by (cases more) (auto simp: optional_def)
    next
      case (Some e)
      then have "starts_atom (peek_kind q)" using q(2) assms(1) expr_start [of e q more] by (simp add: optional_def)
      then show ?thesis using Some starts_atomD by (auto simp: statement_ends_def)
    qed
    moreover define last_span where "last_span e c = (case c of Some e \<Rightarrow> expr_span e
        | None \<Rightarrow> (case e of Some e \<Rightarrow> expr_span e | None \<Rightarrow> current_span p))"
      for e c :: "span expr option"
    ultimately have "wp never (optionally (peek_kind q \<notin> set (TKw KwFrom # statement_ends)) (e_expr E))
      (\<lambda>e. wp never (pbind (eat (TKw KwFrom)) (\<lambda>chained. pbind (optionally chained (e_expr E)) (\<lambda>c.
        pseq expect_eos (pret (MkStmt (SRaise e c) (span_merge (current_span p) (last_span e c)))))))
        (\<lambda>s q. frame p q \<and> ahead q = rest \<and> bare_stmt s = MkStmt (SRaise exc cause) ())) q"
      using assms p frame_depth [OF q(1)]
      by (intro read_optionally [OF q(2) more(1,2)] last frame_trans [OF q(1)]) auto
    then show ?thesis
      unfolding parse_raise_def using p(1) by (simp add: wp_stepI wp_simps bump last_span_def Let_def)
  qed
qed

lemma read_expr_stmt:
  assumes "plain_expr e" "3 * length (expr_tokens e) + 2 \<le> w"
  shows "reads_stmt_kind (parse_expr_or_assign_stmt E) (SExpr e)"
proof (rule readsI)
  fix p rest
  assume p: "ahead p = stmt_kind_tokens (SExpr e) @ rest" "rest \<noteq> []"
    "depth p + (1 + stmt_kind_levels (SExpr e)) \<le> max_parser_depth"
  show "wp never (parse_expr_or_assign_stmt E)
      (\<lambda>s q. frame p q \<and> ahead q = rest \<and> bare_stmt s = MkStmt (SExpr e) ()) p"
    unfolding parse_expr_or_assign_stmt_def
    by (rule wp_stepI, rule read_expr [of p e "TNewline # rest"])
      (use p assms in \<open>auto simp: wp_simps peek_assign_op_def frame_def intro!: read_intros\<close>)
qed

lemma assign_token_after [simp]: "after_expr (assign_token op)" "assign_token op \<noteq> TOp Colon"
  by (cases op; simp add: assign_token_def after_expr_def after_operand_def)+

lemma read_finish_assign:
  assumes "ahead p = assign_token op # expr_tokens v @ TNewline # rest" "rest \<noteq> []"
    "plain_expr v" "3 * length (expr_tokens v) + 2 \<le> w" "depth p + 1 + levels v \<le> max_parser_depth"
    and "\<And>s q. frame p q \<Longrightarrow> ahead q = rest \<Longrightarrow>
      bare_stmt s = MkStmt (SAssign (bare_expr target) op v) () \<Longrightarrow> Q s q"
  shows "wp never (finish_assign E target op) Q p"
  unfolding finish_assign_def
  using assms by (auto simp: wp_simps frame_def intro!: read_intros read_expr [of _ v "TNewline # rest"])

lemma read_assign:
  assumes "plain_expr e" "plain_expr v" "3 * length (expr_tokens e) + 2 \<le> w"
    "3 * length (expr_tokens v) + 2 \<le> w"
  shows "reads_stmt_kind (parse_expr_or_assign_stmt E) (SAssign e op v)"
proof (rule readsI)
  fix p rest
  assume p: "ahead p = stmt_kind_tokens (SAssign e op v) @ rest" "rest \<noteq> []"
    "depth p + (1 + stmt_kind_levels (SAssign e op v)) \<le> max_parser_depth"
  show "wp never (parse_expr_or_assign_stmt E)
      (\<lambda>s q. frame p q \<and> ahead q = rest \<and> bare_stmt s = MkStmt (SAssign e op v) ()) p"
    unfolding parse_expr_or_assign_stmt_def
  proof (rule wp_stepI, rule read_expr [of p e "assign_token op # expr_tokens v @ TNewline # rest"])
    fix e' :: "span expr" and q
    assume q: "frame p q" "ahead q = assign_token op # expr_tokens v @ TNewline # rest" "bare_expr e' = e"
    have [simp]: "assign_token AEq = TOp Eq" by (simp add: assign_token_def)
    have "peek_assign_op q = (if op = AEq then None else Some op)" "peek_kind q = TOp Eq \<longleftrightarrow> op = AEq"
      using q(2) by (cases op; simp add: peek_assign_op_def assign_token_def)+
    moreover have "wp never (finish_assign E e' op)
        (\<lambda>s q. frame p q \<and> ahead q = rest \<and> bare_stmt s = MkStmt (SAssign e op v) ()) q"
      using q p assms frame_depth [OF q(1)] frame_trans [OF q(1)]
      by (intro read_finish_assign [OF q(2)]) auto
    ultimately show "wp never (look (\<lambda>p. 0 < in_class_body p \<and> is_name e' \<and> at (TOp Colon) p) (\<lambda>field.
        if field then parse_class_field E e'
        else look peek_assign_op (\<lambda>aug. case aug of
            Some op \<Rightarrow> finish_assign E e' op
          | None \<Rightarrow> look (at (TOp Eq)) (\<lambda>plain.
              if plain then finish_assign E e' AEq
              else pseq expect_eos (pret (MkStmt (SExpr e') (expr_span e')))))))
        (\<lambda>s q. frame p q \<and> ahead q = rest \<and> bare_stmt s = MkStmt (SAssign e op v) ()) q"
      using q(2) by (cases "op = AEq") (simp_all add: wp_simps)
  qed (use p assms in auto)
qed

lemma read_pattern:
  assumes "ahead p = pattern_tokens t @ rest" "plain_pattern t" "1 \<le> w" "rest \<noteq> []" "after_pattern (hd rest)"
    "depth p \<le> max_parser_depth"
    and "\<And>t' q. frame p q \<Longrightarrow> ahead q = rest \<Longrightarrow> bare_pattern t' = t \<Longrightarrow> Q t' q"
  shows "wp never (e_pattern E) Q p"
  by (rule read [OF reads_pattern]) (use assms in auto)

lemma read_annotation:
  assumes "ahead p = optional [k] (map_option type_tokens annot) @ rest" "rest \<noteq> []"
    "after_type (hd rest)" "hd rest \<noteq> k" "pred_option plain_type annot"
    "3 * length (optional [k] (map_option type_tokens annot)) \<le> w + 1" "depth p \<le> max_parser_depth"
    "k \<in> {TOp Colon, TOp Arrow}"
    and "\<And>t q. frame p q \<Longrightarrow> ahead q = rest \<Longrightarrow> map_option bare_type t = annot \<Longrightarrow> wp never (f t) Q q"
  shows "wp never (pbind (eat k) (\<lambda>typed. pbind (optionally typed (e_type E)) f)) Q p"
proof (cases annot)
  case None
  with assms show ?thesis by (cases rest) (auto simp: wp_simps optional_def)
next
  case (Some t)
  with assms show ?thesis
    by (auto simp: wp_simps optional_def frame_def intro!: read_intros read_type [of _ t rest])
qed

lemma read_let:
  assumes "plain_stmt_kind (SLet t annot v)" "3 * length (stmt_kind_tokens (SLet t annot v)) + 1 \<le> w"
  shows "reads_stmt_kind (parse_let E) (SLet t annot v)"
proof (rule readsI)
  fix p rest
  let ?annot = "optional [TOp Colon] (map_option type_tokens annot)"
  let ?more = "?annot @ TOp Eq # expr_tokens v @ TNewline # rest"
  assume p: "ahead p = stmt_kind_tokens (SLet t annot v) @ rest" "rest \<noteq> []"
    "depth p + (1 + stmt_kind_levels (SLet t annot v)) \<le> max_parser_depth"
  have more: "after_pattern (hd ?more)"
    by (auto simp: optional_def after_pattern_def split: option.split)
  have w: "3 * length ?annot \<le> w + 1" "3 * length (expr_tokens v) + 2 \<le> w" "1 \<le> w"
    using assms(2) by (simp_all add: optional_def split: option.splits)
  have tail: "wp never (pbind (eat (TOp Colon)) (\<lambda>typed. pbind (optionally typed (e_type E)) (\<lambda>annot.
      pseq (expect (TOp Eq)) (pbind (e_expr E) (\<lambda>v. pseq expect_eos (
        pret (MkStmt (SLet t' annot v) (span_merge start (expr_span v)))))))))
      (\<lambda>s q. frame p q \<and> ahead q = rest \<and> bare_stmt s = MkStmt (SLet t annot v) ()) q"
    if q: "frame p q" "ahead q = ?more" "bare_pattern t' = t" for t' q start
    by (rule read_annotation [OF q(2)])
      (use p assms(1) w q in \<open>auto simp: wp_simps after_type_def frame_def
         intro!: read_intros read_expr [of _ v "TNewline # rest"]\<close>)
  show "wp never (parse_let E) (\<lambda>s q. frame p q \<and> ahead q = rest \<and> bare_stmt s = MkStmt (SLet t annot v) ()) p"
    unfolding parse_let_def
    by (rule wp_stepI, rule wp_stepI, rule read_expect [of _ _ "pattern_tokens t @ ?more"],
      use p in simp, simp, rule wp_stepI, rule read_pattern [OF _ _ w(3) _ more], assumption,
      use assms(1) in simp, simp, use p frame_depth in \<open>force\<close>, rule tail, rule frame_trans, assumption+)
qed

section \<open>Blocks\<close>

definition starts_stmt :: "token_kind \<Rightarrow> bool" where
  "starts_stmt k \<longleftrightarrow>
     (case k of
        TKw w \<Rightarrow> w \<notin> {KwElif, KwElse} | TOp At \<Rightarrow> True | _ \<Rightarrow> starts_atom k)"

lemma starts_stmtD:
  "starts_stmt k \<Longrightarrow> k \<notin> {TNewline, TIndent, TDedent, TEof} \<and> after_stmt k"
  by (auto simp: starts_stmt_def starts_atom_def after_stmt_def)

lemma atom_starts_stmt: "starts_atom k \<Longrightarrow> starts_stmt k"
  by (auto simp: starts_stmt_def starts_atom_def split: token_kind.split_asm)

lemma stmt_kind_start: "plain_stmt_kind k \<Longrightarrow> \<exists>j js. stmt_kind_tokens k = j # js \<and> starts_stmt j"
proof (cases k)
  case (SExpr e)
  then show "plain_stmt_kind k \<Longrightarrow> ?thesis" using tokens_start [of e] atom_starts_stmt by fastforce
next
  case (SAssign e op v)
  then show "plain_stmt_kind k \<Longrightarrow> ?thesis" using tokens_start [of e] atom_starts_stmt by fastforce
next
  case (SDecorated es s)
  then show "plain_stmt_kind k \<Longrightarrow> ?thesis" by (cases es) (auto simp: starts_stmt_def)
next
  case (SImport imp)
  then show ?thesis by (cases imp) (auto simp: starts_stmt_def)
next
  case (STypeAlias ta)
  then show ?thesis by (cases ta) (auto simp: starts_stmt_def)
next
  case (SFn fd)
  then show ?thesis by (cases fd) (auto simp: starts_stmt_def)
qed (auto simp: starts_stmt_def split: break_kind.split)

lemma stmt_start: "plain_stmt s \<Longrightarrow> \<exists>j js. stmt_tokens s = j # js \<and> starts_stmt j"
  using stmt_kind_start by (cases s) simp

lemma looped_stmts:
  assumes "ahead p = concat (map stmt_tokens ss) @ TDedent # rest" "rest \<noteq> []" "list_all plain_stmt ss"
    "3 * length (concat (map stmt_tokens ss)) + 2 \<le> w"
    "depth p + 1 + max_list (map stmt_levels ss) \<le> max_parser_depth"
    and "\<And>as q. frame p q \<Longrightarrow> ahead q = TDedent # rest \<Longrightarrow> map bare_stmt as = map bare_stmt as0 @ ss \<Longrightarrow> Q as q"
  shows "looped (\<lambda>stmts. pseq skip_newlines (look peek_kind (\<lambda>k.
      if k = TDedent \<or> k = TEof then break_with stmts
      else pbind (e_stmt E) (\<lambda>s. again (stmts @ [s]))))) as0 Q p"
  using assms
proof (induction ss arbitrary: p as0)
  case Nil
  then show ?case by (intro looped_step) (auto simp: wp_simps read_no_newlines)
next
  case (Cons s ss)
  let ?more = "concat (map stmt_tokens ss) @ TDedent # rest"
  obtain k ks where k: "stmt_tokens s = k # ks" "starts_stmt k"
    using Cons.prems(3) stmt_start [of s] by auto
  have more: "after_stmt (hd ?more)"
    using Cons.prems(3) stmt_start starts_stmtD
    by (cases ss) (fastforce simp: after_stmt_def)+
  have "wp never (e_stmt E) (\<lambda>s'. wp never (again (as0 @ [s'])) (\<lambda>r q. case r of
      Inl a' \<Rightarrow> length (ahead q) < length (ahead p) \<and> looped (\<lambda>stmts. pseq skip_newlines (look peek_kind (\<lambda>k.
        if k = TDedent \<or> k = TEof then break_with stmts
        else pbind (e_stmt E) (\<lambda>s. again (stmts @ [s]))))) a' Q q
    | Inr b \<Rightarrow> Q b q)) p"
    by (rule read [OF reads_stmt [of s], where rest = ?more])
      (use Cons.prems k more in \<open>auto simp: wp_simps frame_def intro!: Cons.IH\<close>)
  with Cons.prems(1) k starts_stmtD [OF k(2)] show ?case
    by (intro looped_step) (simp add: wp_simps read_no_newlines)
qed

lemma read_block:
  assumes "ahead p = block_tokens b @ rest" "rest \<noteq> []" "plain_block b" "3 * length (block_tokens b) \<le> w + 6"
    "depth p + 1 + block_levels b \<le> max_parser_depth"
    and "\<And>b' q. frame p q \<Longrightarrow> ahead q = rest \<Longrightarrow> bare_block b' = b \<Longrightarrow> Q b' q"
  shows "wp never (parse_block E) Q p"
proof (cases b)
  case (Block ss u)
  have "wp never (loop (\<lambda>stmts. pseq skip_newlines (look peek_kind (\<lambda>k.
      if k = TDedent \<or> k = TEof then break_with stmts
      else pbind (e_stmt E) (\<lambda>s. again (stmts @ [s]))))) [])
      (\<lambda>as r. ahead r = TDedent # rest \<and> frame p r \<and> map bare_stmt as = ss) q"
    if q: "frame p q" "ahead q = concat (map stmt_tokens ss) @ TDedent # rest" for q
    by (rule read_loop, rule looped_stmts [OF q(2) assms(2)])
      (use assms Block q in \<open>auto simp: frame_def\<close>)
  note body = this
  show ?thesis
    unfolding parse_block_def
    by (rule wp_stepI, rule wp_stepI, rule read_expect [of _ _ "tl (block_tokens b @ rest)"],
      use assms(1) Block in simp, use assms(2) Block in simp, rule wp_stepI,
      subst read_no_newlines, use Block in simp, rule wp_stepI,
      rule read_expect [of _ _ "concat (map stmt_tokens ss) @ TDedent # rest"],
      use Block in simp, simp, rule wp_stepI, rule wp_mono [OF body], erule (1) frame_trans, assumption,
      use assms(2,6) Block in \<open>auto simp: wp_simps Let_def frame_def intro!: read_intros\<close>)
qed

lemma read_colon_block:
  assumes "ahead p = TOp Colon # block_tokens b @ rest" "rest \<noteq> []" "plain_block b"
    "3 * length (block_tokens b) \<le> w + 6" "depth p + 1 + block_levels b \<le> max_parser_depth"
    and "\<And>b' q. frame p q \<Longrightarrow> ahead q = rest \<Longrightarrow> bare_block b' = b \<Longrightarrow> Q b' q"
  shows "wp never (parse_colon_block E) Q p"
  unfolding parse_colon_block_def
  by (rule wp_stepI, rule read_expect [OF assms(1)], use assms(2) in simp, rule read_block [OF _ assms(2,3,4)])
    (use assms in \<open>auto simp: frame_def\<close>)

lemma read_else:
  assumes "ahead p = else_tokens (map_option block_tokens ob) @ rest" "rest \<noteq> []" "after_stmt (hd rest)"
    "pred_option plain_block ob"
    "3 * length (else_tokens (map_option block_tokens ob)) \<le> w + 6"
    "depth p + 1 + option_levels (map_option block_levels ob) \<le> max_parser_depth"
    and "\<And>b' q. frame p q \<Longrightarrow> ahead q = rest \<Longrightarrow> map_option bare_block b' = ob \<Longrightarrow> Q b' q"
  shows "wp never (parse_else E) Q p"
proof (cases ob)
  case None
  with assms show ?thesis
    by (cases rest) (auto simp: parse_else_def wp_simps else_tokens_def optional_def after_stmt_def
        read_no_newlines)
next
  case (Some b)
  with assms show ?thesis
    by (auto simp: parse_else_def wp_simps else_tokens_def optional_def option_levels_def frame_def
        read_no_newlines intro!: read_intros read_colon_block [of _ b rest])
qed

section \<open>Conditionals and loops\<close>

definition elif_tokens :: "unit expr \<times> unit block \<Rightarrow> kinds" where
  "elif_tokens = (\<lambda>(c, b). TKw KwElif # expr_tokens c @ TOp Colon # block_tokens b)"

lemma elif_tokens_pair [simp]:
  "elif_tokens (c, b) = TKw KwElif # expr_tokens c @ TOp Colon # block_tokens b"
  by (simp add: elif_tokens_def)

definition elif_fits :: "parser \<Rightarrow> unit expr \<times> unit block \<Rightarrow> bool" where
  "elif_fits p = (\<lambda>(c, b). plain_expr c \<and> plain_block b \<and> 3 * length (elif_tokens (c, b)) \<le> w \<and>
     depth p + 1 + levels c \<le> max_parser_depth \<and> depth p + 1 + block_levels b \<le> max_parser_depth)"

abbreviation bare_elif :: "span expr \<times> span block \<Rightarrow> unit expr \<times> unit block" where
  "bare_elif \<equiv> map_prod bare_expr bare_block"

lemma elif_fits_frame: "frame p q \<Longrightarrow> elif_fits q = elif_fits p"
  by (simp add: elif_fits_def frame_def)

lemma looped_elifs:
  assumes "ahead p = concat (map elif_tokens es) @ else_tokens (map_option block_tokens ob) @ rest"
    "rest \<noteq> []" "after_stmt (hd rest)" "\<And>e. e \<in> set es \<Longrightarrow> elif_fits p e" "pred_option plain_block ob"
    "3 * length (else_tokens (map_option block_tokens ob)) \<le> w + 6"
    "depth p + 1 + option_levels (map_option block_levels ob) \<le> max_parser_depth"
    and "\<And>as b q. frame p q \<Longrightarrow> ahead q = rest \<Longrightarrow> map bare_elif as = map bare_elif as0 @ es \<Longrightarrow>
      map_option bare_block b = ob \<Longrightarrow> Q (as, b) q"
  shows "looped (\<lambda>elifs. pseq skip_newlines (pbind (eat (TKw KwElif)) (\<lambda>more.
      if more then pbind (e_expr E) (\<lambda>c. pbind (parse_colon_block E) (\<lambda>b. again (elifs @ [(c, b)])))
      else look (at (TKw KwElse)) (\<lambda>other.
        if other then pseq bump (pbind (parse_colon_block E) (\<lambda>b. break_with (elifs, Some b)))
        else break_with (elifs, None))))) as0 Q p"
  using assms
proof (induction es arbitrary: p as0)
  case Nil
  show ?case
  proof (cases ob)
    case None
    with Nil.prems show ?thesis
      by (intro looped_step, cases rest)
        (auto simp: wp_simps else_tokens_def optional_def after_stmt_def read_no_newlines)
  next
    case (Some b)
    with Nil.prems show ?thesis
      by (intro looped_step)
        (auto simp: wp_simps else_tokens_def optional_def option_levels_def frame_def read_no_newlines
          intro!: read_intros read_colon_block [of _ b rest])
  qed
next
  case (Cons e es)
  obtain c b where e: "e = (c, b)" by (cases e)
  let ?more = "concat (map elif_tokens es) @ else_tokens (map_option block_tokens ob) @ rest"
  have fit: "plain_expr c" "plain_block b" "3 * length (expr_tokens c) + 2 \<le> w"
    "3 * length (block_tokens b) \<le> w + 6" "depth p + 1 + levels c \<le> max_parser_depth"
    "depth p + 1 + block_levels b \<le> max_parser_depth"
    using Cons.prems(4) [of e] e by (simp_all add: elif_fits_def)
  have more: "?more \<noteq> []" using Cons.prems(2) by simp
  have ahead: "ahead p = TKw KwElif # expr_tokens c @ TOp Colon # block_tokens b @ ?more"
    using Cons.prems(1) e by simp
  have IH: "looped (\<lambda>elifs. pseq skip_newlines (pbind (eat (TKw KwElif)) (\<lambda>more.
      if more then pbind (e_expr E) (\<lambda>c. pbind (parse_colon_block E) (\<lambda>b. again (elifs @ [(c, b)])))
      else look (at (TKw KwElse)) (\<lambda>other.
        if other then pseq bump (pbind (parse_colon_block E) (\<lambda>b. break_with (elifs, Some b)))
        else break_with (elifs, None))))) (as0 @ [(c', b')]) Q q"
    if "frame p q" "ahead q = ?more" "bare_expr c' = c" "bare_block b' = b" for q c' b'
    by (rule Cons.IH [OF that(2) Cons.prems(2,3) _ Cons.prems(5,6)])
      (use that e Cons.prems(4,7) elif_fits_frame [OF that(1)] frame_depth [OF that(1)] in
        \<open>auto intro!: Cons.prems(8) frame_trans [OF that(1)]\<close>)
  show ?case
    using ahead more fit Cons.prems(2)
    by (intro looped_step)
      (auto simp: wp_simps frame_def read_no_newlines
        intro!: read_intros read_expr [of _ c "TOp Colon # block_tokens b @ ?more"]
          read_colon_block [of _ b ?more] IH)
qed

lemma length_concat_member: "x \<in> set xs \<Longrightarrow> length (f x) \<le> length (concat (map f xs))"
  by (induction xs) auto

lemma read_while:
  assumes "plain_stmt_kind (SWhile c b els)" "3 * length (stmt_kind_tokens (SWhile c b els)) + 1 \<le> w"
  shows "reads_stmt_kind (parse_while E) (SWhile c b els)"
proof (rule readsI)
  fix p rest
  let ?else = "else_tokens (map_option block_tokens els)"
  assume p: "ahead p = stmt_kind_tokens (SWhile c b els) @ rest" "rest \<noteq> []" "after_stmt (hd rest)"
    "depth p + (1 + stmt_kind_levels (SWhile c b els)) \<le> max_parser_depth"
  have w: "3 * length (expr_tokens c) + 2 \<le> w" "3 * length (block_tokens b) \<le> w + 6"
    "3 * length ?else \<le> w + 6" "?else @ rest \<noteq> []"
    "pred_option plain_block els"
    using assms p(2) by (simp_all add: option.pred_map)
  show "wp never (parse_while E)
      (\<lambda>s q. frame p q \<and> ahead q = rest \<and> bare_stmt s = MkStmt (SWhile c b els) ()) p"
    unfolding parse_while_def
    using p assms(1) w
    by (auto simp: wp_simps frame_def intro!: read_intros
        read_expr [of _ c "TOp Colon # block_tokens b @ ?else @ rest"]
        read_colon_block [of _ b "?else @ rest"] read_else [of _ els rest])
qed

lemma read_for:
  assumes "plain_stmt_kind (SFor t c b els)" "3 * length (stmt_kind_tokens (SFor t c b els)) + 1 \<le> w"
  shows "reads_stmt_kind (parse_for E) (SFor t c b els)"
proof (rule readsI)
  fix p rest
  let ?else = "else_tokens (map_option block_tokens els)"
  let ?more = "TKw KwIn # expr_tokens c @ TOp Colon # block_tokens b @ ?else @ rest"
  assume p: "ahead p = stmt_kind_tokens (SFor t c b els) @ rest" "rest \<noteq> []" "after_stmt (hd rest)"
    "depth p + (1 + stmt_kind_levels (SFor t c b els)) \<le> max_parser_depth"
  have w: "3 * length (expr_tokens c) + 2 \<le> w" "3 * length (block_tokens b) \<le> w + 6" "1 \<le> w"
    "3 * length ?else \<le> w + 6" "?else @ rest \<noteq> []"
    "pred_option plain_block els" "after_pattern (TKw KwIn)"
    using assms p(2) by (simp_all add: option.pred_map after_pattern_def)
  show "wp never (parse_for E)
      (\<lambda>s q. frame p q \<and> ahead q = rest \<and> bare_stmt s = MkStmt (SFor t c b els) ()) p"
    unfolding parse_for_def parse_for_target_def
    using p assms(1) w
    by (auto simp: wp_simps frame_def intro!: read_intros read_pattern [of _ t ?more]
        read_expr [of _ c "TOp Colon # block_tokens b @ ?else @ rest"]
        read_colon_block [of _ b "?else @ rest"] read_else [of _ els rest])
qed

lemma read_if:
  assumes "plain_stmt_kind (SIf c b es els)" "3 * length (stmt_kind_tokens (SIf c b es els)) + 1 \<le> w"
  shows "reads_stmt_kind (parse_if E) (SIf c b es els)"
proof (rule readsI)
  fix p rest
  let ?else = "else_tokens (map_option block_tokens els)"
  let ?more = "concat (map elif_tokens es) @ ?else @ rest"
  assume p: "ahead p = stmt_kind_tokens (SIf c b es els) @ rest" "rest \<noteq> []" "after_stmt (hd rest)"
    "depth p + (1 + stmt_kind_levels (SIf c b es els)) \<le> max_parser_depth"
  have elifs: "concat (map (\<lambda>(c, b). TKw KwElif # expr_tokens c @ TOp Colon # b)
      (map (map_prod id block_tokens) es)) = concat (map elif_tokens es)"
    by (rule arg_cong [where f = concat]) (auto simp: elif_tokens_def)
  have w: "3 * length (expr_tokens c) + 2 \<le> w" "3 * length (block_tokens b) \<le> w + 6"
    "3 * length ?else \<le> w + 6" "?more \<noteq> []" "pred_option plain_block els"
    "3 * length (concat (map elif_tokens es)) \<le> w"
    using assms p(2) by (simp_all add: option.pred_map elifs [simplified])
  have ahead: "ahead p = TKw KwIf # expr_tokens c @ TOp Colon # block_tokens b @ ?more"
    using p(1) elifs by simp
  have plain: "plain_expr c" "plain_block b" using assms(1) by simp_all
  have fits: "elif_fits q e" if e: "e \<in> set es" and q: "depth q = depth p" for e q
  proof -
    have "length (elif_tokens e) \<le> length (concat (map elif_tokens es))"
      by (rule length_concat_member [OF e])
    moreover have "max (levels (fst e)) (block_levels (snd e)) \<le>
        max_list (map (\<lambda>(c, n). max (levels c) n) (map (map_prod id block_levels) es))"
      by (rule max_list_member, unfold set_map image_image, rule image_eqI [OF _ e])
        (simp add: case_prod_beta)
    ultimately show ?thesis
      using assms(1) w(6) p(4) e q by (cases e) (force simp: elif_fits_def list_all_iff)
  qed
  show "wp never (parse_if E)
      (\<lambda>s q. frame p q \<and> ahead q = rest \<and> bare_stmt s = MkStmt (SIf c b es els) ()) p"
    unfolding parse_if_def
    using p(2-4) ahead plain w(1-5)
    by (auto simp: wp_simps frame_def intro!: read_intros fits
        read_expr [of _ c "TOp Colon # block_tokens b @ ?more"]
        read_colon_block [of _ b ?more] read_loop looped_elifs [where ob = els and es = es and rest = rest])
qed

end

end
