(* ===== verification/Parser_Reads_Def.thy ===== *)
theory Parser_Reads_Def
  imports Parser_Reads_Stmt
begin

text \<open>
  Reading imports, type aliases, functions and decorated functions; the contract of statements
  for one more unit of fuel, its interpretation on \<open>entries\<close>, and modules.
\<close>

section \<open>Imports and aliases\<close>

lemma looped_targets:
  assumes "ahead p = commas (map import_target_tokens (t # ts)) @ TNewline # rest" "rest \<noteq> []"
    and "\<And>as q. frame p q \<Longrightarrow> ahead q = TNewline # rest \<Longrightarrow> as = as0 @ t # ts \<Longrightarrow> Q as q"
  shows "looped (\<lambda>targets. pbind expect_ident (\<lambda>name. pbind (eat (TKw KwAs)) (\<lambda>as.
      pbind (optionally as expect_ident) (\<lambda>alias. pbind (eat (TOp Comma)) (\<lambda>comma.
        if comma then again (targets @ [ImportTarget name alias])
        else break_with (targets @ [ImportTarget name alias])))))) as0 Q p"
  using assms
proof (induction ts arbitrary: t p as0)
  case Nil
  obtain n a where t: "t = ImportTarget n a" by (cases t)
  with Nil have p: "ahead p = name_token n # optional [TKw KwAs] (word_tokens a) @ TNewline # rest"
    by (simp add: commas_def)
  show ?case
    by (rule looped_step, rule wp_stepI, rule read_expect_ident [OF p], simp, rule read_alias, assumption,
      simp, simp) (use Nil t in \<open>auto simp: wp_simps frame_def\<close>)
next
  case (Cons t' ts)
  obtain n a where t: "t = ImportTarget n a" by (cases t)
  let ?more = "TOp Comma # commas (map import_target_tokens (t' # ts)) @ TNewline # rest"
  from t Cons.prems(1) have p: "ahead p = name_token n # optional [TKw KwAs] (word_tokens a) @ ?more"
    by (simp add: commas_def)
  show ?case
    by (rule looped_step, rule wp_stepI, rule read_expect_ident [OF p], simp, rule read_alias, assumption,
      simp, simp) (use Cons t p in \<open>auto simp: wp_simps frame_def intro!: read_intros Cons.IH\<close>)
qed

lemma read_import:
  assumes "plain_import imp"
  shows "reads_stmt_kind parse_import (SImport imp)"
proof (rule readsI)
  fix p rest
  assume p: "ahead p = stmt_kind_tokens (SImport imp) @ rest" "rest \<noteq> []"
  show "wp never parse_import (\<lambda>s q. frame p q \<and> ahead q = rest \<and> bare_stmt s = MkStmt (SImport imp) ()) p"
  proof (cases imp)
    case (Import path a)
    let ?more = "optional [TKw KwAs] (word_tokens a) @ TNewline # rest"
    have more: "hd ?more \<noteq> TOp Dot" "path \<noteq> []"
      using assms Import by (simp_all add: optional_def split: option.split)
    have tail: "wp never (pbind (eat (TKw KwAs)) (\<lambda>as. pbind (optionally as expect_ident) (\<lambda>alias.
        pseq expect_eos (pret (MkStmt (SImport (Import path alias)) start)))))
        (\<lambda>s q. frame p q \<and> ahead q = rest \<and> bare_stmt s = MkStmt (SImport imp) ()) q"
      if "frame p q" "ahead q = ?more" for q start
      by (rule read_alias [OF that(2)])
        (use p Import that in \<open>auto simp: wp_simps frame_def intro!: read_intros\<close>)
    have "wp never (pbind parse_dotted_name (\<lambda>path. pbind (eat (TKw KwAs)) (\<lambda>as.
        pbind (optionally as expect_ident) (\<lambda>alias.
        pseq expect_eos (pret (MkStmt (SImport (Import path alias)) start))))))
        (\<lambda>s q. frame p q \<and> ahead q = rest \<and> bare_stmt s = MkStmt (SImport imp) ()) q"
      if "frame p q" "ahead q = dotted path @ ?more" for q start
      by (rule wp_stepI, rule read_dotted_name [OF that(2)])
        (use more in \<open>auto intro!: tail frame_trans [OF that(1)]\<close>)
    then show ?thesis
      unfolding parse_import_def
      by (rule_tac wp_stepI(1), rule_tac wp_stepI(1), subst if_P, use p Import in simp, rule_tac wp_stepI,
        rule_tac read_bump [of _ _ "dotted path @ ?more"]) (use p Import in simp_all)
  next
    case (From path ts)
    let ?items = "commas (map import_target_tokens ts) @ TNewline # rest"
    obtain t us where ts: "ts = t # us" using assms From by (cases ts) auto
    then have star: "peek_kind q \<noteq> TOp Star" if "ahead q = ?items" for q
      using that by (cases t) (auto simp: commas_def name_token_def)
    have "wp never (pbind parse_dotted_name (\<lambda>path. pseq (expect (TKw KwImport)) (look (at (TOp Star)) (\<lambda>star.
        if star then look current_span (\<lambda>span.
            pfail (Syntax (''`from '' @ ellipsis @ '' import *` is not supported'') span
              (Some ''list specific names: `from <module> import name1, name2`'')))
        else pbind (loop (\<lambda>targets. pbind expect_ident (\<lambda>name. pbind (eat (TKw KwAs)) (\<lambda>as.
            pbind (optionally as expect_ident) (\<lambda>alias. pbind (eat (TOp Comma)) (\<lambda>comma.
              if comma then again (targets @ [ImportTarget name alias])
              else break_with (targets @ [ImportTarget name alias])))))) []) (\<lambda>targets.
          pseq expect_eos (pret (MkStmt (SImport (From path targets)) start)))))))
        (\<lambda>s q. frame p q \<and> ahead q = rest \<and> bare_stmt s = MkStmt (SImport imp) ()) q"
      if "frame p q" "ahead q = dotted path @ TKw KwImport # ?items" for q start
      by (rule wp_stepI, rule read_dotted_name [OF that(2)])
        (use assms p From that ts star in \<open>auto simp: wp_simps frame_def
          intro!: read_intros read_loop looped_targets [of _ t us rest]\<close>)
    then show ?thesis
      unfolding parse_import_def
      by (rule_tac wp_stepI(1), rule_tac wp_stepI(1), subst if_not_P, use p From in simp, rule_tac wp_stepI,
        rule_tac read_bump [of _ _ "dotted path @ TKw KwImport # ?items"]) (use p From in simp_all)
  qed
qed

lemma read_type_params:
  assumes "ahead p = (if ps = [] then [] else enclosed LBracket (commas (map (\<lambda>p. [name_token p]) ps)) RBracket) @
      TOp Eq # rest" "rest \<noteq> []"
    and "\<And>q. frame p q \<Longrightarrow> ahead q = TOp Eq # rest \<Longrightarrow> wp never (f ps) Q q"
  shows "wp never (pbind (eat (TOp LBracket)) (\<lambda>generic. pbind
      (if generic then look (at (TOp RBracket)) (\<lambda>empty. pbind
          (if empty then pret []
           else pbind expect_ident (\<lambda>first. loop (\<lambda>ps. pbind (eat (TOp Comma)) (\<lambda>comma.
             if comma then pbind expect_ident (\<lambda>n. again (ps @ [n])) else break_with ps)) [first]))
          (\<lambda>ps. pseq (expect (TOp RBracket)) (pret ps)))
       else pret []) f)) Q p"
proof (cases ps)
  case Nil
  with assms show ?thesis by (simp add: wp_simps)
next
  case (Cons n ns)
  have "name_token n \<noteq> TOp RBracket" by (simp add: name_token_def)
  with assms Cons show ?thesis
    by (auto simp: wp_simps enclosed_def commas_def frame_def intro!: read_intros read_loop
      looped_names [where rest = "TOp RBracket # TOp Eq # rest" and ns = ns])
qed

section \<open>Parameters\<close>

lemma read_literal_default:
  assumes "ahead p = literal_token l # rest" "rest \<noteq> []"
    and "\<And>q. frame p q \<Longrightarrow> ahead q = rest \<Longrightarrow> Q l q"
  shows "wp never parse_literal_default Q p"
  unfolding parse_literal_default_def
  using assms by (cases l) (auto simp: wp_simps intro!: read_intros)

abbreviation bare_param :: "'s param \<Rightarrow> unit param" where
  "bare_param \<equiv> map_param (\<lambda>_. ())"

abbreviation bare_params :: "'s params \<Rightarrow> unit params" where
  "bare_params \<equiv> map_params (\<lambda>_. ())"

definition after_param :: "token_kind \<Rightarrow> bool" where
  "after_param k \<longleftrightarrow> k \<in> {TOp Comma, TOp RParen}"

text \<open>What an item adds to the parameters read so far.\<close>

primrec add_item :: "'s param_item \<Rightarrow> 's params \<times> bool \<Rightarrow> 's params \<times> bool" where
  "add_item (RegularItem p) = (\<lambda>(ps, after_star). (push_param after_star p ps, after_star))"
| "add_item (StarItem p) = (\<lambda>(ps, after_star).
     ((case p of None \<Rightarrow> ps | Some p' \<Rightarrow> set_var_positional p' ps), True))"
| "add_item (DoubleStarItem p) = (\<lambda>(ps, after_star). (set_var_keyword p ps, after_star))"

lemma add_regular_items:
  "fold add_item (map RegularItem qs) (Params ps v ks w, after_star) =
     (if after_star then Params ps v (ks @ qs) w else Params (ps @ qs) v ks w, after_star)"
  by (cases after_star; induction qs arbitrary: ps ks; simp)

lemma add_param_items: "fst (fold add_item (param_items ps) (params_default, False)) = ps"
proof (cases ps)
  case (Params qs v ks w)
  then show ?thesis
    by (cases v; cases ks; cases w)
      (simp_all add: params_default_def add_regular_items [of "_ # _", simplified] add_regular_items)
qed

context stmt_reads begin

lemma read_type_alias:
  assumes "plain_alias ta" "3 * length (alias_tokens ta) + 1 \<le> w"
  shows "reads_stmt_kind (parse_type_alias E) (STypeAlias ta)"
proof (rule readsI)
  fix p rest
  assume p: "ahead p = stmt_kind_tokens (STypeAlias ta) @ rest" "rest \<noteq> []"
    "depth p + (1 + stmt_kind_levels (STypeAlias ta)) \<le> max_parser_depth"
  obtain n ps t where ta: "ta = TypeAlias n ps t" by (cases ta)
  let ?target = "type_tokens t @ TNewline # rest"
  let ?params = "(if ps = [] then [] else enclosed LBracket (commas (map (\<lambda>p. [name_token p]) ps)) RBracket) @
    TOp Eq # ?target"
  show "wp never (parse_type_alias E)
      (\<lambda>s q. frame p q \<and> ahead q = rest \<and> bare_stmt s = MkStmt (STypeAlias ta) ()) p"
    unfolding parse_type_alias_def
    by (rule wp_stepI, rule wp_stepI, rule read_expect [of _ _ "name_token n # ?params"],
      use p ta in simp, simp, rule wp_stepI, rule read_expect_ident, assumption, simp,
      rule read_type_params, assumption, simp)
      (use p ta assms in \<open>auto simp: wp_simps frame_def after_type_def
        intro!: read_intros read_type [of _ t "TNewline # rest"]\<close>)
qed

lemma read_one_param:
  assumes "plain_param a" "3 * length (param_tokens a) \<le> w + 4"
  shows "reads (parse_one_param E) 0 (param_tokens a) after_param (\<lambda>a'. bare_param a' = a)"
proof (rule readsI)
  fix p rest assume p: "ahead p = param_tokens a @ rest" "rest \<noteq> []" "after_param (hd rest)"
    "depth p + 0 \<le> max_parser_depth"
  obtain n annot dflt where a: "a = Param n annot dflt ()" by (cases a) auto
  let ?default = "optional [TOp Eq] (map_option (\<lambda>l. [literal_token l]) dflt) @ rest"
  have default: "?default \<noteq> []" "after_type (hd ?default)" "hd ?default \<noteq> TOp Colon"
    using p(2,3) by (auto simp: optional_def after_type_def after_param_def split: option.split)
  have tail: "wp never (pbind (eat (TOp Eq)) (\<lambda>defaulted. pbind (optionally defaulted parse_literal_default)
      (\<lambda>dflt. look current_span (\<lambda>end. pret (Param n annot' dflt (span_merge start end))))))
      (\<lambda>a' q. frame p q \<and> ahead q = rest \<and> bare_param a' = a) q"
    if q: "frame p q" "ahead q = ?default" "map_option bare_type annot' = annot" for q annot' start
  proof (cases dflt)
    case None
    with q p a show ?thesis
      by (cases rest) (auto simp: wp_simps optional_def after_param_def)
  next
    case (Some l)
    with q p a show ?thesis
      by (auto simp: wp_simps optional_def frame_def intro!: read_intros read_literal_default)
  qed
  have annot: "ahead p = name_token n # optional [TOp Colon] (map_option type_tokens annot) @ ?default"
    "pred_option plain_type annot" "3 * length (optional [TOp Colon] (map_option type_tokens annot)) \<le> w + 1"
    using p(1) assms a by simp_all
  show "wp never (parse_one_param E) (\<lambda>a' q. frame p q \<and> ahead q = rest \<and> bare_param a' = a) p"
    unfolding parse_one_param_def
    by (rule wp_stepI, rule wp_stepI, rule read_expect_ident [OF annot(1)], use default in simp,
      rule read_annotation [of _ _ annot ?default])
      (use p(4) default annot frame_depth in \<open>auto intro!: tail elim: frame_trans\<close>)
qed

lemma read_param_item:
  assumes "plain_item i" "3 * length (item_tokens i) \<le> w + 4"
    "ahead p = item_tokens i @ rest" "rest \<noteq> []" "after_param (hd rest)" "depth p \<le> max_parser_depth"
    and "\<And>s' q. frame p q \<Longrightarrow> ahead q = rest \<Longrightarrow>
      apfst bare_params s' = add_item i (apfst bare_params s) \<Longrightarrow> Q s' q"
  shows "wp never (parse_param_item (parse_one_param E) s) Q p"
proof -
  obtain ps after_star where s: "s = (ps, after_star)" by (cases s)
  have bare [simp]: "bare_params (push_param b x y) = push_param b (bare_param x) (bare_params y)"
    "bare_params (set_var_positional x y) = set_var_positional (bare_param x) (bare_params y)"
    "bare_params (set_var_keyword x y) = set_var_keyword (bare_param x) (bare_params y)"
    for b and x :: "span param" and y
    by (cases y; simp)+
  have one: "wp never (parse_one_param E) R q"
    if "frame p q" "ahead q = param_tokens a @ rest" "plain_param a" "3 * length (param_tokens a) \<le> w + 4"
      "\<And>a' r. frame p r \<Longrightarrow> ahead r = rest \<Longrightarrow> bare_param a' = a \<Longrightarrow> R a' r" for R a q
    by (rule read [OF read_one_param [OF that(3,4)] that(2)])
      (use that assms frame_depth [OF that(1)] frame_trans [OF that(1)] in auto)
  show ?thesis
  proof (cases i)
    case (RegularItem a)
    then have "peek_kind p \<notin> {TOp Star, TOp StarStar}"
      using assms(3) by (cases a) (auto simp: name_token_def)
    with RegularItem assms one [of p a] show ?thesis
      by (auto simp: parse_param_item_def s wp_simps)
  next
    case (StarItem oa)
    show ?thesis
    proof (cases oa)
      case None
      with StarItem assms s show ?thesis
        by (cases rest) (auto simp: parse_param_item_def wp_simps after_param_def intro!: read_intros)
    next
      case (Some a)
      then obtain k ks where "param_tokens a = TIdent k # ks"
        using assms(1) StarItem by (cases a) (auto simp: name_token_def split: if_split_asm)
      with Some StarItem assms s one [of _ a] show ?thesis
        by (auto simp: parse_param_item_def wp_simps intro!: read_intros)
    qed
  next
    case (DoubleStarItem a)
    with assms s one [of _ a] show ?thesis
      by (auto simp: parse_param_item_def wp_simps intro!: read_intros)
  qed
qed

lemma item_start: "\<exists>k ks. item_tokens i = k # ks \<and> k \<noteq> TOp RParen \<and> k \<noteq> TOp Colon"
proof (cases i)
  case (RegularItem a)
  then show ?thesis by (cases a) (simp add: name_token_def)
qed simp_all

lemma looped_params:
  assumes "ahead p = commas (map item_tokens (i # is)) @ TOp RParen # rest" "rest \<noteq> []"
    "list_all plain_item (i # is)" "3 * length (commas (map item_tokens (i # is))) \<le> w + 4"
    "depth p \<le> max_parser_depth"
    and "\<And>ps q. frame p q \<Longrightarrow> ahead q = TOp RParen # rest \<Longrightarrow>
      bare_params ps = fst (fold add_item (i # is) (apfst bare_params s)) \<Longrightarrow> Q ps q"
  shows "looped (parse_param_turn (parse_one_param E) [TOp RParen, TOp Colon]) s Q p"
  using assms
proof (induction "is" arbitrary: i p s)
  case Nil
  show ?case
    unfolding parse_param_turn_def
  proof (rule looped_step, rule wp_stepI, rule read_param_item [of i _ "TOp RParen # rest"])
    fix s' :: "span params \<times> bool" and q assume q: "frame p q" "ahead q = TOp RParen # rest"
      "apfst bare_params s' = add_item i (apfst bare_params s)"
    have "bare_params (fst s') = fst (apfst bare_params s')" by simp
    with q Nil.prems(6) have "Q (fst s') q" by simp
    with q(2) show "wp never (case s' of (params, after_star) \<Rightarrow> pbind (eat (TOp Comma)) (\<lambda>comma.
        if \<not> comma then break_with params else look peek_kind (\<lambda>k.
          if k \<in> set [TOp RParen, TOp Colon] then break_with params else again (params, after_star))))
      (\<lambda>x q. case x of Inl a' \<Rightarrow> length (ahead q) < length (ahead p) \<and>
          looped (\<lambda>s. pbind (parse_param_item (parse_one_param E) s) (\<lambda>(params, after_star).
            pbind (eat (TOp Comma)) (\<lambda>comma. if \<not> comma then break_with params else look peek_kind (\<lambda>k.
              if k \<in> set [TOp RParen, TOp Colon] then break_with params else again (params, after_star))))) a' Q q
        | Inr b \<Rightarrow> Q b q) q"
      by (cases s') (simp add: wp_simps)
  qed (use Nil in \<open>auto simp: commas_def after_param_def\<close>)
next
  case (Cons j "is")
  let ?more = "commas (map item_tokens (j # is)) @ TOp RParen # rest"
  obtain k ks where k: "?more = k # ks" "k \<noteq> TOp RParen" "k \<noteq> TOp Colon"
    using item_start [of j] by (auto simp: commas_def)
  have "wp never (parse_param_item (parse_one_param E) s) (\<lambda>s' q.
      peek_kind q = TOp Comma \<and> wp never bump (\<lambda>_ r. peek_kind r = k \<and> length (ahead r) < length (ahead p) \<and>
        looped (parse_param_turn (parse_one_param E) [TOp RParen, TOp Colon]) s' Q r) q) p"
  proof (rule read_param_item [of i p "TOp Comma # ?more"])
    fix s' :: "span params \<times> bool" and q assume q: "frame p q" "ahead q = TOp Comma # ?more"
      "apfst bare_params s' = add_item i (apfst bare_params s)"
    have "looped (parse_param_turn (parse_one_param E) [TOp RParen, TOp Colon]) s' Q r"
      if r: "frame q r" "ahead r = ?more" for r
      by (rule Cons.IH [OF r(2) Cons.prems(2)])
        (use Cons.prems(3-6) q r frame_depth [OF frame_trans [OF q(1) r(1)]] frame_trans [OF frame_trans [OF q(1) r(1)]]
          in \<open>auto simp: commas_def\<close>)
    then show "peek_kind q = TOp Comma \<and> wp never bump (\<lambda>_ r. peek_kind r = k \<and> length (ahead r) < length (ahead p) \<and>
        looped (parse_param_turn (parse_one_param E) [TOp RParen, TOp Colon]) s' Q r) q"
      using q(2) k(1) Cons.prems(1) by (auto simp: commas_def intro!: read_bump [OF q(2)])
  qed (use Cons.prems in \<open>auto simp: commas_def after_param_def\<close>)
  then show ?case
    by (intro looped_step, unfold parse_param_turn_def [of _ _ s])
      (use k in \<open>auto simp: wp_simps split: prod.splits elim!: wp_mono\<close>)
qed

lemma read_params:
  assumes "ahead p = params_tokens ps @ TOp RParen # rest" "rest \<noteq> []" "plain_params ps"
    "3 * length (params_tokens ps) \<le> w + 4" "depth p \<le> max_parser_depth"
    and "\<And>ps' q. frame p q \<Longrightarrow> ahead q = TOp RParen # rest \<Longrightarrow> bare_params ps' = ps \<Longrightarrow> Q ps' q"
  shows "wp never (parse_params E) Q p"
proof (cases "param_items ps")
  case Nil
  then have "bare_params (params_default :: span params) = ps" using add_param_items [of ps] by (simp add: params_default_def)
  with Nil assms show ?thesis
    by (simp add: parse_params_def params_tokens_def commas_def wp_simps)
next
  case (Cons i "is")
  obtain k ks where "item_tokens i = k # ks" "k \<noteq> TOp RParen" using item_start by blast
  then have "peek_kind p \<noteq> TOp RParen" using assms(1) Cons by (auto simp: params_tokens_def commas_def)
  moreover have "wp never (parse_params_no_paren E) Q p"
    unfolding parse_params_no_paren_def
  proof (rule read_loop, rule looped_params [of p i "is"])
    fix ps' :: "span params" and q assume q: "frame p q" "ahead q = TOp RParen # rest"
      "bare_params ps' = fst (fold add_item (i # is) (apfst bare_params (params_default :: span params, False)))"
    have "apfst bare_params (params_default :: span params, False) = (params_default, False)"
      by (simp add: params_default_def)
    with q show "Q ps' q" using assms(6) Cons add_param_items [of ps] by simp
  qed (use assms Cons in \<open>simp_all add: params_tokens_def plain_params_def\<close>)
  ultimately show ?thesis by (simp add: parse_params_def wp_simps)
qed

section \<open>Functions\<close>

declare params.map_id [simp] type_ann.map_id0 [simp] option.map_id [simp]

lemma read_fn:
  assumes "plain_stmt_kind (SFn fd)" "3 * length (stmt_kind_tokens (SFn fd)) + 1 \<le> w"
  shows "reads_stmt_kind (fn_statement E) (SFn fd)"
proof (rule readsI)
  fix p rest
  assume p: "ahead p = stmt_kind_tokens (SFn fd) @ rest" "rest \<noteq> []"
    "depth p + (1 + stmt_kind_levels (SFn fd)) \<le> max_parser_depth"
  obtain n ps ret b where fd: "fd = FnDef n ps ret b" by (cases fd)
  let ?ret = "optional [TOp Arrow] (map_option type_tokens ret)"
  let ?body = "TOp Colon # block_tokens b @ rest"
  have w: "3 * length (params_tokens ps) \<le> w + 4" "3 * length ?ret \<le> w + 1" "3 * length (block_tokens b) \<le> w + 6"
    "plain_params ps" "pred_option plain_type ret" "plain_block b" "depth p + 1 + block_levels b \<le> max_parser_depth"
    using assms p fd by (simp_all add: enclosed_def)
  have tail: "wp never (pbind (eat (TOp Arrow)) (\<lambda>arrow. pbind (optionally arrow (e_type E)) (\<lambda>ret'.
      pbind (parse_colon_block E) (\<lambda>body. pret (FnDef n ps' ret' body)))))
      (\<lambda>fd' q. frame p q \<and> ahead q = rest \<and> map_fn_def (\<lambda>_. ()) bare_block fd' = fd) q"
    if "frame p q" "ahead q = ?ret @ ?body" "bare_params ps' = ps" for q ps'
    by (rule read_annotation [OF that(2) _ _ _ w(5,2)])
      (use that w fd p(2) in \<open>auto simp: after_type_def wp_simps frame_def
        intro!: read_colon_block [of _ b rest]\<close>)
  have "wp never (parse_fn_def E)
      (\<lambda>fd' q. frame p q \<and> ahead q = rest \<and> map_fn_def (\<lambda>_. ()) bare_block fd' = fd) p"
    unfolding parse_fn_def_def
    by (rule wp_stepI, rule read_expect [of _ _ "name_token n # TOp LParen # params_tokens ps @ TOp RParen # ?ret @ ?body"],
      use p fd in \<open>simp add: enclosed_def\<close>, simp, rule wp_stepI, rule read_expect_ident, assumption, simp,
      rule wp_stepI, rule read_expect, assumption, simp, rule wp_stepI, rule read_params, assumption, simp,
      rule w(4), rule w(1), use w(7) frame_depth in force, rule wp_stepI, rule read_expect, assumption, simp,
      rule tail) (auto elim!: frame_trans)
  then show "wp never (fn_statement E) (\<lambda>s q. frame p q \<and> ahead q = rest \<and> bare_stmt s = MkStmt (SFn fd) ()) p"
    by (auto simp: fn_statement_def wp_simps elim!: wp_mono)
qed

lemma looped_decorators:
  assumes "ahead p = concat (map (\<lambda>e. TOp At # expr_tokens e @ [TNewline]) es) @ k # rest" "k \<notin> {TOp At, TNewline}"
    "list_all plain_expr es" "3 * length (concat (map (\<lambda>e. TOp At # expr_tokens e @ [TNewline]) es)) \<le> w"
    "depth p + 1 + max_list (map levels es) \<le> max_parser_depth"
    and "\<And>as q. frame p q \<Longrightarrow> ahead q = k # rest \<Longrightarrow> map bare_expr as = map bare_expr as0 @ es \<Longrightarrow> Q as q"
  shows "looped (\<lambda>decorators. look (at (TOp At)) (\<lambda>more.
      if more then pseq bump (pbind (e_expr E) (\<lambda>e. pseq (expect TNewline) (pseq skip_newlines (again (decorators @ [e])))))
      else break_with decorators)) as0 Q p"
  using assms
proof (induction es arbitrary: p as0)
  case Nil
  then show ?case by (intro looped_step) (auto simp: wp_simps)
next
  case (Cons e es)
  let ?more = "concat (map (\<lambda>e. TOp At # expr_tokens e @ [TNewline]) es) @ k # rest"
  obtain j js where more: "?more = j # js" "j \<noteq> TNewline" using Cons.prems(2) by (cases es) auto
  have IH: "looped (\<lambda>decorators. look (at (TOp At)) (\<lambda>more.
      if more then pseq bump (pbind (e_expr E) (\<lambda>e. pseq (expect TNewline) (pseq skip_newlines (again (decorators @ [e])))))
      else break_with decorators)) (as0 @ [e']) Q q"
    if "frame p q" "ahead q = ?more" "bare_expr e' = e" for q e'
    by (rule Cons.IH [OF that(2) Cons.prems(2)])
      (use that Cons.prems(3-5) frame_depth [OF that(1)] in
        \<open>auto intro!: Cons.prems(6) frame_trans [OF that(1)]\<close>)
  have e: "plain_expr e" "3 * length (expr_tokens e) + 2 \<le> w" "depth p + 1 + levels e \<le> max_parser_depth"
    "ahead p = TOp At # expr_tokens e @ TNewline # j # js"
    using Cons.prems more by simp_all
  show ?case
    using e IH [unfolded more] more(2)
    by (intro looped_step)
      (auto simp: wp_simps frame_def read_no_newlines
        intro!: read_intros read_expr [of _ e "TNewline # j # js"])
qed

lemma read_decorated:
  assumes "plain_stmt_kind (SDecorated es s)" "3 * length (stmt_kind_tokens (SDecorated es s)) + 1 \<le> w"
  shows "reads_stmt_kind (parse_decorated E) (SDecorated es s)"
proof (rule readsI)
  fix p rest
  assume p: "ahead p = stmt_kind_tokens (SDecorated es s) @ rest" "rest \<noteq> []" "after_stmt (hd rest)"
    "depth p + (1 + stmt_kind_levels (SDecorated es s)) \<le> max_parser_depth"
  obtain fd where s: "s = MkStmt (SFn fd) ()" using assms(1) by (cases s) (auto simp: is_fn_def split: stmt_kind.split_asm)
  obtain js where js: "stmt_tokens s = TKw KwFn # js" by (cases fd) (simp add: s)
  have inner: "reads_stmt_kind (fn_statement E) (SFn fd)"
    using assms by (intro read_fn) (simp_all add: s)
  have "wp never (loop (\<lambda>decorators. look (at (TOp At)) (\<lambda>more.
      if more then pseq bump (pbind (e_expr E) (\<lambda>e. pseq (expect TNewline) (pseq skip_newlines (again (decorators @ [e])))))
      else break_with decorators)) [])
      (\<lambda>as q. frame p q \<and> ahead q = TKw KwFn # js @ rest \<and> map bare_expr as = es \<and>
        wp never (fn_statement E) (\<lambda>s' q. frame p q \<and> ahead q = rest \<and> bare_stmt s' = s) q) p"
  proof (rule read_loop, rule looped_decorators)
    fix as :: "span expr list" and q
    assume q: "frame p q" "ahead q = TKw KwFn # js @ rest" "map bare_expr as = map bare_expr [] @ es"
    have "wp never (fn_statement E) (\<lambda>s' q. frame p q \<and> ahead q = rest \<and> bare_stmt s' = s) q"
      by (rule read [OF inner, of _ rest])
        (use p q s js frame_depth [OF q(1)] frame_trans [OF q(1)] in auto)
    with q show "frame p q \<and> ahead q = TKw KwFn # js @ rest \<and> map bare_expr as = es \<and>
        wp never (fn_statement E) (\<lambda>s' q. frame p q \<and> ahead q = rest \<and> bare_stmt s' = s) q" by simp
  qed (use p assms js in auto)
  then show "wp never (parse_decorated E)
      (\<lambda>s' q. frame p q \<and> ahead q = rest \<and> bare_stmt s' = MkStmt (SDecorated es s) ()) p"
    unfolding parse_decorated_def by (auto simp: wp_simps elim!: wp_mono)
qed

section \<open>Statements\<close>

lemma reads_dispatch:
  assumes "reads f n (k # ks) F P" "\<And>p. peek_kind p = k \<Longrightarrow> g p = f p"
  shows "reads g n (k # ks) F P"
  using assms unfolding reads_def wp_def by simp

lemma dispatch_expr:
  assumes "starts_atom k" "\<forall>n \<in> set dropped_names. k \<noteq> TIdent n" "peek_kind p = k"
  shows "parse_stmt E p = parse_expr_or_assign_stmt E p"
  using assms
  by (auto simp: parse_stmt_def look_def starts_atom_def split: token_kind.splits keyword.splits)

lemma read_parse_stmt_kind:
  assumes "plain_stmt_kind k" "3 * length (stmt_kind_tokens k) + 1 \<le> w"
  shows "reads_stmt_kind (parse_stmt E) k"
proof -
  obtain j js where j: "stmt_kind_tokens k = j # js" using stmt_kind_start [OF assms(1)] by blast
  have simple: "reads_stmt_kind (simple_statement s) k"
    if "stmt_kind_tokens k = [j, TNewline]" "map_stmt_kind (\<lambda>_. ()) s = k" for s
    by (rule readsI, rule read_simple_statement [of _ j]) (use that in auto)
  have "\<exists>f. reads_stmt_kind f k \<and> (\<forall>p. peek_kind p = j \<longrightarrow> parse_stmt E p = f p)"
  proof (cases k)
    case (SExpr e)
    with assms j tokens_start [of e] read_expr_stmt [of e] dispatch_expr [of j] show ?thesis
      by (intro exI [of _ "parse_expr_or_assign_stmt E"]) (auto simp: opens_stmt_def)
  next
    case (SAssign e op v)
    with assms j tokens_start [of e] read_assign [of e v op] dispatch_expr [of j] show ?thesis
      by (intro exI [of _ "parse_expr_or_assign_stmt E"]) (auto simp: opens_stmt_def)
  next
    case SPass
    with j simple [of SPass] show ?thesis
      by (intro exI [of _ "simple_statement SPass"]) (auto simp: parse_stmt_def look_def)
  next
    case (SBreakContinue b)
    with j simple [of "SBreakContinue b"] show ?thesis
      by (intro exI [of _ "simple_statement (SBreakContinue b)"])
        (auto simp: parse_stmt_def look_def split: break_kind.splits)
  next
    case (SReturn e)
    with assms j read_return [of e] show ?thesis
      by (intro exI [of _ "parse_return E"]) (auto simp: parse_stmt_def look_def)
  next
    case (SRaise e c)
    with assms j read_raise [of e c] show ?thesis
      by (intro exI [of _ "parse_raise E"]) (auto simp: parse_stmt_def look_def)
  next
    case (SLet t a v)
    with assms j read_let [of t a v] show ?thesis
      by (intro exI [of _ "parse_let E"]) (auto simp: parse_stmt_def look_def)
  next
    case (SIf c b es els)
    with assms j read_if [of c b es els] show ?thesis
      by (intro exI [of _ "parse_if E"]) (auto simp: parse_stmt_def look_def)
  next
    case (SWhile c b els)
    with assms j read_while [of c b els] show ?thesis
      by (intro exI [of _ "parse_while E"]) (auto simp: parse_stmt_def look_def)
  next
    case (SFor t c b els)
    with assms j read_for [of t c b els] show ?thesis
      by (intro exI [of _ "parse_for E"]) (auto simp: parse_stmt_def look_def)
  next
    case (SImport imp)
    with assms j read_import [of imp] show ?thesis
      by (intro exI [of _ parse_import], cases imp) (auto simp: parse_stmt_def look_def)
  next
    case (SFn fd)
    with assms j read_fn [of fd] show ?thesis
      by (intro exI [of _ "fn_statement E"], cases fd) (auto simp: parse_stmt_def look_def)
  next
    case (STypeAlias ta)
    with assms j read_type_alias [of ta] show ?thesis
      by (intro exI [of _ "parse_type_alias E"], cases ta) (auto simp: parse_stmt_def look_def)
  next
    case (SDecorated es s)
    with assms j read_decorated [of es s] show ?thesis
      by (intro exI [of _ "parse_decorated E"], cases es) (auto simp: parse_stmt_def look_def)
  qed (use assms(1) in simp_all)
  then show ?thesis using reads_dispatch [of _ _ j js] unfolding j by blast
qed

lemma read_parse_stmt:
  assumes "plain_stmt s" "3 * length (stmt_tokens s) + 1 \<le> w"
  shows "reads (parse_stmt E) (1 + stmt_levels s) (stmt_tokens s) after_stmt (\<lambda>s'. bare_stmt s' = s)"
  using assms read_parse_stmt_kind by (cases s) simp

lemma read_parse_pattern:
  assumes "plain_pattern t"
  shows "reads (parse_pattern_simple E) 0 (pattern_tokens t) after_pattern (\<lambda>t'. bare_pattern t' = t)"
proof (rule readsI)
  fix p rest assume p: "ahead p = pattern_tokens t @ rest" "rest \<noteq> []" "after_pattern (hd rest)"
  obtain n where t: "t = MkPattern (PBinding n) ()"
    using assms by (cases t; cases "case t of MkPattern k s \<Rightarrow> k") auto
  obtain k ks where rest: "rest = k # ks" "k \<noteq> TOp Dot" "k \<noteq> TOp LParen"
    using p(2,3) by (cases rest) (auto simp: after_pattern_def)
  show "wp never (parse_pattern_simple E) (\<lambda>t' q. frame p q \<and> ahead q = rest \<and> bare_pattern t' = t) p"
    unfolding parse_pattern_simple_def parse_name_pattern_def
    using p(1) t rest
    by (auto simp: wp_simps Let_def intro!: read_bump read_loop looped_step)
qed

lemma next_stmt_reads: "stmt_reads (Suc w) (next_entry E)"
  by (intro stmt_reads.intro next_expr_reads stmt_reads_axioms.intro)
    (simp_all add: next_entry_def read_parse_stmt [simplified] read_parse_pattern [simplified])

end

lemma entries_stmt_reads: "stmt_reads n (entries h n)"
proof (induction n)
  case 0
  then show ?case
    by (intro stmt_reads.intro entries_expr_reads stmt_reads_axioms.intro) simp_all
next
  case (Suc n)
  then show ?case by (simp add: stmt_reads.next_stmt_reads)
qed

interpretation entry_stmts: stmt_reads n "entries h n" for n h
  by (rule entries_stmt_reads)

end
