(* ===== verification/Parser_Props.thy ===== *)
theory Parser_Props
  imports Parser_Total Parser_Mono Lexer_Props
begin

text \<open>
  What \<open>parse_str\<close> promises: with the fuel that stands for its recursion it returns on every
  source, never panics, gives the same result with more fuel, and every span of the tree or of
  the error belongs to the file.
\<close>

section \<open>The contract on the parser's own entry points\<close>

lemma layout_ends:
  assumes "layout_run ks s = Some Ended" "s \<noteq> Ended"
  shows "ks \<noteq> [] \<and> last ks = TEof"
  using assms
proof (induction ks s rule: layout_run.induct)
  case (2 k ks s)
  then obtain s' where s': "layout_step k s = Some s'" "layout_run ks s' = Some Ended"
    by (auto split: bind_split_asm)
  show ?case
  proof (cases "s' = Ended")
    case True
    have "ks = []" using s'(2) True by (cases ks) simp_all
    moreover have "k = TEof"
      using s'(1) True by (cases "(k, s)" rule: layout_step.cases) (auto split: if_split_asm)
    ultimately show ?thesis by simp
  next
    case False
    with 2(1) s' show ?thesis by auto
  qed
qed simp

lemma stream_ready:
  assumes "stream_ok u src f ts"
  shows "ts \<noteq> [] \<and> ready (span_in f) (parser_new ts) \<and> stream_weight ts \<le> 4 * length src + 1"
proof -
  from assms have "layout_run (map kind ts) (Line True 0 0) = Some Ended"
    "list_all (span_in f \<circ> tspan) ts" "list_all (kind_ok u \<circ> kind) ts"
    "stream_weight ts \<le> 4 * length src + 1"
    by (simp_all add: stream_ok_def)
  moreover from layout_ends [OF this(1)] have "ts \<noteq> []" "kind (last ts) = TEof"
    by (auto simp: last_map)
  ultimately show ?thesis
    by (auto simp: ready_def parser_new_def list_all_iff kind_ok_def)
qed

lemma relexes_file: "relexes (span_in f) h"
  unfolding relexes_def
proof (intro allI impI)
  fix src :: string and s
  assume "utf8 src" "span_in f s"
  then show "ok_res (\<lambda>ts. ts \<noteq> [] \<and> ready (span_in f) (parser_new ts) \<and>
      stream_weight ts \<le> 4 * length src + 1) (lex (host_unicode h) src (sp_file s))"
    using lex_ok [of src "host_unicode h" f]
    by (auto simp: span_in_def elim!: ok_res_mono dest!: stream_ready)
qed

interpretation file_spans: span_set "span_in f" for f
  by unfold_locales (auto simp: span_in_def span_merge_def span_ok_def min_le_iff_disj le_max_iff_disj)

lemma entries_valid: "valid (span_in f) n (entries h n)"
proof (induction n)
  case 0
  then show ?case by (simp add: no_entry_valid)
next
  case (Suc n)
  have "parser_calls (span_in f) n (entries h n)"
    by unfold_locales (simp_all add: Suc relexes_file)
  then show ?case by (simp add: parser_calls.next_valid)
qed

interpretation file_calls: parser_calls "span_in f" n "entries h n" for f n h
  by unfold_locales (simp_all add: entries_valid relexes_file)

section \<open>The frontend\<close>

lemma parse_ok:
  assumes "stream_ok u src f ts" "12 * length src + 6 \<le> n"
  shows "\<exists>r. parse h n ts = Some r \<and>
    (case r of Inl PPanic \<Rightarrow> False | Inl (PErr e) \<Rightarrow> span_in f (error_span e)
     | Inr m \<Rightarrow> pred_module (span_in f) m)"
proof -
  let ?p = "parser_new ts"
  from stream_ready [OF assms(1)] have ts: "ts \<noteq> []" "ready (span_in f) ?p" "3 * left ?p + 3 \<le> n"
    using assms(2) by (auto simp: left_def parser_new_def)
  from file_calls.wp_module [OF this(2,3), of h] ts(1) show ?thesis
    by (auto simp: wp_def parse_def bind_o_def split: option.splits sum.splits parse_fault.splits)
qed

lemma parse_str_ok:
  assumes "utf8 src" "12 * length src + 6 \<le> n"
  shows "\<exists>r. parse_str h n src f = Some r \<and>
    (case r of
       Inl FPanic \<Rightarrow> False
     | Inl (FErr e) \<Rightarrow> (\<forall>pe. e = Parse pe \<longrightarrow> span_in f (error_span pe))
     | Inr m \<Rightarrow> pred_module (span_in f) m)"
proof (cases "lex (host_unicode h) src f")
  case (Inl e)
  with lex_ok [OF assms(1), of "host_unicode h" f] show ?thesis
    by (cases e) (auto simp: parse_str_def)
next
  case (Inr ts)
  with lex_ok [OF assms(1), of "host_unicode h" f] have "stream_ok (host_unicode h) src f ts" by simp
  from parse_ok [OF this assms(2)] obtain r where r: "parse h n ts = Some r"
    "case r of Inl PPanic \<Rightarrow> False | Inl (PErr e) \<Rightarrow> span_in f (error_span e)
     | Inr m \<Rightarrow> pred_module (span_in f) m"
    by blast
  show ?thesis
  proof (cases r)
    case (Inl e)
    with r Inr show ?thesis by (cases e) (simp_all add: parse_str_def)
  qed (use r Inr in \<open>simp add: parse_str_def\<close>)
qed

text \<open>The smallest host, for the concrete inputs below.\<close>

definition ascii_host :: host where
  "ascii_host = \<lparr>host_unicode = ascii_only, debug_char = (\<lambda>c. [])\<rparr>"







end
