(* ===== verification/Parser_Reads_Module.thy ===== *)
theory Parser_Reads_Module
  imports Parser_Reads_Def Parser_Props
begin

text \<open>
  Reading modules: the result of \<open>parse\<close> on the tokens of a written plain module.
\<close>

definition str_prefix_plain :: str_prefix where
  "str_prefix_plain = \<lparr>raw = False, is_bytes = False\<rparr>"

primrec module_tokens :: "'s module \<Rightarrow> kinds" where
  "module_tokens (Module doc ss s) =
     optional [] (map_option (\<lambda>d. [TStr d str_prefix_plain, TNewline]) doc) @
     concat (map stmt_tokens ss) @ [TEof]"

text \<open>A module without docstring must not begin with a statement that is a string literal.\<close>

definition is_docstring :: "'s stmt \<Rightarrow> bool" where
  "is_docstring s \<longleftrightarrow>
     (case stmt_kind_of s of
        SExpr e \<Rightarrow> (case expr_kind_of e of ELiteral (LitStr v) \<Rightarrow> True | _ \<Rightarrow> False)
      | _ \<Rightarrow> False)"

primrec plain_module :: "'s module \<Rightarrow> bool" where
  "plain_module (Module doc ss s) =
     (list_all plain_stmt ss \<and> (doc = None \<longrightarrow> ss = [] \<or> \<not> is_docstring (hd ss)))"

primrec module_levels :: "'s module \<Rightarrow> nat" where
  "module_levels (Module doc ss s) = max_list (map stmt_levels ss)"

abbreviation bare_module :: "'s module \<Rightarrow> unit module" where
  "bare_module \<equiv> map_module (\<lambda>_. ())"

lemma tokens_single:
  assumes "plain_expr e" "expr_tokens e = [j]" "starts_atom j"
  shows "(\<exists>l. expr_kind_of e = ELiteral l \<and> j = literal_token l) \<or> (\<exists>n. expr_kind_of e = EName n)"
proof (cases e)
  case (MkExpr k s)
  have "expr_tokens b \<noteq> []" if "plain_expr b" for b :: "'a expr"
    using tokens_start [OF that] by auto
  with assms MkExpr show ?thesis
    using collection_starts [of "map_collection_lit expr_tokens (case k of ECollection c \<Rightarrow> c)"]
    by (cases k; cases "case k of ECollection c \<Rightarrow> c") (auto simp: enclosed_def)
qed

lemma docstring_tokens:
  assumes "plain_stmt s" "stmt_tokens s = TStr v x # js" "\<not> is_docstring s"
  shows "\<exists>j js'. js = j # js' \<and> j \<notin> {TNewline, TEof}"
proof (cases s)
  case (MkStmt k u)
  have second: "(\<exists>i is'. is = i # is' \<and> i \<notin> {TNewline, TEof}) \<or> (expr_tokens e = [TStr v x] \<and> is = j # ks)"
    if e: "plain_expr e" "expr_tokens e @ j # ks = TStr v x # is" for e :: "'a expr" and j ks "is"
  proof -
    obtain i is' where i: "expr_tokens e = i # is'" using tokens_start [OF e(1)] by blast
    with e tokens_second [OF e(1), of i] show ?thesis by (cases is') auto
  qed
  show ?thesis
  proof (cases k)
    case (SExpr e)
    with assms MkStmt second [of e TNewline "[]"]
    consider "\<exists>i is'. js = i # is' \<and> i \<notin> {TNewline, TEof}" | "plain_expr e" "expr_tokens e = [TStr v x]" by auto
    then show ?thesis
    proof cases
      case 2
      from tokens_single [OF 2] consider l where "expr_kind_of e = ELiteral l" "literal_token l = TStr v x"
        | n where "expr_kind_of e = EName n" by (fastforce simp: starts_atom_def)
      then have "is_docstring s"
      proof cases
        case (1 l)
        then have "l = LitStr v" by (cases l) simp_all
        with 1 show ?thesis by (simp add: is_docstring_def MkStmt SExpr)
      next
        case (2 n)
        with \<open>expr_tokens e = [TStr v x]\<close> show ?thesis by (cases e) simp
      qed
      with assms(3) show ?thesis by simp
    qed simp
  next
    case (SAssign e op w)
    with assms MkStmt second [of e "assign_token op"] show ?thesis by (fastforce simp: assign_token_def)
  next
    case (SImport imp)
    with assms MkStmt show ?thesis by (cases imp) auto
  next
    case (STypeAlias ta)
    with assms MkStmt show ?thesis by (cases ta) auto
  next
    case (SFn fd)
    with assms MkStmt show ?thesis by (cases fd) auto
  next
    case (SDecorated es s)
    with assms MkStmt show ?thesis by (cases es) auto
  qed (use assms MkStmt in auto)
qed

lemma read_newline_skipped:
  assumes "ahead p = TNewline # k # ks" "k \<noteq> TNewline"
    and "\<And>q. frame p q \<Longrightarrow> ahead q = k # ks \<Longrightarrow> Q () q"
  shows "wp never skip_newlines Q p"
proof -
  obtain t t' ts where t: "drop (ppos p) (toks p) = t # t' # ts" "kind t = TNewline" "kind t' = k"
    using assms(1) by (auto simp: ahead_def map_eq_Cons_conv)
  then have n: "newlines_ahead p = 1" using assms(2) by (simp add: newlines_ahead_def)
  let ?q = "p\<lparr>ppos := ppos p + 1\<rparr>"
  have q: "ahead ?q = k # ks"
    using assms(1) ahead_Cons(2) [OF assms(1)] by (simp add: ahead_def Cons_nth_drop_Suc [symmetric])
  then have "Suc (ppos p) < length (toks p)" using ahead_Cons(2) [OF q] by simp
  moreover have "Q () ?q" by (rule assms(3) [OF _ q]) (simp add: frame_def)
  ultimately show ?thesis
    using assms(1) n by (simp add: wp_def skip_newlines_def)
qed

context stmt_reads begin

lemma looped_items_module:
  assumes "ahead p = concat (map stmt_tokens ss) @ [TEof]" "list_all plain_stmt ss"
    "3 * length (concat (map stmt_tokens ss)) + 2 \<le> w"
    "depth p + 1 + max_list (map stmt_levels ss) \<le> max_parser_depth"
    and "\<And>as q. frame p q \<Longrightarrow> ahead q = [TEof] \<Longrightarrow> map bare_stmt as = map bare_stmt as0 @ ss \<Longrightarrow> Q as q"
  shows "looped (\<lambda>items. look (at TEof) (\<lambda>stop. if stop then break_with items
      else pseq skip_newlines (look (at TEof) (\<lambda>stop. if stop then break_with items
        else pbind (e_stmt E) (\<lambda>s. again (items @ [s])))))) as0 Q p"
  using assms
proof (induction ss arbitrary: p as0)
  case Nil
  then show ?case by (intro looped_step) (auto simp: wp_simps)
next
  case (Cons s ss)
  let ?more = "concat (map stmt_tokens ss) @ [TEof]"
  obtain k ks where k: "stmt_tokens s = k # ks" "starts_stmt k"
    using Cons.prems(2) stmt_start [of s] by auto
  have more: "after_stmt (hd ?more)"
    using Cons.prems(2) stmt_start starts_stmtD
    by (cases ss) (fastforce simp: after_stmt_def)+
  have "wp never (e_stmt E) (\<lambda>s'. wp never (again (as0 @ [s'])) (\<lambda>r q. case r of
      Inl a' \<Rightarrow> length (ahead q) < length (ahead p) \<and> looped (\<lambda>items. look (at TEof) (\<lambda>stop.
        if stop then break_with items
        else pseq skip_newlines (look (at TEof) (\<lambda>stop. if stop then break_with items
          else pbind (e_stmt E) (\<lambda>s. again (items @ [s])))))) a' Q q
    | Inr b \<Rightarrow> Q b q)) p"
    by (rule read [OF reads_stmt [of s], where rest = ?more])
      (use Cons.prems k more in \<open>auto simp: wp_simps frame_def intro!: Cons.IH\<close>)
  with Cons.prems(1) k starts_stmtD [OF k(2)] show ?case
    by (intro looped_step) (simp add: wp_simps read_no_newlines)
qed

lemma read_docstring:
  assumes "ahead p = module_tokens (Module doc ss ())" "plain_module (Module doc ss ())"
    and "\<And>q. frame p q \<Longrightarrow> ahead q = concat (map stmt_tokens ss) @ [TEof] \<Longrightarrow> Q doc q"
  shows "wp never peek_module_docstring Q p"
proof (cases doc)
  case (Some d)
  have "hd (concat (map stmt_tokens ss) @ [TEof]) \<noteq> TNewline"
    using assms(2) stmt_start starts_stmtD by (cases ss) fastforce+
  then obtain k ks where k: "concat (map stmt_tokens ss) @ [TEof] = k # ks" "k \<noteq> TNewline"
    by (cases "concat (map stmt_tokens ss) @ [TEof]") auto
  with Some assms show ?thesis
    by (auto simp: peek_module_docstring_def wp_simps optional_def intro!: read_bump read_newline_skipped intro: frame_trans)
next
  case None
  have "peek_at 1 p \<notin> {TNewline, TEof}" if "peek_kind p = TStr v x" for v x
  proof (cases ss)
    case Nil
    with assms(1) None that show ?thesis by (simp add: optional_def)
  next
    case (Cons s ss')
    with assms(1,2) None that stmt_start [of s] obtain js where js: "stmt_tokens s = TStr v x # js"
      "plain_stmt s" "\<not> is_docstring s" by (auto simp: optional_def)
    with docstring_tokens [OF js(2,1,3)] assms(1) None Cons show ?thesis by (auto simp: optional_def)
  qed
  with None assms show ?thesis
    by (auto simp: peek_module_docstring_def wp_simps optional_def split: token_kind.split)
qed

lemma read_module:
  assumes "ahead p = module_tokens m" "plain_module m" "3 * length (module_tokens m) \<le> w + 1"
    "depth p + 1 + module_levels m \<le> max_parser_depth"
  shows "wp never (parse_module E) (\<lambda>m' q. bare_module m' = m) p"
proof -
  obtain doc ss where m: "m = Module doc ss ()" by (cases m) auto
  have "peek_kind p \<noteq> TNewline"
  proof (cases doc)
    case None
    with m assms(1,2) stmt_start starts_stmtD show ?thesis
      by (cases ss) (fastforce simp: optional_def)+
  qed (use m assms(1) in \<open>simp add: optional_def\<close>)
  moreover have "wp never peek_module_docstring (\<lambda>doc'. wp never (loop (\<lambda>items. look (at TEof) (\<lambda>stop.
      if stop then break_with items
      else pseq skip_newlines (look (at TEof) (\<lambda>stop. if stop then break_with items
        else pbind (e_stmt E) (\<lambda>s. again (items @ [s])))))) [])
      (\<lambda>items q. doc' = doc \<and> map bare_stmt items = ss)) p"
  proof (rule read_docstring [of p doc ss])
    fix q assume q: "frame p q" "ahead q = concat (map stmt_tokens ss) @ [TEof]"
    show "wp never (loop (\<lambda>items. look (at TEof) (\<lambda>stop. if stop then break_with items
      else pseq skip_newlines (look (at TEof) (\<lambda>stop. if stop then break_with items
        else pbind (e_stmt E) (\<lambda>s. again (items @ [s])))))) [])
      (\<lambda>items q. doc = doc \<and> map bare_stmt items = ss) q"
      by (rule read_loop, rule looped_items_module [OF q(2)])
        (use assms m frame_depth [OF q(1)] in auto)
  qed (use assms m in simp_all)
  ultimately show ?thesis
    unfolding parse_module_def
    by (auto simp: wp_simps read_no_newlines m elim!: wp_mono)
qed

end

lemma parse_reads:
  assumes "map kind ts = module_tokens m" "plain_module m" "module_levels m < max_parser_depth"
    "3 * length ts \<le> n + 1"
  shows "\<exists>m'. parse h n ts = Some (Inr m') \<and> bare_module m' = m"
proof -
  have "ts \<noteq> []" using assms(1) by (cases m) auto
  have "length ts = length (module_tokens m)" using assms(1) by (metis length_map)
  then have "wp never (parse_module (entries h n)) (\<lambda>m' q. bare_module m' = m) (parser_new ts)"
    using assms by (intro entry_stmts.read_module) (simp_all add: ahead_def parser_new_def)
  with \<open>ts \<noteq> []\<close> show ?thesis
    by (auto simp: parse_def wp_def bind_o_def split: option.split_asm sum.split_asm parse_fault.split_asm)
qed

text \<open>C9. 
  The parser is a left inverse of the writer on tokens: from the tokens of a plain module it
  returns that module up to spans, whatever spans the tokens have, if the module nests within
  the depth limit. The fuel needed is linear in the number of tokens.
\<close>

theorem parse_written_tokens:
  assumes "map kind ts = module_tokens m" "plain_module m" "module_levels m < max_parser_depth"
    "3 * length ts \<le> n + 1"
  shows "\<exists>m'. parse h n ts = Some (Inr m') \<and> bare_module m' = m"
  using assms by (rule parse_reads)

text \<open>A function that calls itself on a smaller argument, with a docstring before it.\<close>

definition demo_name :: "string \<Rightarrow> unit expr" where
  "demo_name n = MkExpr (EName n) ()"

definition demo_int :: "string \<Rightarrow> unit expr" where
  "demo_int n = MkExpr (ELiteral (LitInt n)) ()"

definition demo_binary :: "bin_op \<Rightarrow> unit expr \<Rightarrow> unit expr \<Rightarrow> unit expr" where
  "demo_binary op a b = MkExpr (EBinary op a b) ()"

definition demo_return :: "unit expr \<Rightarrow> unit block" where
  "demo_return e = Block [MkStmt (SReturn (Some e)) ()] ()"

definition demo_module :: "unit module" where
  "demo_module =
     Module (Some ''factorial'')
       [MkStmt (SFn (FnDef ''fact''
          (Params [Param ''n'' (Some (MkType (TyName [''i64'']) ())) None ()] None [] None)
          (Some (MkType (TyName [''i64'']) ()))
          (Block
            [MkStmt (SIf (demo_binary OpLtEq (demo_name ''n'') (demo_int ''1''))
              (demo_return (demo_int ''1'')) []
              (Some (demo_return (demo_binary Mul (demo_name ''n'')
                (MkExpr (ECall (demo_name ''fact'')
                  [Positional (demo_binary Sub (demo_name ''n'') (demo_int ''1''))]) ()))))) ()] ()))) ()]
       ()"

lemmas demo_defs = demo_module_def demo_return_def demo_binary_def demo_int_def demo_name_def

lemma demo_plain: "plain_module demo_module" "module_levels demo_module = 7"
  by (simp_all add: demo_defs opens_stmt_def plain_params_def option_levels_def)

theorem parse_written_tokens_witness:
  "\<exists>m'. parse ascii_host 200 (map (\<lambda>k. token_new k (span_point 0 0)) (module_tokens demo_module)) =
     Some (Inr m') \<and> bare_module m' = demo_module"
proof -
  have "map kind (map (\<lambda>k. token_new k (span_point 0 0)) (module_tokens demo_module)) =
      module_tokens demo_module"
    by (simp add: token_new_def comp_def)
  moreover have "length (module_tokens demo_module) \<le> 60" by code_simp
  ultimately show ?thesis
    using demo_plain by (intro parse_written_tokens) (simp_all add: max_parser_depth_def)
qed

end
