(* ===== verification/Unparse_Lays.thy ===== *)
theory Unparse_Lays
  imports Unparse_Spells Parser_Reads_Module
begin

text \<open>
  That the lexer reads the text of written statements and modules as the tokens that specify
  them, layout tokens included.
\<close>

section \<open>Closed brackets\<close>

definition quiet :: "token_kind \<Rightarrow> bool" where
  "quiet k \<longleftrightarrow> k \<notin> {TOp LParen, TOp LBracket, TOp LBrace, TOp RParen, TOp RBracket, TOp RBrace}"

lemma balanced_Cons [simp]: "quiet k \<Longrightarrow> balanced (k # ks) \<longleftrightarrow> balanced ks"
  by (simp add: balanced_def depth_after_def quiet_def bracket_effect_def)

lemma quiet_simps [simp]:
  "quiet (TIdent n)" "quiet (TKw w)" "quiet (TInt n)" "quiet (literal_token v)" "quiet (name_token n)"
  "quiet (binop_token op)" "quiet (unaryop_token uop)" "quiet (assign_token aop)"
  "quiet (TOp Comma)" "quiet (TOp Colon)" "quiet (TOp Dot)" "quiet (TOp Arrow)" "quiet (TOp Pipe)"
  "quiet (TOp Semicolon)" "quiet (TOp Amp)" "quiet (TOp Eq)" "quiet (TOp Star)" "quiet (TOp StarStar)"
  "quiet (TOp At)"
  by (auto simp: quiet_def name_token_def binop_token_def unaryop_token_def assign_token_def
      split: bin_op.split unary_op.split assign_op.split literal.split; cases v; simp)+

lemma balanced_enclosed:
  assumes "balanced ks" "(open_op, close_op) \<in> {(LParen, RParen), (LBracket, RBracket), (LBrace, RBrace)}"
  shows "balanced (enclosed open_op ks close_op)"
  using assms by (auto simp: balanced_def depth_after_def enclosed_def bracket_effect_def)

lemma balanced_around:
  assumes "balanced ks" "balanced ks'"
    "(open_op, close_op) \<in> {(LParen, RParen), (LBracket, RBracket), (LBrace, RBrace)}"
  shows "balanced (TOp open_op # ks @ TOp close_op # ks')"
  using balanced_append [OF balanced_enclosed [OF assms(1,3)] assms(2)] by (simp add: enclosed_def)

lemma balanced_join [intro!]:
  "(\<And>x. x \<in> set xs \<Longrightarrow> balanced (f x)) \<Longrightarrow> balanced sep \<Longrightarrow> balanced (join_with sep (map f xs))"
proof (induction xs)
  case (Cons x xs)
  then show ?case by (cases xs) auto
qed simp

lemma balanced_commas [intro!]: "(\<And>x. x \<in> set xs \<Longrightarrow> balanced (f x)) \<Longrightarrow> balanced (commas (map f xs))"
  unfolding commas_def by (rule balanced_join) simp_all

lemma balanced_optional [intro!]:
  "balanced sep \<Longrightarrow> (\<And>x. k = Some x \<Longrightarrow> balanced (f x)) \<Longrightarrow> balanced (optional sep (map_option f k))"
  by (auto simp: optional_def split: option.split)

lemma balanced_dotted [simp]: "balanced (dotted path)"
  unfolding dotted_def by auto

lemma balanced_type [simp]:
  "balanced (type_tokens (t :: 's type_ann))" "balanced (type_kind_tokens (k :: 's type_kind))"
proof (induction t and k rule: type_ann.induct type_kind.induct)
  case (TyTuple parts)
  then have "balanced (commas (map type_tokens parts) @ (if length parts = 1 then [TOp Comma] else []))"
    by auto
  from balanced_enclosed [OF this, of LParen RParen] show ?case by (simp add: enclosed_def)
next
  case (TyArray elem len)
  then have "balanced (type_tokens elem @ [TOp Semicolon, TInt (dec_digits len)])" by auto
  from balanced_enclosed [OF this, of LBracket RBracket] show ?case by (simp add: enclosed_def)
qed (auto intro!: balanced_around balanced_append)

lemma balanced_index:
  "(\<And>x. x \<in> set_index_kind i \<Longrightarrow> balanced (f x)) \<Longrightarrow> balanced (index_tokens (map_index_kind f i))"
proof (induction i)
  case (IndexTuple "is")
  have "balanced (index_tokens (map_index_kind f i))" if "i \<in> set is" for i
    using IndexTuple.IH [OF that] IndexTuple.prems that by auto
  then show ?case by (auto simp: comp_def)
qed (auto intro!: balanced_append)

lemma balanced_collection:
  assumes "\<And>x. x \<in> set_collection_lit c \<Longrightarrow> balanced (f x)"
  shows "balanced (collection_tokens (map_collection_lit f c))"
proof (cases c)
  case (CDict es)
  have "balanced (dict_entry_tokens (map_dict_entry f e))" if "e \<in> set es" for e
    using assms that CDict by (cases e) force+
  with CDict show ?thesis by (auto intro!: balanced_enclosed)
qed (use assms in \<open>auto intro!: balanced_enclosed balanced_append\<close>)

lemma balanced_arg:
  "(\<And>x. x \<in> set_call_arg a \<Longrightarrow> balanced (f x)) \<Longrightarrow> balanced (call_arg_tokens (map_call_arg f a))"
  by (cases a) auto

lemma balanced_expr [simp]:
  fixes e :: "'s expr" and k :: "'s expr_kind" and p :: "'s pattern" and q :: "'s pattern_kind"
  shows "balanced (expr_tokens e)" "balanced (expr_kind_tokens k)" "p = p" "q = q"
proof (induction e and k and p and q
    rule: expr.induct expr_kind.induct pattern.induct pattern_kind.induct)
  case (ECall callee args)
  then show ?case by (auto intro!: balanced_append balanced_enclosed balanced_arg)
qed (auto intro!: balanced_append balanced_enclosed balanced_collection balanced_index)

lemma balanced_params [simp]: "balanced (params_tokens ps)"
proof -
  have param: "balanced (param_tokens p)" for p :: "'a param"
    by (cases p) (auto intro!: balanced_append)
  have "balanced (item_tokens i)" for i :: "'a param_item"
    by (cases i) (auto simp: param split: option.split)
  then show ?thesis by (auto simp: params_tokens_def)
qed

lemma balanced_pattern [simp]: "balanced (pattern_tokens p)"
proof (cases p)
  case (MkPattern k s)
  then show ?thesis by (cases k) simp_all
qed

lemma balanced_import [simp]: "balanced (import_tokens i)"
proof -
  have "balanced (import_target_tokens t)" for t
    by (cases t) (auto simp: word_tokens_def)
  then show ?thesis by (cases i) (auto simp: word_tokens_def intro!: balanced_append)
qed

lemma balanced_alias [simp]: "balanced (alias_tokens a)"
  by (cases a) (auto intro!: balanced_append balanced_enclosed)

section \<open>Heads of statements\<close>

primrec param_text :: "'s param \<Rightarrow> bool" where
  "param_text (Param n annot dflt s) =
     (name_text n \<and> pred_option (\<lambda>t. type_text t \<and> plain_type t) annot \<and> pred_option literal_text dflt)"

primrec item_text :: "'s param_item \<Rightarrow> bool" where
  "item_text (RegularItem p) = param_text p"
| "item_text (StarItem p) = pred_option param_text p"
| "item_text (DoubleStarItem p) = param_text p"

primrec write_item :: "(string \<Rightarrow> string) \<Rightarrow> 's param_item \<Rightarrow> string" where
  "write_item d (RegularItem p) = write_param d p"
| "write_item d (StarItem p) = ''*'' @ (case p of None \<Rightarrow> [] | Some q \<Rightarrow> write_param d q)"
| "write_item d (DoubleStarItem p) = ''**'' @ write_param d p"

lemma write_params_items: "write_params d ps = comma_list (map (write_item d) (param_items ps))"
  by (cases ps) (auto simp: comp_def split: option.split)

primrec target_text :: "import_target \<Rightarrow> bool" where
  "target_text (ImportTarget n renamed) = (name_text n \<and> pred_option name_text renamed)"

primrec import_text :: "import_stmt \<Rightarrow> bool" where
  "import_text (Import path renamed) = (list_all name_text path \<and> pred_option name_text renamed)"
| "import_text (From path targets) = (list_all name_text path \<and> list_all target_text targets)"

primrec alias_text :: "'s alias_def \<Rightarrow> bool" where
  "alias_text (TypeAlias n ps t) = (name_text n \<and> list_all name_text ps \<and> type_text t)"

primrec pattern_text :: "'s pattern \<Rightarrow> bool"
  and pattern_kind_text :: "'s pattern_kind \<Rightarrow> bool" where
  "pattern_text (MkPattern k s) = pattern_kind_text k"
| "pattern_kind_text (PBinding n) = ident_text n"
| "pattern_kind_text PWildcard = False"
| "pattern_kind_text (PLiteral v) = False"
| "pattern_kind_text (PSequence ps r) = False"
| "pattern_kind_text (PMapping ps r) = False"
| "pattern_kind_text (PClass n ps ks) = False"
| "pattern_kind_text (POr ps) = False"

context host_text begin

lemma spells_prefixed [spelling]:
  "(k = None \<Longrightarrow> spells u r s ks) \<Longrightarrow>
   (\<And>x. k = Some x \<Longrightarrow> spells u r (sep @ f x @ s) (sep_tokens @ g x @ ks)) \<Longrightarrow>
     spells u r (prefixed sep (map_option f k) @ s) (optional sep_tokens (map_option g k) @ ks)"
  "(k = None \<Longrightarrow> spells u r [] []) \<Longrightarrow>
   (\<And>x. k = Some x \<Longrightarrow> spells u r (sep @ f x) (sep_tokens @ g x)) \<Longrightarrow>
     spells u r (prefixed sep (map_option f k)) (optional sep_tokens (map_option g k))"
  by (cases k; simp add: prefixed_def optional_def)+

lemma ends_prefixed [simp]:
  "ends s \<Longrightarrow> c \<in> set '' :'' \<Longrightarrow> ends (prefixed (c # sep) k @ s)"
  by (cases k) (auto simp: prefixed_def)

lemma spells_param:
  assumes "param_text p" "closes r"
  shows "spells u r (write_param d p) (param_tokens p)" "starts (write_param d p)"
proof -
  obtain n annot dflt s where p: "p = Param n annot dflt s" by (cases p)
  have "spells u r (prefixed '' = '' (map_option (write_literal d) dflt))
      (optional [TOp Eq] (map_option (\<lambda>v. [literal_token v]) dflt))"
    using assms p by (auto simp: starts_literal intro!: spelling)
  moreover have "ends (prefixed '' = '' (map_option (write_literal d) dflt) @ r)"
    using assms(2) by (cases dflt) (auto simp: prefixed_def)
  ultimately show "spells u r (write_param d p) (param_tokens p)" "starts (write_param d p)"
    using assms p by (auto intro!: spelling spells_type)
qed

lemma spells_item:
  assumes "item_text i" "closes r"
  shows "spells u r (write_item d i) (item_tokens i)"
  using assms by (cases i) (auto simp: spells_param split: option.split intro!: spelling)

lemma spells_params [spelling]:
  assumes "list_all item_text (param_items ps)" "closes r"
  shows "spells u r (write_params d ps) (params_tokens ps)"
  unfolding write_params_items params_tokens_def
  using assms by (intro spells_commas spells_item) (auto simp: list_all_iff)

lemma spells_import:
  assumes "import_text i" "plain_import i" "closes r"
  shows "spells u r (write_import i) (import_tokens i)"
proof -
  have words: "spells u r' (prefixed '' as '' renamed) (optional [TKw KwAs] (word_tokens renamed))"
    if "pred_option name_text renamed" "closes r'" for renamed r'
    using that by (cases renamed) (auto simp: prefixed_def optional_def word_tokens_def intro!: spelling)
  moreover have "spells u r' (write_import_target t) (import_target_tokens t)"
    if "target_text t" "closes r'" for t r'
    using that words by (cases t) (auto intro!: spelling)
  ultimately show ?thesis
    using assms by (cases i) (auto simp: list_all_iff intro!: spelling spells_dotted)
qed

lemma spells_alias:
  assumes "alias_text a" "plain_alias a" "closes r"
  shows "spells u r (write_type_alias a) (alias_tokens a)"
proof -
  have "spells u r' (comma_list (map (\<lambda>n. n) ps)) (commas (map (\<lambda>p. [name_token p]) ps))"
    if "list_all name_text ps" "closes r'" for ps r'
    using that by (intro spells_commas) (auto simp: list_all_iff intro: spells_name(2))
  with assms show ?thesis
    by (cases a) (auto simp: enclosed_def starts_type intro!: spelling spells_type)
qed

lemma spells_assign [spelling]:
  assumes "spells u r s ks"
  shows "spells u r (assign_op_str op @ s) (assign_token op # ks)"
proof -
  obtain k where k: "assign_token op = TOp k" by (simp add: assign_token_def)
  then have "assign_op_str op = CHR '' '' # op_text k @ [CHR '' '']" "k \<notin> {Dot, DotDotDot}"
    by (cases op; auto simp: assign_token_def assign_op_str_def op_text_def)+
  with k spells_operator [of k u r s ks] assms show ?thesis
    by (auto intro!: spells.space intro: spells_operator)
qed

lemma ends_assign [simp]: "ends (assign_op_str op @ s)"
  by (cases op) (simp_all add: assign_op_str_def)

lemma spells_pattern [spelling]:
  "pattern_text p \<Longrightarrow> ends r \<Longrightarrow> spells u r (write_pattern d p) (pattern_tokens p)"
proof (cases p)
  case (MkPattern k s)
  then show "pattern_text p \<Longrightarrow> ends r \<Longrightarrow> ?thesis" by (cases k) (auto intro!: spelling)
qed

end

end
