(* ===== verification/Unparse_Reads.thy ===== *)
theory Unparse_Reads
  imports Unparse_Lays
begin

text \<open>
  Written statements and modules: the lexer reads their tokens, layout tokens included, and the
  frontend reads the module back.
\<close>

section \<open>Texts of statements\<close>

primrec fn_text :: "('s, bool) fn_def \<Rightarrow> bool" where
  "fn_text (FnDef n ps ret body) =
     (name_text n \<and> list_all item_text (param_items ps) \<and> pred_option type_text ret \<and> body)"

primrec block_text :: "'s block \<Rightarrow> bool"
  and stmt_text :: "'s stmt \<Rightarrow> bool"
  and stmt_kind_text :: "'s stmt_kind \<Rightarrow> bool" where
  "block_text (Block ss s) = list_all stmt_text ss"
| "stmt_text (MkStmt k s) = stmt_kind_text k"
| "stmt_kind_text SPass = True"
| "stmt_kind_text (SBreakContinue k) = True"
| "stmt_kind_text (SReturn e) = pred_option expr_text e"
| "stmt_kind_text (SRaise exc cause) = (pred_option expr_text exc \<and> pred_option expr_text cause)"
| "stmt_kind_text (SExpr e) = expr_text e"
| "stmt_kind_text (SAssign target op v) = (expr_text target \<and> expr_text v)"
| "stmt_kind_text (SLet target annot v) =
     (pattern_text target \<and> pred_option type_text annot \<and> expr_text v)"
| "stmt_kind_text (SIf cond b elifs els) =
     (expr_text cond \<and> block_text b \<and>
      list_all (\<lambda>(c, b). expr_text c \<and> b) (map (map_prod id block_text) elifs) \<and>
      pred_option id (map_option block_text els))"
| "stmt_kind_text (SWhile cond body els) =
     (expr_text cond \<and> block_text body \<and> pred_option id (map_option block_text els))"
| "stmt_kind_text (SFor target iter body els) =
     (pattern_text target \<and> expr_text iter \<and> block_text body \<and>
      pred_option id (map_option block_text els))"
| "stmt_kind_text (SImport imp) = import_text imp"
| "stmt_kind_text (SFn fd) = fn_text (map_fn_def id block_text fd)"
| "stmt_kind_text (STypeAlias ta) = alias_text ta"
| "stmt_kind_text (SDecorated es inner) = (list_all expr_text es \<and> stmt_text inner)"
| "stmt_kind_text (SClass cd) = False"
| "stmt_kind_text (SMatch e arms) = False"
| "stmt_kind_text (SWith ws b) = False"
| "stmt_kind_text (STry b hs e f) = False"

primrec module_text :: "'s module \<Rightarrow> bool" where
  "module_text (Module doc ss s) = (pred_option (list_all plain_char) doc \<and> list_all stmt_text ss)"

section \<open>Statements\<close>

text \<open>The text of a block, for the level of its head.\<close>

definition block_lays :: "unicode \<Rightarrow> (nat \<Rightarrow> string) \<Rightarrow> kinds \<Rightarrow> bool" where
  "block_lays u b ks \<longleftrightarrow>
     (\<exists>kb. ks = TNewline # TIndent # kb @ [TDedent] \<and> (\<forall>n. lays u (Suc n) (b n) kb))"

lemma lays_head:
  assumes "line_spells u w kw" "block_lays u b ks"
  shows "lays u n (line n w @ b n) (kw @ ks)"
  using assms lays_block [OF assms(1)] by (auto simp: block_lays_def)

lemma line_spellsI:
  assumes "starts w \<or> w \<noteq> [] \<and> hd w = CHR ''@''" "ks \<noteq> []" "balanced ks" "\<And>r. spells u (CHR 0x0A # r) w ks"
  shows "line_spells u w ks"
  using assms starts_line [of w] by (auto simp: line_spells_def)

context host_text begin

lemma letters: "list_all word_char ''abcdefghijklmnopqrstuvwxyz''"
  by code_simp

lemmas letter [simp] = letters [simplified]

lemma keyword_line:
  assumes "match_keyword w = Some (TKw k)"
  shows "line_spells u w [TKw k]"
proof (rule line_spellsI)
  have "word_text w" using keyword_words [OF assms] by simp
  then show "starts w \<or> w \<noteq> [] \<and> hd w = CHR ''@''" by (cases w) (auto simp: word_text_def)
  fix r show "spells u (CHR 0x0A # r) w [TKw k]"
    using spells_kw [OF assms, of "[]" "CHR 0x0A # r" "[]"] by (simp add: spells.nothing)
qed simp_all

lemma clause_trails:
  assumes "\<And>b. els = Some b \<Longrightarrow> block_lays u (f b) (g b)"
  shows "trails u n (write_clause_block ''else:'' n (map_option f els)) (else_tokens (map_option g els))"
proof (cases els)
  case (Some b)
  have "line_spells u ''else:'' [TKw KwElse, TOp Colon]"
    by (rule line_spellsI) (auto intro!: spelling)
  from lays_head [OF this assms [OF Some], of n] Some show ?thesis
    by (auto simp: write_clause_block_def else_tokens_def optional_def intro: lays_trails)
qed (simp add: write_clause_block_def else_tokens_def optional_def)

lemma elifs_trail:
  assumes "\<And>c b. (c, b) \<in> set elifs \<Longrightarrow> expr_text c \<and> plain_expr c \<and> block_lays u (f b) (g b)"
  shows "trails u n
    (concat (map (\<lambda>(c, b). line n (''elif '' @ write_expr d c @ '':'') @ b n) (map (map_prod id f) elifs)))
    (concat (map (\<lambda>(c, b). TKw KwElif # expr_tokens c @ TOp Colon # b) (map (map_prod id g) elifs)))"
proof -
  have "trails u n (line n (''elif '' @ write_expr d c @ '':'') @ f b n)
      (TKw KwElif # expr_tokens c @ TOp Colon # g b)" if "(c, b) \<in> set elifs" for c b
  proof -
    have "line_spells u (''elif '' @ write_expr d c @ '':'') (TKw KwElif # expr_tokens c @ [TOp Colon])"
      using assms [OF that] by (intro line_spellsI) (auto intro!: spelling spells_expr(1) balanced_append)
    from lays_trails [OF lays_head [OF this]] assms [OF that] show ?thesis by simp
  qed
  then show ?thesis by (auto simp: comp_def case_prod_unfold intro!: trails_concat)
qed

text \<open>Lines of one statement.\<close>

lemma return_line:
  assumes "pred_option expr_text e" "pred_option plain_expr e"
  shows "line_spells u (''return'' @ prefixed '' '' (map_option (write_expr d) e))
    (TKw KwReturn # optional [] (map_option expr_tokens e))"
  using assms by (intro line_spellsI) (auto intro!: spelling spells_expr(1))

lemma raise_line:
  assumes "pred_option expr_text e" "pred_option plain_expr e" "pred_option expr_text c" "pred_option plain_expr c"
  shows "line_spells u
    (''raise'' @ prefixed '' '' (map_option (write_expr d) e) @ prefixed '' from '' (map_option (write_expr d) c))
    (TKw KwRaise # optional [] (map_option expr_tokens e) @ optional [TKw KwFrom] (map_option expr_tokens c))"
  using assms by (intro line_spellsI) (auto intro!: spelling spells_expr(1) balanced_append)

lemma expr_line:
  assumes "expr_text e" "plain_expr e"
  shows "line_spells u (write_expr d e) (expr_tokens e)"
  using assms starts_expr [of e] by (intro line_spellsI) (auto intro!: spells_expr(1))

lemma assign_line:
  assumes "expr_text e" "plain_expr e" "expr_text v" "plain_expr v"
  shows "line_spells u (write_expr d e @ assign_op_str op @ write_expr d v)
    (expr_tokens e @ assign_token op # expr_tokens v)"
  using assms starts_expr [of e] by (intro line_spellsI) (auto intro!: spelling spells_expr(1) balanced_append)

lemma let_line:
  assumes "pattern_text p" "pred_option type_text t" "pred_option plain_type t" "expr_text v" "plain_expr v"
  shows "line_spells u (''let '' @ write_pattern d p @ prefixed '': '' (map_option write_type t) @ '' = '' @ write_expr d v)
    (TKw KwLet # pattern_tokens p @ optional [TOp Colon] (map_option type_tokens t) @ TOp Eq # expr_tokens v)"
  using assms starts_expr [of v]
  by (intro line_spellsI) (auto intro!: spelling spells_expr(1) spells_type(1) balanced_append)

lemma cond_line:
  assumes "(w, k) \<in> {(''if'', KwIf), (''while'', KwWhile)}" "expr_text e" "plain_expr e"
  shows "line_spells u (w @ '' '' @ write_expr d e @ '':'') (TKw k # expr_tokens e @ [TOp Colon])"
  using assms by (intro line_spellsI) (auto intro!: spelling spells_expr(1) balanced_append)

lemma for_line:
  assumes "pattern_text p" "expr_text e" "plain_expr e"
  shows "line_spells u (''for '' @ write_pattern d p @ '' in '' @ write_expr d e @ '':'')
    (TKw KwFor # pattern_tokens p @ TKw KwIn # expr_tokens e @ [TOp Colon])"
  using assms by (intro line_spellsI) (auto intro!: spelling spells_expr(1) balanced_append)

lemma import_line:
  assumes "import_text i" "plain_import i"
  shows "line_spells u (write_import i) (import_tokens i)"
proof (rule line_spellsI)
  show "starts (write_import i) \<or> write_import i \<noteq> [] \<and> hd (write_import i) = CHR ''@''" by (cases i) simp_all
  show "import_tokens i \<noteq> []" by (cases i) simp_all
qed (use assms in \<open>auto intro: spells_import\<close>)

lemma alias_line:
  assumes "alias_text a" "plain_alias a"
  shows "line_spells u (write_type_alias a) (alias_tokens a)"
proof (rule line_spellsI)
  show "starts (write_type_alias a) \<or> write_type_alias a \<noteq> [] \<and> hd (write_type_alias a) = CHR ''@''"
    by (cases a) simp_all
  show "alias_tokens a \<noteq> []" by (cases a) simp_all
qed (use assms in \<open>auto intro: spells_alias\<close>)

lemma fn_line:
  assumes "name_text n" "list_all item_text (param_items ps)" "pred_option type_text ret" "pred_option plain_type ret"
  shows "line_spells u
    (''fn '' @ n @ ''('' @ write_params d ps @ '')'' @ prefixed '' -> '' (map_option write_type ret) @ '':'')
    (TKw KwFn # name_token n # enclosed LParen (params_tokens ps) RParen @
     optional [TOp Arrow] (map_option type_tokens ret) @ [TOp Colon])"
  using assms
  by (intro line_spellsI)
    (auto simp: enclosed_def intro!: spelling spells_type(1) balanced_append balanced_around)

lemma decorator_lays:
  assumes "expr_text e" "plain_expr e"
  shows "lays u n (line n (''@'' @ write_expr d e)) (TOp At # expr_tokens e @ [TNewline])"
proof -
  have "line_spells u (''@'' @ write_expr d e) (TOp At # expr_tokens e)"
    using assms by (intro line_spellsI) (auto intro!: spelling spells_expr(1))
  from lays_line [OF this, of n] show ?thesis by simp
qed

lemma block_laysI:
  assumes "ss \<noteq> []" "\<And>s n. s \<in> set ss \<Longrightarrow> lays u n (write_stmt d s n) (stmt_tokens s)"
  shows "block_lays u (write_block d (Block ss s0)) (block_tokens (Block ss s0))"
  using assms
  by (auto simp: block_lays_def comp_def intro!: lays_concat [where f = "\<lambda>s. write_stmt d s _"])

lemma lays_stmt:
  fixes b :: "'s block" and s :: "'s stmt" and k :: "'s stmt_kind"
  shows "block_text b \<Longrightarrow> plain_block b \<Longrightarrow> block_lays u (write_block d b) (block_tokens b)"
    "stmt_text s \<Longrightarrow> plain_stmt s \<Longrightarrow> lays u n (write_stmt d s n) (stmt_tokens s)"
    "stmt_kind_text k \<Longrightarrow> plain_stmt_kind k \<Longrightarrow> lays u n (write_stmt_kind d k n) (stmt_kind_tokens k)"
proof (induction b and s and k arbitrary: and n and n rule: block.induct stmt.induct stmt_kind.induct)
  case (Block ss s0)
  then show ?case by (intro block_laysI) (auto simp: list_all_iff)
next
  case SPass
  show ?case using lays_line [OF keyword_line, of "''pass''" KwPass n]
    by (simp add: match_keyword_def keyword_table_def)
next
  case (SBreakContinue k)
  show ?case using lays_line [OF keyword_line, of "''break''" KwBreak n]
      lays_line [OF keyword_line, of "''continue''" KwContinue n]
    by (cases k) (simp_all add: match_keyword_def keyword_table_def)
next
  case (SReturn e)
  then show ?case using lays_line [OF return_line, of e n] by simp
next
  case (SRaise e c)
  then show ?case using lays_line [OF raise_line, of e c n] by simp
next
  case (SExpr e)
  then show ?case using lays_line [OF expr_line, of e n] by simp
next
  case (SAssign e op v)
  then show ?case using lays_line [OF assign_line, of e v n op] by simp
next
  case (SLet p t v)
  then show ?case using lays_line [OF let_line, of p t v n] by simp
next
  case (SIf cond b elifs els)
  have "trails u n (write_clause_block ''else:'' n (map_option (write_block d) els))
      (else_tokens (map_option block_tokens els))"
    using SIf by (intro clause_trails) auto
  moreover have "trails u n
      (concat (map (\<lambda>(c, b). line n (''elif '' @ write_expr d c @ '':'') @ b n) (map (map_prod id (write_block d)) elifs)))
      (concat (map (\<lambda>(c, b). TKw KwElif # expr_tokens c @ TOp Colon # b) (map (map_prod id block_tokens) elifs)))"
    using SIf by (intro elifs_trail) (fastforce simp: list_all_iff)
  moreover have "lays u n (line n (''if'' @ '' '' @ write_expr d cond @ '':'') @ write_block d b n)
      ((TKw KwIf # expr_tokens cond @ [TOp Colon]) @ block_tokens b)"
    using SIf by (intro lays_head cond_line) auto
  ultimately show ?case using lays_append trails_append by fastforce
next
  case (SWhile cond body els)
  have "trails u n (write_clause_block ''else:'' n (map_option (write_block d) els))
      (else_tokens (map_option block_tokens els))"
    using SWhile by (intro clause_trails) auto
  moreover have "lays u n (line n (''while'' @ '' '' @ write_expr d cond @ '':'') @ write_block d body n)
      ((TKw KwWhile # expr_tokens cond @ [TOp Colon]) @ block_tokens body)"
    using SWhile by (intro lays_head cond_line) auto
  ultimately show ?case using lays_append by fastforce
next
  case (SFor p e body els)
  have "trails u n (write_clause_block ''else:'' n (map_option (write_block d) els))
      (else_tokens (map_option block_tokens els))"
    using SFor by (intro clause_trails) auto
  moreover have "lays u n (line n (''for '' @ write_pattern d p @ '' in '' @ write_expr d e @ '':'') @ write_block d body n)
      ((TKw KwFor # pattern_tokens p @ TKw KwIn # expr_tokens e @ [TOp Colon]) @ block_tokens body)"
    using SFor by (intro lays_head for_line) auto
  ultimately show ?case using lays_append by fastforce
next
  case (SImport i)
  then show ?case using lays_line [OF import_line, of i n] by simp
next
  case (STypeAlias a)
  then show ?case using lays_line [OF alias_line, of a n] by simp
next
  case (SFn fd)
  obtain nm ps ret body where fd: "fd = FnDef nm ps ret body" by (cases fd)
  then show ?case using SFn lays_head [OF fn_line, of nm ps ret "write_block d body" "block_tokens body" n]
    by (simp add: enclosed_def)
next
  case (SDecorated es inner)
  have "lays u n (concat (map (\<lambda>e. line n (''@'' @ write_expr d e)) es))
      (concat (map (\<lambda>e. TOp At # expr_tokens e @ [TNewline]) es))"
    using SDecorated.prems by (intro lays_concat decorator_lays) (auto simp: list_all_iff)
  with SDecorated show ?case by (auto intro: lays_append lays_trails)
qed simp_all

lemma trails_module:
  assumes "module_text m" "plain_module m"
  shows "\<exists>ks. module_tokens m = ks @ [TEof] \<and> trails u 0 (write_module d m) ks"
proof -
  obtain doc ss s where m: "m = Module doc ss s" by (cases m)
  have body: "trails u 0 (concat (map (\<lambda>s. write_stmt d s 0) ss)) (concat (map stmt_tokens ss))"
    using assms m by (intro trails_concat lays_trails lays_stmt(2)) (auto simp: list_all_iff)
  have docstring: "trails u 0 (line 0 (d t)) [TStr t str_prefix_plain, TNewline]" if "doc = Some t" for t
  proof -
    have "line_spells u (write_literal d v) [literal_token v]" if "literal_text v" for v
      using that starts_literal [OF that] by (intro line_spellsI) (auto intro!: spells_literal(2))
    moreover have "literal_text (LitStr t)" using assms(1) m that by simp
    ultimately have "line_spells u (write_literal d (LitStr t)) [literal_token (LitStr t)]" by blast
    from lays_trails [OF lays_line [OF this, of 0]] show ?thesis by (simp add: str_prefix_plain_def)
  qed
  show ?thesis
  proof (cases doc)
    case (Some t)
    from trails_append [OF docstring [OF Some] body] m Some show ?thesis by (simp add: optional_def)
  qed (use m body in \<open>simp add: optional_def\<close>)
qed

end

section \<open>The frontend reads what the unparser writes\<close>

lemma parse_str_reads:
  assumes "ascii_tables (host_unicode h)" "debug_format d" "module_text m" "plain_module m"
    "module_levels m < max_parser_depth" "3 * length (unparse d m) + 2 \<le> n"
  shows "\<exists>m'. parse_str h n (unparse d m) f = Some (Inr m') \<and> bare_module m' = m"
proof -
  have "host_text (host_unicode h) d" using assms(1,2) by unfold_locales
  from host_text.trails_module [OF this assms(3,4)] obtain ks
    where ks: "module_tokens m = ks @ [TEof]" "trails (host_unicode h) 0 (unparse d m) ks"
    by (auto simp: unparse_def)
  from lex_lines [OF ks(2), of f] obtain ts where ts: "lex (host_unicode h) (unparse d m) f = Inr ts"
    "map kind ts = module_tokens m" "length ts \<le> length (unparse d m) + 1"
    using ks(1) by auto
  from parse_reads [OF ts(2) assms(4,5), of n h] ts(3) assms(6) obtain m'
    where "parse h n ts = Some (Inr m')" "bare_module m' = m" by auto
  with ts(1) show ?thesis by (simp add: parse_str_def)
qed

text \<open>The smallest host meets the hypotheses on the host.\<close>

interpretation ascii_text: host_text ascii_only quoted
  by unfold_locales (simp_all add: ascii_tables_def ascii_only_def debug_format_def)

text \<open>C3. 
  The parser is a left inverse of the unparser: parsing the text written for a plain module
  whose names are identifiers and whose literals are readable gives that module up to spans, if
  it nests within the depth limit. The host provides the Unicode tables, which must agree with
  the standard on ASCII, and the Debug format of strings, which must escape as Rust documents.
\<close>

theorem unparse_round_trip:
  assumes "ascii_tables (host_unicode h)" "debug_format d" "module_text m" "plain_module m"
    "module_levels m < max_parser_depth" "3 * length (unparse d m) + 2 \<le> n"
  shows "\<exists>m'. parse_str h n (unparse d m) f = Some (Inr m') \<and> bare_module m' = m"
  using assms by (rule parse_str_reads)

lemma demo_text: "module_text demo_module"
proof -
  have "number_text ''1'' (TInt ''1'')" by (rule digits_number) (simp_all add: is_ascii_digit_def)
  moreover have "ident_text ''n''" "ident_text ''fact''" "ident_text ''i64''" "list_all plain_char ''factorial''"
    by code_simp+
  ultimately show ?thesis by (simp add: demo_defs name_text_def)
qed

theorem unparse_round_trip_witness:
  "\<exists>m'. parse_str ascii_host 500 (unparse quoted demo_module) 0 = Some (Inr m') \<and>
     bare_module m' = demo_module"
proof -
  have "3 * length (unparse quoted demo_module) + 2 \<le> 500" by code_simp
  then show ?thesis
    using demo_plain demo_text ascii_text.ascii ascii_text.debug
    by (intro unparse_round_trip) (simp_all add: ascii_host_def max_parser_depth_def)
qed

end
